(* ===== verification/Comet_Prelude.thy ===== *)
theory Comet_Prelude
  imports Main "HOL-Library.Word" "HOL-Library.Monad_Syntax"
begin

text \<open>
  Shared vocabulary of the development: the machine integers of the native code, the
  convention for panics, byte buffers and their bits, and the lemmas every component
  uses on them.

  \<^item> \<open>u8\<close>, \<open>u32\<close>, \<open>u64\<close>: Rust's integers as words. A signed integer of the source
    is a word of the same width, read with \<open>sint\<close>. \<open>usize\<close> is \<open>nat\<close>: the code
    uses it for lengths and offsets of buffers that exist in memory.
  \<^item> A function of the source that can panic (a slice index out of range, a failed
    \<open>assert!\<close> or \<open>debug_assert!\<close>, an arithmetic overflow, \<open>unwrap\<close> of nothing)
    or that has a memory-safety precondition returns an \<open>option\<close>: \<open>None\<close> is the
    panic, as in a build with overflow checks and debug assertions. Where a theorem
    gives \<open>Some\<close>, no check fails, so a release build computes the same value.
  \<^item> The native byte order is little endian, as on every platform the project builds
    for (x86-64 and aarch64).
\<close>

unbundle bit_operations_syntax

type_synonym u8 = "8 word"
type_synonym u32 = "32 word"
type_synonym u64 = "64 word"

named_theorems rust_simps "the checked operations of the model"
named_theorems bit_buf_simps "bits of buffers and of words assembled from buffers"

subsection \<open>Checked operations\<close>

text \<open>\<open>debug_assert!\<close> and the other guards.\<close>

definition ensure :: "bool \<Rightarrow> unit option" where
  "ensure b = (if b then Some () else None)"

text \<open>\<open>usize\<close> subtraction panics below zero.\<close>

definition usub :: "nat \<Rightarrow> nat \<Rightarrow> nat option" where
  "usub a b = (if b \<le> a then Some (a - b) else None)"

text \<open>A fallible operation returns \<open>None\<close> for a panic, \<open>Some (Inl e)\<close> for an \<open>Err\<close>. \<open>returns\<close> wraps an
  operation that can only panic, \<open>and_then\<close> is the operator \<open>?\<close> followed by the rest of the body.\<close>

definition returns :: "'a option \<Rightarrow> ('e + 'a) option" where
  "returns r = map_option Inr r"

definition and_then :: "('e + 'a) option \<Rightarrow> ('a \<Rightarrow> ('e + 'b) option) \<Rightarrow> ('e + 'b) option" where
  "and_then r f = (case r of None \<Rightarrow> None | Some (Inl e) \<Rightarrow> Some (Inl e) | Some (Inr x) \<Rightarrow> f x)"

text \<open>Whether an integer is a value of a type of \<open>n\<close> bytes.\<close>

definition fits_int :: "bool \<Rightarrow> nat \<Rightarrow> int \<Rightarrow> bool" where
  "fits_int sgn_ty n v \<longleftrightarrow>
     (if sgn_ty then - (2 ^ (8 * n)) \<le> 2 * v \<and> 2 * v < 2 ^ (8 * n) else 0 \<le> v \<and> v < 2 ^ (8 * n))"

text \<open>Division of Rust truncates.\<close>

definition tdiv :: "int \<Rightarrow> int \<Rightarrow> int" where
  "tdiv a b = (if (0 \<le> a) = (0 \<le> b) then \<bar>a\<bar> div \<bar>b\<bar> else - (\<bar>a\<bar> div \<bar>b\<bar>))"

text \<open>\<open>Vec::resize\<close>.\<close>

definition vec_resize :: "nat \<Rightarrow> 'a \<Rightarrow> 'a list \<Rightarrow> 'a list" where
  "vec_resize n v xs = take n xs @ replicate (n - length xs) v"

text \<open>Slices \<open>&xs[i..]\<close> and \<open>&xs[i..j]\<close>, and element access.\<close>

definition slice_from :: "'a list \<Rightarrow> nat \<Rightarrow> 'a list option" where
  "slice_from xs i = (if i \<le> length xs then Some (drop i xs) else None)"

definition slice_range :: "'a list \<Rightarrow> nat \<Rightarrow> nat \<Rightarrow> 'a list option" where
  "slice_range xs i j = (if i \<le> j \<and> j \<le> length xs then Some (take (j - i) (drop i xs)) else None)"

definition index :: "'a list \<Rightarrow> nat \<Rightarrow> 'a option" where
  "index xs i = (if i < length xs then Some (xs ! i) else None)"

definition update :: "'a list \<Rightarrow> nat \<Rightarrow> 'a \<Rightarrow> 'a list option" where
  "update xs i v = (if i < length xs then Some (xs[i := v]) else None)"

text \<open>Shifts: Rust's \<open><<\<close> and \<open>>>\<close> panic when the amount is the width or more.
  \<open>shl\<close> and \<open>shr\<close> are for amounts known to be in range.\<close>

definition shl :: "'a::len word \<Rightarrow> nat \<Rightarrow> 'a word" where
  "shl x n = push_bit n x"

definition shr :: "'a::len word \<Rightarrow> nat \<Rightarrow> 'a word" where
  "shr x n = drop_bit n x"

definition checked_shl :: "'a::len word \<Rightarrow> nat \<Rightarrow> 'a word option" where
  "checked_shl x n = (if n < LENGTH('a) then Some (shl x n) else None)"

definition checked_shr :: "'a::len word \<Rightarrow> nat \<Rightarrow> 'a word option" where
  "checked_shr x n = (if n < LENGTH('a) then Some (shr x n) else None)"

text \<open>\<open>usize::div_ceil\<close>.\<close>

definition div_ceil :: "nat \<Rightarrow> nat \<Rightarrow> nat" where
  "div_ceil a b = (a + b - 1) div b"

lemma ensure_simps [simp]:
  "ensure True = Some ()" "ensure False = None"
  by (simp_all add: ensure_def)

lemma ensure_bind [simp]: "Option.bind (ensure b) f = (if b then f () else None)"
  by (simp add: ensure_def)

lemma and_then_simps [simp]:
  "and_then None f = None"
  "and_then (Some (Inl e)) f = Some (Inl e)"
  "and_then (Some (Inr x)) f = f x"
  by (simp_all add: and_then_def)

lemma length_vec_resize [simp]: "length (vec_resize n v xs) = n"
  by (simp add: vec_resize_def)

lemma ensure_eq_Some [rust_simps]: "ensure b = Some u \<longleftrightarrow> b"
  by (simp add: ensure_def)

lemma ensure_True_intro: "b \<Longrightarrow> ensure b = Some ()"
  by (simp add: ensure_def)

lemma usub_Some [rust_simps]: "b \<le> a \<Longrightarrow> usub a b = Some (a - b)"
  by (simp add: usub_def)

lemma slice_from_Some [rust_simps]: "i \<le> length xs \<Longrightarrow> slice_from xs i = Some (drop i xs)"
  by (simp add: slice_from_def)

lemma slice_range_Some [rust_simps]:
  "i \<le> j \<Longrightarrow> j \<le> length xs \<Longrightarrow> slice_range xs i j = Some (take (j - i) (drop i xs))"
  by (simp add: slice_range_def)

lemma index_Some [rust_simps]: "i < length xs \<Longrightarrow> index xs i = Some (xs ! i)"
  by (simp add: index_def)

lemma update_Some [rust_simps]: "i < length xs \<Longrightarrow> update xs i v = Some (xs[i := v])"
  by (simp add: update_def)

lemma checked_shl_Some [rust_simps]:
  "n < LENGTH('a) \<Longrightarrow> checked_shl (x :: 'a::len word) n = Some (shl x n)"
  by (simp add: checked_shl_def)

lemma checked_shr_Some [rust_simps]:
  "n < LENGTH('a) \<Longrightarrow> checked_shr (x :: 'a::len word) n = Some (shr x n)"
  by (simp add: checked_shr_def)

lemma bit_shl [bit_simps]:
  "bit (shl (x :: 'a::len word) n) k \<longleftrightarrow> n \<le> k \<and> k < LENGTH('a) \<and> bit x (k - n)"
  by (auto simp: shl_def bit_simps possible_bit_word)

lemma bit_shr [bit_simps]: "bit (shr (x :: 'a::len word) n) k \<longleftrightarrow> bit x (n + k)"
  by (simp add: shr_def bit_simps)

lemma shl_0 [simp]: "shl x 0 = x" and shr_0 [simp]: "shr x 0 = x"
  by (simp_all add: shl_def shr_def)

lemma div_ceil_mult_ge: "0 < b \<Longrightarrow> a \<le> b * div_ceil a b"
proof -
  assume b: "0 < b"
  have "a + b - 1 = b * ((a + b - 1) div b) + (a + b - 1) mod b"
    by simp
  moreover have "(a + b - 1) mod b < b"
    using b by simp
  ultimately show ?thesis
    unfolding div_ceil_def by linarith
qed

lemma div_ceil_8: "div_ceil n 8 = (n + 7) div 8"
  by (simp add: div_ceil_def)

subsection \<open>Bits of a byte buffer\<close>

text \<open>
  \<open>byte_bit bs k\<close> is bit \<open>k\<close> of the buffer in the order Parquet and Arrow use, least
  significant bit of the first byte first. \<open>bits_word f p n\<close> assembles \<open>n\<close> bits of a
  bit stream \<open>f\<close> from position \<open>p\<close> into a word: the meaning of a bit-packed value.
\<close>

definition byte_bit :: "u8 list \<Rightarrow> nat \<Rightarrow> bool" where
  "byte_bit bs k \<longleftrightarrow> k < 8 * length bs \<and> bit (bs ! (k div 8)) (k mod 8)"

definition bits_word :: "(nat \<Rightarrow> bool) \<Rightarrow> nat \<Rightarrow> nat \<Rightarrow> 'a::len word" where
  "bits_word f p n = horner_sum of_bool 2 (map f [p..<p + n])"

lemma bit_bits_word [bit_simps, bit_buf_simps]:
  "bit (bits_word f p n :: 'a::len word) k \<longleftrightarrow> k < n \<and> k < LENGTH('a) \<and> f (p + k)"
  by (auto simp: bits_word_def bit_simps)

lemma bits_word_0 [simp]: "bits_word f p 0 = 0"
  by (simp add: bits_word_def)

lemma bits_word_cong:
  "(\<And>k. k < n \<Longrightarrow> f (p + k) = g (q + k)) \<Longrightarrow> (bits_word f p n :: 'a::len word) = bits_word g q n"
  by (rule bit_word_eqI) (auto simp: bit_simps)

lemma byte_bit_out: "8 * length bs \<le> k \<Longrightarrow> \<not> byte_bit bs k"
  by (simp add: byte_bit_def)

lemma byte_bit_drop [bit_buf_simps]: "byte_bit (drop i bs) k \<longleftrightarrow> byte_bit bs (8 * i + k)"
proof (cases "i \<le> length bs")
  case True
  then show ?thesis by (auto simp: byte_bit_def add.commute)
next
  case False
  then show ?thesis by (simp add: byte_bit_def)
qed

lemma byte_bit_take [bit_buf_simps]: "byte_bit (take i bs) k \<longleftrightarrow> k < 8 * i \<and> byte_bit bs k"
  by (auto simp: byte_bit_def)

lemma byte_bit_append [bit_buf_simps]:
  "byte_bit (as @ bs) k \<longleftrightarrow>
     (if k < 8 * length as then byte_bit as k else byte_bit bs (k - 8 * length as))"
proof (cases "k < 8 * length as")
  case True
  then have "k div 8 < length as" by auto
  with True show ?thesis by (auto simp: byte_bit_def nth_append)
next
  case False
  then obtain j where k: "k = 8 * length as + j"
    using le_Suc_ex by (metis not_less)
  show ?thesis by (auto simp: k byte_bit_def nth_append)
qed

lemma byte_bit_update [bit_buf_simps]:
  "i < length bs \<Longrightarrow>
     byte_bit (bs[i := v]) k \<longleftrightarrow> (if k div 8 = i then bit v (k mod 8) else byte_bit bs k)"
  by (auto simp: byte_bit_def nth_list_update)

lemma byte_bit_nth: "k div 8 < length bs \<Longrightarrow> byte_bit bs k \<longleftrightarrow> bit (bs ! (k div 8)) (k mod 8)"
  by (auto simp: byte_bit_def)

lemma byte_bit_replicate_0 [simp]: "\<not> byte_bit (replicate n 0) k"
  by (auto simp: byte_bit_def)

lemma byte_buffer_eqI:
  assumes "length as = length bs" and "\<And>k. k < 8 * length as \<Longrightarrow> byte_bit as k = byte_bit bs k"
  shows "as = bs"
proof (rule nth_equalityI)
  show "length as = length bs" by fact
  fix i assume i: "i < length as"
  show "as ! i = bs ! i"
  proof (rule bit_word_eqI)
    fix n assume n: "n < LENGTH(8)"
    with i have "8 * i + n < 8 * length as" by simp
    with assms(2) [of "8 * i + n"] assms(1) n i
    show "bit (as ! i) n = bit (bs ! i) n" by (auto simp: byte_bit_def)
  qed
qed

text \<open>Positions in the same byte and in different bytes.\<close>

lemma same_byte:
  fixes k off :: nat
  assumes "k div 8 = off div 8"
  shows "off \<le> k \<longleftrightarrow> off mod 8 \<le> k mod 8" and "k - off = k mod 8 - off mod 8"
    and "\<not> 8 * (off div 8 + 1) \<le> k"
proof -
  obtain q j s where "k = 8 * q + j" and "off = 8 * q + s" and "j < 8" and "s < 8"
    using assms by (metis mod_less_divisor mult_div_mod_eq zero_less_numeral)
  then show "off \<le> k \<longleftrightarrow> off mod 8 \<le> k mod 8" and "k - off = k mod 8 - off mod 8"
    and "\<not> 8 * (off div 8 + 1) \<le> k" by auto
qed

lemma other_byte:
  fixes k off :: nat
  assumes "k div 8 \<noteq> off div 8"
  shows "off \<le> k \<longleftrightarrow> 8 * (off div 8 + 1) \<le> k" 
    and "8 * (off div 8 + 1) \<le> k \<Longrightarrow> 8 - off mod 8 + (k - 8 * (off div 8 + 1)) = k - off"
proof -
  define q where "q = off div 8"
  define s where "s = off mod 8"
  have off: "off = 8 * q + s" "s < 8" by (simp_all add: q_def s_def)
  have "k div 8 = q" if "off \<le> k" and "\<not> 8 * (q + 1) \<le> k"
    using that off by (intro div_nat_eqI) auto
  with assms off show "off \<le> k \<longleftrightarrow> 8 * (off div 8 + 1) \<le> k"
    unfolding q_def [symmetric] by auto
  show "8 * (off div 8 + 1) \<le> k \<Longrightarrow> 8 - off mod 8 + (k - 8 * (off div 8 + 1)) = k - off"
    using off unfolding q_def [symmetric] s_def [symmetric] by (auto dest!: le_Suc_ex)
qed

subsection \<open>Words from bytes and bytes from words\<close>

text \<open>\<open>le_word\<close> is \<open>from_le_bytes\<close> (and \<open>read_unaligned\<close> on a little-endian machine) on
  a run of bytes, missing high bytes read as zero; \<open>le_bytes\<close> is \<open>to_le_bytes\<close>.\<close>

fun le_word :: "u8 list \<Rightarrow> 'a::len word" where
  "le_word [] = 0"
| "le_word (b # bs) = ucast b OR push_bit 8 (le_word bs)"

definition le_bytes :: "'a::len word \<Rightarrow> u8 list" where
  "le_bytes w = map (\<lambda>i. ucast (drop_bit (8 * i) w)) [0..<LENGTH('a) div 8]"

lemma byte_bit_Cons:
  "byte_bit (b # bs) k \<longleftrightarrow> (if k < 8 then bit b k else byte_bit bs (k - 8))"
  using byte_bit_append [of "[b]" bs k] by (auto simp: byte_bit_def)

lemma bit_le_word [bit_simps, bit_buf_simps]:
  "bit (le_word bs :: 'a::len word) k \<longleftrightarrow> k < LENGTH('a) \<and> byte_bit bs k"
proof (induction bs arbitrary: k)
  case Nil
  then show ?case by (simp add: byte_bit_def)
next
  case (Cons b bs)
  show ?case
    by (auto simp: bit_simps possible_bit_word byte_bit_Cons Cons.IH dest: bit_imp_le_length)
qed

lemma length_le_bytes [simp]: "length (le_bytes (w :: 'a::len word)) = LENGTH('a) div 8"
  by (simp add: le_bytes_def)

lemma byte_bit_le_bytes [bit_buf_simps]:
  "8 dvd LENGTH('a) \<Longrightarrow> byte_bit (le_bytes (w :: 'a::len word)) k \<longleftrightarrow> bit w k"
proof (cases "k < LENGTH('a)")
  case True
  assume dvd: "8 dvd LENGTH('a)"
  with True have "k div 8 < LENGTH('a) div 8"
    by (metis div_less_iff_less_mult dvd_div_mult_self zero_less_numeral)
  with True dvd show ?thesis
    by (simp add: byte_bit_def le_bytes_def bit_simps)
next
  case False
  then show "8 dvd LENGTH('a) \<Longrightarrow> byte_bit (le_bytes w) k \<longleftrightarrow> bit w k"
    by (auto simp: byte_bit_def dest: bit_imp_le_length)
qed

lemma le_word_le_bytes: "8 dvd LENGTH('a) \<Longrightarrow> le_word (le_bytes w) = (w :: 'a::len word)"
  by (rule bit_word_eqI) (simp add: bit_simps byte_bit_le_bytes)

lemma le_bytes_le_word:
  assumes "8 dvd LENGTH('a)" and "length bs = LENGTH('a) div 8"
  shows "le_bytes (le_word bs :: 'a::len word) = bs"
  by (rule byte_buffer_eqI) (use assms in \<open>auto simp: byte_bit_le_bytes bit_simps\<close>)

lemma le_word_eq_bits_word:
  "(le_word bs :: 'a::len word) = bits_word (byte_bit bs) 0 LENGTH('a)"
  by (rule bit_word_eqI) (simp add: bit_simps)

lemma bits_word_eqI:
  assumes "n \<le> LENGTH('a)" and "\<And>k. k < n \<Longrightarrow> bit w k = f (p + k)"
    and "\<And>k. n \<le> k \<Longrightarrow> \<not> bit w k"
  shows "(w :: 'a::len word) = bits_word f p n"
proof (rule bit_word_eqI)
  fix k assume "k < LENGTH('a)"
  then show "bit w k = bit (bits_word f p n :: 'a word) k"
    using assms by (cases "k < n") (auto simp: bit_simps)
qed

lemma unat_bits_word_less: "n \<le> LENGTH('a) \<Longrightarrow> unat (bits_word f p n :: 'a::len word) < 2 ^ n"
proof -
  assume n: "n \<le> LENGTH('a)"
  have "take_bit n (bits_word f p n :: 'a word) = bits_word f p n"
    by (rule bit_word_eqI) (auto simp: bit_simps)
  then have "take_bit n (unat (bits_word f p n :: 'a word)) = unat (bits_word f p n :: 'a word)"
    by (metis unsigned_take_bit_eq)
  then show ?thesis
    by (metis take_bit_nat_less_exp)
qed

subsection \<open>Powers of two as words\<close>

lemma unat_exp: "k < LENGTH('a) \<Longrightarrow> unat (2 ^ k :: 'a::len word) = 2 ^ k"
  by (rule bit_eqI) (auto simp: bit_simps)

lemma unat_mask: "k \<le> LENGTH('a) \<Longrightarrow> unat (mask k :: 'a::len word) = 2 ^ k - 1"
proof -
  assume "k \<le> LENGTH('a)"
  then have "unat (mask k :: 'a word) = mask k"
    by (intro bit_eqI) (auto simp: bit_simps)
  then show ?thesis by (simp add: mask_eq_exp_minus_1)
qed

subsection \<open>Runs of values over a list\<close>

text \<open>\<open>overwrite\<close> puts a run of values over a list from an index on: what the copy loops do.\<close>

definition overwrite :: "'a list \<Rightarrow> nat \<Rightarrow> 'a list \<Rightarrow> 'a list" where
  "overwrite xs i vs = take i xs @ vs @ drop (i + length vs) xs"

lemma length_overwrite: "i + length vs \<le> length xs \<Longrightarrow> length (overwrite xs i vs) = length xs"
  by (simp add: overwrite_def)

lemma overwrite_Nil [simp]: "overwrite xs i [] = xs"
  by (simp add: overwrite_def)

lemma overwrite_single: "i < length xs \<Longrightarrow> overwrite xs i [v] = xs[i := v]"
  by (simp add: overwrite_def upd_conv_take_nth_drop)

lemma overwrite_overwrite:
  "i + length us + length vs \<le> length xs \<Longrightarrow>
     overwrite (overwrite xs i us) (i + length us) vs = overwrite xs i (us @ vs)"
  by (simp add: overwrite_def ac_simps)

lemma overwrite_Cons:
  assumes "i + Suc (length vs) \<le> length xs"
  shows "overwrite (xs[i := v]) (Suc i) vs = overwrite xs i (v # vs)"
  using overwrite_overwrite [of i "[v]" vs xs] assms by (simp add: overwrite_single)

lemma take_drop_overwrite_before:
  "k + n \<le> i \<Longrightarrow> i \<le> length xs \<Longrightarrow> take n (drop k (overwrite xs i vs)) = take n (drop k xs)"
  by (simp add: overwrite_def drop_take)

lemma take_drop_overwrite_inside:
  "k + n \<le> length vs \<Longrightarrow> i \<le> length xs \<Longrightarrow>
     take n (drop (i + k) (overwrite xs i vs)) = take n (drop k vs)"
  by (simp add: overwrite_def)

lemma length_concat_blocks: "list_all (\<lambda>x. length x = w) xs \<Longrightarrow> length (concat xs) = length xs * w"
  by (induction xs) auto

lemma take_drop_concat_blocks:
  "list_all (\<lambda>x. length x = w) xs \<Longrightarrow> j < length xs \<Longrightarrow> take w (drop (j * w) (concat xs)) = xs ! j"
proof (induction xs arbitrary: j)
  case (Cons x xs)
  then show ?case by (cases j) auto
qed simp

subsection \<open>Words of small numbers\<close>

lemma unat_of_nat_eq: "k < 2 ^ LENGTH('a) \<Longrightarrow> unat (of_nat k :: 'a::len word) = k"
  by (simp add: unsigned_of_nat take_bit_nat_eq_self)

lemma sint_of_nat:
  assumes "2 * k < 2 ^ LENGTH('a)"
  shows "sint (of_nat k :: 'a::len word) = int k"
proof -
  have "int k < 2 ^ (LENGTH('a) - 1)" using assms by (cases "LENGTH('a)") (simp_all flip: of_nat_less_iff)
  moreover have "- (2 ^ (LENGTH('a) - 1)) \<le> int k" by (rule order_trans [of _ 0]) simp_all
  ultimately have "signed_take_bit (LENGTH('a) - 1) (int k) = int k" by (intro signed_take_bit_int_eq_self)
  then show ?thesis by (simp add: signed_of_nat)
qed

lemma ucast_of_nat: "k < 2 ^ LENGTH('a) \<Longrightarrow> (ucast (of_nat k :: 'a::len word) :: 'b::len word) = of_nat k"
  by (simp add: unsigned_of_nat take_bit_nat_eq_self)

end
