(* ===== verification/Bit_Util.thy ===== *)
theory Bit_Util
  imports Comet_Prelude
begin

text \<open>
  The free functions of \<open>native/core/src/common/bit.rs\<close>: reading integers from byte
  slices, copying bytes, and reading and writing single bits and runs of bits of a
  validity buffer. The lemmas give each function's effect on the bits of the buffer,
  which is what the bit reader, the bit writer and the Parquet decoders rely on.
  \<open>set_bit\<close> and its relatives carry their module's name (\<open>bit::set_bit\<close>) since HOL
  has constants of those names.
\<close>

subsection \<open>Integers from bytes\<close>

text \<open>\<open>from_ne_slice\<close>: the slice \<open>bs[..size]\<close> panics when \<open>bs\<close> is too short.\<close>

definition from_ne_slice :: "u8 list \<Rightarrow> 'a::len word option" where
  "from_ne_slice bs = do {
     s \<leftarrow> slice_range bs 0 (LENGTH('a) div 8);
     Some (le_word s)
   }"

text \<open>\<open>impl FromBytes for bool\<close>.\<close>

definition bool_from_ne_bytes :: "u8 \<Rightarrow> bool option" where
  "bool_from_ne_bytes b = (if b = 0 then Some False else if b = 1 then Some True else None)"

definition bool_from :: "u64 \<Rightarrow> bool" where
  "bool_from v \<longleftrightarrow> v AND 1 = 1"

text \<open>The macro \<open>read_num_bytes!\<close>: copy \<open>size\<close> bytes into a zeroed buffer of the type.\<close>

definition read_num_bytes :: "nat \<Rightarrow> u8 list \<Rightarrow> 'a::len word option" where
  "read_num_bytes sz src = do {
     ensure (sz \<le> length src);
     ensure (sz \<le> LENGTH('a) div 8);
     Some (le_word (take sz src @ replicate (LENGTH('a) div 8 - sz) 0))
   }"

text \<open>\<open>trailing_bits\<close>: the \<open>num_bits\<close> least significant bits.\<close>

definition trailing_bits :: "u64 \<Rightarrow> nat \<Rightarrow> u64" where
  "trailing_bits v num_bits =
     (if num_bits = 0 then 0
      else if num_bits \<ge> 64 then v
      else v AND (shl 1 num_bits - 1))"

text \<open>\<open>read_u64\<close> and \<open>read_u32\<close> read through a raw pointer: the bytes must exist.\<close>

definition read_u64 :: "u8 list \<Rightarrow> u64 option" where
  "read_u64 src = do { ensure (8 \<le> length src); Some (le_word (take 8 src)) }"

definition read_u32 :: "u8 list \<Rightarrow> u32 option" where
  "read_u32 src = do { ensure (4 \<le> length src); Some (le_word (take 4 src)) }"

definition read_num_bytes_u64 :: "nat \<Rightarrow> u8 list \<Rightarrow> u64 option" where
  "read_num_bytes_u64 sz src = do {
     ensure (sz \<le> length src);
     if length src < 8 then read_num_bytes sz src
     else do {
       v \<leftarrow> read_u64 src;
       Some (trailing_bits v (sz * 8))
     }
   }"

definition read_num_bytes_u32 :: "nat \<Rightarrow> u8 list \<Rightarrow> u32 option" where
  "read_num_bytes_u32 sz src = do {
     ensure (sz \<le> length src);
     if length src < 4 then read_num_bytes sz src
     else do {
       v \<leftarrow> read_u32 src;
       Some (ucast (trailing_bits (ucast v) (sz * 8)))
     }
   }"

subsection \<open>Copying bytes\<close>

definition memcpy :: "u8 list \<Rightarrow> u8 list \<Rightarrow> u8 list option" where
  "memcpy source target = do {
     ensure (length target \<ge> length source);
     Some (source @ drop (length source) target)
   }"

text \<open>\<open>memcpy_value\<close>; the first argument is \<open>source.as_bytes()\<close>.\<close>

definition memcpy_value :: "u8 list \<Rightarrow> nat \<Rightarrow> u8 list \<Rightarrow> u8 list option" where
  "memcpy_value source num_bytes target = do {
     ensure (length target \<ge> num_bytes);
     s \<leftarrow> slice_range source 0 num_bytes;
     memcpy s target
   }"

text \<open>Writing through \<open>&mut buffer[offset..]\<close> leaves the bytes before \<open>offset\<close> alone.\<close>

definition memcpy_value_at :: "u8 list \<Rightarrow> nat \<Rightarrow> u8 list \<Rightarrow> nat \<Rightarrow> u8 list option" where
  "memcpy_value_at source num_bytes buffer offset = do {
     target \<leftarrow> slice_from buffer offset;
     written \<leftarrow> memcpy_value source num_bytes target;
     Some (take offset buffer @ written)
   }"

definition memcpy_at :: "u8 list \<Rightarrow> u8 list \<Rightarrow> nat \<Rightarrow> u8 list option" where
  "memcpy_at source buffer offset = do {
     target \<leftarrow> slice_from buffer offset;
     written \<leftarrow> memcpy source target;
     Some (take offset buffer @ written)
   }"

subsection \<open>Single bits and runs of bits\<close>

definition leading_zeros :: "'a::len word \<Rightarrow> nat" where
  "leading_zeros x = length (takeWhile (\<lambda>i. \<not> bit x i) (rev [0..<LENGTH('a)]))"

text \<open>\<open>log2\<close>; \<open>x -= 1\<close> underflows for zero.\<close>

definition log2 :: "u64 \<Rightarrow> nat option" where
  "log2 x =
     (if x = 1 then Some 0
      else do {
        ensure (x \<noteq> 0);
        Some (64 - leading_zeros (x - 1))
      })"

definition bit_set_bit :: "u8 list \<Rightarrow> nat \<Rightarrow> u8 list option" where
  "bit_set_bit bits i = do {
     b \<leftarrow> index bits (i div 8);
     update bits (i div 8) (b OR shl 1 (i mod 8))
   }"

definition bit_set_bit_raw :: "u8 list \<Rightarrow> nat \<Rightarrow> u8 list option" where
  "bit_set_bit_raw bits i = do {
     b \<leftarrow> index bits (i div 8);
     update bits (i div 8) (b OR shl 1 (i mod 8))
   }"

definition bit_unset_bit :: "u8 list \<Rightarrow> nat \<Rightarrow> u8 list option" where
  "bit_unset_bit bits i = do {
     b \<leftarrow> index bits (i div 8);
     update bits (i div 8) (b AND NOT (shl 1 (i mod 8)))
   }"

text \<open>The three parts of \<open>set_bits\<close>: the rest of the first byte, whole bytes, the last byte.\<close>

definition bit_set_bits :: "u8 list \<Rightarrow> nat \<Rightarrow> nat \<Rightarrow> u8 list option" where
  "bit_set_bits bits offset len = do {
     let byte_i = offset div 8;
     let offset_r = offset mod 8;
     let end' = offset + len;
     let end_byte_i = end' div 8;
     let end_r = end' mod 8;
     (bits, byte_i) \<leftarrow>
       (if offset_r \<noteq> 0 then do {
          let num_bits = min len 7;
          b \<leftarrow> index bits byte_i;
          bits \<leftarrow> update bits byte_i (b OR shl (shl 1 num_bits - 1) offset_r);
          Some (bits, byte_i + 1)
        } else Some (bits, byte_i));
     (bits, byte_i) \<leftarrow>
       (if byte_i < end_byte_i then do {
          ensure (end_byte_i \<le> length bits);
          Some (take byte_i bits @ replicate (end_byte_i - byte_i) 255 @ drop end_byte_i bits,
                end_byte_i)
        } else Some (bits, byte_i));
     (if end_r > 0 \<and> byte_i = end_byte_i then do {
        b \<leftarrow> index bits byte_i;
        update bits byte_i (b OR (shl 1 end_r - 1))
      } else Some bits)
   }"

definition mix_hash :: "u64 \<Rightarrow> u64 \<Rightarrow> u64" where
  "mix_hash lower upper = (let hash = (17 * 37) + lower in hash * 37 + upper)"

definition BIT_MASK :: "u8 list" where
  "BIT_MASK = [1, 2, 4, 8, 16, 32, 64, 128]"

definition bit_get_bit :: "u8 list \<Rightarrow> nat \<Rightarrow> bool option" where
  "bit_get_bit data i = do {
     b \<leftarrow> index data (drop_bit 3 i);
     m \<leftarrow> index BIT_MASK (i AND 7);
     Some (b AND m \<noteq> 0)
   }"

definition bit_get_bit_raw :: "u8 list \<Rightarrow> nat \<Rightarrow> bool option" where
  "bit_get_bit_raw ptr i = do {
     b \<leftarrow> index ptr (drop_bit 3 i);
     m \<leftarrow> index BIT_MASK (i AND 7);
     Some (b AND m \<noteq> 0)
   }"

text \<open>\<open>round_upto_power_of_2\<close> on 64-bit \<open>usize\<close>, the addition checked.\<close>

definition round_upto_power_of_2 :: "u64 \<Rightarrow> u64 \<Rightarrow> u64 option" where
  "round_upto_power_of_2 num factor = do {
     ensure (factor > 0 \<and> factor AND (factor - 1) = 0);
     ensure (unat num + unat (factor - 1) < 2 ^ 64);
     Some ((num + (factor - 1)) AND NOT (factor - 1))
   }"

subsection \<open>What the readers return\<close>

lemma trailing_bits_eq: "trailing_bits v n = take_bit n v"
proof (cases "n < 64")
  case True
  have "shl (1 :: u64) n - 1 = mask n"
    by (simp add: shl_def mask_eq_exp_minus_1)
  with True show ?thesis
    by (simp add: trailing_bits_def take_bit_eq_mask)
next
  case False
  then show ?thesis
    by (auto simp: trailing_bits_def intro!: bit_word_eqI simp: bit_simps)
qed

lemma bit_trailing_bits [bit_simps]: "bit (trailing_bits v n) k \<longleftrightarrow> k < n \<and> bit v k"
  by (simp add: trailing_bits_eq bit_simps)

lemma read_u64_eq [rust_simps]:
  "8 \<le> length src \<Longrightarrow> read_u64 src = Some (bits_word (byte_bit src) 0 64)"
  by (auto simp: read_u64_def bit_simps byte_bit_take intro!: bit_word_eqI)

lemma read_u32_eq [rust_simps]:
  "4 \<le> length src \<Longrightarrow> read_u32 src = Some (bits_word (byte_bit src) 0 32)"
  by (auto simp: read_u32_def bit_simps byte_bit_take intro!: bit_word_eqI)

lemma read_num_bytes_eq [rust_simps]:
  assumes "sz \<le> length src" and "sz \<le> LENGTH('a) div 8"
  shows "read_num_bytes sz src = Some (bits_word (byte_bit src) 0 (8 * sz) :: 'a::len word)"
proof -
  have "(le_word (take sz src @ replicate (LENGTH('a) div 8 - sz) 0) :: 'a word) =
          bits_word (byte_bit src) 0 (8 * sz)"
    by (rule bit_word_eqI) (use assms in \<open>auto simp: bit_simps bit_buf_simps\<close>)
  with assms show ?thesis by (simp add: read_num_bytes_def)
qed

lemma read_num_bytes_u64_eq [rust_simps]:
  assumes "sz \<le> length src" and "sz \<le> 8"
  shows "read_num_bytes_u64 sz src = Some (bits_word (byte_bit src) 0 (8 * sz))"
proof (cases "length src < 8")
  case True
  with assms show ?thesis
    by (simp add: read_num_bytes_u64_def read_num_bytes_eq)
next
  case False
  have "trailing_bits (bits_word (byte_bit src) 0 64) (sz * 8) =
          bits_word (byte_bit src) 0 (8 * sz)"
    by (rule bit_word_eqI) (auto simp: bit_simps)
  with False assms show ?thesis
    by (simp add: read_num_bytes_u64_def read_u64_eq)
qed

lemma read_num_bytes_u32_eq [rust_simps]:
  assumes "sz \<le> length src" and "sz \<le> 4"
  shows "read_num_bytes_u32 sz src = Some (bits_word (byte_bit src) 0 (8 * sz))"
proof (cases "length src < 4")
  case True
  with assms show ?thesis
    by (simp add: read_num_bytes_u32_def read_num_bytes_eq)
next
  case False
  have "ucast (trailing_bits (ucast (bits_word (byte_bit src) 0 32 :: u32)) (sz * 8)) =
          (bits_word (byte_bit src) 0 (8 * sz) :: u32)"
    by (rule bit_word_eqI) (auto simp: bit_simps)
  with False assms show ?thesis
    by (simp add: read_num_bytes_u32_def read_u32_eq)
qed

subsection \<open>What the copies write\<close>

lemma memcpy_value_at_eq [rust_simps]:
  assumes "num_bytes \<le> length source" and "offset + num_bytes \<le> length buffer"
  shows "memcpy_value_at source num_bytes buffer offset =
     Some (take offset buffer @ take num_bytes source @ drop (offset + num_bytes) buffer)"
  using assms
  by (simp add: memcpy_value_at_def memcpy_value_def memcpy_def slice_from_def slice_range_def
      add.commute)

lemma memcpy_at_eq [rust_simps]:
  assumes "offset + length source \<le> length buffer"
  shows "memcpy_at source buffer offset =
     Some (take offset buffer @ source @ drop (offset + length source) buffer)"
  using assms
  by (simp add: memcpy_at_def memcpy_def slice_from_def add.commute)

lemma byte_bit_splice [bit_buf_simps]:
  assumes "offset + length s \<le> length buffer"
  shows "byte_bit (take offset buffer @ s @ drop (offset + length s) buffer) k \<longleftrightarrow>
     (if 8 * offset \<le> k \<and> k < 8 * (offset + length s) then byte_bit s (k - 8 * offset)
      else byte_bit buffer k)"
  using assms by (auto simp: bit_buf_simps algebra_simps)

subsection \<open>What the bit operations change\<close>

lemma bit_ones_u8: "bit (shl (1 :: u8) n - 1) j \<longleftrightarrow> j < 8 \<and> j < n"
proof -
  have "shl (1 :: u8) n - 1 = mask n"
    by (simp add: shl_def mask_eq_exp_minus_1)
  then show ?thesis by (auto simp: bit_simps)
qed

lemma bit_shl_1: "n < LENGTH('a) \<Longrightarrow> bit (shl (1 :: 'a::len word) n) j \<longleftrightarrow> j = n"
  by (auto simp: shl_def bit_simps)

lemma bit_255_u8: "bit (255 :: u8) j \<longleftrightarrow> j < 8"
proof -
  have "(255 :: u8) = mask 8" by (simp add: mask_eq_exp_minus_1)
  then show ?thesis by (simp only: bit_mask_iff) (simp add: possible_bit_word)
qed

lemma byte_index: "i < 8 * length bits \<Longrightarrow> i div 8 < length bits"
  by auto

lemma byte_pos_eq_iff: "k div 8 = i div 8 \<and> k mod 8 = i mod 8 \<longleftrightarrow> k = (i :: nat)"
  by (metis div_mult_mod_eq)

lemma bit_set_bit_eq [rust_simps]:
  "i < 8 * length bits \<Longrightarrow>
     bit_set_bit bits i = Some (bits[i div 8 := bits ! (i div 8) OR shl 1 (i mod 8)])"
  by (simp add: bit_set_bit_def index_def update_def byte_index)

lemma bit_unset_bit_eq [rust_simps]:
  "i < 8 * length bits \<Longrightarrow>
     bit_unset_bit bits i = Some (bits[i div 8 := bits ! (i div 8) AND NOT (shl 1 (i mod 8))])"
  by (simp add: bit_unset_bit_def index_def update_def byte_index)

lemma byte_bit_set_bit [bit_buf_simps]:
  "i < 8 * length bits \<Longrightarrow>
     byte_bit (bits[i div 8 := bits ! (i div 8) OR shl 1 (i mod 8)]) k \<longleftrightarrow> k = i \<or> byte_bit bits k"
  using byte_pos_eq_iff [of k i] byte_bit_nth [of k bits]
  by (cases "k div 8 = i div 8") (auto simp: byte_bit_update byte_index bit_simps bit_shl_1 simp del: bit_shl)

lemma byte_bit_unset_bit [bit_buf_simps]:
  "i < 8 * length bits \<Longrightarrow>
     byte_bit (bits[i div 8 := bits ! (i div 8) AND NOT (shl 1 (i mod 8))]) k \<longleftrightarrow>
       k \<noteq> i \<and> byte_bit bits k"
  using byte_pos_eq_iff [of k i] byte_bit_nth [of k bits]
  by (cases "k div 8 = i div 8") (auto simp: byte_bit_update byte_index bit_simps bit_shl_1 simp del: bit_shl)

lemma BIT_MASK_nth: "n < 8 \<Longrightarrow> index BIT_MASK n = Some (shl 1 n)"
proof -
  assume "n < 8"
  then have "n = 0 \<or> n = 1 \<or> n = 2 \<or> n = 3 \<or> n = 4 \<or> n = 5 \<or> n = 6 \<or> n = 7" by linarith
  then show ?thesis by (elim disjE) (simp_all add: index_def BIT_MASK_def shl_def)
qed

lemma bit_get_bit_eq [rust_simps]:
  assumes "i < 8 * length data"
  shows "bit_get_bit data i = Some (byte_bit data i)"
proof -
  have i: "drop_bit 3 i = i div 8" "i AND 7 = i mod 8"
    using take_bit_eq_mask [of 3 i] by (simp_all add: drop_bit_eq_div mask_numeral take_bit_eq_mod)
  have "(data ! (i div 8) AND shl 1 (i mod 8) \<noteq> 0) = bit (data ! (i div 8)) (i mod 8)"
    by (simp add: shl_def and_exp_eq_0_iff_not_bit)
  then show ?thesis
    using assms by (simp add: bit_get_bit_def i BIT_MASK_nth index_Some byte_index byte_bit_def)
qed

lemma bit_get_bit_raw_eq [rust_simps]:
  "i < 8 * length data \<Longrightarrow> bit_get_bit_raw data i = Some (byte_bit data i)"
  using bit_get_bit_eq by (simp add: bit_get_bit_raw_def bit_get_bit_def)

text \<open>A run of bits inside one byte, and a run of whole bytes.\<close>

lemma byte_bit_or_ones:
  assumes "i < length bits" and "r < 8"
  shows "byte_bit (bits[i := bits ! i OR shl (shl 1 n - 1) r]) k \<longleftrightarrow>
     byte_bit bits k \<or> (8 * i + r \<le> k \<and> k < 8 * i + r + n \<and> k < 8 * i + 8)"
proof (cases "k div 8 = i")
  case True
  define m where "m = k mod 8"
  with True have k: "k = 8 * i + m" and m: "m < 8" by auto
  have "byte_bit bits k \<longleftrightarrow> bit (bits ! i) m"
    using True assms(1) by (simp add: byte_bit_nth m_def)
  moreover have "byte_bit (bits[i := bits ! i OR shl (shl 1 n - 1) r]) k \<longleftrightarrow>
      bit (bits ! i) m \<or> (r \<le> m \<and> m - r < n)"
    using True assms m by (auto simp: byte_bit_update bit_or_iff bit_shl bit_ones_u8 simp flip: m_def)
  ultimately show ?thesis using k m assms(2) by (simp; linarith)
next
  case False
  then show ?thesis using assms by (auto simp: byte_bit_update)
qed

lemma byte_bit_fill_ones:
  assumes "a \<le> e" and "e \<le> length bits"
  shows "byte_bit (take a bits @ replicate (e - a) 255 @ drop e bits) k \<longleftrightarrow>
     byte_bit bits k \<or> (8 * a \<le> k \<and> k < 8 * e)"
proof -
  have ones: "byte_bit (replicate n 255) j \<longleftrightarrow> j < 8 * n" for n j
  proof (cases "j < 8 * n")
    case True
    then have "j div 8 < n" by linarith
    moreover have "bit (255 :: u8) (j mod 8)" by (rule bit_255_u8 [THEN iffD2]) simp
    ultimately show ?thesis using True by (simp only: byte_bit_def nth_replicate length_replicate simp_thms)
  qed (simp add: byte_bit_out)
  obtain d where e: "e = a + d" using assms(1) le_Suc_ex by blast
  have "byte_bit (take a bits @ replicate d 255 @ drop (a + d) bits) k \<longleftrightarrow>
      (if 8 * a \<le> k \<and> k < 8 * (a + d) then k - 8 * a < 8 * d else byte_bit bits k)"
    using byte_bit_splice [of a "replicate d 255" bits k] assms e by (simp add: ones)
  then show ?thesis by (cases "8 * a \<le> k \<and> k < 8 * e") (auto simp: e)
qed

lemma run_split_unaligned:
  fixes q :: nat
  assumes "r < 8" and "q * 8 + r + len = 8 * e + s" and "s < 8" and "r \<noteq> 0"
  shows "(8 * q + r \<le> k \<and> k < 8 * q + r + min len 7 \<and> k < 8 * q + 8) \<or> (8 * (q + 1) \<le> k \<and> k < 8 * e)
     \<or> (0 < s \<and> q + 1 \<le> e \<and> 8 * e \<le> k \<and> k < 8 * e + s) \<longleftrightarrow> 8 * q + r \<le> k \<and> k < 8 * q + r + len"
proof (cases "k < 8 * q + 8")
  case True
  then have "\<not> (q + 1 \<le> e \<and> 8 * e \<le> k)" by linarith
  moreover have "8 * q + r \<le> k \<Longrightarrow> k < 8 * q + r + len \<Longrightarrow> k < 8 * q + r + min len 7"
    using True assms by (cases "len \<le> 7") simp_all
  ultimately show ?thesis using True by auto
next
  case False
  then show ?thesis using assms 
    by (cases "k < 8 * e"; cases "q + 1 \<le> e") auto
qed

lemma bit_set_bits_spec:
  assumes "offset + len \<le> 8 * length bits"
  obtains bits' where "bit_set_bits bits offset len = Some bits'"
    and "length bits' = length bits"
    and "\<And>k. byte_bit bits' k \<longleftrightarrow> byte_bit bits k \<or> (offset \<le> k \<and> k < offset + len)"
proof -
  define q r e s where "q = offset div 8" and "r = offset mod 8"
    and "e = (offset + len) div 8" and "s = (offset + len) mod 8"
  have off: "offset = 8 * q + r" "r < 8" and fin: "offset + len = 8 * e + s" "s < 8"
    by (simp_all add: q_def r_def e_def s_def)
  define b1 i1 where "b1 = (if r \<noteq> 0 then bits[q := bits ! q OR shl (shl 1 (min len 7) - 1) r] else bits)"
    and "i1 = (if r \<noteq> 0 then q + 1 else q)"
  define b2 i2 where "b2 = (if i1 < e then take i1 b1 @ replicate (e - i1) 255 @ drop e b1 else b1)"
    and "i2 = (if i1 < e then e else i1)"
  define b3 where "b3 = (if s > 0 \<and> i2 = e then b2[i2 := b2 ! i2 OR shl (shl 1 s - 1) 0] else b2)"
  have len: "length b1 = length bits" "length b2 = length bits" "length b3 = length bits"
    using assms fin by (auto simp: b1_def b2_def b3_def)
  have q: "q < length bits" if "r \<noteq> 0" using that off assms by linarith
  have e: "e \<le> length bits" using fin assms by linarith
  have es: "e < length bits" if "s > 0" using that fin assms by linarith
  have 1: "byte_bit b1 k \<longleftrightarrow> byte_bit bits k \<or>
      (r \<noteq> 0 \<and> offset \<le> k \<and> k < offset + min len 7 \<and> k < 8 * q + 8)" for k
    using off q byte_bit_or_ones [of q bits r "min len 7" k] by (auto simp: b1_def)
  have 2: "byte_bit b2 k \<longleftrightarrow> byte_bit b1 k \<or> (8 * i1 \<le> k \<and> k < 8 * e)" for k
    using e byte_bit_fill_ones [of i1 e b1 k] len by (auto simp: b2_def)
  have 3: "byte_bit b3 k \<longleftrightarrow> byte_bit b2 k \<or> (s > 0 \<and> i2 = e \<and> 8 * e \<le> k \<and> k < 8 * e + s)" for k
    using es fin byte_bit_or_ones [of i2 b2 0 s k] len by (auto simp: b3_def)
  have defs: "offset div 8 = q" "offset mod 8 = r" "(offset + len) div 8 = e" "(offset + len) mod 8 = s"
    by (simp_all add: q_def r_def e_def s_def)
  have "bit_set_bits bits offset len = Some b3"
    unfolding bit_set_bits_def Let_def defs
    using q e es len
    by (cases "r = 0"; cases "i1 < e"; cases "s > 0 \<and> i2 = e")
      (simp_all add: index_def update_def b3_def b2_def i2_def b1_def i1_def, auto)
  moreover have "byte_bit b3 k \<longleftrightarrow> byte_bit bits k \<or> (offset \<le> k \<and> k < offset + len)" for k
  proof (cases "r = 0")
    case True
    then have "i1 = q" and "q \<le> e" using off fin by (simp_all add: i1_def)
    then have "i2 = e" by (simp add: i2_def)
    with True \<open>i1 = q\<close> have "byte_bit b3 k \<longleftrightarrow>
        byte_bit bits k \<or> (8 * q \<le> k \<and> k < 8 * e) \<or> (0 < s \<and> 8 * e \<le> k \<and> k < 8 * e + s)"
      by (simp add: 1 2 3)
    also have "(8 * q \<le> k \<and> k < 8 * e) \<or> (0 < s \<and> 8 * e \<le> k \<and> k < 8 * e + s) \<longleftrightarrow>
        8 * q \<le> k \<and> k < 8 * e + s"
      using \<open>q \<le> e\<close> by auto
    finally show ?thesis using True off fin by simp
  next
    case False
    have "i2 = e \<longleftrightarrow> q + 1 \<le> e" and "i1 = q + 1" using False by (auto simp: i2_def i1_def)
    then have "byte_bit b3 k \<longleftrightarrow> byte_bit bits k \<or>
       (8 * q + r \<le> k \<and> k < 8 * q + r + min len 7 \<and> k < 8 * q + 8) \<or>
       (8 * (q + 1) \<le> k \<and> k < 8 * e) \<or>
       (0 < s \<and> q + 1 \<le> e \<and> 8 * e \<le> k \<and> k < 8 * e + s)"
      using False off by (simp add: 1 2 3)
    also have "\<dots> \<longleftrightarrow> byte_bit bits k \<or> (8 * q + r \<le> k \<and> k < 8 * q + r + len)"
      using run_split_unaligned [of r q len e s k] False off fin by (simp add: mult.commute)
    finally show ?thesis using off by simp
  qed
  ultimately show ?thesis using len that by blast
qed

subsection \<open>\<open>log2\<close> and rounding up\<close>

lemma takeWhile_rev_upt:
  "length (takeWhile (\<lambda>i. \<not> P i) (rev [0..<n])) = l \<Longrightarrow>
     l \<le> n \<and> (\<forall>i<n. n - l \<le> i \<longrightarrow> \<not> P i) \<and> (l < n \<longrightarrow> P (n - 1 - l))"
proof (induction n arbitrary: l)
  case 0
  then show ?case by simp
next
  case (Suc n)
  show ?case
  proof (cases "P n")
    case True
    with Suc.prems show ?thesis by auto
  next
    case False
    with Suc.prems obtain l' where l: "l = Suc l'"
      and l': "length (takeWhile (\<lambda>i. \<not> P i) (rev [0..<n])) = l'" by auto
    from Suc.IH [OF l'] False show ?thesis by (auto simp: l less_Suc_eq)
  qed
qed

lemma leading_zeros_bounds:
  fixes x :: "'a::len word"
  defines "n \<equiv> LENGTH('a) - leading_zeros x"
  shows "unat x < 2 ^ n" and "0 < n \<Longrightarrow> 2 ^ (n - 1) \<le> unat x"
proof -
  note lz = takeWhile_rev_upt [of "bit x" "LENGTH('a)" "leading_zeros x", folded leading_zeros_def, OF refl]
  have "bit (take_bit n x) i = bit x i" for i
    using lz by (cases "i < LENGTH('a)") (auto simp: n_def bit_simps dest: bit_imp_le_length)
  then have "take_bit n x = x" by (simp add: bit_eq_iff)
  then have "take_bit n (unat x) = unat x" by (metis unsigned_take_bit_eq)
  then show "unat x < 2 ^ n" by (metis take_bit_nat_less_exp)
  assume "0 < n"
  with lz have "bit x (n - 1)" by (auto simp: n_def)
  then have "bit (unat x) (n - 1)" by (simp add: bit_unsigned_iff)
  then show "2 ^ (n - 1) \<le> unat x" by (metis bit_iff_odd div_less even_zero not_less)
qed

lemma log2_spec:
  assumes "x \<noteq> 0"
  obtains n where "log2 x = Some n" and "unat x \<le> 2 ^ n" and "0 < n \<Longrightarrow> 2 ^ (n - 1) < unat x"
proof (cases "x = 1")
  case True
  then show ?thesis using that [of 0] by (simp add: log2_def)
next
  case False
  have "unat x = unat (x - 1) + 1"
    using assms by (simp add: unat_minus_one unat_eq_0 Suc_pred' flip: unat_gt_0)
  then show ?thesis
    using False assms leading_zeros_bounds [of "x - 1"] that [of "64 - leading_zeros (x - 1)"]
    by (auto simp: log2_def less_Suc_eq_le)
qed

lemma round_upto_power_of_2_spec:
  assumes "k < 64" and "unat num + 2 ^ k \<le> 2 ^ 64"
  obtains r where "round_upto_power_of_2 num (2 ^ k) = Some r"
    and "unat r = 2 ^ k * div_ceil (unat num) (2 ^ k)"
proof -
  have pow: "(2 ^ k - 1 :: u64) = mask k" by (simp add: mask_eq_exp_minus_1)
  have "unat (2 ^ k :: u64) = 2 ^ k" using assms(1) by (simp add: unat_exp)
  then have pos: "(0 :: u64) < 2 ^ k" by (metis power_not_zero unat_0 word_gt_0 zero_neq_numeral)
  have msk: "unat (mask k :: u64) = 2 ^ k - 1" using assms(1) by (simp add: unat_mask)
  have zero: "(2 ^ k :: u64) AND mask k = 0"
    by (rule bit_word_eqI) (auto simp: bit_simps)
  have sum: "unat num + unat (mask k :: u64) = unat num + 2 ^ k - 1"
    by (simp add: msk)
  have less: "unat num + unat (mask k :: u64) < 2 ^ 64"
    unfolding sum using assms(2) zero_less_power [of "2 :: nat" k] by linarith
  have eq: "round_upto_power_of_2 num (2 ^ k) = Some ((num + mask k) AND NOT (mask k))"
    using pos zero less by (simp add: round_upto_power_of_2_def pow)
  have sum: "unat (num + mask k) = unat num + 2 ^ k - 1"
    using less sum by (simp add: unat_word_ariths)
  have "unat ((num + mask k) AND NOT (mask k)) = push_bit k (drop_bit k (unat (num + mask k)))"
    by (rule bit_eqI) (auto simp: bit_simps dest: bit_imp_le_length)
  then have "unat ((num + mask k) AND NOT (mask k)) = 2 ^ k * div_ceil (unat num) (2 ^ k)"
    by (simp add: sum div_ceil_def push_bit_eq_mult drop_bit_eq_div)
  with eq show ?thesis using that by blast
qed

subsection \<open>Properties\<close>

text \<open>
  \<open>set_bits\<close> sets exactly the bits of the requested range and keeps the length of the buffer and every
  other bit, whether the range lies in one byte, ends on a byte boundary or spans many bytes.
\<close>

theorem bit_set_bits_exact:
  assumes "offset + len \<le> 8 * length bits"
  shows "\<exists>bits'. bit_set_bits bits offset len = Some bits' \<and> length bits' = length bits \<and>
    (\<forall>k. byte_bit bits' k = (byte_bit bits k \<or> (offset \<le> k \<and> k < offset + len)))"
  using bit_set_bits_spec [OF assms] by metis

theorem bit_set_bits_exact_witness:
  "\<exists>bits'. bit_set_bits [0x01, 0, 0x80] 5 12 = Some bits' \<and> byte_bit bits' 16 \<and> \<not> byte_bit bits' 17"
proof -
  have "5 + 12 \<le> 8 * length [0x01 :: u8, 0, 0x80]" by simp
  moreover have "\<not> byte_bit [0x01, 0, 0x80] 17" by code_simp
  ultimately show ?thesis using bit_set_bits_exact [of 5 12 "[0x01, 0, 0x80]"] by auto
qed

text \<open>
  \<open>log2\<close> is the least exponent whose power of two is at least its argument.
\<close>

theorem log2_least_exponent:
  assumes "x \<noteq> 0"
  shows "\<exists>n. log2 x = Some n \<and> unat x \<le> 2 ^ n \<and> (\<forall>m<n. 2 ^ m < unat x)"
proof -
  obtain n where n: "log2 x = Some n" "unat x \<le> 2 ^ n" "0 < n \<Longrightarrow> 2 ^ (n - 1) < unat x"
    using log2_spec [OF assms] by blast
  have "2 ^ m < unat x" if "m < n" for m
  proof -
    have "(2 :: nat) ^ m \<le> 2 ^ (n - 1)" using that by (intro power_increasing) auto
    with n(3) that show ?thesis by linarith
  qed
  with n show ?thesis by blast
qed

theorem log2_least_exponent_witness: "\<exists>n. log2 5 = Some n \<and> 2 ^ 2 < unat (5 :: u64) \<and> n = 3"
proof -
  have "\<exists>n. log2 5 = Some n" using log2_least_exponent [of 5] by auto
  moreover have "log2 5 = Some 3" by code_simp
  ultimately show ?thesis by simp
qed

end
