(* ===== verification/Comet_Buffer.thy ===== *)
theory Comet_Buffer
  imports Bit_Util
begin

text \<open>
  \<open>CometBuffer\<close> of \<open>native/core/src/common/buffer.rs\<close>. The memory behind the raw pointer is a
  list of \<open>capacity\<close> bytes; the reference count of the allocation is a number, which counts the
  Arrow buffers that share it. An operation on an un-owned buffer, an allocation of size zero and
  a size that overflows give \<open>None\<close>.
\<close>

record comet_buffer =
  cb_data :: "u8 list"
  cb_len :: nat
  cb_capacity :: nat
  cb_owned :: bool
  cb_strong_count :: nat

datatype execution_error = GeneralError string

definition ALIGNMENT :: u64 where
  "ALIGNMENT = 64"

subsection \<open>The operations\<close>

definition cb_new :: "nat \<Rightarrow> comet_buffer option" where
  "cb_new capacity = do {
     ensure (capacity < 2 ^ 64);
     aligned_capacity \<leftarrow> round_upto_power_of_2 (of_nat capacity) ALIGNMENT;
     ensure (aligned_capacity \<noteq> 0);
     Some \<lparr>cb_data = replicate (unat aligned_capacity) 0, cb_len = unat aligned_capacity,
       cb_capacity = unat aligned_capacity, cb_owned = True, cb_strong_count = 1\<rparr>
   }"

definition cb_is_empty :: "comet_buffer \<Rightarrow> bool" where
  "cb_is_empty b \<longleftrightarrow> cb_len b = 0"

text \<open>\<open>deref\<close> sees the first \<open>len\<close> bytes, \<open>deref_mut\<close> the whole capacity.\<close>

definition cb_deref :: "comet_buffer \<Rightarrow> u8 list" where
  "cb_deref b = take (cb_len b) (cb_data b)"

definition cb_as_slice :: "comet_buffer \<Rightarrow> u8 list" where
  "cb_as_slice b = cb_deref b"

definition cb_deref_mut :: "comet_buffer \<Rightarrow> (u8 list \<Rightarrow> u8 list option) \<Rightarrow> comet_buffer option" where
  "cb_deref_mut b f = do {
     ensure (cb_owned b);
     data \<leftarrow> f (cb_data b);
     Some (b\<lparr>cb_data := data\<rparr>)
   }"

definition cb_as_slice_mut :: "comet_buffer \<Rightarrow> (u8 list \<Rightarrow> u8 list option) \<Rightarrow> comet_buffer option" where
  "cb_as_slice_mut b f = do {
     ensure (cb_owned b);
     cb_deref_mut b f
   }"

definition cb_check_reference :: "comet_buffer \<Rightarrow> execution_error + unit" where
  "cb_check_reference b =
     (if cb_strong_count b > 1
      then Inl (GeneralError ''Error on modifying a buffer which is not exclusively owned by Comet'')
      else Inr ())"

text \<open>The Arrow buffer that \<open>to_arrow\<close> returns holds a clone of the reference-counted allocation.\<close>

definition cb_to_arrow :: "comet_buffer \<Rightarrow> execution_error + u8 list \<times> comet_buffer" where
  "cb_to_arrow b =
     (case cb_check_reference b of
        Inl e \<Rightarrow> Inl e
      | Inr _ \<Rightarrow> Inr (cb_deref b, b\<lparr>cb_strong_count := cb_strong_count b + 1\<rparr>))"

definition cb_reset :: "comet_buffer \<Rightarrow> comet_buffer option" where
  "cb_reset b = do {
     ensure (cb_owned b);
     Some (b\<lparr>cb_data := replicate (cb_len b) 0 @ drop (cb_len b) (cb_data b)\<rparr>)
   }"

definition cb_reallocate :: "nat \<Rightarrow> nat \<Rightarrow> nat option" where
  "cb_reallocate old_capacity new_capacity = do {
     ensure (new_capacity < 2 ^ 64);
     new_capacity \<leftarrow> round_upto_power_of_2 (of_nat new_capacity) ALIGNMENT;
     ensure (old_capacity * 2 < 2 ^ 64);
     Some (max (unat new_capacity) (old_capacity * 2))
   }"

text \<open>The bytes after \<open>len\<close> that \<open>realloc\<close> leaves undefined are exactly those zeroed next.\<close>

definition cb_resize :: "comet_buffer \<Rightarrow> nat \<Rightarrow> comet_buffer option" where
  "cb_resize b new_capacity = do {
     ensure (cb_owned b);
     if new_capacity > cb_len b then do {
       new_capacity \<leftarrow> cb_reallocate (cb_capacity b) new_capacity;
       diff \<leftarrow> usub new_capacity (cb_len b);
       Some (b\<lparr>cb_capacity := new_capacity, cb_data := take (cb_len b) (cb_data b) @ replicate diff 0,
         cb_len := new_capacity\<rparr>)
     } else Some b
   }"

text \<open>\<open>eq\<close>; whether the two pointers are the same address is an argument.\<close>

definition cb_eq :: "bool \<Rightarrow> comet_buffer \<Rightarrow> comet_buffer \<Rightarrow> bool" where
  "cb_eq same_address b c =
     (if same_address then True
      else if cb_len b \<noteq> cb_len c then False
      else if cb_capacity b \<noteq> cb_capacity c then False
      else cb_as_slice b = cb_as_slice c)"

subsection \<open>Invariant\<close>

text \<open>An owned buffer: its length is its capacity, a multiple of the alignment.\<close>

definition cb_inv :: "comet_buffer \<Rightarrow> bool" where
  "cb_inv b \<longleftrightarrow> cb_owned b \<and> length (cb_data b) = cb_capacity b \<and> cb_len b = cb_capacity b \<and>
     64 dvd cb_capacity b \<and> 0 < cb_capacity b \<and> 1 \<le> cb_strong_count b"

lemma round_upto_64:
  assumes "n + 64 \<le> 2 ^ 64"
  obtains r where "round_upto_power_of_2 (of_nat n) ALIGNMENT = Some r" and "unat r = 64 * div_ceil n 64"
proof -
  have "(2 ^ 6 :: u64) = ALIGNMENT" by (simp add: ALIGNMENT_def)
  moreover have "unat (of_nat n :: u64) = n" using assms by (simp add: unat_of_nat take_bit_nat_eq_self)
  ultimately show ?thesis
    using round_upto_power_of_2_spec [of 6 "of_nat n"] assms that by auto
qed

lemma div_ceil_pos: "0 < n \<Longrightarrow> 0 < b \<Longrightarrow> 0 < div_ceil n b"
  using div_ceil_mult_ge [of b n] by (cases "div_ceil n b") auto

lemma cb_new_spec:
  assumes "0 < n" and "n + 64 \<le> 2 ^ 64"
  obtains b where "cb_new n = Some b" and "cb_inv b" and "n \<le> cb_len b" and "cb_len b < n + 64"
    and "cb_data b = replicate (cb_len b) 0" and "cb_strong_count b = 1"
proof -
  obtain r where r: "round_upto_power_of_2 (of_nat n) ALIGNMENT = Some r" and u: "unat r = 64 * div_ceil n 64"
    using round_upto_64 [OF assms(2)] .
  have "n \<le> 64 * div_ceil n 64" by (rule div_ceil_mult_ge) simp
  moreover have "64 * div_ceil n 64 < n + 64" by (simp add: div_ceil_def)
  moreover have "r \<noteq> 0" using u assms(1) div_ceil_pos [of n 64] by auto
  moreover have "0 < div_ceil n 64" using assms(1) by (intro div_ceil_pos) simp_all
  ultimately show ?thesis
    using that r u assms by (simp add: cb_new_def cb_inv_def)
qed

lemma cb_reset_spec:
  assumes "cb_inv b"
  obtains b' where "cb_reset b = Some b'" and "cb_inv b'" and "cb_data b' = replicate (cb_len b) 0"
    and "cb_len b' = cb_len b"
proof
  show "cb_reset b = Some (b\<lparr>cb_data := replicate (cb_len b) 0\<rparr>)"
    using assms by (simp add: cb_reset_def cb_inv_def)
qed (use assms in \<open>auto simp: cb_inv_def\<close>)

lemma cb_resize_spec:
  assumes inv: "cb_inv b" and "n + 64 \<le> 2 ^ 64" and "2 * cb_capacity b < 2 ^ 64"
  obtains b' where "cb_resize b n = Some b'" and "cb_inv b'" and "n \<le> cb_len b'" and "cb_len b \<le> cb_len b'"
    and "cb_data b' = cb_data b @ replicate (cb_len b' - cb_len b) 0"
    and "cb_strong_count b' = cb_strong_count b"
proof (cases "n > cb_len b")
  case True
  obtain r where r: "round_upto_power_of_2 (of_nat n) ALIGNMENT = Some r" and u: "unat r = 64 * div_ceil n 64"
    using round_upto_64 [OF assms(2)] .
  define c where "c = max (unat r) (cb_capacity b * 2)"
  have "n < 2 ^ 64" by (rule less_le_trans [OF _ assms(2)]) simp
  moreover have "cb_capacity b * 2 < 2 ^ 64" using assms(3) by (subst mult.commute)
  ultimately have "cb_reallocate (cb_capacity b) n = Some c"
    by (simp only: cb_reallocate_def ensure_bind if_True r bind.bind_lunit c_def)
  moreover have c: "n \<le> c"
    unfolding c_def u by (rule max.coboundedI1) (rule div_ceil_mult_ge, simp)
  moreover have c64: "64 dvd c"
    unfolding c_def u max_def using inv by (simp add: cb_inv_def)
  ultimately have eq: "cb_resize b n = Some (b\<lparr>cb_capacity := c,
      cb_data := cb_data b @ replicate (c - cb_len b) 0, cb_len := c\<rparr>)"
    using True inv by (simp add: cb_resize_def usub_Some cb_inv_def)
  show ?thesis by (rule that [OF eq]) (use True c c64 inv in \<open>auto simp: cb_inv_def\<close>)
next
  case False
  show ?thesis by (rule that [of b]) (use False inv in \<open>simp_all add: cb_resize_def cb_inv_def\<close>)
qed

subsection \<open>Properties\<close>

text \<open>
  C23. \<open>resize\<close> keeps the buffer owned, aligned and fully initialised: the old bytes stay, everything behind
  them is zero, and the new length is at least the requested one.
\<close>

theorem cb_resize_keeps:
  assumes "cb_inv b" and "n + 64 \<le> 2 ^ 64" and "2 * cb_capacity b < 2 ^ 64"
  shows "\<exists>b'. cb_resize b n = Some b' \<and> cb_inv b' \<and> n \<le> cb_len b' \<and>
    cb_as_slice b' = cb_as_slice b @ replicate (cb_len b' - cb_len b) 0 \<and> cb_check_reference b' = cb_check_reference b"
proof -
  obtain b' where b': "cb_resize b n = Some b'" "cb_inv b'" "n \<le> cb_len b'" "cb_len b \<le> cb_len b'"
    "cb_data b' = cb_data b @ replicate (cb_len b' - cb_len b) 0" "cb_strong_count b' = cb_strong_count b"
    by (rule cb_resize_spec [OF assms])
  have "cb_as_slice c = cb_data c" if "cb_inv c" for c
    using that by (simp add: cb_as_slice_def cb_deref_def cb_inv_def)
  with b' assms(1) show ?thesis by (intro exI [of _ b']) (simp add: cb_check_reference_def)
qed

theorem cb_resize_keeps_witness:
  "\<exists>b b'. cb_new 10 = Some b \<and> cb_resize b 100 = Some b' \<and> cb_inv b' \<and> 100 \<le> cb_len b'"
proof -
  obtain b where b: "cb_new 10 = Some b" "cb_inv b" "10 \<le> cb_len b" "cb_len b < 10 + 64"
    "cb_data b = replicate (cb_len b) 0" "cb_strong_count b = 1" by (rule cb_new_spec [of 10]) simp_all
  have "2 * cb_capacity b < 2 ^ 64" using b(2,4) by (simp add: cb_inv_def)
  then have "\<exists>b'. cb_resize b 100 = Some b' \<and> cb_inv b' \<and> 100 \<le> cb_len b' \<and>
      cb_as_slice b' = cb_as_slice b @ replicate (cb_len b' - cb_len b) 0 \<and>
      cb_check_reference b' = cb_check_reference b"
    by (intro cb_resize_keeps [OF b(2)]) simp_all
  with b(1) show ?thesis by blast
qed

text \<open>
  A buffer that an Arrow buffer still shares cannot be handed out again: the second \<open>to_arrow\<close> is an
  error, and the first returns the visible bytes.
\<close>

theorem cb_to_arrow_exclusive:
  assumes "cb_strong_count b = 1"
  shows "\<exists>b' e. cb_to_arrow b = Inr (cb_as_slice b, b') \<and> cb_to_arrow b' = Inl e"
  using assms by (simp add: cb_to_arrow_def cb_check_reference_def cb_as_slice_def)

theorem cb_to_arrow_exclusive_witness:
  "\<exists>b b' e. cb_new 1 = Some b \<and> cb_to_arrow b = Inr (cb_as_slice b, b') \<and> cb_to_arrow b' = Inl e"
proof -
  obtain b where b: "cb_new 1 = Some b" "cb_inv b" "1 \<le> cb_len b" "cb_len b < 1 + 64"
    "cb_data b = replicate (cb_len b) 0" "cb_strong_count b = 1" by (rule cb_new_spec [of 1]) simp_all
  from cb_to_arrow_exclusive [OF b(6)] b(1) show ?thesis by blast
qed

end
