(* ===== verification/Mutable_Vector.thy ===== *)
theory Mutable_Vector
  imports Comet_Buffer
begin

text \<open>
  \<open>ParquetMutableVector\<close> of \<open>native/core/src/parquet/mutable_vector.rs\<close>: the Arrow vector that
  the Parquet reader fills. A vector owns a validity bitmap and a value buffer; a binary vector
  keeps its offsets in the value buffer and its bytes in a child. \<open>pmv_elems\<close> gives the contents of a vector of
  fixed-width elements as a list of optional byte strings, the meaning used by the decoders.
\<close>

text \<open>The Arrow types the reader distinguishes; \<open>OtherType\<close> stands for every other one.\<close>

datatype arrow_type =
    Boolean | Int8 | Int16 | Int32 | Int64 | Float32 | Float64 | Date32 | Timestamp
  | FixedSizeBinary int | Decimal128 nat int | Binary | Utf8
  | Dictionary arrow_type arrow_type | OtherType

datatype pmv = PMV
  (pmv_type: arrow_type)
  (pmv_num_values: nat)
  (pmv_num_nulls: nat)
  (pmv_validity: comet_buffer)
  (pmv_values: comet_buffer)
  (pmv_children: "pmv list")
  (pmv_dictionary: "pmv option")

text \<open>Assignments to the fields.\<close>

definition pmv_set_counts :: "pmv \<Rightarrow> nat \<Rightarrow> nat \<Rightarrow> pmv" where
  "pmv_set_counts v values nulls =
     PMV (pmv_type v) values nulls (pmv_validity v) (pmv_values v) (pmv_children v) (pmv_dictionary v)"

definition pmv_set_validity :: "pmv \<Rightarrow> comet_buffer \<Rightarrow> pmv" where
  "pmv_set_validity v b =
     PMV (pmv_type v) (pmv_num_values v) (pmv_num_nulls v) b (pmv_values v) (pmv_children v) (pmv_dictionary v)"

definition pmv_set_values :: "pmv \<Rightarrow> comet_buffer \<Rightarrow> pmv" where
  "pmv_set_values v b =
     PMV (pmv_type v) (pmv_num_values v) (pmv_num_nulls v) (pmv_validity v) b (pmv_children v) (pmv_dictionary v)"

definition pmv_set_children :: "pmv \<Rightarrow> pmv list \<Rightarrow> pmv" where
  "pmv_set_children v cs =
     PMV (pmv_type v) (pmv_num_values v) (pmv_num_nulls v) (pmv_validity v) (pmv_values v) cs (pmv_dictionary v)"

definition set_dictionary :: "pmv \<Rightarrow> pmv \<Rightarrow> pmv" where
  "set_dictionary v dict =
     PMV (pmv_type v) (pmv_num_values v) (pmv_num_nulls v) (pmv_validity v) (pmv_values v) (pmv_children v) (Some dict)"

subsection \<open>The operations\<close>

definition DEFAULT_ARRAY_LEN :: nat where
  "DEFAULT_ARRAY_LEN = 4"

text \<open>A negative \<open>type_length\<close> overflows the multiplication; an unsupported type panics.\<close>

fun pmv_bit_width :: "arrow_type \<Rightarrow> nat option" where
  "pmv_bit_width Boolean = Some 1"
| "pmv_bit_width Int8 = Some 8"
| "pmv_bit_width Int16 = Some 16"
| "pmv_bit_width Int32 = Some 32"
| "pmv_bit_width Float32 = Some 32"
| "pmv_bit_width Date32 = Some 32"
| "pmv_bit_width Int64 = Some 64"
| "pmv_bit_width Float64 = Some 64"
| "pmv_bit_width Timestamp = Some 64"
| "pmv_bit_width (FixedSizeBinary type_length) = (if type_length < 0 then None else Some (nat type_length * 8))"
| "pmv_bit_width (Decimal128 _ _) = Some 128"
| "pmv_bit_width Binary = Some 32"
| "pmv_bit_width Utf8 = Some 32"
| "pmv_bit_width (Dictionary _ _) = None"
| "pmv_bit_width OtherType = None"

definition is_binary_type :: "arrow_type \<Rightarrow> bool" where
  "is_binary_type dt \<longleftrightarrow> dt = Binary \<or> dt = Utf8"

fun should_reset_value_buffer :: "arrow_type \<Rightarrow> bool" where
  "should_reset_value_buffer Boolean = True"
| "should_reset_value_buffer (Decimal128 _ _) = True"
| "should_reset_value_buffer _ = False"

text \<open>
  \<open>new_with_bit_width\<close>; the recursive call is for the \<open>Int8\<close> child of a binary vector, which has
  no child itself, so the argument \<open>depth\<close> bounds it by one.
\<close>

fun new_with_bit_width_at :: "nat \<Rightarrow> nat \<Rightarrow> arrow_type \<Rightarrow> nat \<Rightarrow> pmv option" where
  "new_with_bit_width_at depth capacity arrow_type width = do {
     let validity_len = div_ceil capacity 8;
     validity_buffer \<leftarrow> cb_new validity_len;
     let value_capacity = (if is_binary_type arrow_type then capacity + 1 else capacity);
     let len = div_ceil (value_capacity * width) 8;
     value_buffer \<leftarrow> cb_new len;
     children \<leftarrow>
       (if arrow_type = Binary \<or> arrow_type = Utf8 then
          (case depth of
             0 \<Rightarrow> None
           | Suc d \<Rightarrow> do {
               c \<leftarrow> new_with_bit_width_at d capacity Int8 (DEFAULT_ARRAY_LEN * 8);
               Some [c]
             })
        else Some []);
     value_buffer \<leftarrow>
       (if is_binary_type arrow_type
        then cb_deref_mut value_buffer (memcpy_value (le_bytes (0 :: u32)) 4)
        else Some value_buffer);
     Some (PMV arrow_type 0 0 validity_buffer value_buffer children None)
   }"

declare new_with_bit_width_at.simps [simp del]

definition new_with_bit_width :: "nat \<Rightarrow> arrow_type \<Rightarrow> nat \<Rightarrow> pmv option" where
  "new_with_bit_width capacity arrow_type width = new_with_bit_width_at 1 capacity arrow_type width"

definition pmv_new :: "nat \<Rightarrow> arrow_type \<Rightarrow> pmv option" where
  "pmv_new capacity arrow_type = do {
     w \<leftarrow> pmv_bit_width arrow_type;
     new_with_bit_width capacity arrow_type w
   }"

definition pmv_is_null :: "pmv \<Rightarrow> nat \<Rightarrow> bool option" where
  "pmv_is_null v idx = do {
     b \<leftarrow> bit_get_bit_raw (cb_data (pmv_validity v)) idx;
     Some (\<not> b)
   }"

text \<open>\<open>reset\<close>; the child of a binary vector is reset with it.\<close>

fun pmv_reset :: "pmv \<Rightarrow> pmv option" where
  "pmv_reset (PMV ty nv nn validity values children dict) = do {
     validity \<leftarrow> cb_reset validity;
     if is_binary_type ty then do {
       values \<leftarrow> cb_deref_mut values (memcpy_value (le_bytes (0 :: u32)) 4);
       (case children of
          [] \<Rightarrow> None
        | child # cs \<Rightarrow> do {
            child \<leftarrow> pmv_reset child;
            Some (PMV ty 0 0 validity values (child # cs) dict)
          })
     }
     else if should_reset_value_buffer ty then do {
       values \<leftarrow> cb_reset values;
       Some (PMV ty 0 0 validity values children dict)
     }
     else Some (PMV ty 0 0 validity values children dict)
   }"

text \<open>The loop of \<open>put_nulls\<close> that repeats the last offset of a binary vector.\<close>

fun put_offsets :: "comet_buffer \<Rightarrow> u32 \<Rightarrow> nat \<Rightarrow> nat \<Rightarrow> comet_buffer option" where
  "put_offsets values prev offset 0 = Some values"
| "put_offsets values prev offset (Suc n) = do {
     values \<leftarrow> cb_deref_mut values (\<lambda>data. memcpy_value_at (le_bytes prev) 4 data offset);
     put_offsets values prev (offset + 4) n
   }"

definition put_nulls :: "pmv \<Rightarrow> nat \<Rightarrow> pmv option" where
  "put_nulls v n = do {
     v \<leftarrow> (if is_binary_type (pmv_type v) then do {
            let offset = pmv_num_values v * 4;
            s \<leftarrow> slice_from (cb_deref (pmv_values v)) offset;
            prev_offset_value \<leftarrow> read_u32 s;
            values \<leftarrow> put_offsets (pmv_values v) prev_offset_value (offset + 4) n;
            Some (pmv_set_values v values)
          } else Some v);
     Some (pmv_set_counts v (pmv_num_values v + n) (pmv_num_nulls v + n))
   }"

definition put_null :: "pmv \<Rightarrow> pmv option" where
  "put_null v = put_nulls v 1"

text \<open>
  \<open>get_array_data\<close>; the fields of the Arrow \<open>ArrayData\<close> that is built. Taking a buffer out
  shares its allocation.
\<close>

datatype array_data = ArrayData
  (ad_type: arrow_type)
  (ad_len: nat)
  (ad_buffers: "u8 list list")
  (ad_nulls: "u8 list")
  (ad_null_count: nat)
  (ad_children: "array_data list")

fun get_array_data :: "pmv \<Rightarrow> (execution_error + array_data \<times> pmv) option" where
  "get_array_data (PMV ty nv nn validity values children dict) =
     (let data_type = (case dict of Some d \<Rightarrow> Dictionary Int32 (pmv_type d) | None \<Rightarrow> ty) in
      case cb_to_arrow values of
        Inl e \<Rightarrow> Some (Inl e)
      | Inr (value_buf, values) \<Rightarrow>
      (case cb_to_arrow validity of
        Inl e \<Rightarrow> Some (Inl e)
      | Inr (null_buf, validity) \<Rightarrow>
      (case (if is_binary_type ty \<and> dict = None then
               (case children of
                  [] \<Rightarrow> None
                | PMV cty cnv cnn cvalidity cvalues cch cd # cs \<Rightarrow>
                    (case cb_to_arrow cvalues of
                       Inl e \<Rightarrow> Some (Inl e)
                     | Inr (buf, cvalues) \<Rightarrow>
                         Some (Inr ([buf], PMV cty cnv cnn cvalidity cvalues cch cd # cs))))
             else Some (Inr ([], children))) of
         None \<Rightarrow> None
       | Some (Inl e) \<Rightarrow> Some (Inl e)
       | Some (Inr (extra, children)) \<Rightarrow>
           (case dict of
              None \<Rightarrow>
                Some (Inr (ArrayData data_type nv (value_buf # extra) null_buf nn [],
                  PMV ty nv nn validity values children None))
            | Some d \<Rightarrow>
                (case get_array_data d of
                   None \<Rightarrow> None
                 | Some (Inl e) \<Rightarrow> Some (Inl e)
                 | Some (Inr (child, d)) \<Rightarrow>
                     Some (Inr (ArrayData data_type nv (value_buf # extra) null_buf nn [child],
                       PMV ty nv nn validity values children (Some d))))))))"

subsection \<open>Invariant and contents\<close>

lemmas pmv_updates = pmv_set_counts_def pmv_set_validity_def pmv_set_values_def pmv_set_children_def
  set_dictionary_def

text \<open>Selectors after assignments.\<close>

lemma pmv_sel [simp]:
  "pmv_type (pmv_set_counts v a c) = pmv_type v"
  "pmv_num_values (pmv_set_counts v a c) = a"
  "pmv_num_nulls (pmv_set_counts v a c) = c"
  "pmv_validity (pmv_set_counts v a c) = pmv_validity v"
  "pmv_values (pmv_set_counts v a c) = pmv_values v"
  "pmv_children (pmv_set_counts v a c) = pmv_children v"
  "pmv_dictionary (pmv_set_counts v a c) = pmv_dictionary v"
  "pmv_type (pmv_set_validity v b) = pmv_type v"
  "pmv_num_values (pmv_set_validity v b) = pmv_num_values v"
  "pmv_num_nulls (pmv_set_validity v b) = pmv_num_nulls v"
  "pmv_validity (pmv_set_validity v b) = b"
  "pmv_values (pmv_set_validity v b) = pmv_values v"
  "pmv_children (pmv_set_validity v b) = pmv_children v"
  "pmv_dictionary (pmv_set_validity v b) = pmv_dictionary v"
  "pmv_type (pmv_set_values v b) = pmv_type v"
  "pmv_num_values (pmv_set_values v b) = pmv_num_values v"
  "pmv_num_nulls (pmv_set_values v b) = pmv_num_nulls v"
  "pmv_validity (pmv_set_values v b) = pmv_validity v"
  "pmv_values (pmv_set_values v b) = b"
  "pmv_children (pmv_set_values v b) = pmv_children v"
  "pmv_dictionary (pmv_set_values v b) = pmv_dictionary v"
  by (simp_all add: pmv_updates)

text \<open>
  The invariant of a vector of elements of \<open>w\<close> bytes: both buffers are owned, the validity bits from
  \<open>num_values\<close> on are zero, and the null count is the number of zero bits before it.
\<close>

definition pmv_inv :: "nat \<Rightarrow> pmv \<Rightarrow> bool" where
  "pmv_inv w v \<longleftrightarrow> cb_inv (pmv_validity v) \<and> cb_inv (pmv_values v) \<and> \<not> is_binary_type (pmv_type v) \<and>
     pmv_num_values v \<le> 8 * cb_len (pmv_validity v) \<and> pmv_num_values v * w \<le> cb_len (pmv_values v) \<and>
     (\<forall>k\<ge>pmv_num_values v. \<not> byte_bit (cb_data (pmv_validity v)) k) \<and>
     pmv_num_nulls v = length (filter (\<lambda>k. \<not> byte_bit (cb_data (pmv_validity v)) k) [0..<pmv_num_values v])"

text \<open>Room for \<open>n\<close> more elements of \<open>w\<close> bytes.\<close>

definition pmv_room :: "nat \<Rightarrow> pmv \<Rightarrow> nat \<Rightarrow> bool" where
  "pmv_room w v n \<longleftrightarrow> pmv_num_values v + n \<le> 8 * cb_len (pmv_validity v) \<and>
     (pmv_num_values v + n) * w \<le> cb_len (pmv_values v)"

definition pmv_elem :: "nat \<Rightarrow> pmv \<Rightarrow> nat \<Rightarrow> u8 list option" where
  "pmv_elem w v k =
     (if byte_bit (cb_data (pmv_validity v)) k
      then Some (take w (drop (k * w) (cb_data (pmv_values v)))) else None)"

definition pmv_elems :: "nat \<Rightarrow> pmv \<Rightarrow> u8 list option list" where
  "pmv_elems w v = map (pmv_elem w v) [0..<pmv_num_values v]"

lemma length_pmv_elems [simp]: "length (pmv_elems w v) = pmv_num_values v"
  by (simp add: pmv_elems_def)

lemma pmv_elem_cong:
  "pmv_validity v = pmv_validity v' \<Longrightarrow> pmv_values v = pmv_values v' \<Longrightarrow> pmv_elem w v = pmv_elem w v'"
  by (rule ext) (simp add: pmv_elem_def)

lemma pmv_room_mono: "pmv_room w v n \<Longrightarrow> m \<le> n \<Longrightarrow> pmv_room w v m"
  unfolding pmv_room_def by (meson add_le_mono le_refl le_trans mult_le_mono1)

lemma num_nulls_elems:
  "pmv_inv w v \<Longrightarrow> pmv_num_nulls v = length (filter (\<lambda>x. x = None) (pmv_elems w v))"
  by (simp add: pmv_inv_def pmv_elems_def pmv_elem_def filter_map o_def cong: filter_cong)

lemma pmv_null_count_le: "pmv_inv w v \<Longrightarrow> pmv_num_nulls v \<le> pmv_num_values v"
  by (metis length_filter_le length_pmv_elems num_nulls_elems)

lemma pmv_is_null_elem:
  assumes "pmv_inv w v" and "k < pmv_num_values v"
  shows "pmv_is_null v k = Some (pmv_elems w v ! k = None)"
proof -
  have "k < 8 * length (cb_data (pmv_validity v))" using assms by (auto simp: pmv_inv_def cb_inv_def)
  with assms(2) show ?thesis
    by (simp add: pmv_is_null_def bit_get_bit_raw_eq pmv_elems_def pmv_elem_def)
qed

text \<open>Appending nulls to a vector of fixed-width elements touches the counts alone.\<close>

lemma put_nulls_spec:
  assumes inv: "pmv_inv w v" and room: "pmv_room w v n"
  obtains v' where "put_nulls v n = Some v'" and "pmv_inv w v'"
    and "pmv_elems w v' = pmv_elems w v @ replicate n None"
    and "v' = pmv_set_counts v (pmv_num_values v + n) (pmv_num_nulls v + n)"
proof -
  let ?v = "pmv_set_counts v (pmv_num_values v + n) (pmv_num_nulls v + n)"
  let ?new = "[pmv_num_values v..<pmv_num_values v + n]"
  have clear: "\<not> byte_bit (cb_data (pmv_validity v)) k" if "pmv_num_values v \<le> k" for k
    using inv that by (simp add: pmv_inv_def)
  have split: "[0..<pmv_num_values v + n] = [0..<pmv_num_values v] @ ?new"
    by (rule upt_add_eq_append) simp
  have put: "put_nulls v n = Some ?v"
    using inv by (simp add: put_nulls_def pmv_inv_def)
  have "filter (\<lambda>k. \<not> byte_bit (cb_data (pmv_validity v)) k) ?new = ?new"
    using clear by (simp add: filter_id_conv)
  then have inv': "pmv_inv w ?v"
    using inv room by (simp add: pmv_inv_def pmv_room_def split)
  have "map (pmv_elem w v) ?new = replicate n None"
    using clear by (intro nth_equalityI) (auto simp: pmv_elem_def)
  moreover have "pmv_elem w ?v = pmv_elem w v" by (rule pmv_elem_cong) simp_all
  ultimately have "pmv_elems w ?v = pmv_elems w v @ replicate n None"
    by (simp add: pmv_elems_def split)
  then show ?thesis by (rule that [OF put inv' _ refl])
qed

text \<open>
  Appending values: the validity bits of the new positions are set, the value buffer is overwritten
  from the first new position on, and the count is moved.
\<close>

lemma pmv_fill:
  assumes inv: "pmv_inv w v" and room: "pmv_room w v (length xs)" and xs: "list_all (\<lambda>x. length x = w) xs"
    and val: "cb_inv b" "cb_len b = cb_len (pmv_validity v)"
      "\<And>k. byte_bit (cb_data b) k \<longleftrightarrow> byte_bit (cb_data (pmv_validity v)) k \<or>
         pmv_num_values v \<le> k \<and> k < pmv_num_values v + length xs"
    and buf: "cb_inv c" "cb_len c = cb_len (pmv_values v)"
      "cb_data c = overwrite (cb_data (pmv_values v)) (pmv_num_values v * w) (concat xs)"
    and v': "v' = PMV (pmv_type v) (pmv_num_values v + length xs) (pmv_num_nulls v) b c ch d"
  shows "pmv_inv w v'" and "pmv_elems w v' = pmv_elems w v @ map Some xs"
proof -
  let ?n = "pmv_num_values v"
  let ?new = "[?n..<?n + length xs]"
  have clear: "\<not> byte_bit (cb_data (pmv_validity v)) k" if "?n \<le> k" for k
    using inv that by (simp add: pmv_inv_def)
  have nw: "?n * w \<le> length (cb_data (pmv_values v))" using inv by (simp add: pmv_inv_def cb_inv_def)
  have split: "[0..<?n + length xs] = [0..<?n] @ ?new"
    by (rule upt_add_eq_append) simp
  have old: "filter (\<lambda>k. \<not> byte_bit (cb_data b) k) [0..<?n] =
      filter (\<lambda>k. \<not> byte_bit (cb_data (pmv_validity v)) k) [0..<?n]"
    by (rule filter_cong) (auto simp: val(3))
  have new: "filter (\<lambda>k. \<not> byte_bit (cb_data b) k) ?new = []" by (auto simp: filter_empty_conv val(3))
  have "\<not> byte_bit (cb_data b) k" if "?n + length xs \<le> k" for k using that clear by (simp add: val(3))
  then show "pmv_inv w v'"
    using inv room val(1,2) buf(1,2) by (simp add: pmv_inv_def pmv_room_def v' split old new)
  have "pmv_elem w v' k = pmv_elem w v k" if "k < ?n" for k
  proof -
    have "k * w + w \<le> ?n * w" using that by (metis Suc_leI add.commute mult_Suc mult_le_mono1)
    then show ?thesis
      using that nw by (simp add: pmv_elem_def v' val(3) buf(3) take_drop_overwrite_before)
  qed
  moreover have "pmv_elem w v' (?n + j) = Some (xs ! j)" if j: "j < length xs" for j
  proof -
    have "j * w + w \<le> length (concat xs)"
      using j length_concat_blocks [OF xs] by (metis Suc_leI add.commute mult_Suc mult_le_mono1)
    then show ?thesis
      using j nw take_drop_overwrite_inside [of "j * w" w "concat xs" "?n * w" "cb_data (pmv_values v)"]
      by (simp add: pmv_elem_def v' val(3) buf(3) take_drop_concat_blocks [OF xs] add_mult_distrib)
  qed
  then have "map (pmv_elem w v') ?new = map Some xs" by (intro nth_equalityI) auto
  ultimately show "pmv_elems w v' = pmv_elems w v @ map Some xs"
    by (simp add: pmv_elems_def v' split)
qed

text \<open>A new vector of fixed-width elements is empty and has room for its capacity.\<close>

lemma pmv_new_spec:
  assumes cap: "0 < cap" and w: "pmv_bit_width ty = Some (8 * w)" "0 < w" and nb: "\<not> is_binary_type ty"
    and big: "cap * (8 * w) + 64 \<le> 2 ^ 64"
  obtains v where "pmv_new cap ty = Some v" and "pmv_inv w v" and "pmv_elems w v = []" and "pmv_room w v cap"
proof -
  have c8: "cap \<le> 8 * div_ceil cap 8" by (rule div_ceil_mult_ge) simp
  have le: "cap \<le> cap * (8 * w)" "cap * w \<le> cap * (8 * w)" using w(2) by simp_all
  have "div_ceil cap 8 \<le> cap" using cap unfolding div_ceil_8 by linarith
  then have "div_ceil cap 8 + 64 \<le> cap * (8 * w) + 64" using le(1) by (intro add_right_mono) (rule le_trans)
  then have small: "div_ceil cap 8 + 64 \<le> 2 ^ 64" using big by (rule le_trans)
  have pos: "0 < div_ceil cap 8" using cap by (intro div_ceil_pos) simp_all
  obtain b where b: "cb_new (div_ceil cap 8) = Some b" "cb_inv b"
    "div_ceil cap 8 \<le> cb_len b" "cb_len b < div_ceil cap 8 + 64" "cb_data b = replicate (cb_len b) 0"
    "cb_strong_count b = 1" by (rule cb_new_spec [OF pos small])
  have cw: "div_ceil (cap * (8 * w)) 8 = cap * w" by (simp add: div_ceil_8)
  have "cap * w + 64 \<le> cap * (8 * w) + 64" using le(2) by (rule add_right_mono)
  then have small: "cap * w + 64 \<le> 2 ^ 64" using big by (rule le_trans)
  have pos: "0 < cap * w" using cap w(2) by simp
  obtain c where c: "cb_new (cap * w) = Some c" "cb_inv c" "cap * w \<le> cb_len c" "cb_len c < cap * w + 64"
    "cb_data c = replicate (cb_len c) 0" "cb_strong_count c = 1" by (rule cb_new_spec [OF pos small])
  let ?v = "PMV ty 0 0 b c [] None"
  have "pmv_new cap ty = Some ?v"
    using b(1) c(1) nb w(1)
    by (simp add: pmv_new_def new_with_bit_width_def new_with_bit_width_at.simps cw is_binary_type_def)
  moreover have "pmv_inv w ?v" using b(2,5) c(2) nb by (simp add: pmv_inv_def)
  moreover have "pmv_elems w ?v = []" by (simp add: pmv_elems_def)
  moreover have "pmv_room w ?v cap" using b(3) c(3) c8 by (simp add: pmv_room_def)
  ultimately show ?thesis by (rule that)
qed

lemma pmv_new_int32:
  assumes "0 < cap" and "cap * 32 + 64 \<le> 2 ^ 64"
  obtains v where "pmv_new cap Int32 = Some v" and "pmv_inv 4 v" and "pmv_elems 4 v = []" and "pmv_room 4 v cap"
  by (rule pmv_new_spec [of cap Int32 4]) (use assms in \<open>simp_all add: is_binary_type_def\<close>)

subsection \<open>Properties\<close>

text \<open>
  \<open>put_nulls\<close> on a vector of fixed-width elements appends that many nulls, keeps the invariant, and the
  null count stays the number of null elements.
\<close>

theorem put_nulls_appends:
  assumes "pmv_inv w v" and "pmv_room w v n"
  shows "\<exists>v'. put_nulls v n = Some v' \<and> pmv_inv w v' \<and> pmv_elems w v' = pmv_elems w v @ replicate n None \<and>
    pmv_num_nulls v' = length (filter (\<lambda>x. x = None) (pmv_elems w v'))"
  using put_nulls_spec [OF assms] num_nulls_elems by metis

theorem put_nulls_appends_witness:
  "\<exists>v v'. pmv_new 5 Int32 = Some v \<and> put_nulls v 5 = Some v' \<and> pmv_num_nulls v' = 5"
proof -
  obtain v where v: "pmv_new 5 Int32 = Some v" "pmv_inv 4 v" "pmv_elems 4 v = []" "pmv_room 4 v 5"
    by (rule pmv_new_int32 [of 5]) simp_all
  from put_nulls_appends [OF v(2,4)] v show ?thesis by auto
qed

text \<open>
  A new vector of fixed-width elements is empty, keeps the invariant and has room for its capacity.
\<close>

theorem pmv_new_empty:
  assumes "0 < cap" and "pmv_bit_width ty = Some (8 * w)" and "0 < w" and "\<not> is_binary_type ty"
    and "cap * (8 * w) + 64 \<le> 2 ^ 64"
  shows "\<exists>v. pmv_new cap ty = Some v \<and> pmv_inv w v \<and> pmv_elems w v = [] \<and> pmv_room w v cap"
  using pmv_new_spec [OF assms] by metis

theorem pmv_new_empty_witness:
  "\<exists>v. pmv_new 8 (FixedSizeBinary 16) = Some v \<and> pmv_inv 16 v \<and> pmv_elems 16 v = [] \<and> pmv_room 16 v 8"
proof -
  have "pmv_bit_width (FixedSizeBinary 16) = Some (8 * 16)" and "\<not> is_binary_type (FixedSizeBinary 16)" by code_simp+
  then show ?thesis by (intro pmv_new_empty) simp_all
qed

end
