(* ===== verification/Value_Decoder.thy ===== *)
theory Value_Decoder
  imports Mutable_Vector
begin

text \<open>
  The \<open>Decoder\<close> trait of \<open>native/core/src/parquet/read/values.rs\<close> as an interface: three operations
  and the contract its documentation gives them. The relation \<open>vals d xs\<close> of a decoder says that it
  can still deliver the values \<open>xs\<close>, each a block of \<open>width\<close> bytes.
\<close>

text \<open>The vector after a run of values was written behind its last element.\<close>

definition pmv_write :: "nat \<Rightarrow> pmv \<Rightarrow> u8 list list \<Rightarrow> pmv" where
  "pmv_write w v xs = pmv_set_values v ((pmv_values v)
     \<lparr>cb_data := overwrite (cb_data (pmv_values v)) (pmv_num_values v * w) (concat xs)\<rparr>)"

definition pmv_fits :: "nat \<Rightarrow> pmv \<Rightarrow> nat \<Rightarrow> bool" where
  "pmv_fits w v n \<longleftrightarrow> cb_owned (pmv_values v) \<and>
     (pmv_num_values v + n) * w \<le> length (cb_data (pmv_values v))"

text \<open>
  \<open>appended w v ys v'\<close>: the vector \<open>v'\<close> is \<open>v\<close> with the elements \<open>ys\<close> behind it, the invariant kept and
  nothing else changed.
\<close>

definition appended :: "nat \<Rightarrow> pmv \<Rightarrow> u8 list option list \<Rightarrow> pmv \<Rightarrow> bool" where
  "appended w v ys v' \<longleftrightarrow> pmv_inv w v' \<and> pmv_elems w v' = pmv_elems w v @ ys \<and>
     cb_len (pmv_validity v') = cb_len (pmv_validity v) \<and> cb_len (pmv_values v') = cb_len (pmv_values v) \<and>
     pmv_type v' = pmv_type v \<and> pmv_children v' = pmv_children v \<and> pmv_dictionary v' = pmv_dictionary v"

lemma appended_count: "appended w v ys v' \<Longrightarrow> pmv_num_values v' = pmv_num_values v + length ys"
  unfolding appended_def by (metis length_append length_pmv_elems)

lemma appended_refl: "pmv_inv w v \<Longrightarrow> appended w v [] v"
  by (simp add: appended_def)

lemma appended_trans: "appended w v xs v' \<Longrightarrow> appended w v' ys v'' \<Longrightarrow> appended w v (xs @ ys) v''"
  by (simp add: appended_def)

lemma appended_room:
  "appended w v xs v' \<Longrightarrow> pmv_room w v (length xs + n) \<Longrightarrow> pmv_room w v' n"
  using appended_count [of w v xs v'] by (simp add: appended_def pmv_room_def add.assoc)

lemma appended_inv: "appended w v xs v' \<Longrightarrow> pmv_inv w v'"
  by (simp add: appended_def)

lemma pmv_room_fits: "pmv_inv w v \<Longrightarrow> pmv_room w v n \<Longrightarrow> pmv_fits w v n"
  by (auto simp: pmv_inv_def pmv_room_def pmv_fits_def cb_inv_def)

lemma appended_nulls:
  assumes "pmv_inv w v" and "pmv_room w v n"
  obtains v' where "put_nulls v n = Some v'" and "appended w v (replicate n None) v'"
proof -
  obtain v' where "put_nulls v n = Some v'" and "pmv_inv w v'"
    and "pmv_elems w v' = pmv_elems w v @ replicate n None"
    and "v' = pmv_set_counts v (pmv_num_values v + n) (pmv_num_nulls v + n)"
    by (rule put_nulls_spec [OF assms])
  then show ?thesis by (intro that [of v']) (simp_all add: appended_def)
qed

text \<open>Setting the validity bits, writing the values and moving the count appends the values.\<close>

lemma appended_values:
  assumes inv: "pmv_inv w v" and room: "pmv_room w v (length xs)" and xs: "list_all (\<lambda>x. length x = w) xs"
    and upd: "f (cb_data (pmv_validity v)) = Some data" "length data = length (cb_data (pmv_validity v))"
    and bits: "\<And>k. byte_bit data k \<longleftrightarrow> byte_bit (cb_data (pmv_validity v)) k \<or>
      pmv_num_values v \<le> k \<and> k < pmv_num_values v + length xs"
    and b: "b = (pmv_validity v)\<lparr>cb_data := data\<rparr>"
  shows "cb_as_slice_mut (pmv_validity v) f = Some b"
    and "pmv_fits w (pmv_set_validity v b) (length xs)"
    and "appended w v (map Some xs)
      (pmv_set_counts (pmv_write w (pmv_set_validity v b) xs) (pmv_num_values v + length xs) (pmv_num_nulls v))"
proof -
  have owned: "cb_inv (pmv_validity v)" "cb_inv (pmv_values v)" using inv by (auto simp: pmv_inv_def)
  then show "cb_as_slice_mut (pmv_validity v) f = Some b"
    using upd b by (simp add: cb_as_slice_mut_def cb_deref_mut_def cb_inv_def)
  show "pmv_fits w (pmv_set_validity v b) (length xs)"
    using pmv_room_fits [OF inv room] by (simp add: pmv_fits_def)
  let ?c = "(pmv_values v)\<lparr>cb_data := overwrite (cb_data (pmv_values v)) (pmv_num_values v * w) (concat xs)\<rparr>"
  let ?v = "pmv_set_counts (pmv_write w (pmv_set_validity v b) xs) (pmv_num_values v + length xs) (pmv_num_nulls v)"
  have eq: "?v = PMV (pmv_type v) (pmv_num_values v + length xs) (pmv_num_nulls v) b ?c
      (pmv_children v) (pmv_dictionary v)"
    by (simp add: pmv_write_def pmv_updates)
  have len: "pmv_num_values v * w + length (concat xs) \<le> length (cb_data (pmv_values v))"
    using room owned(2) by (simp add: length_concat_blocks [OF xs] pmv_room_def cb_inv_def algebra_simps)
  have "cb_inv b" and bl: "cb_len b = cb_len (pmv_validity v)" and bd: "cb_data b = data"
    using owned(1) upd(2) b by (auto simp: cb_inv_def)
  moreover have "cb_inv ?c" using owned(2) length_overwrite [OF len] by (simp add: cb_inv_def)
  ultimately have "pmv_inv w ?v" and "pmv_elems w ?v = pmv_elems w v @ map Some xs"
    using pmv_fill [OF inv room xs _ bl _ _ _ _ eq] bits by simp_all
  then show "appended w v (map Some xs) ?v"
    using bl by (simp add: appended_def pmv_write_def)
qed

locale value_decoder =
  fixes dec_read :: "'d \<Rightarrow> pmv \<Rightarrow> ('d \<times> pmv) option"
    and dec_read_batch :: "'d \<Rightarrow> pmv \<Rightarrow> nat \<Rightarrow> ('d \<times> pmv) option"
    and dec_skip_batch :: "'d \<Rightarrow> nat \<Rightarrow> 'd option"
    and width :: nat
    and vals :: "'d \<Rightarrow> u8 list list \<Rightarrow> bool"
  assumes vals_width: "vals d xs \<Longrightarrow> list_all (\<lambda>x. length x = width) xs"
    and read_law: "vals d (x # ys) \<Longrightarrow> pmv_fits width v 1 \<Longrightarrow>
      \<exists>d'. dec_read d v = Some (d', pmv_write width v [x]) \<and> vals d' ys"
    and read_batch_law: "vals d (xs @ ys) \<Longrightarrow> pmv_fits width v (length xs) \<Longrightarrow>
      \<exists>d'. dec_read_batch d v (length xs) = Some (d', pmv_write width v xs) \<and> vals d' ys"
    and skip_batch_law: "vals d (xs @ ys) \<Longrightarrow>
      \<exists>d'. dec_skip_batch d (length xs) = Some d' \<and> vals d' ys"
begin

text \<open>Skipping and then reading is reading from further on; one batch is as good as two.\<close>

lemma skip_then_read:
  assumes "vals d (xs @ ys @ zs)" and "pmv_fits width v (length ys)"
  shows "\<exists>d1 d2. dec_skip_batch d (length xs) = Some d1 \<and>
    dec_read_batch d1 v (length ys) = Some (d2, pmv_write width v ys) \<and> vals d2 zs"
  using skip_batch_law [OF assms(1)] read_batch_law [OF _ assms(2)] by blast

end

end
