(* ===== verification/Bit_Packing.thy ===== *)
theory Bit_Packing
  imports Comet_Prelude
begin

text \<open>
  \<open>native/core/src/parquet/util/bit_packing.rs\<close>: the unrolled routines that unpack
  32 bit-packed values of a fixed width. Each \<open>unpack<n>_32\<close> of the source is a
  straight-line program over two pointers. The input pointer is modelled by what it
  reads: \<open>in_buf j\<close> is the word \<open>j\<close> words after the pointer
  (\<open>in_buf.offset(j).read_unaligned()\<close>). The result is the list of the 32 values
  stored through \<open>out\<close>, in order, and how many words the returned input pointer is
  ahead of the given one.

  The theorems at the end say that every one of these routines, and the dispatcher
  \<open>unpack32\<close>, computes the same thing: value \<open>i\<close> consists of the bits
  \<open>i * w, \<dots>, i * w + w - 1\<close> of the input, least significant first.
\<close>

named_theorems unpack_eqs "each unrolled routine against the reference"

definition nullunpacker32 :: "(nat \<Rightarrow> u32) \<Rightarrow> u32 list \<times> nat" where
  "nullunpacker32 in_buf = (replicate 32 0, 0)"

definition unpack1_32 :: "(nat \<Rightarrow> u32) \<Rightarrow> u32 list \<times> nat" where
  "unpack1_32 in_buf = ([
     in_buf 0 AND 1,
     shr (in_buf 0) 1 AND 1,
     shr (in_buf 0) 2 AND 1,
     shr (in_buf 0) 3 AND 1,
     shr (in_buf 0) 4 AND 1,
     shr (in_buf 0) 5 AND 1,
     shr (in_buf 0) 6 AND 1,
     shr (in_buf 0) 7 AND 1,
     shr (in_buf 0) 8 AND 1,
     shr (in_buf 0) 9 AND 1,
     shr (in_buf 0) 10 AND 1,
     shr (in_buf 0) 11 AND 1,
     shr (in_buf 0) 12 AND 1,
     shr (in_buf 0) 13 AND 1,
     shr (in_buf 0) 14 AND 1,
     shr (in_buf 0) 15 AND 1,
     shr (in_buf 0) 16 AND 1,
     shr (in_buf 0) 17 AND 1,
     shr (in_buf 0) 18 AND 1,
     shr (in_buf 0) 19 AND 1,
     shr (in_buf 0) 20 AND 1,
     shr (in_buf 0) 21 AND 1,
     shr (in_buf 0) 22 AND 1,
     shr (in_buf 0) 23 AND 1,
     shr (in_buf 0) 24 AND 1,
     shr (in_buf 0) 25 AND 1,
     shr (in_buf 0) 26 AND 1,
     shr (in_buf 0) 27 AND 1,
     shr (in_buf 0) 28 AND 1,
     shr (in_buf 0) 29 AND 1,
     shr (in_buf 0) 30 AND 1,
     shr (in_buf 0) 31],
     1)"

definition unpack2_32 :: "(nat \<Rightarrow> u32) \<Rightarrow> u32 list \<times> nat" where
  "unpack2_32 in_buf = ([
     in_buf 0 mod shl 1 2,
     shr (in_buf 0) 2 mod shl 1 2,
     shr (in_buf 0) 4 mod shl 1 2,
     shr (in_buf 0) 6 mod shl 1 2,
     shr (in_buf 0) 8 mod shl 1 2,
     shr (in_buf 0) 10 mod shl 1 2,
     shr (in_buf 0) 12 mod shl 1 2,
     shr (in_buf 0) 14 mod shl 1 2,
     shr (in_buf 0) 16 mod shl 1 2,
     shr (in_buf 0) 18 mod shl 1 2,
     shr (in_buf 0) 20 mod shl 1 2,
     shr (in_buf 0) 22 mod shl 1 2,
     shr (in_buf 0) 24 mod shl 1 2,
     shr (in_buf 0) 26 mod shl 1 2,
     shr (in_buf 0) 28 mod shl 1 2,
     shr (in_buf 0) 30,
     in_buf 1 mod shl 1 2,
     shr (in_buf 1) 2 mod shl 1 2,
     shr (in_buf 1) 4 mod shl 1 2,
     shr (in_buf 1) 6 mod shl 1 2,
     shr (in_buf 1) 8 mod shl 1 2,
     shr (in_buf 1) 10 mod shl 1 2,
     shr (in_buf 1) 12 mod shl 1 2,
     shr (in_buf 1) 14 mod shl 1 2,
     shr (in_buf 1) 16 mod shl 1 2,
     shr (in_buf 1) 18 mod shl 1 2,
     shr (in_buf 1) 20 mod shl 1 2,
     shr (in_buf 1) 22 mod shl 1 2,
     shr (in_buf 1) 24 mod shl 1 2,
     shr (in_buf 1) 26 mod shl 1 2,
     shr (in_buf 1) 28 mod shl 1 2,
     shr (in_buf 1) 30],
     2)"

definition unpack3_32 :: "(nat \<Rightarrow> u32) \<Rightarrow> u32 list \<times> nat" where
  "unpack3_32 in_buf = ([
     in_buf 0 mod shl 1 3,
     shr (in_buf 0) 3 mod shl 1 3,
     shr (in_buf 0) 6 mod shl 1 3,
     shr (in_buf 0) 9 mod shl 1 3,
     shr (in_buf 0) 12 mod shl 1 3,
     shr (in_buf 0) 15 mod shl 1 3,
     shr (in_buf 0) 18 mod shl 1 3,
     shr (in_buf 0) 21 mod shl 1 3,
     shr (in_buf 0) 24 mod shl 1 3,
     shr (in_buf 0) 27 mod shl 1 3,
     shr (in_buf 0) 30 OR shl (in_buf 1 mod shl 1 1) (3 - 1),
     shr (in_buf 1) 1 mod shl 1 3,
     shr (in_buf 1) 4 mod shl 1 3,
     shr (in_buf 1) 7 mod shl 1 3,
     shr (in_buf 1) 10 mod shl 1 3,
     shr (in_buf 1) 13 mod shl 1 3,
     shr (in_buf 1) 16 mod shl 1 3,
     shr (in_buf 1) 19 mod shl 1 3,
     shr (in_buf 1) 22 mod shl 1 3,
     shr (in_buf 1) 25 mod shl 1 3,
     shr (in_buf 1) 28 mod shl 1 3,
     shr (in_buf 1) 31 OR shl (in_buf 2 mod shl 1 2) (3 - 2),
     shr (in_buf 2) 2 mod shl 1 3,
     shr (in_buf 2) 5 mod shl 1 3,
     shr (in_buf 2) 8 mod shl 1 3,
     shr (in_buf 2) 11 mod shl 1 3,
     shr (in_buf 2) 14 mod shl 1 3,
     shr (in_buf 2) 17 mod shl 1 3,
     shr (in_buf 2) 20 mod shl 1 3,
     shr (in_buf 2) 23 mod shl 1 3,
     shr (in_buf 2) 26 mod shl 1 3,
     shr (in_buf 2) 29],
     3)"

definition unpack4_32 :: "(nat \<Rightarrow> u32) \<Rightarrow> u32 list \<times> nat" where
  "unpack4_32 in_buf = ([
     in_buf 0 mod shl 1 4,
     shr (in_buf 0) 4 mod shl 1 4,
     shr (in_buf 0) 8 mod shl 1 4,
     shr (in_buf 0) 12 mod shl 1 4,
     shr (in_buf 0) 16 mod shl 1 4,
     shr (in_buf 0) 20 mod shl 1 4,
     shr (in_buf 0) 24 mod shl 1 4,
     shr (in_buf 0) 28 mod shl 1 4,
     in_buf 1 mod shl 1 4,
     shr (in_buf 1) 4 mod shl 1 4,
     shr (in_buf 1) 8 mod shl 1 4,
     shr (in_buf 1) 12 mod shl 1 4,
     shr (in_buf 1) 16 mod shl 1 4,
     shr (in_buf 1) 20 mod shl 1 4,
     shr (in_buf 1) 24 mod shl 1 4,
     shr (in_buf 1) 28 mod shl 1 4,
     in_buf 2 mod shl 1 4,
     shr (in_buf 2) 4 mod shl 1 4,
     shr (in_buf 2) 8 mod shl 1 4,
     shr (in_buf 2) 12 mod shl 1 4,
     shr (in_buf 2) 16 mod shl 1 4,
     shr (in_buf 2) 20 mod shl 1 4,
     shr (in_buf 2) 24 mod shl 1 4,
     shr (in_buf 2) 28 mod shl 1 4,
     in_buf 3 mod shl 1 4,
     shr (in_buf 3) 4 mod shl 1 4,
     shr (in_buf 3) 8 mod shl 1 4,
     shr (in_buf 3) 12 mod shl 1 4,
     shr (in_buf 3) 16 mod shl 1 4,
     shr (in_buf 3) 20 mod shl 1 4,
     shr (in_buf 3) 24 mod shl 1 4,
     shr (in_buf 3) 28 mod shl 1 4],
     4)"

definition unpack5_32 :: "(nat \<Rightarrow> u32) \<Rightarrow> u32 list \<times> nat" where
  "unpack5_32 in_buf = ([
     in_buf 0 mod shl 1 5,
     shr (in_buf 0) 5 mod shl 1 5,
     shr (in_buf 0) 10 mod shl 1 5,
     shr (in_buf 0) 15 mod shl 1 5,
     shr (in_buf 0) 20 mod shl 1 5,
     shr (in_buf 0) 25 mod shl 1 5,
     shr (in_buf 0) 30 OR shl (in_buf 1 mod shl 1 3) (5 - 3),
     shr (in_buf 1) 3 mod shl 1 5,
     shr (in_buf 1) 8 mod shl 1 5,
     shr (in_buf 1) 13 mod shl 1 5,
     shr (in_buf 1) 18 mod shl 1 5,
     shr (in_buf 1) 23 mod shl 1 5,
     shr (in_buf 1) 28 mod shl 1 5 OR shl (in_buf 2 mod shl 1 1) (5 - 1),
     shr (in_buf 2) 1 mod shl 1 5,
     shr (in_buf 2) 6 mod shl 1 5,
     shr (in_buf 2) 11 mod shl 1 5,
     shr (in_buf 2) 16 mod shl 1 5,
     shr (in_buf 2) 21 mod shl 1 5,
     shr (in_buf 2) 26 mod shl 1 5,
     shr (in_buf 2) 31 OR shl (in_buf 3 mod shl 1 4) (5 - 4),
     shr (in_buf 3) 4 mod shl 1 5,
     shr (in_buf 3) 9 mod shl 1 5,
     shr (in_buf 3) 14 mod shl 1 5,
     shr (in_buf 3) 19 mod shl 1 5,
     shr (in_buf 3) 24 mod shl 1 5,
     shr (in_buf 3) 29 OR shl (in_buf 4 mod shl 1 2) (5 - 2),
     shr (in_buf 4) 2 mod shl 1 5,
     shr (in_buf 4) 7 mod shl 1 5,
     shr (in_buf 4) 12 mod shl 1 5,
     shr (in_buf 4) 17 mod shl 1 5,
     shr (in_buf 4) 22 mod shl 1 5,
     shr (in_buf 4) 27],
     5)"

definition unpack6_32 :: "(nat \<Rightarrow> u32) \<Rightarrow> u32 list \<times> nat" where
  "unpack6_32 in_buf = ([
     in_buf 0 mod shl 1 6,
     shr (in_buf 0) 6 mod shl 1 6,
     shr (in_buf 0) 12 mod shl 1 6,
     shr (in_buf 0) 18 mod shl 1 6,
     shr (in_buf 0) 24 mod shl 1 6,
     shr (in_buf 0) 30 OR shl (in_buf 1 mod shl 1 4) (6 - 4),
     shr (in_buf 1) 4 mod shl 1 6,
     shr (in_buf 1) 10 mod shl 1 6,
     shr (in_buf 1) 16 mod shl 1 6,
     shr (in_buf 1) 22 mod shl 1 6,
     shr (in_buf 1) 28 OR shl (in_buf 2 mod shl 1 2) (6 - 2),
     shr (in_buf 2) 2 mod shl 1 6,
     shr (in_buf 2) 8 mod shl 1 6,
     shr (in_buf 2) 14 mod shl 1 6,
     shr (in_buf 2) 20 mod shl 1 6,
     shr (in_buf 2) 26,
     in_buf 3 mod shl 1 6,
     shr (in_buf 3) 6 mod shl 1 6,
     shr (in_buf 3) 12 mod shl 1 6,
     shr (in_buf 3) 18 mod shl 1 6,
     shr (in_buf 3) 24 mod shl 1 6,
     shr (in_buf 3) 30 OR shl (in_buf 4 mod shl 1 4) (6 - 4),
     shr (in_buf 4) 4 mod shl 1 6,
     shr (in_buf 4) 10 mod shl 1 6,
     shr (in_buf 4) 16 mod shl 1 6,
     shr (in_buf 4) 22 mod shl 1 6,
     shr (in_buf 4) 28 OR shl (in_buf 5 mod shl 1 2) (6 - 2),
     shr (in_buf 5) 2 mod shl 1 6,
     shr (in_buf 5) 8 mod shl 1 6,
     shr (in_buf 5) 14 mod shl 1 6,
     shr (in_buf 5) 20 mod shl 1 6,
     shr (in_buf 5) 26],
     6)"

definition unpack7_32 :: "(nat \<Rightarrow> u32) \<Rightarrow> u32 list \<times> nat" where
  "unpack7_32 in_buf = ([
     in_buf 0 mod shl 1 7,
     shr (in_buf 0) 7 mod shl 1 7,
     shr (in_buf 0) 14 mod shl 1 7,
     shr (in_buf 0) 21 mod shl 1 7,
     shr (in_buf 0) 28 OR shl (in_buf 1 mod shl 1 3) (7 - 3),
     shr (in_buf 1) 3 mod shl 1 7,
     shr (in_buf 1) 10 mod shl 1 7,
     shr (in_buf 1) 17 mod shl 1 7,
     shr (in_buf 1) 24 mod shl 1 7,
     shr (in_buf 1) 31 OR shl (in_buf 2 mod shl 1 6) (7 - 6),
     shr (in_buf 2) 6 mod shl 1 7,
     shr (in_buf 2) 13 mod shl 1 7,
     shr (in_buf 2) 20 mod shl 1 7,
     shr (in_buf 2) 27 OR shl (in_buf 3 mod shl 1 2) (7 - 2),
     shr (in_buf 3) 2 mod shl 1 7,
     shr (in_buf 3) 9 mod shl 1 7,
     shr (in_buf 3) 16 mod shl 1 7,
     shr (in_buf 3) 23 mod shl 1 7,
     shr (in_buf 3) 30 OR shl (in_buf 4 mod shl 1 5) (7 - 5),
     shr (in_buf 4) 5 mod shl 1 7,
     shr (in_buf 4) 12 mod shl 1 7,
     shr (in_buf 4) 19 mod shl 1 7,
     shr (in_buf 4) 26 OR shl (in_buf 5 mod shl 1 1) (7 - 1),
     shr (in_buf 5) 1 mod shl 1 7,
     shr (in_buf 5) 8 mod shl 1 7,
     shr (in_buf 5) 15 mod shl 1 7,
     shr (in_buf 5) 22 mod shl 1 7,
     shr (in_buf 5) 29 OR shl (in_buf 6 mod shl 1 4) (7 - 4),
     shr (in_buf 6) 4 mod shl 1 7,
     shr (in_buf 6) 11 mod shl 1 7,
     shr (in_buf 6) 18 mod shl 1 7,
     shr (in_buf 6) 25],
     7)"

definition unpack8_32 :: "(nat \<Rightarrow> u32) \<Rightarrow> u32 list \<times> nat" where
  "unpack8_32 in_buf = ([
     in_buf 0 mod shl 1 8,
     shr (in_buf 0) 8 mod shl 1 8,
     shr (in_buf 0) 16 mod shl 1 8,
     shr (in_buf 0) 24,
     in_buf 1 mod shl 1 8,
     shr (in_buf 1) 8 mod shl 1 8,
     shr (in_buf 1) 16 mod shl 1 8,
     shr (in_buf 1) 24,
     in_buf 2 mod shl 1 8,
     shr (in_buf 2) 8 mod shl 1 8,
     shr (in_buf 2) 16 mod shl 1 8,
     shr (in_buf 2) 24,
     in_buf 3 mod shl 1 8,
     shr (in_buf 3) 8 mod shl 1 8,
     shr (in_buf 3) 16 mod shl 1 8,
     shr (in_buf 3) 24,
     in_buf 4 mod shl 1 8,
     shr (in_buf 4) 8 mod shl 1 8,
     shr (in_buf 4) 16 mod shl 1 8,
     shr (in_buf 4) 24,
     in_buf 5 mod shl 1 8,
     shr (in_buf 5) 8 mod shl 1 8,
     shr (in_buf 5) 16 mod shl 1 8,
     shr (in_buf 5) 24,
     in_buf 6 mod shl 1 8,
     shr (in_buf 6) 8 mod shl 1 8,
     shr (in_buf 6) 16 mod shl 1 8,
     shr (in_buf 6) 24,
     in_buf 7 mod shl 1 8,
     shr (in_buf 7) 8 mod shl 1 8,
     shr (in_buf 7) 16 mod shl 1 8,
     shr (in_buf 7) 24],
     8)"

definition unpack9_32 :: "(nat \<Rightarrow> u32) \<Rightarrow> u32 list \<times> nat" where
  "unpack9_32 in_buf = ([
     in_buf 0 mod shl 1 9,
     shr (in_buf 0) 9 mod shl 1 9,
     shr (in_buf 0) 18 mod shl 1 9,
     shr (in_buf 0) 27 OR shl (in_buf 1 mod shl 1 4) (9 - 4),
     shr (in_buf 1) 4 mod shl 1 9,
     shr (in_buf 1) 13 mod shl 1 9,
     shr (in_buf 1) 22 mod shl 1 9,
     shr (in_buf 1) 31 OR shl (in_buf 2 mod shl 1 8) (9 - 8),
     shr (in_buf 2) 8 mod shl 1 9,
     shr (in_buf 2) 17 mod shl 1 9,
     shr (in_buf 2) 26 OR shl (in_buf 3 mod shl 1 3) (9 - 3),
     shr (in_buf 3) 3 mod shl 1 9,
     shr (in_buf 3) 12 mod shl 1 9,
     shr (in_buf 3) 21 mod shl 1 9,
     shr (in_buf 3) 30 OR shl (in_buf 4 mod shl 1 7) (9 - 7),
     shr (in_buf 4) 7 mod shl 1 9,
     shr (in_buf 4) 16 mod shl 1 9,
     shr (in_buf 4) 25 OR shl (in_buf 5 mod shl 1 2) (9 - 2),
     shr (in_buf 5) 2 mod shl 1 9,
     shr (in_buf 5) 11 mod shl 1 9,
     shr (in_buf 5) 20 mod shl 1 9,
     shr (in_buf 5) 29 OR shl (in_buf 6 mod shl 1 6) (9 - 6),
     shr (in_buf 6) 6 mod shl 1 9,
     shr (in_buf 6) 15 mod shl 1 9,
     shr (in_buf 6) 24 OR shl (in_buf 7 mod shl 1 1) (9 - 1),
     shr (in_buf 7) 1 mod shl 1 9,
     shr (in_buf 7) 10 mod shl 1 9,
     shr (in_buf 7) 19 mod shl 1 9,
     shr (in_buf 7) 28 OR shl (in_buf 8 mod shl 1 5) (9 - 5),
     shr (in_buf 8) 5 mod shl 1 9,
     shr (in_buf 8) 14 mod shl 1 9,
     shr (in_buf 8) 23],
     9)"

definition unpack10_32 :: "(nat \<Rightarrow> u32) \<Rightarrow> u32 list \<times> nat" where
  "unpack10_32 in_buf = ([
     in_buf 0 mod shl 1 10,
     shr (in_buf 0) 10 mod shl 1 10,
     shr (in_buf 0) 20 mod shl 1 10,
     shr (in_buf 0) 30 OR shl (in_buf 1 mod shl 1 8) (10 - 8),
     shr (in_buf 1) 8 mod shl 1 10,
     shr (in_buf 1) 18 mod shl 1 10,
     shr (in_buf 1) 28 OR shl (in_buf 2 mod shl 1 6) (10 - 6),
     shr (in_buf 2) 6 mod shl 1 10,
     shr (in_buf 2) 16 mod shl 1 10,
     shr (in_buf 2) 26 OR shl (in_buf 3 mod shl 1 4) (10 - 4),
     shr (in_buf 3) 4 mod shl 1 10,
     shr (in_buf 3) 14 mod shl 1 10,
     shr (in_buf 3) 24 OR shl (in_buf 4 mod shl 1 2) (10 - 2),
     shr (in_buf 4) 2 mod shl 1 10,
     shr (in_buf 4) 12 mod shl 1 10,
     shr (in_buf 4) 22,
     in_buf 5 mod shl 1 10,
     shr (in_buf 5) 10 mod shl 1 10,
     shr (in_buf 5) 20 mod shl 1 10,
     shr (in_buf 5) 30 OR shl (in_buf 6 mod shl 1 8) (10 - 8),
     shr (in_buf 6) 8 mod shl 1 10,
     shr (in_buf 6) 18 mod shl 1 10,
     shr (in_buf 6) 28 OR shl (in_buf 7 mod shl 1 6) (10 - 6),
     shr (in_buf 7) 6 mod shl 1 10,
     shr (in_buf 7) 16 mod shl 1 10,
     shr (in_buf 7) 26 OR shl (in_buf 8 mod shl 1 4) (10 - 4),
     shr (in_buf 8) 4 mod shl 1 10,
     shr (in_buf 8) 14 mod shl 1 10,
     shr (in_buf 8) 24 OR shl (in_buf 9 mod shl 1 2) (10 - 2),
     shr (in_buf 9) 2 mod shl 1 10,
     shr (in_buf 9) 12 mod shl 1 10,
     shr (in_buf 9) 22],
     10)"

definition unpack11_32 :: "(nat \<Rightarrow> u32) \<Rightarrow> u32 list \<times> nat" where
  "unpack11_32 in_buf = ([
     in_buf 0 mod shl 1 11,
     shr (in_buf 0) 11 mod shl 1 11,
     shr (in_buf 0) 22 OR shl (in_buf 1 mod shl 1 1) (11 - 1),
     shr (in_buf 1) 1 mod shl 1 11,
     shr (in_buf 1) 12 mod shl 1 11,
     shr (in_buf 1) 23 OR shl (in_buf 2 mod shl 1 2) (11 - 2),
     shr (in_buf 2) 2 mod shl 1 11,
     shr (in_buf 2) 13 mod shl 1 11,
     shr (in_buf 2) 24 OR shl (in_buf 3 mod shl 1 3) (11 - 3),
     shr (in_buf 3) 3 mod shl 1 11,
     shr (in_buf 3) 14 mod shl 1 11,
     shr (in_buf 3) 25 OR shl (in_buf 4 mod shl 1 4) (11 - 4),
     shr (in_buf 4) 4 mod shl 1 11,
     shr (in_buf 4) 15 mod shl 1 11,
     shr (in_buf 4) 26 OR shl (in_buf 5 mod shl 1 5) (11 - 5),
     shr (in_buf 5) 5 mod shl 1 11,
     shr (in_buf 5) 16 mod shl 1 11,
     shr (in_buf 5) 27 OR shl (in_buf 6 mod shl 1 6) (11 - 6),
     shr (in_buf 6) 6 mod shl 1 11,
     shr (in_buf 6) 17 mod shl 1 11,
     shr (in_buf 6) 28 OR shl (in_buf 7 mod shl 1 7) (11 - 7),
     shr (in_buf 7) 7 mod shl 1 11,
     shr (in_buf 7) 18 mod shl 1 11,
     shr (in_buf 7) 29 OR shl (in_buf 8 mod shl 1 8) (11 - 8),
     shr (in_buf 8) 8 mod shl 1 11,
     shr (in_buf 8) 19 mod shl 1 11,
     shr (in_buf 8) 30 OR shl (in_buf 9 mod shl 1 9) (11 - 9),
     shr (in_buf 9) 9 mod shl 1 11,
     shr (in_buf 9) 20 mod shl 1 11,
     shr (in_buf 9) 31 OR shl (in_buf 10 mod shl 1 10) (11 - 10),
     shr (in_buf 10) 10 mod shl 1 11,
     shr (in_buf 10) 21],
     11)"

definition unpack12_32 :: "(nat \<Rightarrow> u32) \<Rightarrow> u32 list \<times> nat" where
  "unpack12_32 in_buf = ([
     in_buf 0 mod shl 1 12,
     shr (in_buf 0) 12 mod shl 1 12,
     shr (in_buf 0) 24 OR shl (in_buf 1 mod shl 1 4) (12 - 4),
     shr (in_buf 1) 4 mod shl 1 12,
     shr (in_buf 1) 16 mod shl 1 12,
     shr (in_buf 1) 28 OR shl (in_buf 2 mod shl 1 8) (12 - 8),
     shr (in_buf 2) 8 mod shl 1 12,
     shr (in_buf 2) 20,
     in_buf 3 mod shl 1 12,
     shr (in_buf 3) 12 mod shl 1 12,
     shr (in_buf 3) 24 OR shl (in_buf 4 mod shl 1 4) (12 - 4),
     shr (in_buf 4) 4 mod shl 1 12,
     shr (in_buf 4) 16 mod shl 1 12,
     shr (in_buf 4) 28 OR shl (in_buf 5 mod shl 1 8) (12 - 8),
     shr (in_buf 5) 8 mod shl 1 12,
     shr (in_buf 5) 20,
     in_buf 6 mod shl 1 12,
     shr (in_buf 6) 12 mod shl 1 12,
     shr (in_buf 6) 24 OR shl (in_buf 7 mod shl 1 4) (12 - 4),
     shr (in_buf 7) 4 mod shl 1 12,
     shr (in_buf 7) 16 mod shl 1 12,
     shr (in_buf 7) 28 OR shl (in_buf 8 mod shl 1 8) (12 - 8),
     shr (in_buf 8) 8 mod shl 1 12,
     shr (in_buf 8) 20,
     in_buf 9 mod shl 1 12,
     shr (in_buf 9) 12 mod shl 1 12,
     shr (in_buf 9) 24 OR shl (in_buf 10 mod shl 1 4) (12 - 4),
     shr (in_buf 10) 4 mod shl 1 12,
     shr (in_buf 10) 16 mod shl 1 12,
     shr (in_buf 10) 28 OR shl (in_buf 11 mod shl 1 8) (12 - 8),
     shr (in_buf 11) 8 mod shl 1 12,
     shr (in_buf 11) 20],
     12)"

definition unpack13_32 :: "(nat \<Rightarrow> u32) \<Rightarrow> u32 list \<times> nat" where
  "unpack13_32 in_buf = ([
     in_buf 0 mod shl 1 13,
     shr (in_buf 0) 13 mod shl 1 13,
     shr (in_buf 0) 26 OR shl (in_buf 1 mod shl 1 7) (13 - 7),
     shr (in_buf 1) 7 mod shl 1 13,
     shr (in_buf 1) 20 OR shl (in_buf 2 mod shl 1 1) (13 - 1),
     shr (in_buf 2) 1 mod shl 1 13,
     shr (in_buf 2) 14 mod shl 1 13,
     shr (in_buf 2) 27 OR shl (in_buf 3 mod shl 1 8) (13 - 8),
     shr (in_buf 3) 8 mod shl 1 13,
     shr (in_buf 3) 21 OR shl (in_buf 4 mod shl 1 2) (13 - 2),
     shr (in_buf 4) 2 mod shl 1 13,
     shr (in_buf 4) 15 mod shl 1 13,
     shr (in_buf 4) 28 OR shl (in_buf 5 mod shl 1 9) (13 - 9),
     shr (in_buf 5) 9 mod shl 1 13,
     shr (in_buf 5) 22 OR shl (in_buf 6 mod shl 1 3) (13 - 3),
     shr (in_buf 6) 3 mod shl 1 13,
     shr (in_buf 6) 16 mod shl 1 13,
     shr (in_buf 6) 29 OR shl (in_buf 7 mod shl 1 10) (13 - 10),
     shr (in_buf 7) 10 mod shl 1 13,
     shr (in_buf 7) 23 OR shl (in_buf 8 mod shl 1 4) (13 - 4),
     shr (in_buf 8) 4 mod shl 1 13,
     shr (in_buf 8) 17 mod shl 1 13,
     shr (in_buf 8) 30 OR shl (in_buf 9 mod shl 1 11) (13 - 11),
     shr (in_buf 9) 11 mod shl 1 13,
     shr (in_buf 9) 24 OR shl (in_buf 10 mod shl 1 5) (13 - 5),
     shr (in_buf 10) 5 mod shl 1 13,
     shr (in_buf 10) 18 mod shl 1 13,
     shr (in_buf 10) 31 OR shl (in_buf 11 mod shl 1 12) (13 - 12),
     shr (in_buf 11) 12 mod shl 1 13,
     shr (in_buf 11) 25 OR shl (in_buf 12 mod shl 1 6) (13 - 6),
     shr (in_buf 12) 6 mod shl 1 13,
     shr (in_buf 12) 19],
     13)"

definition unpack14_32 :: "(nat \<Rightarrow> u32) \<Rightarrow> u32 list \<times> nat" where
  "unpack14_32 in_buf = ([
     in_buf 0 mod shl 1 14,
     shr (in_buf 0) 14 mod shl 1 14,
     shr (in_buf 0) 28 OR shl (in_buf 1 mod shl 1 10) (14 - 10),
     shr (in_buf 1) 10 mod shl 1 14,
     shr (in_buf 1) 24 OR shl (in_buf 2 mod shl 1 6) (14 - 6),
     shr (in_buf 2) 6 mod shl 1 14,
     shr (in_buf 2) 20 OR shl (in_buf 3 mod shl 1 2) (14 - 2),
     shr (in_buf 3) 2 mod shl 1 14,
     shr (in_buf 3) 16 mod shl 1 14,
     shr (in_buf 3) 30 OR shl (in_buf 4 mod shl 1 12) (14 - 12),
     shr (in_buf 4) 12 mod shl 1 14,
     shr (in_buf 4) 26 OR shl (in_buf 5 mod shl 1 8) (14 - 8),
     shr (in_buf 5) 8 mod shl 1 14,
     shr (in_buf 5) 22 OR shl (in_buf 6 mod shl 1 4) (14 - 4),
     shr (in_buf 6) 4 mod shl 1 14,
     shr (in_buf 6) 18,
     in_buf 7 mod shl 1 14,
     shr (in_buf 7) 14 mod shl 1 14,
     shr (in_buf 7) 28 OR shl (in_buf 8 mod shl 1 10) (14 - 10),
     shr (in_buf 8) 10 mod shl 1 14,
     shr (in_buf 8) 24 OR shl (in_buf 9 mod shl 1 6) (14 - 6),
     shr (in_buf 9) 6 mod shl 1 14,
     shr (in_buf 9) 20 OR shl (in_buf 10 mod shl 1 2) (14 - 2),
     shr (in_buf 10) 2 mod shl 1 14,
     shr (in_buf 10) 16 mod shl 1 14,
     shr (in_buf 10) 30 OR shl (in_buf 11 mod shl 1 12) (14 - 12),
     shr (in_buf 11) 12 mod shl 1 14,
     shr (in_buf 11) 26 OR shl (in_buf 12 mod shl 1 8) (14 - 8),
     shr (in_buf 12) 8 mod shl 1 14,
     shr (in_buf 12) 22 OR shl (in_buf 13 mod shl 1 4) (14 - 4),
     shr (in_buf 13) 4 mod shl 1 14,
     shr (in_buf 13) 18],
     14)"

definition unpack15_32 :: "(nat \<Rightarrow> u32) \<Rightarrow> u32 list \<times> nat" where
  "unpack15_32 in_buf = ([
     in_buf 0 mod shl 1 15,
     shr (in_buf 0) 15 mod shl 1 15,
     shr (in_buf 0) 30 OR shl (in_buf 1 mod shl 1 13) (15 - 13),
     shr (in_buf 1) 13 mod shl 1 15,
     shr (in_buf 1) 28 OR shl (in_buf 2 mod shl 1 11) (15 - 11),
     shr (in_buf 2) 11 mod shl 1 15,
     shr (in_buf 2) 26 OR shl (in_buf 3 mod shl 1 9) (15 - 9),
     shr (in_buf 3) 9 mod shl 1 15,
     shr (in_buf 3) 24 OR shl (in_buf 4 mod shl 1 7) (15 - 7),
     shr (in_buf 4) 7 mod shl 1 15,
     shr (in_buf 4) 22 OR shl (in_buf 5 mod shl 1 5) (15 - 5),
     shr (in_buf 5) 5 mod shl 1 15,
     shr (in_buf 5) 20 OR shl (in_buf 6 mod shl 1 3) (15 - 3),
     shr (in_buf 6) 3 mod shl 1 15,
     shr (in_buf 6) 18 OR shl (in_buf 7 mod shl 1 1) (15 - 1),
     shr (in_buf 7) 1 mod shl 1 15,
     shr (in_buf 7) 16 mod shl 1 15,
     shr (in_buf 7) 31 OR shl (in_buf 8 mod shl 1 14) (15 - 14),
     shr (in_buf 8) 14 mod shl 1 15,
     shr (in_buf 8) 29 OR shl (in_buf 9 mod shl 1 12) (15 - 12),
     shr (in_buf 9) 12 mod shl 1 15,
     shr (in_buf 9) 27 OR shl (in_buf 10 mod shl 1 10) (15 - 10),
     shr (in_buf 10) 10 mod shl 1 15,
     shr (in_buf 10) 25 OR shl (in_buf 11 mod shl 1 8) (15 - 8),
     shr (in_buf 11) 8 mod shl 1 15,
     shr (in_buf 11) 23 OR shl (in_buf 12 mod shl 1 6) (15 - 6),
     shr (in_buf 12) 6 mod shl 1 15,
     shr (in_buf 12) 21 OR shl (in_buf 13 mod shl 1 4) (15 - 4),
     shr (in_buf 13) 4 mod shl 1 15,
     shr (in_buf 13) 19 OR shl (in_buf 14 mod shl 1 2) (15 - 2),
     shr (in_buf 14) 2 mod shl 1 15,
     shr (in_buf 14) 17],
     15)"

definition unpack16_32 :: "(nat \<Rightarrow> u32) \<Rightarrow> u32 list \<times> nat" where
  "unpack16_32 in_buf = ([
     in_buf 0 mod shl 1 16,
     shr (in_buf 0) 16,
     in_buf 1 mod shl 1 16,
     shr (in_buf 1) 16,
     in_buf 2 mod shl 1 16,
     shr (in_buf 2) 16,
     in_buf 3 mod shl 1 16,
     shr (in_buf 3) 16,
     in_buf 4 mod shl 1 16,
     shr (in_buf 4) 16,
     in_buf 5 mod shl 1 16,
     shr (in_buf 5) 16,
     in_buf 6 mod shl 1 16,
     shr (in_buf 6) 16,
     in_buf 7 mod shl 1 16,
     shr (in_buf 7) 16,
     in_buf 8 mod shl 1 16,
     shr (in_buf 8) 16,
     in_buf 9 mod shl 1 16,
     shr (in_buf 9) 16,
     in_buf 10 mod shl 1 16,
     shr (in_buf 10) 16,
     in_buf 11 mod shl 1 16,
     shr (in_buf 11) 16,
     in_buf 12 mod shl 1 16,
     shr (in_buf 12) 16,
     in_buf 13 mod shl 1 16,
     shr (in_buf 13) 16,
     in_buf 14 mod shl 1 16,
     shr (in_buf 14) 16,
     in_buf 15 mod shl 1 16,
     shr (in_buf 15) 16],
     16)"

definition unpack17_32 :: "(nat \<Rightarrow> u32) \<Rightarrow> u32 list \<times> nat" where
  "unpack17_32 in_buf = ([
     in_buf 0 mod shl 1 17,
     shr (in_buf 0) 17 OR shl (in_buf 1 mod shl 1 2) (17 - 2),
     shr (in_buf 1) 2 mod shl 1 17,
     shr (in_buf 1) 19 OR shl (in_buf 2 mod shl 1 4) (17 - 4),
     shr (in_buf 2) 4 mod shl 1 17,
     shr (in_buf 2) 21 OR shl (in_buf 3 mod shl 1 6) (17 - 6),
     shr (in_buf 3) 6 mod shl 1 17,
     shr (in_buf 3) 23 OR shl (in_buf 4 mod shl 1 8) (17 - 8),
     shr (in_buf 4) 8 mod shl 1 17,
     shr (in_buf 4) 25 OR shl (in_buf 5 mod shl 1 10) (17 - 10),
     shr (in_buf 5) 10 mod shl 1 17,
     shr (in_buf 5) 27 OR shl (in_buf 6 mod shl 1 12) (17 - 12),
     shr (in_buf 6) 12 mod shl 1 17,
     shr (in_buf 6) 29 OR shl (in_buf 7 mod shl 1 14) (17 - 14),
     shr (in_buf 7) 14 mod shl 1 17,
     shr (in_buf 7) 31 OR shl (in_buf 8 mod shl 1 16) (17 - 16),
     shr (in_buf 8) 16 OR shl (in_buf 9 mod shl 1 1) (17 - 1),
     shr (in_buf 9) 1 mod shl 1 17,
     shr (in_buf 9) 18 OR shl (in_buf 10 mod shl 1 3) (17 - 3),
     shr (in_buf 10) 3 mod shl 1 17,
     shr (in_buf 10) 20 OR shl (in_buf 11 mod shl 1 5) (17 - 5),
     shr (in_buf 11) 5 mod shl 1 17,
     shr (in_buf 11) 22 OR shl (in_buf 12 mod shl 1 7) (17 - 7),
     shr (in_buf 12) 7 mod shl 1 17,
     shr (in_buf 12) 24 OR shl (in_buf 13 mod shl 1 9) (17 - 9),
     shr (in_buf 13) 9 mod shl 1 17,
     shr (in_buf 13) 26 OR shl (in_buf 14 mod shl 1 11) (17 - 11),
     shr (in_buf 14) 11 mod shl 1 17,
     shr (in_buf 14) 28 OR shl (in_buf 15 mod shl 1 13) (17 - 13),
     shr (in_buf 15) 13 mod shl 1 17,
     shr (in_buf 15) 30 OR shl (in_buf 16 mod shl 1 15) (17 - 15),
     shr (in_buf 16) 15],
     17)"

definition unpack18_32 :: "(nat \<Rightarrow> u32) \<Rightarrow> u32 list \<times> nat" where
  "unpack18_32 in_buf = ([
     in_buf 0 mod shl 1 18,
     shr (in_buf 0) 18 OR shl (in_buf 1 mod shl 1 4) (18 - 4),
     shr (in_buf 1) 4 mod shl 1 18,
     shr (in_buf 1) 22 OR shl (in_buf 2 mod shl 1 8) (18 - 8),
     shr (in_buf 2) 8 mod shl 1 18,
     shr (in_buf 2) 26 OR shl (in_buf 3 mod shl 1 12) (18 - 12),
     shr (in_buf 3) 12 mod shl 1 18,
     shr (in_buf 3) 30 OR shl (in_buf 4 mod shl 1 16) (18 - 16),
     shr (in_buf 4) 16 OR shl (in_buf 5 mod shl 1 2) (18 - 2),
     shr (in_buf 5) 2 mod shl 1 18,
     shr (in_buf 5) 20 OR shl (in_buf 6 mod shl 1 6) (18 - 6),
     shr (in_buf 6) 6 mod shl 1 18,
     shr (in_buf 6) 24 OR shl (in_buf 7 mod shl 1 10) (18 - 10),
     shr (in_buf 7) 10 mod shl 1 18,
     shr (in_buf 7) 28 OR shl (in_buf 8 mod shl 1 14) (18 - 14),
     shr (in_buf 8) 14,
     in_buf 9 mod shl 1 18,
     shr (in_buf 9) 18 OR shl (in_buf 10 mod shl 1 4) (18 - 4),
     shr (in_buf 10) 4 mod shl 1 18,
     shr (in_buf 10) 22 OR shl (in_buf 11 mod shl 1 8) (18 - 8),
     shr (in_buf 11) 8 mod shl 1 18,
     shr (in_buf 11) 26 OR shl (in_buf 12 mod shl 1 12) (18 - 12),
     shr (in_buf 12) 12 mod shl 1 18,
     shr (in_buf 12) 30 OR shl (in_buf 13 mod shl 1 16) (18 - 16),
     shr (in_buf 13) 16 OR shl (in_buf 14 mod shl 1 2) (18 - 2),
     shr (in_buf 14) 2 mod shl 1 18,
     shr (in_buf 14) 20 OR shl (in_buf 15 mod shl 1 6) (18 - 6),
     shr (in_buf 15) 6 mod shl 1 18,
     shr (in_buf 15) 24 OR shl (in_buf 16 mod shl 1 10) (18 - 10),
     shr (in_buf 16) 10 mod shl 1 18,
     shr (in_buf 16) 28 OR shl (in_buf 17 mod shl 1 14) (18 - 14),
     shr (in_buf 17) 14],
     18)"

definition unpack19_32 :: "(nat \<Rightarrow> u32) \<Rightarrow> u32 list \<times> nat" where
  "unpack19_32 in_buf = ([
     in_buf 0 mod shl 1 19,
     shr (in_buf 0) 19 OR shl (in_buf 1 mod shl 1 6) (19 - 6),
     shr (in_buf 1) 6 mod shl 1 19,
     shr (in_buf 1) 25 OR shl (in_buf 2 mod shl 1 12) (19 - 12),
     shr (in_buf 2) 12 mod shl 1 19,
     shr (in_buf 2) 31 OR shl (in_buf 3 mod shl 1 18) (19 - 18),
     shr (in_buf 3) 18 OR shl (in_buf 4 mod shl 1 5) (19 - 5),
     shr (in_buf 4) 5 mod shl 1 19,
     shr (in_buf 4) 24 OR shl (in_buf 5 mod shl 1 11) (19 - 11),
     shr (in_buf 5) 11 mod shl 1 19,
     shr (in_buf 5) 30 OR shl (in_buf 6 mod shl 1 17) (19 - 17),
     shr (in_buf 6) 17 OR shl (in_buf 7 mod shl 1 4) (19 - 4),
     shr (in_buf 7) 4 mod shl 1 19,
     shr (in_buf 7) 23 OR shl (in_buf 8 mod shl 1 10) (19 - 10),
     shr (in_buf 8) 10 mod shl 1 19,
     shr (in_buf 8) 29 OR shl (in_buf 9 mod shl 1 16) (19 - 16),
     shr (in_buf 9) 16 OR shl (in_buf 10 mod shl 1 3) (19 - 3),
     shr (in_buf 10) 3 mod shl 1 19,
     shr (in_buf 10) 22 OR shl (in_buf 11 mod shl 1 9) (19 - 9),
     shr (in_buf 11) 9 mod shl 1 19,
     shr (in_buf 11) 28 OR shl (in_buf 12 mod shl 1 15) (19 - 15),
     shr (in_buf 12) 15 OR shl (in_buf 13 mod shl 1 2) (19 - 2),
     shr (in_buf 13) 2 mod shl 1 19,
     shr (in_buf 13) 21 OR shl (in_buf 14 mod shl 1 8) (19 - 8),
     shr (in_buf 14) 8 mod shl 1 19,
     shr (in_buf 14) 27 OR shl (in_buf 15 mod shl 1 14) (19 - 14),
     shr (in_buf 15) 14 OR shl (in_buf 16 mod shl 1 1) (19 - 1),
     shr (in_buf 16) 1 mod shl 1 19,
     shr (in_buf 16) 20 OR shl (in_buf 17 mod shl 1 7) (19 - 7),
     shr (in_buf 17) 7 mod shl 1 19,
     shr (in_buf 17) 26 OR shl (in_buf 18 mod shl 1 13) (19 - 13),
     shr (in_buf 18) 13],
     19)"

definition unpack20_32 :: "(nat \<Rightarrow> u32) \<Rightarrow> u32 list \<times> nat" where
  "unpack20_32 in_buf = ([
     in_buf 0 mod shl 1 20,
     shr (in_buf 0) 20 OR shl (in_buf 1 mod shl 1 8) (20 - 8),
     shr (in_buf 1) 8 mod shl 1 20,
     shr (in_buf 1) 28 OR shl (in_buf 2 mod shl 1 16) (20 - 16),
     shr (in_buf 2) 16 OR shl (in_buf 3 mod shl 1 4) (20 - 4),
     shr (in_buf 3) 4 mod shl 1 20,
     shr (in_buf 3) 24 OR shl (in_buf 4 mod shl 1 12) (20 - 12),
     shr (in_buf 4) 12,
     in_buf 5 mod shl 1 20,
     shr (in_buf 5) 20 OR shl (in_buf 6 mod shl 1 8) (20 - 8),
     shr (in_buf 6) 8 mod shl 1 20,
     shr (in_buf 6) 28 OR shl (in_buf 7 mod shl 1 16) (20 - 16),
     shr (in_buf 7) 16 OR shl (in_buf 8 mod shl 1 4) (20 - 4),
     shr (in_buf 8) 4 mod shl 1 20,
     shr (in_buf 8) 24 OR shl (in_buf 9 mod shl 1 12) (20 - 12),
     shr (in_buf 9) 12,
     in_buf 10 mod shl 1 20,
     shr (in_buf 10) 20 OR shl (in_buf 11 mod shl 1 8) (20 - 8),
     shr (in_buf 11) 8 mod shl 1 20,
     shr (in_buf 11) 28 OR shl (in_buf 12 mod shl 1 16) (20 - 16),
     shr (in_buf 12) 16 OR shl (in_buf 13 mod shl 1 4) (20 - 4),
     shr (in_buf 13) 4 mod shl 1 20,
     shr (in_buf 13) 24 OR shl (in_buf 14 mod shl 1 12) (20 - 12),
     shr (in_buf 14) 12,
     in_buf 15 mod shl 1 20,
     shr (in_buf 15) 20 OR shl (in_buf 16 mod shl 1 8) (20 - 8),
     shr (in_buf 16) 8 mod shl 1 20,
     shr (in_buf 16) 28 OR shl (in_buf 17 mod shl 1 16) (20 - 16),
     shr (in_buf 17) 16 OR shl (in_buf 18 mod shl 1 4) (20 - 4),
     shr (in_buf 18) 4 mod shl 1 20,
     shr (in_buf 18) 24 OR shl (in_buf 19 mod shl 1 12) (20 - 12),
     shr (in_buf 19) 12],
     20)"

definition unpack21_32 :: "(nat \<Rightarrow> u32) \<Rightarrow> u32 list \<times> nat" where
  "unpack21_32 in_buf = ([
     in_buf 0 mod shl 1 21,
     shr (in_buf 0) 21 OR shl (in_buf 1 mod shl 1 10) (21 - 10),
     shr (in_buf 1) 10 mod shl 1 21,
     shr (in_buf 1) 31 OR shl (in_buf 2 mod shl 1 20) (21 - 20),
     shr (in_buf 2) 20 OR shl (in_buf 3 mod shl 1 9) (21 - 9),
     shr (in_buf 3) 9 mod shl 1 21,
     shr (in_buf 3) 30 OR shl (in_buf 4 mod shl 1 19) (21 - 19),
     shr (in_buf 4) 19 OR shl (in_buf 5 mod shl 1 8) (21 - 8),
     shr (in_buf 5) 8 mod shl 1 21,
     shr (in_buf 5) 29 OR shl (in_buf 6 mod shl 1 18) (21 - 18),
     shr (in_buf 6) 18 OR shl (in_buf 7 mod shl 1 7) (21 - 7),
     shr (in_buf 7) 7 mod shl 1 21,
     shr (in_buf 7) 28 OR shl (in_buf 8 mod shl 1 17) (21 - 17),
     shr (in_buf 8) 17 OR shl (in_buf 9 mod shl 1 6) (21 - 6),
     shr (in_buf 9) 6 mod shl 1 21,
     shr (in_buf 9) 27 OR shl (in_buf 10 mod shl 1 16) (21 - 16),
     shr (in_buf 10) 16 OR shl (in_buf 11 mod shl 1 5) (21 - 5),
     shr (in_buf 11) 5 mod shl 1 21,
     shr (in_buf 11) 26 OR shl (in_buf 12 mod shl 1 15) (21 - 15),
     shr (in_buf 12) 15 OR shl (in_buf 13 mod shl 1 4) (21 - 4),
     shr (in_buf 13) 4 mod shl 1 21,
     shr (in_buf 13) 25 OR shl (in_buf 14 mod shl 1 14) (21 - 14),
     shr (in_buf 14) 14 OR shl (in_buf 15 mod shl 1 3) (21 - 3),
     shr (in_buf 15) 3 mod shl 1 21,
     shr (in_buf 15) 24 OR shl (in_buf 16 mod shl 1 13) (21 - 13),
     shr (in_buf 16) 13 OR shl (in_buf 17 mod shl 1 2) (21 - 2),
     shr (in_buf 17) 2 mod shl 1 21,
     shr (in_buf 17) 23 OR shl (in_buf 18 mod shl 1 12) (21 - 12),
     shr (in_buf 18) 12 OR shl (in_buf 19 mod shl 1 1) (21 - 1),
     shr (in_buf 19) 1 mod shl 1 21,
     shr (in_buf 19) 22 OR shl (in_buf 20 mod shl 1 11) (21 - 11),
     shr (in_buf 20) 11],
     21)"

definition unpack22_32 :: "(nat \<Rightarrow> u32) \<Rightarrow> u32 list \<times> nat" where
  "unpack22_32 in_buf = ([
     in_buf 0 mod shl 1 22,
     shr (in_buf 0) 22 OR shl (in_buf 1 mod shl 1 12) (22 - 12),
     shr (in_buf 1) 12 OR shl (in_buf 2 mod shl 1 2) (22 - 2),
     shr (in_buf 2) 2 mod shl 1 22,
     shr (in_buf 2) 24 OR shl (in_buf 3 mod shl 1 14) (22 - 14),
     shr (in_buf 3) 14 OR shl (in_buf 4 mod shl 1 4) (22 - 4),
     shr (in_buf 4) 4 mod shl 1 22,
     shr (in_buf 4) 26 OR shl (in_buf 5 mod shl 1 16) (22 - 16),
     shr (in_buf 5) 16 OR shl (in_buf 6 mod shl 1 6) (22 - 6),
     shr (in_buf 6) 6 mod shl 1 22,
     shr (in_buf 6) 28 OR shl (in_buf 7 mod shl 1 18) (22 - 18),
     shr (in_buf 7) 18 OR shl (in_buf 8 mod shl 1 8) (22 - 8),
     shr (in_buf 8) 8 mod shl 1 22,
     shr (in_buf 8) 30 OR shl (in_buf 9 mod shl 1 20) (22 - 20),
     shr (in_buf 9) 20 OR shl (in_buf 10 mod shl 1 10) (22 - 10),
     shr (in_buf 10) 10,
     in_buf 11 mod shl 1 22,
     shr (in_buf 11) 22 OR shl (in_buf 12 mod shl 1 12) (22 - 12),
     shr (in_buf 12) 12 OR shl (in_buf 13 mod shl 1 2) (22 - 2),
     shr (in_buf 13) 2 mod shl 1 22,
     shr (in_buf 13) 24 OR shl (in_buf 14 mod shl 1 14) (22 - 14),
     shr (in_buf 14) 14 OR shl (in_buf 15 mod shl 1 4) (22 - 4),
     shr (in_buf 15) 4 mod shl 1 22,
     shr (in_buf 15) 26 OR shl (in_buf 16 mod shl 1 16) (22 - 16),
     shr (in_buf 16) 16 OR shl (in_buf 17 mod shl 1 6) (22 - 6),
     shr (in_buf 17) 6 mod shl 1 22,
     shr (in_buf 17) 28 OR shl (in_buf 18 mod shl 1 18) (22 - 18),
     shr (in_buf 18) 18 OR shl (in_buf 19 mod shl 1 8) (22 - 8),
     shr (in_buf 19) 8 mod shl 1 22,
     shr (in_buf 19) 30 OR shl (in_buf 20 mod shl 1 20) (22 - 20),
     shr (in_buf 20) 20 OR shl (in_buf 21 mod shl 1 10) (22 - 10),
     shr (in_buf 21) 10],
     22)"

definition unpack23_32 :: "(nat \<Rightarrow> u32) \<Rightarrow> u32 list \<times> nat" where
  "unpack23_32 in_buf = ([
     in_buf 0 mod shl 1 23,
     shr (in_buf 0) 23 OR shl (in_buf 1 mod shl 1 14) (23 - 14),
     shr (in_buf 1) 14 OR shl (in_buf 2 mod shl 1 5) (23 - 5),
     shr (in_buf 2) 5 mod shl 1 23,
     shr (in_buf 2) 28 OR shl (in_buf 3 mod shl 1 19) (23 - 19),
     shr (in_buf 3) 19 OR shl (in_buf 4 mod shl 1 10) (23 - 10),
     shr (in_buf 4) 10 OR shl (in_buf 5 mod shl 1 1) (23 - 1),
     shr (in_buf 5) 1 mod shl 1 23,
     shr (in_buf 5) 24 OR shl (in_buf 6 mod shl 1 15) (23 - 15),
     shr (in_buf 6) 15 OR shl (in_buf 7 mod shl 1 6) (23 - 6),
     shr (in_buf 7) 6 mod shl 1 23,
     shr (in_buf 7) 29 OR shl (in_buf 8 mod shl 1 20) (23 - 20),
     shr (in_buf 8) 20 OR shl (in_buf 9 mod shl 1 11) (23 - 11),
     shr (in_buf 9) 11 OR shl (in_buf 10 mod shl 1 2) (23 - 2),
     shr (in_buf 10) 2 mod shl 1 23,
     shr (in_buf 10) 25 OR shl (in_buf 11 mod shl 1 16) (23 - 16),
     shr (in_buf 11) 16 OR shl (in_buf 12 mod shl 1 7) (23 - 7),
     shr (in_buf 12) 7 mod shl 1 23,
     shr (in_buf 12) 30 OR shl (in_buf 13 mod shl 1 21) (23 - 21),
     shr (in_buf 13) 21 OR shl (in_buf 14 mod shl 1 12) (23 - 12),
     shr (in_buf 14) 12 OR shl (in_buf 15 mod shl 1 3) (23 - 3),
     shr (in_buf 15) 3 mod shl 1 23,
     shr (in_buf 15) 26 OR shl (in_buf 16 mod shl 1 17) (23 - 17),
     shr (in_buf 16) 17 OR shl (in_buf 17 mod shl 1 8) (23 - 8),
     shr (in_buf 17) 8 mod shl 1 23,
     shr (in_buf 17) 31 OR shl (in_buf 18 mod shl 1 22) (23 - 22),
     shr (in_buf 18) 22 OR shl (in_buf 19 mod shl 1 13) (23 - 13),
     shr (in_buf 19) 13 OR shl (in_buf 20 mod shl 1 4) (23 - 4),
     shr (in_buf 20) 4 mod shl 1 23,
     shr (in_buf 20) 27 OR shl (in_buf 21 mod shl 1 18) (23 - 18),
     shr (in_buf 21) 18 OR shl (in_buf 22 mod shl 1 9) (23 - 9),
     shr (in_buf 22) 9],
     23)"

definition unpack24_32 :: "(nat \<Rightarrow> u32) \<Rightarrow> u32 list \<times> nat" where
  "unpack24_32 in_buf = ([
     in_buf 0 mod shl 1 24,
     shr (in_buf 0) 24 OR shl (in_buf 1 mod shl 1 16) (24 - 16),
     shr (in_buf 1) 16 OR shl (in_buf 2 mod shl 1 8) (24 - 8),
     shr (in_buf 2) 8,
     in_buf 3 mod shl 1 24,
     shr (in_buf 3) 24 OR shl (in_buf 4 mod shl 1 16) (24 - 16),
     shr (in_buf 4) 16 OR shl (in_buf 5 mod shl 1 8) (24 - 8),
     shr (in_buf 5) 8,
     in_buf 6 mod shl 1 24,
     shr (in_buf 6) 24 OR shl (in_buf 7 mod shl 1 16) (24 - 16),
     shr (in_buf 7) 16 OR shl (in_buf 8 mod shl 1 8) (24 - 8),
     shr (in_buf 8) 8,
     in_buf 9 mod shl 1 24,
     shr (in_buf 9) 24 OR shl (in_buf 10 mod shl 1 16) (24 - 16),
     shr (in_buf 10) 16 OR shl (in_buf 11 mod shl 1 8) (24 - 8),
     shr (in_buf 11) 8,
     in_buf 12 mod shl 1 24,
     shr (in_buf 12) 24 OR shl (in_buf 13 mod shl 1 16) (24 - 16),
     shr (in_buf 13) 16 OR shl (in_buf 14 mod shl 1 8) (24 - 8),
     shr (in_buf 14) 8,
     in_buf 15 mod shl 1 24,
     shr (in_buf 15) 24 OR shl (in_buf 16 mod shl 1 16) (24 - 16),
     shr (in_buf 16) 16 OR shl (in_buf 17 mod shl 1 8) (24 - 8),
     shr (in_buf 17) 8,
     in_buf 18 mod shl 1 24,
     shr (in_buf 18) 24 OR shl (in_buf 19 mod shl 1 16) (24 - 16),
     shr (in_buf 19) 16 OR shl (in_buf 20 mod shl 1 8) (24 - 8),
     shr (in_buf 20) 8,
     in_buf 21 mod shl 1 24,
     shr (in_buf 21) 24 OR shl (in_buf 22 mod shl 1 16) (24 - 16),
     shr (in_buf 22) 16 OR shl (in_buf 23 mod shl 1 8) (24 - 8),
     shr (in_buf 23) 8],
     24)"

definition unpack25_32 :: "(nat \<Rightarrow> u32) \<Rightarrow> u32 list \<times> nat" where
  "unpack25_32 in_buf = ([
     in_buf 0 mod shl 1 25,
     shr (in_buf 0) 25 OR shl (in_buf 1 mod shl 1 18) (25 - 18),
     shr (in_buf 1) 18 OR shl (in_buf 2 mod shl 1 11) (25 - 11),
     shr (in_buf 2) 11 OR shl (in_buf 3 mod shl 1 4) (25 - 4),
     shr (in_buf 3) 4 mod shl 1 25,
     shr (in_buf 3) 29 OR shl (in_buf 4 mod shl 1 22) (25 - 22),
     shr (in_buf 4) 22 OR shl (in_buf 5 mod shl 1 15) (25 - 15),
     shr (in_buf 5) 15 OR shl (in_buf 6 mod shl 1 8) (25 - 8),
     shr (in_buf 6) 8 OR shl (in_buf 7 mod shl 1 1) (25 - 1),
     shr (in_buf 7) 1 mod shl 1 25,
     shr (in_buf 7) 26 OR shl (in_buf 8 mod shl 1 19) (25 - 19),
     shr (in_buf 8) 19 OR shl (in_buf 9 mod shl 1 12) (25 - 12),
     shr (in_buf 9) 12 OR shl (in_buf 10 mod shl 1 5) (25 - 5),
     shr (in_buf 10) 5 mod shl 1 25,
     shr (in_buf 10) 30 OR shl (in_buf 11 mod shl 1 23) (25 - 23),
     shr (in_buf 11) 23 OR shl (in_buf 12 mod shl 1 16) (25 - 16),
     shr (in_buf 12) 16 OR shl (in_buf 13 mod shl 1 9) (25 - 9),
     shr (in_buf 13) 9 OR shl (in_buf 14 mod shl 1 2) (25 - 2),
     shr (in_buf 14) 2 mod shl 1 25,
     shr (in_buf 14) 27 OR shl (in_buf 15 mod shl 1 20) (25 - 20),
     shr (in_buf 15) 20 OR shl (in_buf 16 mod shl 1 13) (25 - 13),
     shr (in_buf 16) 13 OR shl (in_buf 17 mod shl 1 6) (25 - 6),
     shr (in_buf 17) 6 mod shl 1 25,
     shr (in_buf 17) 31 OR shl (in_buf 18 mod shl 1 24) (25 - 24),
     shr (in_buf 18) 24 OR shl (in_buf 19 mod shl 1 17) (25 - 17),
     shr (in_buf 19) 17 OR shl (in_buf 20 mod shl 1 10) (25 - 10),
     shr (in_buf 20) 10 OR shl (in_buf 21 mod shl 1 3) (25 - 3),
     shr (in_buf 21) 3 mod shl 1 25,
     shr (in_buf 21) 28 OR shl (in_buf 22 mod shl 1 21) (25 - 21),
     shr (in_buf 22) 21 OR shl (in_buf 23 mod shl 1 14) (25 - 14),
     shr (in_buf 23) 14 OR shl (in_buf 24 mod shl 1 7) (25 - 7),
     shr (in_buf 24) 7],
     25)"

definition unpack26_32 :: "(nat \<Rightarrow> u32) \<Rightarrow> u32 list \<times> nat" where
  "unpack26_32 in_buf = ([
     in_buf 0 mod shl 1 26,
     shr (in_buf 0) 26 OR shl (in_buf 1 mod shl 1 20) (26 - 20),
     shr (in_buf 1) 20 OR shl (in_buf 2 mod shl 1 14) (26 - 14),
     shr (in_buf 2) 14 OR shl (in_buf 3 mod shl 1 8) (26 - 8),
     shr (in_buf 3) 8 OR shl (in_buf 4 mod shl 1 2) (26 - 2),
     shr (in_buf 4) 2 mod shl 1 26,
     shr (in_buf 4) 28 OR shl (in_buf 5 mod shl 1 22) (26 - 22),
     shr (in_buf 5) 22 OR shl (in_buf 6 mod shl 1 16) (26 - 16),
     shr (in_buf 6) 16 OR shl (in_buf 7 mod shl 1 10) (26 - 10),
     shr (in_buf 7) 10 OR shl (in_buf 8 mod shl 1 4) (26 - 4),
     shr (in_buf 8) 4 mod shl 1 26,
     shr (in_buf 8) 30 OR shl (in_buf 9 mod shl 1 24) (26 - 24),
     shr (in_buf 9) 24 OR shl (in_buf 10 mod shl 1 18) (26 - 18),
     shr (in_buf 10) 18 OR shl (in_buf 11 mod shl 1 12) (26 - 12),
     shr (in_buf 11) 12 OR shl (in_buf 12 mod shl 1 6) (26 - 6),
     shr (in_buf 12) 6,
     in_buf 13 mod shl 1 26,
     shr (in_buf 13) 26 OR shl (in_buf 14 mod shl 1 20) (26 - 20),
     shr (in_buf 14) 20 OR shl (in_buf 15 mod shl 1 14) (26 - 14),
     shr (in_buf 15) 14 OR shl (in_buf 16 mod shl 1 8) (26 - 8),
     shr (in_buf 16) 8 OR shl (in_buf 17 mod shl 1 2) (26 - 2),
     shr (in_buf 17) 2 mod shl 1 26,
     shr (in_buf 17) 28 OR shl (in_buf 18 mod shl 1 22) (26 - 22),
     shr (in_buf 18) 22 OR shl (in_buf 19 mod shl 1 16) (26 - 16),
     shr (in_buf 19) 16 OR shl (in_buf 20 mod shl 1 10) (26 - 10),
     shr (in_buf 20) 10 OR shl (in_buf 21 mod shl 1 4) (26 - 4),
     shr (in_buf 21) 4 mod shl 1 26,
     shr (in_buf 21) 30 OR shl (in_buf 22 mod shl 1 24) (26 - 24),
     shr (in_buf 22) 24 OR shl (in_buf 23 mod shl 1 18) (26 - 18),
     shr (in_buf 23) 18 OR shl (in_buf 24 mod shl 1 12) (26 - 12),
     shr (in_buf 24) 12 OR shl (in_buf 25 mod shl 1 6) (26 - 6),
     shr (in_buf 25) 6],
     26)"

definition unpack27_32 :: "(nat \<Rightarrow> u32) \<Rightarrow> u32 list \<times> nat" where
  "unpack27_32 in_buf = ([
     in_buf 0 mod shl 1 27,
     shr (in_buf 0) 27 OR shl (in_buf 1 mod shl 1 22) (27 - 22),
     shr (in_buf 1) 22 OR shl (in_buf 2 mod shl 1 17) (27 - 17),
     shr (in_buf 2) 17 OR shl (in_buf 3 mod shl 1 12) (27 - 12),
     shr (in_buf 3) 12 OR shl (in_buf 4 mod shl 1 7) (27 - 7),
     shr (in_buf 4) 7 OR shl (in_buf 5 mod shl 1 2) (27 - 2),
     shr (in_buf 5) 2 mod shl 1 27,
     shr (in_buf 5) 29 OR shl (in_buf 6 mod shl 1 24) (27 - 24),
     shr (in_buf 6) 24 OR shl (in_buf 7 mod shl 1 19) (27 - 19),
     shr (in_buf 7) 19 OR shl (in_buf 8 mod shl 1 14) (27 - 14),
     shr (in_buf 8) 14 OR shl (in_buf 9 mod shl 1 9) (27 - 9),
     shr (in_buf 9) 9 OR shl (in_buf 10 mod shl 1 4) (27 - 4),
     shr (in_buf 10) 4 mod shl 1 27,
     shr (in_buf 10) 31 OR shl (in_buf 11 mod shl 1 26) (27 - 26),
     shr (in_buf 11) 26 OR shl (in_buf 12 mod shl 1 21) (27 - 21),
     shr (in_buf 12) 21 OR shl (in_buf 13 mod shl 1 16) (27 - 16),
     shr (in_buf 13) 16 OR shl (in_buf 14 mod shl 1 11) (27 - 11),
     shr (in_buf 14) 11 OR shl (in_buf 15 mod shl 1 6) (27 - 6),
     shr (in_buf 15) 6 OR shl (in_buf 16 mod shl 1 1) (27 - 1),
     shr (in_buf 16) 1 mod shl 1 27,
     shr (in_buf 16) 28 OR shl (in_buf 17 mod shl 1 23) (27 - 23),
     shr (in_buf 17) 23 OR shl (in_buf 18 mod shl 1 18) (27 - 18),
     shr (in_buf 18) 18 OR shl (in_buf 19 mod shl 1 13) (27 - 13),
     shr (in_buf 19) 13 OR shl (in_buf 20 mod shl 1 8) (27 - 8),
     shr (in_buf 20) 8 OR shl (in_buf 21 mod shl 1 3) (27 - 3),
     shr (in_buf 21) 3 mod shl 1 27,
     shr (in_buf 21) 30 OR shl (in_buf 22 mod shl 1 25) (27 - 25),
     shr (in_buf 22) 25 OR shl (in_buf 23 mod shl 1 20) (27 - 20),
     shr (in_buf 23) 20 OR shl (in_buf 24 mod shl 1 15) (27 - 15),
     shr (in_buf 24) 15 OR shl (in_buf 25 mod shl 1 10) (27 - 10),
     shr (in_buf 25) 10 OR shl (in_buf 26 mod shl 1 5) (27 - 5),
     shr (in_buf 26) 5],
     27)"

definition unpack28_32 :: "(nat \<Rightarrow> u32) \<Rightarrow> u32 list \<times> nat" where
  "unpack28_32 in_buf = ([
     in_buf 0 mod shl 1 28,
     shr (in_buf 0) 28 OR shl (in_buf 1 mod shl 1 24) (28 - 24),
     shr (in_buf 1) 24 OR shl (in_buf 2 mod shl 1 20) (28 - 20),
     shr (in_buf 2) 20 OR shl (in_buf 3 mod shl 1 16) (28 - 16),
     shr (in_buf 3) 16 OR shl (in_buf 4 mod shl 1 12) (28 - 12),
     shr (in_buf 4) 12 OR shl (in_buf 5 mod shl 1 8) (28 - 8),
     shr (in_buf 5) 8 OR shl (in_buf 6 mod shl 1 4) (28 - 4),
     shr (in_buf 6) 4,
     in_buf 7 mod shl 1 28,
     shr (in_buf 7) 28 OR shl (in_buf 8 mod shl 1 24) (28 - 24),
     shr (in_buf 8) 24 OR shl (in_buf 9 mod shl 1 20) (28 - 20),
     shr (in_buf 9) 20 OR shl (in_buf 10 mod shl 1 16) (28 - 16),
     shr (in_buf 10) 16 OR shl (in_buf 11 mod shl 1 12) (28 - 12),
     shr (in_buf 11) 12 OR shl (in_buf 12 mod shl 1 8) (28 - 8),
     shr (in_buf 12) 8 OR shl (in_buf 13 mod shl 1 4) (28 - 4),
     shr (in_buf 13) 4,
     in_buf 14 mod shl 1 28,
     shr (in_buf 14) 28 OR shl (in_buf 15 mod shl 1 24) (28 - 24),
     shr (in_buf 15) 24 OR shl (in_buf 16 mod shl 1 20) (28 - 20),
     shr (in_buf 16) 20 OR shl (in_buf 17 mod shl 1 16) (28 - 16),
     shr (in_buf 17) 16 OR shl (in_buf 18 mod shl 1 12) (28 - 12),
     shr (in_buf 18) 12 OR shl (in_buf 19 mod shl 1 8) (28 - 8),
     shr (in_buf 19) 8 OR shl (in_buf 20 mod shl 1 4) (28 - 4),
     shr (in_buf 20) 4,
     in_buf 21 mod shl 1 28,
     shr (in_buf 21) 28 OR shl (in_buf 22 mod shl 1 24) (28 - 24),
     shr (in_buf 22) 24 OR shl (in_buf 23 mod shl 1 20) (28 - 20),
     shr (in_buf 23) 20 OR shl (in_buf 24 mod shl 1 16) (28 - 16),
     shr (in_buf 24) 16 OR shl (in_buf 25 mod shl 1 12) (28 - 12),
     shr (in_buf 25) 12 OR shl (in_buf 26 mod shl 1 8) (28 - 8),
     shr (in_buf 26) 8 OR shl (in_buf 27 mod shl 1 4) (28 - 4),
     shr (in_buf 27) 4],
     28)"

definition unpack29_32 :: "(nat \<Rightarrow> u32) \<Rightarrow> u32 list \<times> nat" where
  "unpack29_32 in_buf = ([
     in_buf 0 mod shl 1 29,
     shr (in_buf 0) 29 OR shl (in_buf 1 mod shl 1 26) (29 - 26),
     shr (in_buf 1) 26 OR shl (in_buf 2 mod shl 1 23) (29 - 23),
     shr (in_buf 2) 23 OR shl (in_buf 3 mod shl 1 20) (29 - 20),
     shr (in_buf 3) 20 OR shl (in_buf 4 mod shl 1 17) (29 - 17),
     shr (in_buf 4) 17 OR shl (in_buf 5 mod shl 1 14) (29 - 14),
     shr (in_buf 5) 14 OR shl (in_buf 6 mod shl 1 11) (29 - 11),
     shr (in_buf 6) 11 OR shl (in_buf 7 mod shl 1 8) (29 - 8),
     shr (in_buf 7) 8 OR shl (in_buf 8 mod shl 1 5) (29 - 5),
     shr (in_buf 8) 5 OR shl (in_buf 9 mod shl 1 2) (29 - 2),
     shr (in_buf 9) 2 mod shl 1 29,
     shr (in_buf 9) 31 OR shl (in_buf 10 mod shl 1 28) (29 - 28),
     shr (in_buf 10) 28 OR shl (in_buf 11 mod shl 1 25) (29 - 25),
     shr (in_buf 11) 25 OR shl (in_buf 12 mod shl 1 22) (29 - 22),
     shr (in_buf 12) 22 OR shl (in_buf 13 mod shl 1 19) (29 - 19),
     shr (in_buf 13) 19 OR shl (in_buf 14 mod shl 1 16) (29 - 16),
     shr (in_buf 14) 16 OR shl (in_buf 15 mod shl 1 13) (29 - 13),
     shr (in_buf 15) 13 OR shl (in_buf 16 mod shl 1 10) (29 - 10),
     shr (in_buf 16) 10 OR shl (in_buf 17 mod shl 1 7) (29 - 7),
     shr (in_buf 17) 7 OR shl (in_buf 18 mod shl 1 4) (29 - 4),
     shr (in_buf 18) 4 OR shl (in_buf 19 mod shl 1 1) (29 - 1),
     shr (in_buf 19) 1 mod shl 1 29,
     shr (in_buf 19) 30 OR shl (in_buf 20 mod shl 1 27) (29 - 27),
     shr (in_buf 20) 27 OR shl (in_buf 21 mod shl 1 24) (29 - 24),
     shr (in_buf 21) 24 OR shl (in_buf 22 mod shl 1 21) (29 - 21),
     shr (in_buf 22) 21 OR shl (in_buf 23 mod shl 1 18) (29 - 18),
     shr (in_buf 23) 18 OR shl (in_buf 24 mod shl 1 15) (29 - 15),
     shr (in_buf 24) 15 OR shl (in_buf 25 mod shl 1 12) (29 - 12),
     shr (in_buf 25) 12 OR shl (in_buf 26 mod shl 1 9) (29 - 9),
     shr (in_buf 26) 9 OR shl (in_buf 27 mod shl 1 6) (29 - 6),
     shr (in_buf 27) 6 OR shl (in_buf 28 mod shl 1 3) (29 - 3),
     shr (in_buf 28) 3],
     29)"

definition unpack30_32 :: "(nat \<Rightarrow> u32) \<Rightarrow> u32 list \<times> nat" where
  "unpack30_32 in_buf = ([
     in_buf 0 mod shl 1 30,
     shr (in_buf 0) 30 OR shl (in_buf 1 mod shl 1 28) (30 - 28),
     shr (in_buf 1) 28 OR shl (in_buf 2 mod shl 1 26) (30 - 26),
     shr (in_buf 2) 26 OR shl (in_buf 3 mod shl 1 24) (30 - 24),
     shr (in_buf 3) 24 OR shl (in_buf 4 mod shl 1 22) (30 - 22),
     shr (in_buf 4) 22 OR shl (in_buf 5 mod shl 1 20) (30 - 20),
     shr (in_buf 5) 20 OR shl (in_buf 6 mod shl 1 18) (30 - 18),
     shr (in_buf 6) 18 OR shl (in_buf 7 mod shl 1 16) (30 - 16),
     shr (in_buf 7) 16 OR shl (in_buf 8 mod shl 1 14) (30 - 14),
     shr (in_buf 8) 14 OR shl (in_buf 9 mod shl 1 12) (30 - 12),
     shr (in_buf 9) 12 OR shl (in_buf 10 mod shl 1 10) (30 - 10),
     shr (in_buf 10) 10 OR shl (in_buf 11 mod shl 1 8) (30 - 8),
     shr (in_buf 11) 8 OR shl (in_buf 12 mod shl 1 6) (30 - 6),
     shr (in_buf 12) 6 OR shl (in_buf 13 mod shl 1 4) (30 - 4),
     shr (in_buf 13) 4 OR shl (in_buf 14 mod shl 1 2) (30 - 2),
     shr (in_buf 14) 2,
     in_buf 15 mod shl 1 30,
     shr (in_buf 15) 30 OR shl (in_buf 16 mod shl 1 28) (30 - 28),
     shr (in_buf 16) 28 OR shl (in_buf 17 mod shl 1 26) (30 - 26),
     shr (in_buf 17) 26 OR shl (in_buf 18 mod shl 1 24) (30 - 24),
     shr (in_buf 18) 24 OR shl (in_buf 19 mod shl 1 22) (30 - 22),
     shr (in_buf 19) 22 OR shl (in_buf 20 mod shl 1 20) (30 - 20),
     shr (in_buf 20) 20 OR shl (in_buf 21 mod shl 1 18) (30 - 18),
     shr (in_buf 21) 18 OR shl (in_buf 22 mod shl 1 16) (30 - 16),
     shr (in_buf 22) 16 OR shl (in_buf 23 mod shl 1 14) (30 - 14),
     shr (in_buf 23) 14 OR shl (in_buf 24 mod shl 1 12) (30 - 12),
     shr (in_buf 24) 12 OR shl (in_buf 25 mod shl 1 10) (30 - 10),
     shr (in_buf 25) 10 OR shl (in_buf 26 mod shl 1 8) (30 - 8),
     shr (in_buf 26) 8 OR shl (in_buf 27 mod shl 1 6) (30 - 6),
     shr (in_buf 27) 6 OR shl (in_buf 28 mod shl 1 4) (30 - 4),
     shr (in_buf 28) 4 OR shl (in_buf 29 mod shl 1 2) (30 - 2),
     shr (in_buf 29) 2],
     30)"

definition unpack31_32 :: "(nat \<Rightarrow> u32) \<Rightarrow> u32 list \<times> nat" where
  "unpack31_32 in_buf = ([
     in_buf 0 mod shl 1 31,
     shr (in_buf 0) 31 OR shl (in_buf 1 mod shl 1 30) (31 - 30),
     shr (in_buf 1) 30 OR shl (in_buf 2 mod shl 1 29) (31 - 29),
     shr (in_buf 2) 29 OR shl (in_buf 3 mod shl 1 28) (31 - 28),
     shr (in_buf 3) 28 OR shl (in_buf 4 mod shl 1 27) (31 - 27),
     shr (in_buf 4) 27 OR shl (in_buf 5 mod shl 1 26) (31 - 26),
     shr (in_buf 5) 26 OR shl (in_buf 6 mod shl 1 25) (31 - 25),
     shr (in_buf 6) 25 OR shl (in_buf 7 mod shl 1 24) (31 - 24),
     shr (in_buf 7) 24 OR shl (in_buf 8 mod shl 1 23) (31 - 23),
     shr (in_buf 8) 23 OR shl (in_buf 9 mod shl 1 22) (31 - 22),
     shr (in_buf 9) 22 OR shl (in_buf 10 mod shl 1 21) (31 - 21),
     shr (in_buf 10) 21 OR shl (in_buf 11 mod shl 1 20) (31 - 20),
     shr (in_buf 11) 20 OR shl (in_buf 12 mod shl 1 19) (31 - 19),
     shr (in_buf 12) 19 OR shl (in_buf 13 mod shl 1 18) (31 - 18),
     shr (in_buf 13) 18 OR shl (in_buf 14 mod shl 1 17) (31 - 17),
     shr (in_buf 14) 17 OR shl (in_buf 15 mod shl 1 16) (31 - 16),
     shr (in_buf 15) 16 OR shl (in_buf 16 mod shl 1 15) (31 - 15),
     shr (in_buf 16) 15 OR shl (in_buf 17 mod shl 1 14) (31 - 14),
     shr (in_buf 17) 14 OR shl (in_buf 18 mod shl 1 13) (31 - 13),
     shr (in_buf 18) 13 OR shl (in_buf 19 mod shl 1 12) (31 - 12),
     shr (in_buf 19) 12 OR shl (in_buf 20 mod shl 1 11) (31 - 11),
     shr (in_buf 20) 11 OR shl (in_buf 21 mod shl 1 10) (31 - 10),
     shr (in_buf 21) 10 OR shl (in_buf 22 mod shl 1 9) (31 - 9),
     shr (in_buf 22) 9 OR shl (in_buf 23 mod shl 1 8) (31 - 8),
     shr (in_buf 23) 8 OR shl (in_buf 24 mod shl 1 7) (31 - 7),
     shr (in_buf 24) 7 OR shl (in_buf 25 mod shl 1 6) (31 - 6),
     shr (in_buf 25) 6 OR shl (in_buf 26 mod shl 1 5) (31 - 5),
     shr (in_buf 26) 5 OR shl (in_buf 27 mod shl 1 4) (31 - 4),
     shr (in_buf 27) 4 OR shl (in_buf 28 mod shl 1 3) (31 - 3),
     shr (in_buf 28) 3 OR shl (in_buf 29 mod shl 1 2) (31 - 2),
     shr (in_buf 29) 2 OR shl (in_buf 30 mod shl 1 1) (31 - 1),
     shr (in_buf 30) 1],
     31)"

definition unpack32_32 :: "(nat \<Rightarrow> u32) \<Rightarrow> u32 list \<times> nat" where
  "unpack32_32 in_buf = ([
     in_buf 0,
     in_buf 1,
     in_buf 2,
     in_buf 3,
     in_buf 4,
     in_buf 5,
     in_buf 6,
     in_buf 7,
     in_buf 8,
     in_buf 9,
     in_buf 10,
     in_buf 11,
     in_buf 12,
     in_buf 13,
     in_buf 14,
     in_buf 15,
     in_buf 16,
     in_buf 17,
     in_buf 18,
     in_buf 19,
     in_buf 20,
     in_buf 21,
     in_buf 22,
     in_buf 23,
     in_buf 24,
     in_buf 25,
     in_buf 26,
     in_buf 27,
     in_buf 28,
     in_buf 29,
     in_buf 30,
     in_buf 31],
     32)"

text \<open>The dispatcher; widths above 32 are \<open>unimplemented!()\<close>.\<close>

definition unpack32 :: "(nat \<Rightarrow> u32) \<Rightarrow> nat \<Rightarrow> (u32 list \<times> nat) option" where
  "unpack32 in_ptr num_bits =
     (if num_bits = 0 then Some (nullunpacker32 in_ptr)
      else if num_bits = 1 then Some (unpack1_32 in_ptr)
      else if num_bits = 2 then Some (unpack2_32 in_ptr)
      else if num_bits = 3 then Some (unpack3_32 in_ptr)
      else if num_bits = 4 then Some (unpack4_32 in_ptr)
      else if num_bits = 5 then Some (unpack5_32 in_ptr)
      else if num_bits = 6 then Some (unpack6_32 in_ptr)
      else if num_bits = 7 then Some (unpack7_32 in_ptr)
      else if num_bits = 8 then Some (unpack8_32 in_ptr)
      else if num_bits = 9 then Some (unpack9_32 in_ptr)
      else if num_bits = 10 then Some (unpack10_32 in_ptr)
      else if num_bits = 11 then Some (unpack11_32 in_ptr)
      else if num_bits = 12 then Some (unpack12_32 in_ptr)
      else if num_bits = 13 then Some (unpack13_32 in_ptr)
      else if num_bits = 14 then Some (unpack14_32 in_ptr)
      else if num_bits = 15 then Some (unpack15_32 in_ptr)
      else if num_bits = 16 then Some (unpack16_32 in_ptr)
      else if num_bits = 17 then Some (unpack17_32 in_ptr)
      else if num_bits = 18 then Some (unpack18_32 in_ptr)
      else if num_bits = 19 then Some (unpack19_32 in_ptr)
      else if num_bits = 20 then Some (unpack20_32 in_ptr)
      else if num_bits = 21 then Some (unpack21_32 in_ptr)
      else if num_bits = 22 then Some (unpack22_32 in_ptr)
      else if num_bits = 23 then Some (unpack23_32 in_ptr)
      else if num_bits = 24 then Some (unpack24_32 in_ptr)
      else if num_bits = 25 then Some (unpack25_32 in_ptr)
      else if num_bits = 26 then Some (unpack26_32 in_ptr)
      else if num_bits = 27 then Some (unpack27_32 in_ptr)
      else if num_bits = 28 then Some (unpack28_32 in_ptr)
      else if num_bits = 29 then Some (unpack29_32 in_ptr)
      else if num_bits = 30 then Some (unpack30_32 in_ptr)
      else if num_bits = 31 then Some (unpack31_32 in_ptr)
      else if num_bits = 32 then Some (unpack32_32 in_ptr)
      else None)"

subsection \<open>The reference: one value at a time\<close>

text \<open>Value \<open>i\<close> of width \<open>w\<close>, from the one or two words that hold its bits.\<close>

definition unpack_value :: "nat \<Rightarrow> (nat \<Rightarrow> u32) \<Rightarrow> nat \<Rightarrow> u32" where
  "unpack_value w r i =
     (let j = i * w div 32; sh = i * w mod 32 in
      if sh + w < 32 then take_bit w (shr (r j) sh)
      else if sh + w = 32 then shr (r j) sh
      else shr (r j) sh OR shl (take_bit (sh + w - 32) (r (Suc j))) (32 - sh))"

lemma mod_shl_1 [simp]: "n < LENGTH('a) \<Longrightarrow> x mod shl 1 n = take_bit n (x :: 'a::len word)"
  by (simp add: shl_def push_bit_eq_mult take_bit_eq_mod)

lemma and_1_eq_take_bit: "x AND 1 = take_bit (Suc 0) (x :: 'a::len word)"
  by (simp add: take_bit_eq_mask)

lemma upt_0_32:
  "[0..<32] = [0, 1, 2, 3, 4, 5, 6, 7, 8, 9, 10, 11, 12, 13, 14, 15, 16, 17, 18, 19, 20,
     21, 22, 23, 24, 25, 26, 27, 28, 29, 30, 31 :: nat]"
  by (simp add: upt_rec)

lemma take_bit_shr_top:
  "LENGTH('a) \<le> n + w \<Longrightarrow> take_bit w (shr x n) = shr (x :: 'a::len word) n"
  by (rule bit_word_eqI) (auto simp: bit_simps dest: bit_imp_le_length)

lemma Suc_Suc_0_eq_2: "Suc (Suc 0) = 2"
  by simp

lemmas unpack_simps =
  unpack_value_def upt_0_32 and_1_eq_take_bit take_bit_shr_top Suc_Suc_0_eq_2

subsection \<open>Each unrolled routine computes the reference\<close>

lemma unpack1_32_eq [unpack_eqs]:
  "unpack1_32 r = (map (unpack_value 1 r) [0..<32], 1)"
  by (simp add: unpack1_32_def unpack_simps)

lemma unpack2_32_eq [unpack_eqs]:
  "unpack2_32 r = (map (unpack_value 2 r) [0..<32], 2)"
  by (simp add: unpack2_32_def unpack_simps)

lemma unpack3_32_eq [unpack_eqs]:
  "unpack3_32 r = (map (unpack_value 3 r) [0..<32], 3)"
  by (simp add: unpack3_32_def unpack_simps)

lemma unpack4_32_eq [unpack_eqs]:
  "unpack4_32 r = (map (unpack_value 4 r) [0..<32], 4)"
  by (simp add: unpack4_32_def unpack_simps)

lemma unpack5_32_eq [unpack_eqs]:
  "unpack5_32 r = (map (unpack_value 5 r) [0..<32], 5)"
  by (simp add: unpack5_32_def unpack_simps)

lemma unpack6_32_eq [unpack_eqs]:
  "unpack6_32 r = (map (unpack_value 6 r) [0..<32], 6)"
  by (simp add: unpack6_32_def unpack_simps)

lemma unpack7_32_eq [unpack_eqs]:
  "unpack7_32 r = (map (unpack_value 7 r) [0..<32], 7)"
  by (simp add: unpack7_32_def unpack_simps)

lemma unpack8_32_eq [unpack_eqs]:
  "unpack8_32 r = (map (unpack_value 8 r) [0..<32], 8)"
  by (simp add: unpack8_32_def unpack_simps)

lemma unpack9_32_eq [unpack_eqs]:
  "unpack9_32 r = (map (unpack_value 9 r) [0..<32], 9)"
  by (simp add: unpack9_32_def unpack_simps)

lemma unpack10_32_eq [unpack_eqs]:
  "unpack10_32 r = (map (unpack_value 10 r) [0..<32], 10)"
  by (simp add: unpack10_32_def unpack_simps)

lemma unpack11_32_eq [unpack_eqs]:
  "unpack11_32 r = (map (unpack_value 11 r) [0..<32], 11)"
  by (simp add: unpack11_32_def unpack_simps)

lemma unpack12_32_eq [unpack_eqs]:
  "unpack12_32 r = (map (unpack_value 12 r) [0..<32], 12)"
  by (simp add: unpack12_32_def unpack_simps)

lemma unpack13_32_eq [unpack_eqs]:
  "unpack13_32 r = (map (unpack_value 13 r) [0..<32], 13)"
  by (simp add: unpack13_32_def unpack_simps)

lemma unpack14_32_eq [unpack_eqs]:
  "unpack14_32 r = (map (unpack_value 14 r) [0..<32], 14)"
  by (simp add: unpack14_32_def unpack_simps)

lemma unpack15_32_eq [unpack_eqs]:
  "unpack15_32 r = (map (unpack_value 15 r) [0..<32], 15)"
  by (simp add: unpack15_32_def unpack_simps)

lemma unpack16_32_eq [unpack_eqs]:
  "unpack16_32 r = (map (unpack_value 16 r) [0..<32], 16)"
  by (simp add: unpack16_32_def unpack_simps)

lemma unpack17_32_eq [unpack_eqs]:
  "unpack17_32 r = (map (unpack_value 17 r) [0..<32], 17)"
  by (simp add: unpack17_32_def unpack_simps)

lemma unpack18_32_eq [unpack_eqs]:
  "unpack18_32 r = (map (unpack_value 18 r) [0..<32], 18)"
  by (simp add: unpack18_32_def unpack_simps)

lemma unpack19_32_eq [unpack_eqs]:
  "unpack19_32 r = (map (unpack_value 19 r) [0..<32], 19)"
  by (simp add: unpack19_32_def unpack_simps)

lemma unpack20_32_eq [unpack_eqs]:
  "unpack20_32 r = (map (unpack_value 20 r) [0..<32], 20)"
  by (simp add: unpack20_32_def unpack_simps)

lemma unpack21_32_eq [unpack_eqs]:
  "unpack21_32 r = (map (unpack_value 21 r) [0..<32], 21)"
  by (simp add: unpack21_32_def unpack_simps)

lemma unpack22_32_eq [unpack_eqs]:
  "unpack22_32 r = (map (unpack_value 22 r) [0..<32], 22)"
  by (simp add: unpack22_32_def unpack_simps)

lemma unpack23_32_eq [unpack_eqs]:
  "unpack23_32 r = (map (unpack_value 23 r) [0..<32], 23)"
  by (simp add: unpack23_32_def unpack_simps)

lemma unpack24_32_eq [unpack_eqs]:
  "unpack24_32 r = (map (unpack_value 24 r) [0..<32], 24)"
  by (simp add: unpack24_32_def unpack_simps)

lemma unpack25_32_eq [unpack_eqs]:
  "unpack25_32 r = (map (unpack_value 25 r) [0..<32], 25)"
  by (simp add: unpack25_32_def unpack_simps)

lemma unpack26_32_eq [unpack_eqs]:
  "unpack26_32 r = (map (unpack_value 26 r) [0..<32], 26)"
  by (simp add: unpack26_32_def unpack_simps)

lemma unpack27_32_eq [unpack_eqs]:
  "unpack27_32 r = (map (unpack_value 27 r) [0..<32], 27)"
  by (simp add: unpack27_32_def unpack_simps)

lemma unpack28_32_eq [unpack_eqs]:
  "unpack28_32 r = (map (unpack_value 28 r) [0..<32], 28)"
  by (simp add: unpack28_32_def unpack_simps)

lemma unpack29_32_eq [unpack_eqs]:
  "unpack29_32 r = (map (unpack_value 29 r) [0..<32], 29)"
  by (simp add: unpack29_32_def unpack_simps)

lemma unpack30_32_eq [unpack_eqs]:
  "unpack30_32 r = (map (unpack_value 30 r) [0..<32], 30)"
  by (simp add: unpack30_32_def unpack_simps)

lemma unpack31_32_eq [unpack_eqs]:
  "unpack31_32 r = (map (unpack_value 31 r) [0..<32], 31)"
  by (simp add: unpack31_32_def unpack_simps)

lemma unpack32_32_eq [unpack_eqs]:
  "unpack32_32 r = (map (unpack_value 32 r) [0..<32], 32)"
  by (simp add: unpack32_32_def unpack_simps)

subsection \<open>The dispatcher and the bits of its values\<close>

text \<open>The input as a stream of bits, 32 to a word, least significant first.\<close>

definition word_bit :: "(nat \<Rightarrow> u32) \<Rightarrow> nat \<Rightarrow> bool" where
  "word_bit r k = bit (r (k div 32)) (k mod 32)"

lemma word_bit_split: "word_bit r (32 * q + m) = bit (r (q + m div 32)) (m mod 32)"
  by (simp add: word_bit_def)

lemma word_bit_add:
  "word_bit r (p + k) =
     (let m = p mod 32 + k in bit (r (p div 32 + m div 32)) (m mod 32))"
proof -
  have "p + k = 32 * (p div 32) + (p mod 32 + k)" by simp
  then show ?thesis using word_bit_split [of r "p div 32" "p mod 32 + k"] by (simp add: Let_def)
qed

lemma unpack_value_bits:
  assumes "w \<le> 32"
  shows "unpack_value w r i = bits_word (word_bit r) (i * w) w"
proof (rule bits_word_eqI)
  show "w \<le> LENGTH(32)" using assms by simp
next
  fix k assume k: "k < w"
  let ?j = "i * w div 32" and ?s = "i * w mod 32"
  have s: "?s < 32" by simp
  show "bit (unpack_value w r i) k = word_bit r (i * w + k)"
  proof (cases "?s + k < 32")
    case True
    then show ?thesis
      using k by (auto simp: unpack_value_def Let_def bit_simps word_bit_add [of r "i * w" k])
  next
    case False
    then obtain d where d: "?s + k = 32 + d" by (metis le_Suc_ex not_less)
    with s k assms have "d < 32" by linarith
    have "\<not> bit (r ?j) (?s + k)" using False by (auto dest: bit_imp_le_length)
    moreover have "32 < ?s + w" using False k by linarith
    moreover have "word_bit r (i * w + k) = bit (r (Suc ?j)) d"
      using d \<open>d < 32\<close> by (simp add: word_bit_add [of r "i * w" k] div_add_self1)
    moreover have "k - (32 - ?s) = d" and "32 - ?s \<le> k" and "d < ?s + w - 32"
      using d s k by linarith+
    ultimately show ?thesis
      using k assms by (simp add: unpack_value_def Let_def bit_simps)
  qed
next
  fix k assume k: "w \<le> k"
  have "\<not> bit (r (i * w div 32)) (i * w mod 32 + k)" if "32 \<le> i * w mod 32 + w"
    using that k by (auto dest: bit_imp_le_length)
  then show "\<not> bit (unpack_value w r i) k"
    using k assms by (auto simp: unpack_value_def Let_def bit_simps)
qed

lemma nullunpacker32_eq [unpack_eqs]: "nullunpacker32 r = (map (unpack_value 0 r) [0..<32], 0)"
proof -
  have "map (unpack_value 0 r) [0..<32] = map (\<lambda>_. 0) [0..<32]"
    by (simp add: unpack_value_def)
  then show ?thesis
    by (simp only: nullunpacker32_def map_replicate_const length_upt diff_zero)
qed

lemma unpack32_eq:
  "unpack32 r num_bits =
     (if num_bits \<le> 32 then Some (map (unpack_value num_bits r) [0..<32], num_bits) else None)"
proof (cases "num_bits \<le> 32")
  case True
  then have "num_bits = 32 \<or> num_bits \<in> set [0..<32]" by auto
  from this [unfolded upt_0_32 list.set insert_iff empty_iff]
  have "unpack32 r num_bits = Some (map (unpack_value num_bits r) [0..<32], num_bits)"
    by (elim disjE) (simp_all only: unpack32_def unpack_eqs, simp_all)
  with True show ?thesis by simp
next
  case False
  then show ?thesis by (simp add: unpack32_def)
qed

lemma map_unpack_value_bits:
  "w \<le> 32 \<Longrightarrow>
     map (unpack_value w r) [0..<32] = map (\<lambda>i. bits_word (word_bit r) (i * w) w) [0..<32]"
  by (rule map_cong [OF refl]) (rule unpack_value_bits)

text \<open>
  C16. For every bit width up to 32, the unrolled routine that \<open>unpack32\<close> selects returns the 32
  consecutive \<open>num_bits\<close>-bit fields of the little-endian bit stream of its input words and consumes
  exactly \<open>num_bits\<close> words; for a larger width it is unimplemented.
\<close>

theorem unpack32_fields:
  "unpack32 r num_bits =
     (if num_bits \<le> 32
      then Some (map (\<lambda>i. bits_word (word_bit r) (i * num_bits) num_bits) [0..<32], num_bits)
      else None)"
  by (simp add: unpack32_eq map_unpack_value_bits)

end
