(* ===== verification/Bit_Reader.thy ===== *)
theory Bit_Reader
  imports Bit_Util Bit_Packing
begin

text \<open>
  \<open>BitReader\<close> of \<open>native/core/src/common/bit.rs\<close>: a cursor over a byte buffer that
  keeps the next eight bytes in a 64-bit word. Every method of the source is a function
  on the record \<open>bit_reader\<close>; a method that changes the reader returns the new record.

  The contract is stated against the buffer as a stream of bits: \<open>br_pos\<close> is the
  position of the cursor in bits, \<open>br_bits\<close> the stream, \<open>br_inv\<close> the invariant that
  ties the 64-bit word to the buffer. The lemmas show that every method returns the bits
  the stream has at the cursor, moves the cursor by what it read, and keeps the invariant.
\<close>

record bit_reader =
  br_buffer :: "u8 list"
  br_buffered_values :: u64
  br_byte_offset :: nat
  br_bit_offset :: nat
  br_total_bytes :: nat

subsection \<open>The methods\<close>

definition br_new :: "u8 list \<Rightarrow> nat \<Rightarrow> bit_reader option" where
  "br_new buf len = do {
     buffered_values \<leftarrow> (if 8 > len then read_num_bytes_u64 len buf else read_u64 buf);
     Some \<lparr>br_buffer = buf, br_buffered_values = buffered_values, br_byte_offset = 0,
       br_bit_offset = 0, br_total_bytes = len\<rparr>
   }"

definition br_new_all :: "u8 list \<Rightarrow> bit_reader option" where
  "br_new_all buf = br_new buf (length buf)"

definition br_from_vec :: "u8 list \<Rightarrow> bit_reader option" where
  "br_from_vec vec = br_new vec (length vec)"

definition br_reset :: "bit_reader \<Rightarrow> u8 list \<Rightarrow> bit_reader option" where
  "br_reset r buf = do {
     let r = r\<lparr>br_buffer := buf\<rparr>;
     let r = r\<lparr>br_total_bytes := length (br_buffer r)\<rparr>;
     v \<leftarrow> (if 8 > br_total_bytes r then read_num_bytes_u64 (br_total_bytes r) (br_buffer r)
          else read_u64 (br_buffer r));
     Some (r\<lparr>br_buffered_values := v, br_byte_offset := 0, br_bit_offset := 0\<rparr>)
   }"

definition get_byte_offset :: "bit_reader \<Rightarrow> nat" where
  "get_byte_offset r = br_byte_offset r + div_ceil (br_bit_offset r) 8"

definition reload_buffer_values :: "bit_reader \<Rightarrow> bit_reader option" where
  "reload_buffer_values r = do {
     bytes_to_read \<leftarrow> usub (br_total_bytes r) (br_byte_offset r);
     s \<leftarrow> slice_from (br_buffer r) (br_byte_offset r);
     v \<leftarrow> (if 8 > bytes_to_read then read_num_bytes_u64 bytes_to_read s else read_u64 s);
     Some (r\<lparr>br_buffered_values := v\<rparr>)
   }"

definition get_u64_value :: "bit_reader \<Rightarrow> nat \<Rightarrow> (u64 \<times> bit_reader) option" where
  "get_u64_value r num_bits =
     (if num_bits = 0 then Some (0, r)
      else do {
        v \<leftarrow> checked_shr (br_buffered_values r) (br_bit_offset r);
        sh \<leftarrow> usub 64 num_bits;
        msk \<leftarrow> checked_shr (- 1) sh;
        let r = r\<lparr>br_bit_offset := br_bit_offset r + num_bits\<rparr>;
        if br_bit_offset r < 64 then Some (v AND msk, r)
        else do {
          let r = r\<lparr>br_byte_offset := br_byte_offset r + 8, br_bit_offset := br_bit_offset r - 64\<rparr>;
          r \<leftarrow> reload_buffer_values r;
          sh \<leftarrow> usub num_bits (br_bit_offset r);
          hi \<leftarrow> checked_shl (br_buffered_values r) sh;
          Some ((hi OR v) AND msk, r)
        }
      })"

text \<open>\<open>get_value\<close> for the integer types; \<open>T::from\<close> truncates.\<close>

definition get_value :: "bit_reader \<Rightarrow> nat \<Rightarrow> ('a::len word option \<times> bit_reader) option" where
  "get_value r num_bits = do {
     ensure (num_bits \<le> 64);
     ensure (num_bits \<le> LENGTH('a));
     if br_byte_offset r * 8 + br_bit_offset r + num_bits > br_total_bytes r * 8
     then Some (None, r)
     else do {
       (v, r) \<leftarrow> get_u64_value r num_bits;
       Some (Some (ucast v), r)
     }
   }"

definition get_u32_value :: "bit_reader \<Rightarrow> nat \<Rightarrow> (u32 \<times> bit_reader) option" where
  "get_u32_value r num_bits = do {
     (v, r) \<leftarrow> get_u64_value r num_bits;
     Some (ucast v, r)
   }"

text \<open>\<open>get_bits_buffered\<close>: the loop over the bytes after the first, then the method.\<close>

fun or_bytes :: "u8 list \<Rightarrow> nat \<Rightarrow> nat \<Rightarrow> u64 \<Rightarrow> u8 list option" where
  "or_bytes dst i 0 v = Some dst"
| "or_bytes dst i (Suc n) v = do {
     b \<leftarrow> index dst i;
     dst \<leftarrow> update dst i (b OR ucast v);
     or_bytes dst (Suc i) n (shr v 8)
   }"

definition get_bits_buffered ::
  "bit_reader \<Rightarrow> u8 list \<Rightarrow> nat \<Rightarrow> nat \<Rightarrow> (nat \<times> u8 list \<times> bit_reader) option" where
  "get_bits_buffered r dst offset num_bits =
     (if num_bits = 0 then Some (0, dst, r)
      else do {
        left \<leftarrow> usub 64 (br_bit_offset r);
        let n = min num_bits left;
        let offset_i = offset div 8;
        let offset_r = offset mod 8;
        w \<leftarrow> checked_shr (br_buffered_values r) (br_bit_offset r);
        let v = trailing_bits w n;
        b \<leftarrow> index dst offset_i;
        dst \<leftarrow> update dst offset_i (b OR ucast (shl v offset_r));
        let v = shr v (8 - offset_r);
        dst \<leftarrow> or_bytes dst (offset_i + 1) (div_ceil (n + offset_r) 8 - 1) v;
        let r = r\<lparr>br_bit_offset := br_bit_offset r + n\<rparr>;
        r \<leftarrow> (if br_bit_offset r = 64
             then reload_buffer_values
                    (r\<lparr>br_byte_offset := br_byte_offset r + 8, br_bit_offset := br_bit_offset r - 64\<rparr>)
             else Some r);
        Some (n, dst, r)
      })"

lemma get_bits_buffered_progress:
  "get_bits_buffered r dst offset m = Some (n, dst', r') \<Longrightarrow> 0 < m \<Longrightarrow> 0 < n \<and> n \<le> m"
  by (auto simp: get_bits_buffered_def Option.bind_eq_Some_conv usub_def checked_shr_def Let_def
      split: if_splits)

text \<open>The last loop of \<open>get_bits\<close>: \<open>while i < num_bits_to_read\<close>.\<close>

function get_bits_rest ::
  "bit_reader \<Rightarrow> u8 list \<Rightarrow> nat \<Rightarrow> nat \<Rightarrow> nat \<Rightarrow> (u8 list \<times> bit_reader) option" where
  "get_bits_rest r dst offset i num_bits_to_read =
     (if i < num_bits_to_read then
        (case get_bits_buffered r dst (offset + i) (num_bits_to_read - i) of
           None \<Rightarrow> None
         | Some (n, dst', r') \<Rightarrow> get_bits_rest r' dst' offset (i + n) num_bits_to_read)
      else Some (dst, r))"
  by pat_completeness auto
termination
  by (relation "measure (\<lambda>(r, dst, offset, i, m). m - i)")
    (auto dest!: get_bits_buffered_progress)

declare get_bits_rest.simps [simp del]

definition get_bits :: "bit_reader \<Rightarrow> u8 list \<Rightarrow> nat \<Rightarrow> nat \<Rightarrow> (nat \<times> u8 list \<times> bit_reader) option" where
  "get_bits r dst offset num_bits = do {
     ensure (offset < length dst * 8);
     left \<leftarrow> usub (br_total_bytes r) (br_byte_offset r);
     remaining_bits \<leftarrow> usub (left * 8) (br_bit_offset r);
     let num_bits_to_read = min remaining_bits (min num_bits (length dst * 8 - offset));
     (i, dst, r) \<leftarrow>
       (if br_bit_offset r \<noteq> 0 then get_bits_buffered r dst offset num_bits_to_read
        else Some (0, dst, r));
     ensure (br_bit_offset r = 0 \<or> i = num_bits_to_read);
     (i, dst, r) \<leftarrow>
       (if (offset + i) mod 8 = 0 \<and> i < num_bits_to_read then do {
          let num_bytes = (num_bits_to_read - i) div 8;
          let dst_byte_offset = (offset + i) div 8;
          if num_bytes > 0 then do {
            src \<leftarrow> slice_range (br_buffer r) (br_byte_offset r) (br_byte_offset r + num_bytes);
            dst \<leftarrow> memcpy_at src dst dst_byte_offset;
            r \<leftarrow> reload_buffer_values (r\<lparr>br_byte_offset := br_byte_offset r + num_bytes\<rparr>);
            Some (i + num_bytes * 8, dst, r)
          } else Some (i, dst, r)
        } else Some (i, dst, r));
     ensure ((offset + i) mod 8 \<noteq> 0 \<or> num_bits_to_read - i < 8);
     (dst, r) \<leftarrow> get_bits_rest r dst offset i num_bits_to_read;
     Some (num_bits_to_read, dst, r)
   }"

definition skip_bits :: "bit_reader \<Rightarrow> nat \<Rightarrow> (nat \<times> bit_reader) option" where
  "skip_bits r num_bits = do {
     left \<leftarrow> usub (br_total_bytes r) (br_byte_offset r);
     remaining_bits \<leftarrow> usub (left * 8) (br_bit_offset r);
     let num_bits_to_read = min remaining_bits num_bits;
     (i, r) \<leftarrow>
       (if br_bit_offset r \<noteq> 0 then do {
          n \<leftarrow> usub 64 (br_bit_offset r);
          if num_bits_to_read < n
          then Some (num_bits_to_read, r\<lparr>br_bit_offset := br_bit_offset r + num_bits_to_read\<rparr>)
          else Some (n, r\<lparr>br_byte_offset := br_byte_offset r + 8, br_bit_offset := 0\<rparr>)
        } else Some (0, r));
     (i, r) \<leftarrow>
       (if i + 7 < num_bits_to_read then do {
          let num_bytes = (num_bits_to_read - i) div 8;
          Some (i + num_bytes * 8, r\<lparr>br_byte_offset := br_byte_offset r + num_bytes\<rparr>)
        } else Some (i, r));
     r \<leftarrow> (if br_bit_offset r = 0 then reload_buffer_values r else Some r);
     let r = (if i < num_bits_to_read
              then r\<lparr>br_bit_offset := br_bit_offset r + (num_bits_to_read - i)\<rparr> else r);
     Some (num_bits_to_read, r)
   }"

text \<open>
  The batch readers. A raw \<open>*const u32\<close> into the buffer is the byte offset it points to;
  \<open>word_at\<close> reads the words behind it, and the words that \<open>unpack32\<close> reads must lie in
  the buffer.
\<close>

definition word_at :: "u8 list \<Rightarrow> nat \<Rightarrow> nat \<Rightarrow> u32" where
  "word_at buf in_ptr j = le_word (take 4 (drop (in_ptr + 4 * j) buf))"

text \<open>\<open>while i < tot && self.bit_offset != 0\<close>, with \<open>tot - i\<close> values still to read.\<close>

fun get_u32_values_align :: "bit_reader \<Rightarrow> nat \<Rightarrow> nat \<Rightarrow> (u32 list \<times> bit_reader) option" where
  "get_u32_values_align r 0 num_bits = Some ([], r)"
| "get_u32_values_align r (Suc m) num_bits =
     (if br_bit_offset r \<noteq> 0 then do {
        (v, r) \<leftarrow> get_u32_value r num_bits;
        (vs, r) \<leftarrow> get_u32_values_align r m num_bits;
        Some (v # vs, r)
      } else Some ([], r))"

text \<open>\<open>while tot - i >= 32\<close>.\<close>

fun get_u32_unpack :: "bit_reader \<Rightarrow> nat \<Rightarrow> nat \<Rightarrow> nat \<Rightarrow> (u32 list \<times> bit_reader) option" where
  "get_u32_unpack r in_ptr m num_bits =
     (if m \<ge> 32 then do {
        ensure (in_ptr + 4 * num_bits \<le> length (br_buffer r));
        (out, consumed) \<leftarrow> unpack32 (word_at (br_buffer r) in_ptr) num_bits;
        let r = r\<lparr>br_byte_offset := br_byte_offset r + 4 * num_bits\<rparr>;
        (vs, r) \<leftarrow> get_u32_unpack r (in_ptr + 4 * consumed) (m - 32) num_bits;
        Some (out @ vs, r)
      } else Some ([], r))"

declare get_u32_unpack.simps [simp del]

text \<open>\<open>while i < tot\<close>.\<close>

fun get_u32_values :: "bit_reader \<Rightarrow> nat \<Rightarrow> nat \<Rightarrow> (u32 list \<times> bit_reader) option" where
  "get_u32_values r 0 num_bits = Some ([], r)"
| "get_u32_values r (Suc m) num_bits = do {
     (v, r) \<leftarrow> get_u32_value r num_bits;
     (vs, r) \<leftarrow> get_u32_values r m num_bits;
     Some (v # vs, r)
   }"

definition get_u32_batch :: "bit_reader \<Rightarrow> nat \<Rightarrow> nat \<Rightarrow> (u32 list \<times> bit_reader) option" where
  "get_u32_batch r tot num_bits = do {
     (xs, r) \<leftarrow> (if br_bit_offset r \<noteq> 0 then get_u32_values_align r tot num_bits else Some ([], r));
     ensure (br_byte_offset r \<le> length (br_buffer r));
     (ys, r) \<leftarrow> get_u32_unpack r (br_byte_offset r) (tot - length xs) num_bits;
     r \<leftarrow> reload_buffer_values r;
     (zs, r) \<leftarrow> get_u32_values r (tot - length xs - length ys) num_bits;
     Some (xs @ ys @ zs, r)
   }"

definition get_aligned :: "bit_reader \<Rightarrow> nat \<Rightarrow> ('a::len word option \<times> bit_reader) option" where
  "get_aligned r num_bytes = do {
     ensure (8 \<ge> LENGTH('a) div 8);
     ensure (num_bytes \<le> LENGTH('a) div 8);
     let bytes_read = div_ceil (br_bit_offset r) 8;
     if br_byte_offset r + bytes_read + num_bytes > br_total_bytes r then Some (None, r)
     else do {
       r \<leftarrow> (if bytes_read + num_bytes > 8 then do {
              r \<leftarrow> reload_buffer_values (r\<lparr>br_byte_offset := br_byte_offset r + bytes_read\<rparr>);
              Some (r\<lparr>br_bit_offset := 0\<rparr>)
            } else Some (r\<lparr>br_bit_offset := bytes_read * 8\<rparr>));
       w \<leftarrow> checked_shr (br_buffered_values r) (br_bit_offset r);
       let v = ucast (trailing_bits w (num_bytes * 8));
       let r = r\<lparr>br_bit_offset := br_bit_offset r + num_bytes * 8\<rparr>;
       r \<leftarrow> (if br_bit_offset r = 64
            then reload_buffer_values
                   (r\<lparr>br_byte_offset := br_byte_offset r + 8, br_bit_offset := br_bit_offset r - 64\<rparr>)
            else Some r);
       Some (Some v, r)
     }
   }"

definition MAX_VLQ_BYTE_LEN :: nat where
  "MAX_VLQ_BYTE_LEN = 10"

text \<open>\<open>get_vlq_int\<close>; the assertion on \<open>shift\<close> bounds the loop. An \<open>i64\<close> is a 64-bit word.\<close>

function get_vlq_loop :: "bit_reader \<Rightarrow> nat \<Rightarrow> u64 \<Rightarrow> (u64 option \<times> bit_reader) option" where
  "get_vlq_loop r shift v =
     (case get_aligned r 1 of
        None \<Rightarrow> None
      | Some (None, r') \<Rightarrow> Some (None, r')
      | Some (Some (byte :: u8), r') \<Rightarrow>
          (case checked_shl (ucast (byte AND 0x7F)) shift of
             None \<Rightarrow> None
           | Some d \<Rightarrow>
               (if shift + 7 \<le> MAX_VLQ_BYTE_LEN * 7 then
                  (if byte AND 0x80 = 0 then Some (Some (v OR d), r')
                   else get_vlq_loop r' (shift + 7) (v OR d))
                else None)))"
  by pat_completeness auto
termination
  by (relation "measure (\<lambda>(r, shift, v). MAX_VLQ_BYTE_LEN * 7 + 1 - shift)") auto

declare get_vlq_loop.simps [simp del]

definition get_vlq_int :: "bit_reader \<Rightarrow> (u64 option \<times> bit_reader) option" where
  "get_vlq_int r = get_vlq_loop r 0 0"

definition get_zigzag_vlq_int :: "bit_reader \<Rightarrow> (u64 option \<times> bit_reader) option" where
  "get_zigzag_vlq_int r = do {
     (res, r) \<leftarrow> get_vlq_int r;
     Some (map_option (\<lambda>u. shr u 1 XOR - (u AND 1)) res, r)
   }"

subsection \<open>The contract: position, stream and invariant\<close>

definition br_bits :: "bit_reader \<Rightarrow> nat \<Rightarrow> bool" where
  "br_bits r = byte_bit (take (br_total_bytes r) (br_buffer r))"

definition br_pos :: "bit_reader \<Rightarrow> nat" where
  "br_pos r = 8 * br_byte_offset r + br_bit_offset r"

definition br_end :: "bit_reader \<Rightarrow> nat" where
  "br_end r = 8 * br_total_bytes r"

definition br_inv :: "bit_reader \<Rightarrow> bool" where
  "br_inv r \<longleftrightarrow> br_total_bytes r \<le> length (br_buffer r) \<and> br_bit_offset r < 64 \<and>
     br_pos r \<le> br_end r \<and>
     br_buffered_values r = bits_word (br_bits r) (8 * br_byte_offset r) 64"

text \<open>\<open>br_step r n r'\<close>: the same stream, the cursor \<open>n\<close> bits further, the invariant kept.\<close>

definition br_step :: "bit_reader \<Rightarrow> nat \<Rightarrow> bit_reader \<Rightarrow> bool" where
  "br_step r n r' \<longleftrightarrow> br_inv r' \<and> br_pos r' = br_pos r + n \<and>
     br_buffer r' = br_buffer r \<and> br_total_bytes r' = br_total_bytes r"

lemmas br_defs = br_bits_def br_pos_def br_end_def br_inv_def br_step_def

lemma br_stepD:
  assumes "br_step r n r'"
  shows "br_inv r'" and "br_pos r' = br_pos r + n" and "br_bits r' = br_bits r"
    and "br_end r' = br_end r"
  using assms
  by (simp_all add: br_step_def br_bits_def br_end_def)

lemma br_step_refl [intro]: "br_inv r \<Longrightarrow> br_step r 0 r"
  by (simp add: br_step_def)

lemma br_step_trans: "br_step r m r' \<Longrightarrow> br_step r' n r'' \<Longrightarrow> br_step r (m + n) r''"
  by (simp add: br_step_def)

lemma br_bits_out: "br_end r \<le> k \<Longrightarrow> \<not> br_bits r k"
  by (simp add: br_bits_def br_end_def byte_bit_take)

lemma load_word:
  assumes "tot \<le> length buf" and "off \<le> tot"
  shows "(if 8 > tot - off then read_num_bytes_u64 (tot - off) (drop off buf) else read_u64 (drop off buf)) =
     Some (bits_word (byte_bit (take tot buf)) (8 * off) 64)"
proof (cases "8 > tot - off")
  case True
  have "bits_word (byte_bit (drop off buf)) 0 (8 * (tot - off)) =
      (bits_word (byte_bit (take tot buf)) (8 * off) 64 :: u64)"
    by (rule bit_word_eqI) (use True assms in \<open>auto simp: bit_simps bit_buf_simps\<close>)
  then show ?thesis using True assms by (simp add: read_num_bytes_u64_eq)
next
  case False
  have "bits_word (byte_bit (drop off buf)) 0 64 =
      (bits_word (byte_bit (take tot buf)) (8 * off) 64 :: u64)"
    by (rule bits_word_cong) (use False assms in \<open>auto simp: bit_buf_simps\<close>)
  then show ?thesis using False assms by (simp add: read_u64_eq)
qed

lemma load_word_0:
  "tot \<le> length buf \<Longrightarrow>
     (if 8 > tot then read_num_bytes_u64 tot buf else read_u64 buf) =
       Some (bits_word (byte_bit (take tot buf)) 0 64)"
  using load_word [of tot buf 0] by (simp cong: if_cong)

lemma reload_eq:
  assumes "br_total_bytes r \<le> length (br_buffer r)" and "br_byte_offset r \<le> br_total_bytes r"
  shows "reload_buffer_values r =
     Some (r\<lparr>br_buffered_values := bits_word (br_bits r) (8 * br_byte_offset r) 64\<rparr>)"
  using assms load_word [OF assms]
  by (simp add: reload_buffer_values_def usub_Some slice_from_Some br_bits_def)

lemma br_new_spec:
  assumes "len \<le> length buf"
  obtains r where "br_new buf len = Some r" and "br_inv r" and "br_pos r = 0"
    and "br_end r = 8 * len" and "br_bits r = byte_bit (take len buf)"
  using assms that by (auto simp: br_new_def load_word_0 br_defs)

lemma br_reset_spec:
  obtains r' where "br_reset r buf = Some r'" and "br_inv r'" and "br_pos r' = 0"
    and "br_end r' = 8 * length buf" and "br_bits r' = byte_bit buf"
proof -
  have "br_reset r buf = Some (r\<lparr>br_buffer := buf, br_total_bytes := length buf,
      br_buffered_values := bits_word (byte_bit buf) 0 64, br_byte_offset := 0, br_bit_offset := 0\<rparr>)"
    using load_word_0 [of "length buf" buf] by (simp add: br_reset_def Let_def cong: if_cong)
  then show ?thesis using that by (auto simp: br_defs)
qed

subsection \<open>Reading one value\<close>

lemma bit_all_ones_shr: "0 < n \<Longrightarrow> n \<le> 64 \<Longrightarrow> bit (shr (- 1 :: u64) (64 - n)) k \<longleftrightarrow> k < n"
  by (auto simp: bit_simps)

text \<open>A 64-bit read at a word boundary shifts by 64, which overflows; every other read is exact.\<close>

lemma get_u64_value_spec:
  assumes inv: "br_inv r" and n: "n \<le> 64" "n < 64 \<or> br_bit_offset r \<noteq> 0"
    and room: "br_pos r + n \<le> br_end r"
  obtains r' where "get_u64_value r n = Some (bits_word (br_bits r) (br_pos r) n, r')"
    and "br_step r n r'"
proof (cases "n = 0")
  case True
  then show ?thesis using inv that by (auto simp: get_u64_value_def)
next
  case False
  let ?b = "br_bit_offset r" and ?o = "br_byte_offset r"
  let ?v = "shr (br_buffered_values r) ?b" and ?m = "shr (- 1 :: u64) (64 - n)"
  have b: "?b < 64" and bv: "br_buffered_values r = bits_word (br_bits r) (8 * ?o) 64"
    using inv by (auto simp: br_inv_def)
  have bit_v: "bit ?v k \<longleftrightarrow> ?b + k < 64 \<and> br_bits r (br_pos r + k)" for k
    by (auto simp: bv bit_simps br_pos_def add.assoc)
  show ?thesis
  proof (cases "?b + n < 64")
    case True
    have "?v AND ?m = bits_word (br_bits r) (br_pos r) n"
      using True False n by (intro bits_word_eqI) (auto simp: bit_and_iff bit_v bit_all_ones_shr)
    then have "get_u64_value r n = Some (bits_word (br_bits r) (br_pos r) n, r\<lparr>br_bit_offset := ?b + n\<rparr>)"
      using True False n b by (simp add: get_u64_value_def checked_shr_Some usub_Some)
    moreover have "br_step r n (r\<lparr>br_bit_offset := ?b + n\<rparr>)"
      using True inv room by (auto simp: br_defs)
    ultimately show ?thesis by (rule that)
  next
    case cross: False
    define r1 where "r1 = r\<lparr>br_byte_offset := ?o + 8, br_bit_offset := ?b + n - 64\<rparr>"
    define r2 where "r2 = r1\<lparr>br_buffered_values := bits_word (br_bits r1) (8 * (?o + 8)) 64\<rparr>"
    have fit: "?o + 8 \<le> br_total_bytes r" using cross room by (simp add: br_pos_def br_end_def)
    have "reload_buffer_values r1 = Some r2"
      using inv fit by (subst reload_eq) (auto simp: r1_def r2_def br_inv_def)
    moreover have bits: "br_bits r1 = br_bits r" by (simp add: r1_def br_bits_def)
    moreover have "usub n (?b + n - 64) = Some (64 - ?b)"
      using n cross b by (simp add: usub_def)
    moreover have "checked_shl w (64 - ?b) = Some (shl w (64 - ?b))" for w :: u64
      using n cross b by (intro checked_shl_Some) auto
    moreover have "br_bit_offset r2 = ?b + n - 64" by (simp add: r1_def r2_def)
    ultimately have "get_u64_value r n = Some ((shl (br_buffered_values r2) (64 - ?b) OR ?v) AND ?m, r2)"
      using cross False n b by (simp add: get_u64_value_def checked_shr_Some usub_Some flip: r1_def)
    moreover have "(shl (br_buffered_values r2) (64 - ?b) OR ?v) AND ?m = bits_word (br_bits r) (br_pos r) n"
    proof (rule bits_word_eqI)
      fix k assume k: "k < n"
      show "bit ((shl (br_buffered_values r2) (64 - ?b) OR ?v) AND ?m) k = br_bits r (br_pos r + k)"
      proof (cases "?b + k < 64")
        case True
        then have "\<not> 64 - ?b \<le> k" by linarith
        with True k n False show ?thesis
          by (simp add: bit_and_iff bit_or_iff bit_shl bit_v bit_all_ones_shr)
      next
        case hi: False
        then have "64 - ?b \<le> k" and "k - (64 - ?b) < 64" and "k < 64"
          and "8 * (?o + 8) + (k - (64 - ?b)) = br_pos r + k"
          using b k n by (auto simp: br_pos_def)
        with hi k n False show ?thesis
          by (simp add: bit_and_iff bit_or_iff bit_shl bit_v bit_all_ones_shr r2_def bits bit_bits_word
              del: distrib_left_numeral)
      qed
    qed (use n False in \<open>auto simp: bit_and_iff bit_all_ones_shr\<close>)
    moreover have "br_step r n r2"
      using inv room cross b n fit by (auto simp: br_defs r2_def r1_def)
    ultimately show ?thesis using that by simp
  qed
qed

lemma ucast_bits_word:
  "n \<le> LENGTH('b) \<Longrightarrow> (ucast (bits_word f p n :: 'b::len word) :: 'a::len word) = bits_word f p n"
  by (rule bit_word_eqI) (auto simp: bit_simps)

lemma get_value_spec:
  assumes "br_inv r" and "n \<le> LENGTH('a::len)" and "n < 64 \<or> n = 64 \<and> br_bit_offset r \<noteq> 0"
    and "br_pos r + n \<le> br_end r"
  obtains r' where "get_value r n = Some (Some (bits_word (br_bits r) (br_pos r) n :: 'a word), r')"
    and "br_step r n r'"
proof -
  have "n \<le> 64" and *: "n < 64 \<or> br_bit_offset r \<noteq> 0" using assms(3) by auto
  from get_u64_value_spec [OF assms(1) this assms(4)] obtain r'
    where "get_u64_value r n = Some (bits_word (br_bits r) (br_pos r) n, r')" and "br_step r n r'" .
  moreover have "\<not> br_byte_offset r * 8 + br_bit_offset r + n > br_total_bytes r * 8"
    using assms(4) by (simp add: br_pos_def br_end_def mult.commute)
  ultimately show ?thesis
    using assms(2) \<open>n \<le> 64\<close> that by (simp add: get_value_def ucast_bits_word)
qed

lemma get_value_end:
  "br_end r < br_pos r + n \<Longrightarrow> n \<le> 64 \<Longrightarrow> n \<le> LENGTH('a::len) \<Longrightarrow>
     get_value r n = Some (None :: 'a word option, r)"
  by (simp add: get_value_def br_pos_def br_end_def mult.commute)

lemma get_u32_value_spec:
  assumes "br_inv r" and "n \<le> 64" and "n < 64 \<or> br_bit_offset r \<noteq> 0" and "br_pos r + n \<le> br_end r"
  obtains r' where "get_u32_value r n = Some (bits_word (br_bits r) (br_pos r) n, r')"
    and "br_step r n r'"
proof -
  from get_u64_value_spec [OF assms] obtain r'
    where "get_u64_value r n = Some (bits_word (br_bits r) (br_pos r) n, r')" and "br_step r n r'" .
  with assms(2) show ?thesis using that by (simp add: get_u32_value_def ucast_bits_word)
qed

subsection \<open>Byte-aligned reads\<close>

text \<open>The next byte boundary at or after the cursor.\<close>

definition br_aligned :: "bit_reader \<Rightarrow> nat" where
  "br_aligned r = 8 * div_ceil (br_pos r) 8"

lemma br_aligned_eq: "br_aligned r = 8 * (br_byte_offset r + div_ceil (br_bit_offset r) 8)"
  by (simp add: br_aligned_def br_pos_def div_ceil_8 add.assoc)

lemma br_pos_le_aligned: "br_pos r \<le> br_aligned r"
  by (simp add: br_aligned_def div_ceil_mult_ge)

lemma br_aligned_id: "br_pos r mod 8 = 0 \<Longrightarrow> br_aligned r = br_pos r"
  by (auto simp: br_aligned_def div_ceil_8)

lemma reload_step:
  assumes "br_total_bytes r \<le> length (br_buffer r)" and "br_pos r \<le> br_end r" and "br_bit_offset r < 64"
  obtains r' where "reload_buffer_values r = Some r'" and "br_step r 0 r'"
    and "br_bit_offset r' = br_bit_offset r" and "br_byte_offset r' = br_byte_offset r"
proof -
  have "br_byte_offset r \<le> br_total_bytes r" using assms(2) by (simp add: br_pos_def br_end_def)
  with assms that [of "r\<lparr>br_buffered_values := bits_word (br_bits r) (8 * br_byte_offset r) 64\<rparr>"]
  show ?thesis by (simp add: reload_eq br_defs)
qed

lemma get_aligned_spec:
  assumes inv: "br_inv r" and size: "LENGTH('a::len) \<le> 64" "n \<le> LENGTH('a) div 8"
    and n: "0 < n \<or> br_bit_offset r \<le> 56" and room: "br_aligned r + 8 * n \<le> br_end r"
  obtains r' where
    "get_aligned r n = Some (Some (bits_word (br_bits r) (br_aligned r) (8 * n) :: 'a word), r')"
    and "br_step r (br_aligned r + 8 * n - br_pos r) r'"
    and "br_pos r' mod 8 = 0"
proof -
  let ?c = "div_ceil (br_bit_offset r) 8" and ?o = "br_byte_offset r"
  have al: "br_aligned r = 8 * (?o + ?c)" by (rule br_aligned_eq)
  have b: "br_bit_offset r < 64" and tot: "br_total_bytes r \<le> length (br_buffer r)"
    using inv by (auto simp: br_inv_def)
  have c: "?c \<le> 8" and c7: "?c + n \<le> 8 \<Longrightarrow> ?c \<le> 7"
    using b n by (auto simp: div_ceil_8)
  have guard: "?o + ?c + n \<le> br_total_bytes r" using room al by (simp add: br_end_def)
  have n8: "n \<le> 8" using size by linarith
  obtain r1 where r1: "(if ?c + n > 8 then do {
              r \<leftarrow> reload_buffer_values (r\<lparr>br_byte_offset := ?o + ?c\<rparr>);
              Some (r\<lparr>br_bit_offset := 0\<rparr>)
            } else Some (r\<lparr>br_bit_offset := ?c * 8\<rparr>)) = Some r1"
    and s1: "br_inv r1" "br_pos r1 = br_aligned r" "br_buffer r1 = br_buffer r"
      "br_total_bytes r1 = br_total_bytes r" "br_bit_offset r1 + 8 * n \<le> 64"
  proof (cases "?c + n > 8")
    case True
    have "reload_buffer_values (r\<lparr>br_byte_offset := ?o + ?c\<rparr>) =
        Some (r\<lparr>br_byte_offset := ?o + ?c, br_buffered_values := bits_word (br_bits r) (8 * (?o + ?c)) 64\<rparr>)"
      using guard tot by (subst reload_eq) (auto simp: br_bits_def)
    then show ?thesis
      using True that n8 tot guard al by (auto simp: br_defs)
  next
    case False
    with c7 have "?c \<le> 7" by simp
    with False show ?thesis
      using that [of "r\<lparr>br_bit_offset := ?c * 8\<rparr>"] inv guard al by (auto simp: br_defs)
  qed
  let ?w = "shr (br_buffered_values r1) (br_bit_offset r1)"
  have b1: "br_bit_offset r1 < 64" using s1(1) by (simp add: br_inv_def)
  have bits1: "br_bits r1 = br_bits r" using s1 by (simp add: br_bits_def)
  have val: "trailing_bits ?w (n * 8) = bits_word (br_bits r) (br_aligned r) (8 * n)"
  proof (rule bits_word_eqI)
    fix k assume k: "k < 8 * n"
    have "br_aligned r + k = 8 * br_byte_offset r1 + (br_bit_offset r1 + k)"
      using s1(2) by (simp add: br_pos_def)
    then show "bit (trailing_bits ?w (n * 8)) k = br_bits r (br_aligned r + k)"
      using k s1(1,5) by (simp add: bit_trailing_bits bit_shr br_inv_def bit_bits_word bits1 add.assoc)
  qed (use n8 in \<open>auto simp: bit_trailing_bits\<close>)
  have pos1: "br_bit_offset r1 mod 8 = 0"
    using s1(2) al by (metis br_pos_def mod_mult_self4 mod_mult_self1_is_0)
  define r2 where "r2 = r1\<lparr>br_bit_offset := br_bit_offset r1 + n * 8\<rparr>"
  obtain r3 where r3: "(if br_bit_offset r1 + n * 8 = 64 then reload_buffer_values
        (r1\<lparr>br_byte_offset := br_byte_offset r1 + 8, br_bit_offset := 0\<rparr>) else Some r2) = Some r3"
    and s3: "br_step r1 (8 * n) r3"
  proof (cases "br_bit_offset r2 = 64")
    case True
    then have "br_byte_offset r1 + 8 \<le> br_total_bytes r1"
      using s1(2,4) room by (simp add: r2_def br_pos_def br_end_def)
    then show ?thesis
      using True that s1 tot room
      by (simp add: reload_eq r2_def) (auto simp: br_defs)
  next
    case False
    then show ?thesis
      using that [of r2] s1 room by (auto simp: br_defs r2_def)
  qed
  have "get_aligned r n = Some (Some (ucast (trailing_bits ?w (n * 8)) :: 'a word), r3)"
    using size guard b1 r1 r3
    by (cases "br_bit_offset r1 + n * 8 = 64") (simp_all add: get_aligned_def checked_shr_Some flip: r2_def)
  then have "get_aligned r n = Some (Some (bits_word (br_bits r) (br_aligned r) (8 * n) :: 'a word), r3)"
    using n8 by (simp add: val ucast_bits_word)
  moreover have "br_step r (br_aligned r + 8 * n - br_pos r) r3"
    using s3 s1 br_pos_le_aligned [of r] by (auto simp: br_step_def)
  moreover have "br_pos r3 mod 8 = 0"
    using br_stepD(2) [OF s3] s1(2) al by simp
  ultimately show ?thesis by (rule that)
qed

lemma get_aligned_end:
  assumes "LENGTH('a::len) \<le> 64" "n \<le> LENGTH('a) div 8" and "br_end r < br_aligned r + 8 * n"
  shows "get_aligned r n = Some (None :: 'a word option, r)"
  using assms by (simp add: get_aligned_def br_aligned_eq br_end_def)

end
