(* ===== verification/Bit_Reader_Spec.thy ===== *)
theory Bit_Reader_Spec
  imports Bit_Reader
begin

text \<open>
  The remaining methods of \<open>BitReader\<close> against the bit stream: variable-length
  integers, skipping, copying runs of bits, and the batch readers built on the unrolled
  unpacking routines.
\<close>

subsection \<open>Variable-length integers\<close>

lemma and_not_mask: "v AND NOT (mask n) = shl (shr (v :: 'a::len word) n) n"
  by (rule bit_word_eqI) (auto simp: bit_simps)

lemma shl_shr_eq_0_iff: "shl (shr (v :: 'a::len word) n) n = 0 \<longleftrightarrow> shr v n = 0"
proof
  assume "shl (shr v n) n = 0"
  then have "bit (shl (shr v n) n) (k + n) = bit (0 :: 'a word) (k + n)" for k by simp
  then show "shr v n = 0"
    by (intro bit_word_eqI) (auto simp: bit_simps add.commute dest: bit_imp_le_length)
qed (simp add: shl_def)

lemma vlq_mask_eq_0_iff: "v AND 0xFFFFFFFFFFFFFF80 = 0 \<longleftrightarrow> shr (v :: u64) 7 = 0"
proof -
  have "(0xFFFFFFFFFFFFFF80 :: u64) = NOT (mask 7)"
    by (simp add: mask_eq_exp_minus_1)
  then show ?thesis by (simp only: and_not_mask shl_shr_eq_0_iff)
qed

lemma unat_shr: "unat (shr v n) = unat v div 2 ^ n"
  unfolding shr_def unat_drop_bit_eq by (simp only: drop_bit_eq_div)

text \<open>The bytes of a number in VLQ form: seven bits to a byte, low bits first, the top bit of
  every byte but the last set.\<close>

function vlq_bytes :: "u64 \<Rightarrow> u8 list" where
  "vlq_bytes v =
     (if v AND 0xFFFFFFFFFFFFFF80 = 0 then [ucast (v AND 0x7F)]
      else ucast ((v AND 0x7F) OR 0x80) # vlq_bytes (shr v 7))"
  by pat_completeness auto
termination
proof (relation "measure unat")
  fix v :: u64
  assume "v AND 0xFFFFFFFFFFFFFF80 \<noteq> 0"
  then have "0 < unat v" by (auto simp: unat_gt_0)
  then show "(shr v 7, v) \<in> measure unat" by (simp add: unat_shr)
qed simp

declare vlq_bytes.simps [simp del]

lemma length_vlq_bytes: "unat v < 2 ^ (7 * n) \<Longrightarrow> 0 < n \<Longrightarrow> length (vlq_bytes v) \<le> n"
proof (induction n arbitrary: v)
  case (Suc n)
  show ?case
  proof (cases "shr v 7 = 0")
    case True
    then show ?thesis by (simp add: vlq_bytes.simps [of v] vlq_mask_eq_0_iff)
  next
    case False
    then have "0 < unat (shr v 7)" by (simp add: unat_gt_0)
    moreover have "unat (shr v 7) < 2 ^ (7 * n)"
      using Suc.prems(1) by (simp add: unat_shr power_add less_mult_imp_div_less mult.commute)
    ultimately have "length (vlq_bytes (shr v 7)) \<le> n"
      using Suc.IH by (cases n) auto
    with False show ?thesis by (simp add: vlq_bytes.simps [of v] vlq_mask_eq_0_iff)
  qed
qed simp

lemma length_vlq_bytes_le_10: "length (vlq_bytes v) \<le> 10"
  using length_vlq_bytes [of v 10] unsigned_less [of v, where 'a = nat] by simp

lemma vlq_bytes_nonempty: "vlq_bytes v \<noteq> []"
  by (simp add: vlq_bytes.simps)

text \<open>A run of bytes standing in the stream at a position.\<close>

definition stream_has :: "(nat \<Rightarrow> bool) \<Rightarrow> nat \<Rightarrow> u8 list \<Rightarrow> bool" where
  "stream_has f p bs \<longleftrightarrow> (\<forall>k < 8 * length bs. f (p + k) = byte_bit bs k)"

lemma stream_has_Cons:
  "stream_has f p (b # bs) \<longleftrightarrow> bits_word f p 8 = b \<and> stream_has f (p + 8) bs"
proof -
  have "stream_has f p (b # bs) \<longleftrightarrow>
      (\<forall>k<8. f (p + k) = bit b k) \<and> (\<forall>k<8 * length bs. f (p + 8 + k) = byte_bit bs k)"
    (is "?l \<longleftrightarrow> ?r")
  proof
    assume l: ?l
    have "f (p + 8 + k) = byte_bit bs k" if "k < 8 * length bs" for k
      using l that unfolding stream_has_def
      by (auto simp: byte_bit_Cons add.assoc dest: spec [of _ "8 + k"])
    with l show ?r by (auto simp: stream_has_def byte_bit_Cons)
  next
    assume r: ?r
    show ?l unfolding stream_has_def
    proof (intro allI impI)
      fix k assume k: "k < 8 * length (b # bs)"
      show "f (p + k) = byte_bit (b # bs) k"
      proof (cases "k < 8")
        case False
        then obtain j where "k = 8 + j" by (metis le_Suc_ex not_less)
        with r k show ?thesis by (simp add: byte_bit_Cons add.assoc)
      qed (use r in \<open>simp add: byte_bit_Cons\<close>)
    qed
  qed
  moreover have "(\<forall>k<8. f (p + k) = bit b k) \<longleftrightarrow> bits_word f p 8 = b"
    by (auto simp: bit_eq_iff bit_bits_word dest: bit_imp_le_length)
  ultimately show ?thesis by (simp add: stream_has_def)
qed

text \<open>The masks of the source as bit operations.\<close>

lemma vlq_masks:
  "(x :: u64) AND 0x7F = take_bit 7 x" "(y :: u8) AND 0x7F = take_bit 7 y"
  "(y :: u8) AND 0x80 = 0 \<longleftrightarrow> \<not> bit y 7" "(0x80 :: u64) = shl 1 7"
proof -
  have e: "(0x80 :: u8) = 2 ^ 7" by simp
  show "y AND 0x80 = 0 \<longleftrightarrow> \<not> bit y 7" by (simp only: e and_exp_eq_0_iff_not_bit)
qed (simp_all add: take_bit_eq_mask mask_numeral shl_def)

lemma vlq_byte_last:
  assumes "shr (v :: u64) 7 = 0"
  shows "(ucast (v AND 0x7F) :: u8) AND 0x80 = 0" and "ucast ((ucast (v AND 0x7F) :: u8) AND 0x7F) = v"
proof -
  have "\<not> bit v (7 + k)" for k using assms by (metis bit_shr bit_0_eq bot_apply bot_bool_def)
  then have big: "\<not> bit v k" if "7 \<le> k" for k using that by (metis le_Suc_ex)
  show "(ucast (v AND 0x7F) :: u8) AND 0x80 = 0"
    by (simp only: vlq_masks) (simp add: bit_simps)
  show "ucast ((ucast (v AND 0x7F) :: u8) AND 0x7F) = v"
    unfolding vlq_masks
    by (rule bit_word_eqI) (use big in \<open>auto simp: bit_simps not_le [symmetric] intro: ccontr\<close>)
qed

lemma vlq_byte_more:
  fixes v :: u64
  shows "(ucast ((v AND 0x7F) OR 0x80) :: u8) AND 0x80 \<noteq> 0"
    and "ucast ((ucast ((v AND 0x7F) OR 0x80) :: u8) AND 0x7F) = take_bit 7 v"
proof -
  show "(ucast ((v AND 0x7F) OR 0x80) :: u8) AND 0x80 \<noteq> 0"
    by (simp only: vlq_masks) (simp add: bit_simps bit_shl_1)
  show "ucast ((ucast ((v AND 0x7F) OR 0x80) :: u8) AND 0x7F) = take_bit 7 v"
    unfolding vlq_masks
    by (rule bit_word_eqI) (auto simp: bit_or_iff bit_take_bit_iff bit_unsigned_iff bit_shl_1)
qed

lemma get_vlq_loop_spec:
  assumes "br_inv r" and "stream_has (br_bits r) (br_aligned r) (vlq_bytes v)"
    and "br_aligned r + 8 * length (vlq_bytes v) \<le> br_end r"
    and "shift + 7 * length (vlq_bytes v) \<le> 70"
  shows "\<exists>r'. get_vlq_loop r shift acc = Some (Some (acc OR shl v shift), r') \<and>
     br_step r (br_aligned r + 8 * length (vlq_bytes v) - br_pos r) r' \<and> br_pos r' mod 8 = 0"
  using assms
proof (induction v arbitrary: r shift acc rule: vlq_bytes.induct)
  case (1 v)
  let ?n = "length (vlq_bytes v)" and ?p = "br_aligned r"
  have n1: "1 \<le> ?n" using vlq_bytes_nonempty [of v] by (cases "vlq_bytes v") auto
  have room: "?p + 8 * 1 \<le> br_end r" using "1.prems"(3) n1 by linarith
  obtain r' where g: "get_aligned r 1 = Some (Some (bits_word (br_bits r) ?p (8 * 1) :: u8), r')"
    and st: "br_step r (?p + 8 * 1 - br_pos r) r'" and al: "br_pos r' mod 8 = 0"
    using get_aligned_spec [where 'a = 8, OF "1.prems"(1) _ _ _ room] by auto
  have sh: "shift < 64" "shift + 7 \<le> MAX_VLQ_BYTE_LEN * 7"
    using "1.prems"(4) n1 by (auto simp: MAX_VLQ_BYTE_LEN_def)
  have p': "br_aligned r' = ?p + 8"
    using br_aligned_id [OF al] br_stepD(2) [OF st] br_pos_le_aligned [of r] by simp
  show ?case
  proof (cases "shr v 7 = 0")
    case True
    then have bytes: "vlq_bytes v = [ucast (v AND 0x7F)]"
      by (simp add: vlq_bytes.simps [of v] vlq_mask_eq_0_iff)
    then have "bits_word (br_bits r) ?p 8 = (ucast (v AND 0x7F) :: u8)"
      using "1.prems"(2) by (simp add: stream_has_Cons)
    with g have "get_vlq_loop r shift acc = Some (Some (acc OR shl v shift), r')"
      using sh vlq_byte_last [OF True] by (simp add: get_vlq_loop.simps [of r] checked_shl_Some)
    then show ?thesis using st al bytes by auto
  next
    case False
    let ?w = "shr v 7"
    have bytes: "vlq_bytes v = ucast ((v AND 0x7F) OR 0x80) # vlq_bytes ?w"
      using False by (simp add: vlq_bytes.simps [of v] vlq_mask_eq_0_iff)
    then have b: "bits_word (br_bits r) ?p 8 = (ucast ((v AND 0x7F) OR 0x80) :: u8)"
      and rest: "stream_has (br_bits r) (?p + 8) (vlq_bytes ?w)"
      using "1.prems"(2) by (simp_all add: stream_has_Cons)
    let ?acc = "acc OR shl (take_bit 7 v) shift"
    have "get_vlq_loop r shift acc = get_vlq_loop r' (shift + 7) ?acc"
      using g sh vlq_byte_more [of v] by (simp add: get_vlq_loop.simps [of r] b checked_shl_Some)
    moreover have "\<exists>r''. get_vlq_loop r' (shift + 7) ?acc = Some (Some (?acc OR shl ?w (shift + 7)), r'') \<and>
       br_step r' (br_aligned r' + 8 * length (vlq_bytes ?w) - br_pos r') r'' \<and> br_pos r'' mod 8 = 0"
    proof (rule "1.IH")
      show "v AND 0xFFFFFFFFFFFFFF80 \<noteq> 0" using False by (simp add: vlq_mask_eq_0_iff)
      show "br_inv r'" by (rule br_stepD(1) [OF st])
      show "stream_has (br_bits r') (br_aligned r') (vlq_bytes ?w)"
        using rest by (simp add: p' br_stepD(3) [OF st])
      show "br_aligned r' + 8 * length (vlq_bytes ?w) \<le> br_end r'"
        using "1.prems"(3) bytes by (simp add: p' br_stepD(4) [OF st])
      show "shift + 7 + 7 * length (vlq_bytes ?w) \<le> 70"
        using "1.prems"(4) bytes by simp
    qed
    moreover have "?acc OR shl ?w (shift + 7) = acc OR shl v shift"
    proof (rule bit_word_eqI)
      fix k :: nat assume "k < LENGTH(64)"
      then show "bit (?acc OR shl ?w (shift + 7)) k = bit (acc OR shl v shift) k"
        by (cases "k < shift + 7") (auto simp: bit_simps)
    qed
    moreover have "br_step r (?p + 8 * ?n - br_pos r) r''"
      if "br_step r' (br_aligned r' + 8 * length (vlq_bytes ?w) - br_pos r') r''" for r''
      using br_step_trans [OF st that] br_stepD(2) [OF st] br_pos_le_aligned [of r] bytes
      by (simp add: p' br_aligned_id [OF al, symmetric] add.assoc)
    ultimately show ?thesis by auto
  qed
qed

lemma get_vlq_int_spec:
  assumes "br_inv r" and "stream_has (br_bits r) (br_aligned r) (vlq_bytes v)"
    and "br_aligned r + 8 * length (vlq_bytes v) \<le> br_end r"
  obtains r' where "get_vlq_int r = Some (Some v, r')"
    and "br_step r (br_aligned r + 8 * length (vlq_bytes v) - br_pos r) r'" and "br_pos r' mod 8 = 0"
  using get_vlq_loop_spec [OF assms, of 0 0] length_vlq_bytes_le_10 [of v] that
  by (auto simp: get_vlq_int_def)

lemma get_vlq_int_end:
  assumes "br_end r < br_aligned r + 8"
  shows "get_vlq_int r = Some (None, r)"
  using get_aligned_end [where 'a = 8, of 1 r] assms
  by (simp add: get_vlq_int_def get_vlq_loop.simps [of r])

subsection \<open>Skipping\<close>

lemma skip_bits_spec:
  assumes inv: "br_inv r"
  obtains r' where "skip_bits r n = Some (min (br_end r - br_pos r) n, r')"
    and "br_step r (min (br_end r - br_pos r) n) r'"
proof -
  let ?b = "br_bit_offset r" and ?o = "br_byte_offset r" and ?t = "br_total_bytes r"
  define m where "m = min ((?t - ?o) * 8 - ?b) n"
  have b: "?b < 64" and ot: "8 * ?o + ?b \<le> 8 * ?t" and buf: "?t \<le> length (br_buffer r)"
    using inv by (auto simp: br_defs)
  have le: "?o \<le> ?t" and lb: "?b \<le> (?t - ?o) * 8" using ot by linarith+
  have m_eq: "m = min (br_end r - br_pos r) n"
    using ot by (simp add: m_def br_defs diff_mult_distrib)
  have room: "8 * ?o + ?b + m \<le> 8 * ?t"
    using ot lb by (simp add: m_def)
  define i1 where "i1 = (if ?b = 0 then 0 else if m < 64 - ?b then m else 64 - ?b)"
  define r1 where "r1 = (if ?b = 0 then r else if m < 64 - ?b then r\<lparr>br_bit_offset := ?b + m\<rparr>
      else r\<lparr>br_byte_offset := ?o + 8, br_bit_offset := 0\<rparr>)"
  have i1: "i1 \<le> m" and pos1: "br_pos r1 = br_pos r + i1" and bit1: "br_bit_offset r1 < 64"
    and done1: "br_bit_offset r1 = 0 \<or> i1 = m \<and> br_inv r1"
    and same1: "br_buffer r1 = br_buffer r" "br_total_bytes r1 = ?t"
    using b inv room by (auto simp: i1_def r1_def br_defs)
  define i2 where "i2 = (if i1 + 7 < m then i1 + (m - i1) div 8 * 8 else i1)"
  define r2 where "r2 = (if i1 + 7 < m
      then r1\<lparr>br_byte_offset := br_byte_offset r1 + (m - i1) div 8\<rparr> else r1)"
  have i2: "i2 \<le> m" "m - i2 < 8 \<or> i2 = m" and pos2: "br_pos r2 = br_pos r + i2"
    and bit2: "br_bit_offset r2 = br_bit_offset r1" and same2: "br_buffer r2 = br_buffer r" "br_total_bytes r2 = ?t"
    using i1 pos1 same1 by (auto simp: i2_def r2_def br_pos_def)
  have le2: "br_pos r2 \<le> br_end r2" using pos2 same2 i2 room by (simp add: br_pos_def br_end_def)
  obtain r3 where r3: "(if br_bit_offset r2 = 0 then reload_buffer_values r2 else Some r2) = Some r3"
    and s3: "br_step r i2 r3" and b3: "br_bit_offset r3 = br_bit_offset r2"
  proof (cases "br_bit_offset r2 = 0")
    case True
    obtain r3 where "reload_buffer_values r2 = Some r3" and "br_step r2 0 r3"
      and "br_bit_offset r3 = br_bit_offset r2"
      using reload_step [of r2] le2 same2 buf True by auto
    with True show ?thesis using that [of r3] pos2 same2 by (auto simp: br_step_def)
  next
    case False
    with done1 bit2 have "i1 = m" and "br_inv r1" by auto
    with False show ?thesis
      using that [of r2] i2 pos2 same2 by (auto simp: r2_def br_step_def)
  qed
  define r4 where "r4 = (if i2 < m then r3\<lparr>br_bit_offset := br_bit_offset r3 + (m - i2)\<rparr> else r3)"
  have "br_step r m r4"
  proof (cases "i2 < m")
    case True
    with done1 bit2 b3 have "br_bit_offset r3 = 0" by (auto simp: i2_def)
    moreover have "br_inv r3" and "br_pos r3 = br_pos r + i2" and "br_total_bytes r3 = ?t"
      and "br_buffer r3 = br_buffer r"
      using s3 by (auto simp: br_step_def)
    ultimately show ?thesis
      using True i2 room by (auto simp: r4_def br_defs)
  next
    case False
    then show ?thesis using s3 i2 by (simp add: r4_def)
  qed
  moreover have "skip_bits r n = Some (m, r4)"
  proof -
    have "usub ?t ?o = Some (?t - ?o)" and "usub ((?t - ?o) * 8) ?b = Some ((?t - ?o) * 8 - ?b)"
      using le lb by (simp_all add: usub_Some)
    moreover have "(if ?b \<noteq> 0 then usub 64 ?b \<bind> (\<lambda>n.
          if m < n then Some (m, r\<lparr>br_bit_offset := ?b + m\<rparr>)
          else Some (n, r\<lparr>br_byte_offset := ?o + 8, br_bit_offset := 0\<rparr>))
        else Some (0, r)) = Some (i1, r1)"
      using b by (simp add: i1_def r1_def usub_Some)
    moreover have "(if i1 + 7 < m then
          Some (i1 + (m - i1) div 8 * 8, r1\<lparr>br_byte_offset := br_byte_offset r1 + (m - i1) div 8\<rparr>)
        else Some (i1, r1)) = Some (i2, r2)"
      by (simp add: i2_def r2_def)
    ultimately show ?thesis
      by (simp only: skip_bits_def bind.bind_lunit Let_def prod.case r3 r4_def flip: m_def)
  qed
  ultimately show ?thesis using that m_eq by simp
qed

subsection \<open>Copying runs of bits\<close>

text \<open>
  \<open>bits_added dst off m f p dst'\<close>: the \<open>m\<close> bits of the stream \<open>f\<close> from position \<open>p\<close> are added
  to the bits of \<open>dst\<close> from position \<open>off\<close>, and every other bit is kept.
\<close>

definition bits_added :: "u8 list \<Rightarrow> nat \<Rightarrow> nat \<Rightarrow> (nat \<Rightarrow> bool) \<Rightarrow> nat \<Rightarrow> u8 list \<Rightarrow> bool" where
  "bits_added dst off m f p dst' \<longleftrightarrow> length dst' = length dst \<and>
     (\<forall>k. byte_bit dst' k \<longleftrightarrow> byte_bit dst k \<or> off \<le> k \<and> k < off + m \<and> f (p + (k - off)))"

lemma bits_added_refl [simp]: "bits_added dst off 0 f p dst"
  by (auto simp: bits_added_def)

lemma bits_added_cong:
  assumes "\<And>j. j < m \<Longrightarrow> f (p + j) = g (q + j)"
  shows "bits_added d off m f p d' = bits_added d off m g q d'"
proof -
  have "(off \<le> k \<and> k < off + m \<and> f (p + (k - off))) = (off \<le> k \<and> k < off + m \<and> g (q + (k - off)))" for k
    using assms [of "k - off"] by (auto simp del: Nat.add_diff_assoc)
  then show ?thesis by (simp only: bits_added_def)
qed

lemma bits_added_trans:
  assumes "bits_added d off m f p d'" and "bits_added d' (off + m) n f (p + m) d''"
  shows "bits_added d off (m + n) f p d''"
proof -
  have "byte_bit d'' k \<longleftrightarrow> byte_bit d k \<or> off \<le> k \<and> k < off + (m + n) \<and> f (p + (k - off))" for k
    using assms by (cases "k < off + m") (auto simp: bits_added_def)
  with assms show ?thesis by (simp add: bits_added_def)
qed

lemma or_bytes_spec:
  "i + n \<le> length dst \<Longrightarrow>
     \<exists>dst'. or_bytes dst i n v = Some dst' \<and> length dst' = length dst \<and>
       (\<forall>k. byte_bit dst' k \<longleftrightarrow>
          byte_bit dst k \<or> 8 * i \<le> k \<and> k < 8 * (i + n) \<and> bit v (k - 8 * i))"
proof (induction n arbitrary: dst i v)
  case 0
  then show ?case by auto
next
  case (Suc n)
  let ?d = "dst[i := dst ! i OR ucast v]"
  have i: "i < length dst" using Suc.prems by simp
  from Suc.IH [of "Suc i" ?d "shr v 8"] Suc.prems obtain dst' where
    run: "or_bytes ?d (Suc i) n (shr v 8) = Some dst'" and len: "length dst' = length dst" and
    bits: "\<And>k. byte_bit dst' k \<longleftrightarrow> byte_bit ?d k \<or>
      8 * Suc i \<le> k \<and> k < 8 * (Suc i + n) \<and> bit (shr v 8) (k - 8 * Suc i)" by auto
  have "byte_bit dst' k \<longleftrightarrow>
      byte_bit dst k \<or> 8 * i \<le> k \<and> k < 8 * (i + Suc n) \<and> bit v (k - 8 * i)" for k
  proof (cases "k div 8 = i")
    case True
    then have "k - 8 * i = k mod 8" and "8 * i \<le> k" and "\<not> 8 * Suc i \<le> k"
      by (auto simp: minus_mult_div_eq_mod)
    then show ?thesis
      unfolding bits using True i by (auto simp: byte_bit_update byte_bit_nth bit_simps)
  next
    case False
    then have "8 * i \<le> k \<longleftrightarrow> 8 * Suc i \<le> k" by auto
    moreover have "8 + (k - 8 * Suc i) = k - 8 * i" if "8 * Suc i \<le> k" using that by simp
    ultimately show ?thesis
      unfolding bits using False i by (auto simp: byte_bit_update bit_shr)
  qed
  with run len i show ?case by (simp add: index_Some update_Some)
qed

lemma get_bits_buffered_spec:
  assumes inv: "br_inv r" and n: "0 < n" and room: "br_pos r + n \<le> br_end r"
    and fit: "off + n \<le> 8 * length dst"
  obtains m dst' r' where "get_bits_buffered r dst off n = Some (m, dst', r')"
    and "m = min n (64 - br_bit_offset r)" and "br_step r m r'"
    and "bits_added dst off m (br_bits r) (br_pos r) dst'"
    and "br_bit_offset r' = 0 \<or> m = n"
proof -
  let ?b = "br_bit_offset r" and ?i = "off div 8" and ?s = "off mod 8"
  define m where "m = min n (64 - ?b)"
  have b: "?b < 64" and bv: "br_buffered_values r = bits_word (br_bits r) (8 * br_byte_offset r) 64"
    and tot: "br_total_bytes r \<le> length (br_buffer r)"
    using inv by (auto simp: br_inv_def)
  have m: "0 < m" "?b + m \<le> 64" "m \<le> n" using n b by (auto simp: m_def)
  define v where "v = trailing_bits (shr (br_buffered_values r) ?b) m"
  have bit_v: "bit v j \<longleftrightarrow> j < m \<and> br_bits r (br_pos r + j)" for j
    using m by (auto simp: v_def trailing_bits_eq bv bit_simps br_pos_def add.assoc)
  have off: "off = 8 * ?i + ?s" and s: "?s < 8" by simp_all
  have i: "?i < length dst" using fit n by linarith
  let ?c = "div_ceil (m + ?s) 8"
  have c: "?i + ?c \<le> length dst" and c1: "1 \<le> ?c" and c2: "off + m \<le> 8 * (?i + ?c)"
  proof -
    have "8 * ?c \<le> m + ?s + 7" and ge: "m + ?s \<le> 8 * ?c" unfolding div_ceil_8 by linarith+
    with fit m off show "?i + ?c \<le> length dst" and "1 \<le> ?c" by linarith+
    show "off + m \<le> 8 * (?i + ?c)" using add_left_mono [OF ge, of "8 * ?i"] by simp
  qed
  let ?d = "dst[?i := dst ! ?i OR ucast (shl v ?s)]"
  from or_bytes_spec [of "?i + 1" "?c - 1" ?d "shr v (8 - ?s)"] c c1 obtain dst' where
    run: "or_bytes ?d (?i + 1) (?c - 1) (shr v (8 - ?s)) = Some dst'" and len: "length dst' = length dst" and
    bits: "\<And>k. byte_bit dst' k \<longleftrightarrow> byte_bit ?d k \<or>
      8 * (?i + 1) \<le> k \<and> k < 8 * (?i + 1 + (?c - 1)) \<and> bit (shr v (8 - ?s)) (k - 8 * (?i + 1))"
    by auto
  have bits': "byte_bit dst' k \<longleftrightarrow>
      byte_bit dst k \<or> off \<le> k \<and> k < off + m \<and> br_bits r (br_pos r + (k - off))" for k
  proof (cases "k div 8 = ?i")
    case True
    have "k < off + m \<longleftrightarrow> k - off < m" if "off \<le> k" using that by linarith
    moreover have "k mod 8 < 64" by (rule less_trans [OF mod_less_divisor]) simp_all
    moreover note same_byte [OF True]
    ultimately show ?thesis
      unfolding bits using True i by (auto simp: byte_bit_update byte_bit_nth bit_simps bit_v)
  next
    case False
    note ge = other_byte(1) [OF False] and other_byte(2) [OF False]
    moreover have "k < 8 * (?i + 1 + (?c - 1))" if "k < off + m"
      using less_le_trans [OF that c2] c1 by simp
    moreover have "k < off + m \<longleftrightarrow> k - off < m" if "off \<le> k" using that by linarith
    ultimately show ?thesis
      unfolding bits ge using False i by (auto simp: byte_bit_update bit_shr bit_v)
  qed
  let ?r1 = "r\<lparr>br_bit_offset := ?b + m\<rparr>"
  obtain r' where r': "(if br_bit_offset ?r1 = 64
             then reload_buffer_values
                    (?r1\<lparr>br_byte_offset := br_byte_offset ?r1 + 8, br_bit_offset := br_bit_offset ?r1 - 64\<rparr>)
             else Some ?r1) = Some r'" and step: "br_step r m r'" and drained: "br_bit_offset r' = 0 \<or> m = n"
  proof (cases "?b + m = 64")
    case True
    let ?r2 = "r\<lparr>br_byte_offset := br_byte_offset r + 8, br_bit_offset := 0\<rparr>"
    have "br_pos ?r2 = br_pos r + m" using True by (simp add: br_pos_def)
    moreover have "br_end ?r2 = br_end r" by (simp add: br_end_def)
    ultimately obtain r' where "reload_buffer_values ?r2 = Some r'" and "br_step ?r2 0 r'"
      and "br_bit_offset r' = 0"
      using reload_step [of ?r2] tot room m by auto
    then show ?thesis
      using that [of r'] True \<open>br_pos ?r2 = br_pos r + m\<close> by (auto simp: br_step_def)
  next
    case False
    then show ?thesis
      using that [of ?r1] m inv room by (auto simp: br_defs m_def)
  qed
  have "get_bits_buffered r dst off n = Some (m, dst', r')"
    using n b i run r' by (simp add: get_bits_buffered_def usub_Some checked_shr_Some index_Some update_Some
        flip: m_def v_def cong: if_cong)
  then show ?thesis using that [of m dst' r'] m_def step len bits' drained
    by (simp add: bits_added_def)
qed

lemma get_bits_rest_spec:
  assumes "br_inv r" and "i \<le> m" and "br_pos r + (m - i) \<le> br_end r" and "off + m \<le> 8 * length dst"
  shows "\<exists>dst' r'. get_bits_rest r dst off i m = Some (dst', r') \<and> br_step r (m - i) r' \<and>
    bits_added dst (off + i) (m - i) (br_bits r) (br_pos r) dst'"
  using assms
proof (induction r dst off i m rule: get_bits_rest.induct)
  case (1 r dst off i m)
  show ?case
  proof (cases "i < m")
    case False
    with 1 show ?thesis by (auto simp: get_bits_rest.simps [of r])
  next
    case True
    have "0 < m - i" and "off + i + (m - i) \<le> 8 * length dst" using True 1(5) by auto
    from get_bits_buffered_spec [OF 1(2) this(1) 1(4) this(2)] obtain n d' r1 where
      run: "get_bits_buffered r dst (off + i) (m - i) = Some (n, d', r1)"
      and n: "n = min (m - i) (64 - br_bit_offset r)" and step: "br_step r n r1"
      and add: "bits_added dst (off + i) n (br_bits r) (br_pos r) d'" by blast
    note s = br_stepD [OF step]
    have n': "i + n \<le> m" and split: "m - i = n + (m - (i + n))" using True n by auto
    moreover have "br_pos r1 + (m - (i + n)) \<le> br_end r1" using 1(4) s split by simp
    moreover have "off + m \<le> 8 * length d'" using 1(5) add by (simp add: bits_added_def)
    ultimately obtain dst' r' where "get_bits_rest r1 d' off (i + n) m = Some (dst', r')"
      and "br_step r1 (m - (i + n)) r'"
      and "bits_added d' (off + i + n) (m - (i + n)) (br_bits r) (br_pos r + n) dst'"
      using 1(1) [OF True run refl refl] s by (auto simp: add.assoc)
    with True run split step add show ?thesis
      by (metis (no_types, lifting) get_bits_rest.simps option.case(2) old.prod.case
          br_step_trans bits_added_trans)
  qed
qed

lemma memcpy_bits_added:
  assumes fit: "q + n \<le> length dst" and src: "o1 + n \<le> length buf"
    and free: "\<And>k. 8 * q \<le> k \<Longrightarrow> k < 8 * q + 8 * n \<Longrightarrow> \<not> byte_bit dst k"
  obtains dst' where "memcpy_at (take n (drop o1 buf)) dst q = Some dst'"
    and "bits_added dst (8 * q) (8 * n) (byte_bit buf) (8 * o1) dst'"
proof -
  let ?s = "take n (drop o1 buf)"
  have len: "length ?s = n" using src by simp
  let ?d = "take q dst @ ?s @ drop (q + length ?s) dst"
  have "byte_bit ?d k \<longleftrightarrow>
      byte_bit dst k \<or> 8 * q \<le> k \<and> k < 8 * q + 8 * n \<and> byte_bit buf (8 * o1 + (k - 8 * q))" for k
    using free [of k] fit byte_bit_splice [of q ?s dst k] unfolding len
    by (auto simp: byte_bit_take byte_bit_drop split: if_splits)
  moreover have "length ?d = length dst" using fit len by simp
  ultimately show ?thesis
    using that fit len memcpy_at_eq [of q ?s dst] by (auto simp: bits_added_def)
qed

text \<open>The whole bytes that \<open>get_bits\<close> copies with \<open>memcpy\<close> between the two buffered parts.\<close>

lemma get_bits_copy:
  assumes inv: "br_inv r" and b: "br_bit_offset r = 0" and room: "br_pos r + 8 * n \<le> br_end r"
    and al: "off mod 8 = 0" and fit: "off + 8 * n \<le> 8 * length dst"
    and free: "\<And>k. off \<le> k \<Longrightarrow> k < off + 8 * n \<Longrightarrow> \<not> byte_bit dst k"
  obtains src dst' r' where
    "slice_range (br_buffer r) (br_byte_offset r) (br_byte_offset r + n) = Some src"
    and "memcpy_at src dst (off div 8) = Some dst'"
    and "reload_buffer_values (r\<lparr>br_byte_offset := br_byte_offset r + n\<rparr>) = Some r'"
    and "br_step r (8 * n) r'" and "br_bit_offset r' = 0"
    and "bits_added dst off (8 * n) (br_bits r) (br_pos r) dst'"
proof -
  let ?o = "br_byte_offset r" and ?r = "r\<lparr>br_byte_offset := br_byte_offset r + n\<rparr>"
  have off: "off = 8 * (off div 8)" using al by auto
  have tot: "br_total_bytes r \<le> length (br_buffer r)" and pos: "br_pos r = 8 * ?o"
    using inv b by (auto simp: br_inv_def br_pos_def)
  have o: "?o + n \<le> br_total_bytes r" using room pos by (simp add: br_end_def)
  have "off div 8 + n \<le> length dst" using fit off by linarith
  moreover have "?o + n \<le> length (br_buffer r)" using o tot by simp
  ultimately obtain dst' where
    cp: "memcpy_at (take n (drop ?o (br_buffer r))) dst (off div 8) = Some dst'"
    and add: "bits_added dst off (8 * n) (byte_bit (br_buffer r)) (8 * ?o) dst'"
    using memcpy_bits_added [of "off div 8" n dst ?o "br_buffer r"] free off by metis
  have "br_bits r (8 * ?o + j) = byte_bit (br_buffer r) (8 * ?o + j)" if "j < 8 * n" for j
    using that o by (simp add: br_bits_def byte_bit_take)
  with add have add': "bits_added dst off (8 * n) (br_bits r) (br_pos r) dst'"
    unfolding pos by (subst bits_added_cong)
  obtain r' where "reload_buffer_values ?r = Some r'" and "br_step ?r 0 r'" and "br_bit_offset r' = 0"
    using reload_step [of ?r] tot o b by (auto simp: br_pos_def br_end_def)
  moreover have "br_step r (8 * n) r'" using \<open>br_step ?r 0 r'\<close> by (simp add: br_step_def br_pos_def)
  moreover have "slice_range (br_buffer r) ?o (?o + n) = Some (take n (drop ?o (br_buffer r)))"
    using o tot by (simp add: slice_range_Some)
  ultimately show ?thesis using that cp add' by blast
qed

lemma get_bits_spec:
  assumes inv: "br_inv r" and off: "off < 8 * length dst"
    and m: "m = min (br_end r - br_pos r) (min n (8 * length dst - off))"
    and free: "\<And>k. off \<le> k \<Longrightarrow> k < off + m \<Longrightarrow> \<not> byte_bit dst k"
  obtains dst' r' where "get_bits r dst off n = Some (m, dst', r')" and "br_step r m r'"
    and "bits_added dst off m (br_bits r) (br_pos r) dst'"
proof -
  have le: "8 * br_byte_offset r + br_bit_offset r \<le> 8 * br_total_bytes r"
    using inv by (simp add: br_inv_def br_pos_def br_end_def)
  have g1: "usub (br_total_bytes r) (br_byte_offset r) = Some (br_total_bytes r - br_byte_offset r)"
    and g2: "usub ((br_total_bytes r - br_byte_offset r) * 8) (br_bit_offset r) =
        Some ((br_total_bytes r - br_byte_offset r) * 8 - br_bit_offset r)"
    using le by (auto simp: usub_def)
  have m': "min ((br_total_bytes r - br_byte_offset r) * 8 - br_bit_offset r) (min n (length dst * 8 - off)) = m"
    by (simp add: m br_pos_def br_end_def diff_mult_distrib mult.commute)
  have room: "br_pos r + m \<le> br_end r" and fit: "off + m \<le> 8 * length dst"
    using inv off m by (auto simp: br_inv_def)
  obtain i d1 r1 where s1: "(if br_bit_offset r \<noteq> 0 then get_bits_buffered r dst off m
        else Some (0, dst, r)) = Some (i, d1, r1)"
    and i: "i \<le> m" and st1: "br_step r i r1" and b1: "br_bit_offset r1 = 0 \<or> i = m"
    and a1: "bits_added dst off i (br_bits r) (br_pos r) d1"
  proof (cases "br_bit_offset r \<noteq> 0 \<and> 0 < m")
    case True
    with get_bits_buffered_spec [OF inv _ room fit] that show ?thesis by (metis min.cobounded1)
  next
    case False
    with that [of 0 dst r] br_step_refl [OF inv] show ?thesis
      by (auto simp: get_bits_buffered_def cong: if_cong)
  qed
  note r1 = br_stepD [OF st1]
  define w where "w = (if (off + i) mod 8 = 0 \<and> i < m then (m - i) div 8 else 0)"
  obtain d2 r2 where s2: "(if (off + i) mod 8 = 0 \<and> i < m then
          (if (m - i) div 8 > 0 then slice_range (br_buffer r1) (br_byte_offset r1) (br_byte_offset r1 + (m - i) div 8)
              \<bind> (\<lambda>src. memcpy_at src d1 ((off + i) div 8)
              \<bind> (\<lambda>dst. reload_buffer_values (r1\<lparr>br_byte_offset := br_byte_offset r1 + (m - i) div 8\<rparr>)
              \<bind> (\<lambda>r. Some (i + (m - i) div 8 * 8, dst, r))))
           else Some (i, d1, r1))
        else Some (i, d1, r1)) = Some (i + 8 * w, d2, r2)"
    and st2: "br_step r1 (8 * w) r2" and w: "i + 8 * w \<le> m" "(off + (i + 8 * w)) mod 8 \<noteq> 0 \<or> m - (i + 8 * w) < 8"
    and a2: "bits_added d1 (off + i) (8 * w) (br_bits r) (br_pos r + i) d2"
  proof (cases "w = 0")
    case True
    then show ?thesis
      using that [of d1 r1] i r1 b1 by (auto simp: w_def br_step_refl split: if_splits)
  next
    case False
    then have al: "(off + i) mod 8 = 0" and im: "i < m" and w: "w = (m - i) div 8" "0 < (m - i) div 8"
      by (auto simp: w_def split: if_splits)
    have le: "8 * w \<le> m - i" unfolding w by simp
    have "m - (i + 8 * w) = (m - i) mod 8"
      unfolding w by (simp only: minus_mult_div_eq_mod flip: diff_diff_left)
    then have lt: "m - (i + 8 * w) < 8" by simp
    have le': "i + 8 * w \<le> m" using le im by linarith
    have free1: "\<not> byte_bit d1 k" if "off + i \<le> k" "k < off + i + 8 * w" for k
      using that le im a1 free [of k] by (auto simp: bits_added_def)
    have b0: "br_bit_offset r1 = 0" using b1 im by simp
    have room1: "br_pos r1 + 8 * w \<le> br_end r1" using r1 room le im by simp
    have fit1: "off + i + 8 * w \<le> 8 * length d1" using a1 fit le im by (simp add: bits_added_def)
    from get_bits_copy [OF r1(1) b0 room1 al fit1 free1] obtain src d2 r2 where
      "slice_range (br_buffer r1) (br_byte_offset r1) (br_byte_offset r1 + w) = Some src"
      "memcpy_at src d1 ((off + i) div 8) = Some d2"
      "reload_buffer_values (r1\<lparr>br_byte_offset := br_byte_offset r1 + w\<rparr>) = Some r2"
      "br_step r1 (8 * w) r2" "bits_added d1 (off + i) (8 * w) (br_bits r1) (br_pos r1) d2" by blast
    then show ?thesis
      using that [of d2 r2, OF _ _ le'] lt al im w(2) r1 unfolding w(1) by (simp add: mult.commute)
  qed
  note r2 = br_stepD [OF st2]
  have "br_pos r2 + (m - (i + 8 * w)) \<le> br_end r2" using r1 r2 room w by simp
  moreover have "off + m \<le> 8 * length d2" using a1 a2 fit by (simp add: bits_added_def)
  ultimately obtain d3 r3 where s3: "get_bits_rest r2 d2 off (i + 8 * w) m = Some (d3, r3)"
    and st3: "br_step r2 (m - (i + 8 * w)) r3"
    and a3: "bits_added d2 (off + (i + 8 * w)) (m - (i + 8 * w)) (br_bits r2) (br_pos r2) d3"
    using get_bits_rest_spec [OF r2(1) w(1)] by blast
  have "get_bits r dst off n = Some (m, d3, r3)"
    using off [unfolded mult.commute [of 8]] b1 w(2) s1 s2 s3
    by (simp only: get_bits_def g1 g2 m' bind.bind_lunit Let_def prod.case ensure_bind if_True)
  moreover have "br_step r m r3"
    using br_step_trans [OF br_step_trans [OF st1 st2] st3] w(1) by simp
  moreover have "bits_added dst off m (br_bits r) (br_pos r) d3"
    using bits_added_trans [OF bits_added_trans [OF a1 a2], of "m - (i + 8 * w)" d3] a3 r1 r2 w(1)
    by (simp add: add.assoc)
  ultimately show ?thesis by (rule that)
qed

subsection \<open>Properties\<close>

text \<open>
  C22. \<open>get_value\<close> on every branch: with enough bits left it returns the next \<open>n\<close> bits of the stream as
  a number, moves the cursor by \<open>n\<close> and keeps the invariant; with fewer bits left it returns no value and
  leaves the reader alone.
\<close>

theorem get_value_reads_field:
  assumes "br_inv r" and "n \<le> LENGTH('a::len)" and "n < 64"
  shows "if br_pos r + n \<le> br_end r
    then \<exists>r'. get_value r n = Some (Some (bits_word (br_bits r) (br_pos r) n :: 'a word), r') \<and> br_step r n r'
    else get_value r n = Some (None :: 'a word option, r)"
proof (cases "br_pos r + n \<le> br_end r")
  case True
  have "n < 64 \<or> n = 64 \<and> br_bit_offset r \<noteq> 0" using assms(3) by simp
  from get_value_spec [OF assms(1,2) this True] obtain r' where
    "get_value r n = Some (Some (bits_word (br_bits r) (br_pos r) n :: 'a word), r')" and "br_step r n r'" .
  with True show ?thesis by auto
next
  case False
  with get_value_end [of r n, where 'a = 'a] assms(2,3) show ?thesis by simp
qed

theorem get_value_reads_field_witness:
  "\<exists>r'. get_value (\<lparr>br_buffer = [0xE4, 0x1B, 0x03], br_buffered_values = 0x031BE4, br_byte_offset = 0, br_bit_offset = 0, br_total_bytes = 3\<rparr>) 3 = Some (Some (4 :: u8), r')"
proof -
  let ?r = "\<lparr>br_buffer = [0xE4, 0x1B, 0x03], br_buffered_values = 0x031BE4, br_byte_offset = 0, br_bit_offset = 0, br_total_bytes = 3\<rparr>"
  have inv: "br_inv ?r" by code_simp
  have "br_pos ?r + 3 \<le> br_end ?r" by code_simp
  moreover have "bits_word (br_bits ?r) (br_pos ?r) 3 = (4 :: u8)" by code_simp
  ultimately show ?thesis using get_value_reads_field [OF inv, of 3, where 'a = 8] by auto
qed

text \<open>
  \<open>get_bits\<close> copies the bits of the stream behind the given bit position of the destination: as many
  as were asked for, as are left, or as fit, whichever is least. Every other bit of the destination is kept, provided
  the target positions were clear.
\<close>

theorem get_bits_copies:
  assumes "br_inv r" and "off < 8 * length dst"
    and "m = min (br_end r - br_pos r) (min n (8 * length dst - off))"
    and "\<And>k. off \<le> k \<Longrightarrow> k < off + m \<Longrightarrow> \<not> byte_bit dst k"
  shows "\<exists>dst' r'. get_bits r dst off n = Some (m, dst', r') \<and> br_step r m r' \<and> length dst' = length dst \<and>
    (\<forall>k. byte_bit dst' k =
      (if off \<le> k \<and> k < off + m then br_bits r (br_pos r + (k - off)) else byte_bit dst k))"
proof -
  obtain dst' r' where run: "get_bits r dst off n = Some (m, dst', r')" "br_step r m r'"
    and add: "bits_added dst off m (br_bits r) (br_pos r) dst'"
    using get_bits_spec [OF assms] by blast
  have "byte_bit dst' k = (if off \<le> k \<and> k < off + m then br_bits r (br_pos r + (k - off)) else byte_bit dst k)" for k
    using add assms(4) [of k] by (auto simp: bits_added_def)
  with run add show ?thesis by (auto simp: bits_added_def)
qed

theorem get_bits_copies_witness:
  "\<exists>dst' r'. get_bits (\<lparr>br_buffer = [0xE4, 0x1B, 0x03], br_buffered_values = 0x031BE4, br_byte_offset = 0, br_bit_offset = 0, br_total_bytes = 3\<rparr>) [0x01, 0, 0] 3 10 = Some (10, dst', r')"
proof -
  let ?r = "\<lparr>br_buffer = [0xE4, 0x1B, 0x03], br_buffered_values = 0x031BE4, br_byte_offset = 0, br_bit_offset = 0, br_total_bytes = 3\<rparr>"
  have inv: "br_inv ?r" by code_simp
  have m: "10 = min (br_end ?r - br_pos ?r) (min 10 (8 * length [0x01 :: u8, 0, 0] - 3))" by code_simp
  have free: "\<not> byte_bit [0x01, 0, 0] k" if "3 \<le> k" "k < 3 + 10" for k
  proof -
    have "list_all (\<lambda>k. \<not> byte_bit [0x01, 0, 0] k) [3..<13]" by code_simp
    with that show ?thesis by (simp only: list_all_iff set_upt) auto
  qed
  show ?thesis using get_bits_copies [OF inv _ m free] by auto
qed

text \<open>
  \<open>skip_bits\<close> moves the cursor by the bits asked for or by what is left, and the bits read after it are
  those the stream has there.
\<close>

theorem skip_bits_skips:
  assumes "br_inv r"
  shows "\<exists>r'. skip_bits r n = Some (min (br_end r - br_pos r) n, r') \<and> br_inv r' \<and>
    br_pos r' = min (br_end r) (br_pos r + n) \<and> br_bits r' = br_bits r"
proof -
  obtain r' where "skip_bits r n = Some (min (br_end r - br_pos r) n, r')"
    and st: "br_step r (min (br_end r - br_pos r) n) r'"
    using skip_bits_spec [OF assms] .
  moreover have "br_pos r \<le> br_end r" using assms by (simp add: br_inv_def)
  ultimately show ?thesis using br_stepD [OF st] by auto
qed

theorem skip_bits_skips_witness:
  "\<exists>r'. skip_bits (\<lparr>br_buffer = [0xE4, 0x1B, 0x03], br_buffered_values = 0x031BE4, br_byte_offset = 0, br_bit_offset = 0, br_total_bytes = 3\<rparr>) 13 = Some (13, r') \<and> br_pos r' = 13"
proof -
  let ?r = "\<lparr>br_buffer = [0xE4, 0x1B, 0x03], br_buffered_values = 0x031BE4, br_byte_offset = 0, br_bit_offset = 0, br_total_bytes = 3\<rparr>"
  have inv: "br_inv ?r" by code_simp
  have "br_end ?r = 24" and "br_pos ?r = 0" by code_simp+
  with skip_bits_skips [OF inv, of 13] show ?thesis by auto
qed

text \<open>
  A 64-bit value read at a word boundary does not come back: the reader reloads and then shifts by 64,
  which overflows, although the documented limit is 64 bits.
\<close>

theorem get_u64_value_64_at_boundary:
  "get_u64_value \<lparr>br_buffer = replicate 16 1, br_buffered_values = 0x0101010101010101, br_byte_offset = 0,
     br_bit_offset = 0, br_total_bytes = 16\<rparr> 64 = None"
  by code_simp

end
