(* ===== verification/Plain_Decoder.thy ===== *)
theory Plain_Decoder
  imports Value_Decoder Bit_Reader_Spec
begin

text \<open>
  \<open>PlainDecoder\<close> of \<open>native/core/src/parquet/read/values.rs\<close>: the PLAIN encoding of every Parquet type that
  Comet reads, and the eager decoding of dictionary indices when a column chunk falls back from dictionary to
  plain pages. Values are blocks of bytes; signed and unsigned integers of any width are read from and written to
  such blocks, with the overflow checks of a debug build.
\<close>

subsection \<open>Integers in byte blocks\<close>

fun le_nat :: "u8 list \<Rightarrow> int" where
  "le_nat [] = 0"
| "le_nat (b # bs) = uint b + 256 * le_nat bs"

definition le_int :: "u8 list \<Rightarrow> int" where
  "le_int bs = (let v = le_nat bs in if 2 * v < 2 ^ (8 * length bs) then v else v - 2 ^ (8 * length bs))"

fun int_bytes :: "nat \<Rightarrow> int \<Rightarrow> u8 list" where
  "int_bytes 0 v = []"
| "int_bytes (Suc n) v = word_of_int (v mod 256) # int_bytes n (v div 256)"

subsection \<open>State\<close>

datatype data_type =
    BoolType | Int8Type | UInt8Type | Int16Type | Int16ToDoubleType | UInt16Type | Int32Type | Int32To64Type
  | Int32ToDecimal64Type | Int32ToDoubleType | UInt32Type | Int64Type | Int64ToDecimal64Type | UInt64Type
  | FloatType | DoubleType | FloatToDoubleType | ByteArrayType | StringType | Int32DecimalType | Int64DecimalType
  | FLBADecimalType | FLBADecimal32Type | FLBADecimal64Type | FLBAType | Int32DateType | Int32TimestampMicrosType
  | Int64TimestampMillisType | Int64TimestampMicrosType | Int96TimestampMicrosType

text \<open>What the decoders ask of a column descriptor; \<open>type_length\<close> is converted to \<open>usize\<close>.\<close>

record column_desc =
  cd_type_length :: nat
  cd_type_precision :: nat
  cd_type_scale :: int
  cd_max_def_level :: "16 word"
  cd_max_rep_level :: "16 word"

record read_options =
  use_legacy_date_timestamp_or_ntz :: bool

record plain_decoder =
  pd_data :: "u8 list"
  pd_offset :: nat
  pd_bit_reader :: bit_reader
  pd_read_options :: read_options
  pd_desc :: column_desc

definition plain_new :: "u8 list \<Rightarrow> column_desc \<Rightarrow> read_options \<Rightarrow> plain_decoder option" where
  "plain_new value_data desc opts = do {
     let len = length value_data;
     r \<leftarrow> br_new value_data len;
     Some \<lparr>pd_data = value_data, pd_offset = 0, pd_bit_reader = r, pd_read_options = opts, pd_desc = desc\<rparr>
   }"

definition JULIAN_GREGORIAN_SWITCH_OFF_DAY :: int where
  "JULIAN_GREGORIAN_SWITCH_OFF_DAY = -141427"

definition JULIAN_GREGORIAN_SWITCH_OFF_TS :: int where
  "JULIAN_GREGORIAN_SWITCH_OFF_TS = -2208988800000000"

definition JULIAN_DAY_OF_EPOCH :: int where
  "JULIAN_DAY_OF_EPOCH = 2440588"

definition MICROS_PER_MILLIS :: int where
  "MICROS_PER_MILLIS = 1000"

definition MICROS_PER_DAY :: int where
  "MICROS_PER_DAY = 24 * 60 * 60 * 1000 * 1000"

definition INT96_SRC_BYTE_WIDTH :: nat where
  "INT96_SRC_BYTE_WIDTH = 12"

definition INT96_DST_BYTE_WIDTH :: nat where
  "INT96_DST_BYTE_WIDTH = 8"

text \<open>\<open>memcpy(source, &mut dst.value_buffer[dst_offset..])\<close>\<close>

definition value_memcpy :: "pmv \<Rightarrow> nat \<Rightarrow> u8 list \<Rightarrow> pmv option" where
  "value_memcpy dst dst_offset source = do {
     b \<leftarrow> cb_deref_mut (pmv_values dst) (\<lambda>data. memcpy_at source data dst_offset);
     Some (pmv_set_values dst b)
   }"

definition value_memcpy_value :: "pmv \<Rightarrow> nat \<Rightarrow> u8 list \<Rightarrow> nat \<Rightarrow> pmv option" where
  "value_memcpy_value dst dst_offset source num_bytes = do {
     b \<leftarrow> cb_deref_mut (pmv_values dst) (\<lambda>data. memcpy_value_at source num_bytes data dst_offset);
     Some (pmv_set_values dst b)
   }"

subsection \<open>Values of the same layout\<close>

definition decode_default :: "plain_decoder \<Rightarrow> pmv \<Rightarrow> nat \<Rightarrow> (plain_decoder \<times> pmv) option" where
  "decode_default src dst num = do {
     let byte_width = cd_type_length (pd_desc src);
     let num_bytes = byte_width * num;
     let dst_offset = byte_width * pmv_num_values dst;
     s \<leftarrow> slice_range (pd_data src) (pd_offset src) (pd_offset src + num_bytes);
     dst \<leftarrow> value_memcpy dst dst_offset s;
     Some (src\<lparr>pd_offset := pd_offset src + num_bytes\<rparr>, dst)
   }"

definition skip_default :: "plain_decoder \<Rightarrow> nat \<Rightarrow> plain_decoder option" where
  "skip_default src num =
     (let num_bytes = cd_type_length (pd_desc src) * num in Some (src\<lparr>pd_offset := pd_offset src + num_bytes\<rparr>))"

text \<open>A loop \<open>for _ in 0..num\<close> that looks at the values from \<open>offset\<close> on and panics when one fails a test.\<close>

fun check_values :: "(u8 list \<Rightarrow> bool option) \<Rightarrow> u8 list \<Rightarrow> nat \<Rightarrow> nat \<Rightarrow> nat \<Rightarrow> unit option" where
  "check_values ok data offset byte_width 0 = Some ()"
| "check_values ok data offset byte_width (Suc num) = do {
     s \<leftarrow> slice_range data offset (offset + byte_width);
     b \<leftarrow> ok s;
     ensure b;
     check_values ok data (offset + byte_width) byte_width num
   }"

text \<open>\<open>read_unaligned\<close> of an integer of \<open>n\<close> bytes behind the start of a block.\<close>

definition read_int :: "nat \<Rightarrow> u8 list \<Rightarrow> int option" where
  "read_int n s = (if n \<le> length s then Some (le_int (take n s)) else None)"

definition decode_date :: "plain_decoder \<Rightarrow> pmv \<Rightarrow> nat \<Rightarrow> (plain_decoder \<times> pmv) option" where
  "decode_date src dst num = do {
     let byte_width = cd_type_length (pd_desc src);
     let num_bytes = byte_width * num;
     let dst_offset = byte_width * pmv_num_values dst;
     (if \<not> use_legacy_date_timestamp_or_ntz (pd_read_options src) then
        check_values (\<lambda>s. do { v \<leftarrow> read_int 4 s; Some (\<not> v < JULIAN_GREGORIAN_SWITCH_OFF_DAY) })
          (pd_data src) (pd_offset src) byte_width num
      else Some ());
     s \<leftarrow> slice_range (pd_data src) (pd_offset src) (pd_offset src + num_bytes);
     dst \<leftarrow> value_memcpy dst dst_offset s;
     Some (src\<lparr>pd_offset := pd_offset src + num_bytes\<rparr>, dst)
   }"

definition decode_timestamp_micros :: "plain_decoder \<Rightarrow> pmv \<Rightarrow> nat \<Rightarrow> (plain_decoder \<times> pmv) option" where
  "decode_timestamp_micros src dst num = do {
     let byte_width = cd_type_length (pd_desc src);
     let num_bytes = byte_width * num;
     let dst_offset = byte_width * pmv_num_values dst;
     (if \<not> use_legacy_date_timestamp_or_ntz (pd_read_options src) then
        check_values (\<lambda>s. do { v \<leftarrow> read_int 8 s; Some (\<not> v < JULIAN_GREGORIAN_SWITCH_OFF_TS) })
          (pd_data src) (pd_offset src) byte_width num
      else Some ());
     s \<leftarrow> slice_range (pd_data src) (pd_offset src) (pd_offset src + num_bytes);
     dst \<leftarrow> value_memcpy dst dst_offset s;
     Some (src\<lparr>pd_offset := pd_offset src + num_bytes\<rparr>, dst)
   }"

text \<open>A loop that converts each value and writes it with \<open>memcpy_value\<close>; \<open>conv\<close> gives the bytes of the converted value.\<close>

fun convert_values :: "(u8 list \<Rightarrow> u8 list option) \<Rightarrow> u8 list \<Rightarrow> nat \<Rightarrow> nat \<Rightarrow> nat \<Rightarrow> nat \<Rightarrow> pmv \<Rightarrow> nat \<Rightarrow> pmv option" where
  "convert_values conv data offset byte_width dst_offset dst_byte_width dst 0 = Some dst"
| "convert_values conv data offset byte_width dst_offset dst_byte_width dst (Suc num) = do {
     s \<leftarrow> slice_range data offset (offset + byte_width);
     v \<leftarrow> conv s;
     dst \<leftarrow> value_memcpy_value dst dst_offset v dst_byte_width;
     convert_values conv data (offset + byte_width) byte_width (dst_offset + dst_byte_width) dst_byte_width dst num
   }"

definition days_to_micros :: "u8 list \<Rightarrow> u8 list option" where
  "days_to_micros s = do { v \<leftarrow> read_int 4 s; Some (int_bytes 8 (v * MICROS_PER_DAY)) }"

definition decode_date_to_timestamp :: "plain_decoder \<Rightarrow> pmv \<Rightarrow> nat \<Rightarrow> (plain_decoder \<times> pmv) option" where
  "decode_date_to_timestamp src dst num = do {
     let byte_width = cd_type_length (pd_desc src);
     let num_bytes = byte_width * num;
     check_values (\<lambda>s. do { v \<leftarrow> read_int 4 s; Some (\<not> v < JULIAN_GREGORIAN_SWITCH_OFF_DAY) })
       (pd_data src) (pd_offset src) byte_width num;
     let dst_byte_width = byte_width * 2;
     let dst_offset = dst_byte_width * pmv_num_values dst;
     dst \<leftarrow> convert_values days_to_micros (pd_data src) (pd_offset src) byte_width dst_offset dst_byte_width dst num;
     Some (src\<lparr>pd_offset := pd_offset src + num_bytes\<rparr>, dst)
   }"

text \<open>\<open>v.read_unaligned() * MICROS_PER_MILLIS\<close>, which panics when it overflows.\<close>

definition millis_to_micros :: "u8 list \<Rightarrow> int option" where
  "millis_to_micros s = do {
     v \<leftarrow> read_int 8 s;
     let v = v * MICROS_PER_MILLIS;
     ensure (fits_int True 8 v);
     Some v
   }"

definition decode_timestamp_millis :: "plain_decoder \<Rightarrow> pmv \<Rightarrow> nat \<Rightarrow> (plain_decoder \<times> pmv) option" where
  "decode_timestamp_millis src dst num = do {
     let byte_width = cd_type_length (pd_desc src);
     let num_bytes = byte_width * num;
     (if \<not> use_legacy_date_timestamp_or_ntz (pd_read_options src) then
        check_values (\<lambda>s. do { v \<leftarrow> millis_to_micros s; Some (\<not> v < JULIAN_GREGORIAN_SWITCH_OFF_TS) })
          (pd_data src) (pd_offset src) byte_width num
      else Some ());
     let dst_offset = byte_width * pmv_num_values dst;
     dst \<leftarrow> convert_values (\<lambda>s. do { v \<leftarrow> millis_to_micros s; Some (int_bytes 8 v) })
       (pd_data src) (pd_offset src) byte_width dst_offset byte_width dst num;
     Some (src\<lparr>pd_offset := pd_offset src + num_bytes\<rparr>, dst)
   }"

text \<open>\<open>int96_to_microsecond\<close>: eight bytes of nanoseconds, four bytes of the Julian day.\<close>

definition int96_to_microsecond :: "u8 list \<Rightarrow> int option" where
  "int96_to_microsecond v = do {
     nanos \<leftarrow> read_int 8 v;
     d \<leftarrow> slice_from v INT96_DST_BYTE_WIDTH;
     day \<leftarrow> read_int 4 d;
     ensure (fits_int True 4 (day - JULIAN_DAY_OF_EPOCH));
     Some (le_int (int_bytes 8 ((day - JULIAN_DAY_OF_EPOCH) * MICROS_PER_DAY + tdiv nanos 1000)))
   }"

definition decode_int96 :: "plain_decoder \<Rightarrow> pmv \<Rightarrow> nat \<Rightarrow> (plain_decoder \<times> pmv) option" where
  "decode_int96 src dst num = do {
     (if \<not> use_legacy_date_timestamp_or_ntz (pd_read_options src) then
        check_values (\<lambda>s. do { micros \<leftarrow> int96_to_microsecond s; Some (\<not> micros < JULIAN_GREGORIAN_SWITCH_OFF_TS) })
          (pd_data src) (pd_offset src) INT96_SRC_BYTE_WIDTH num
      else Some ());
     let dst_offset = INT96_DST_BYTE_WIDTH * pmv_num_values dst;
     dst \<leftarrow> convert_values (\<lambda>s. do { micros \<leftarrow> int96_to_microsecond s; Some (int_bytes 8 micros) })
       (pd_data src) (pd_offset src) INT96_SRC_BYTE_WIDTH dst_offset INT96_DST_BYTE_WIDTH dst num;
     Some (src\<lparr>pd_offset := pd_offset src + INT96_SRC_BYTE_WIDTH * num\<rparr>, dst)
   }"

definition skip_int96 :: "plain_decoder \<Rightarrow> nat \<Rightarrow> plain_decoder option" where
  "skip_int96 src num = Some (src\<lparr>pd_offset := pd_offset src + INT96_SRC_BYTE_WIDTH * num\<rparr>)"

subsection \<open>Booleans\<close>

definition decode_bool :: "plain_decoder \<Rightarrow> pmv \<Rightarrow> nat \<Rightarrow> (plain_decoder \<times> pmv) option" where
  "decode_bool src dst num = do {
     ensure (cb_owned (pmv_values dst));
     (_, data, r) \<leftarrow> get_bits (pd_bit_reader src) (cb_data (pmv_values dst)) (pmv_num_values dst) num;
     Some (src\<lparr>pd_bit_reader := r\<rparr>, pmv_set_values dst ((pmv_values dst)\<lparr>cb_data := data\<rparr>))
   }"

definition skip_bool :: "plain_decoder \<Rightarrow> nat \<Rightarrow> plain_decoder option" where
  "skip_bool src num = do {
     (_, r) \<leftarrow> skip_bits (pd_bit_reader src) num;
     Some (src\<lparr>pd_bit_reader := r\<rparr>)
   }"

subsection \<open>Conversions between number types\<close>

fun copy_loop :: "nat \<Rightarrow> nat \<Rightarrow> (u8 list \<Rightarrow> u8 list) \<Rightarrow> u8 list \<Rightarrow> nat \<Rightarrow> nat \<Rightarrow> u8 list \<Rightarrow> u8 list" where
  "copy_loop src_size dst_size cast src i 0 dst = dst"
| "copy_loop src_size dst_size cast src i (Suc n) dst =
     copy_loop src_size dst_size cast src (i + 1) n
       (overwrite dst (i * dst_size) (cast (take src_size (drop (i * src_size) src))))"

definition copy_cast :: "nat \<Rightarrow> nat \<Rightarrow> (u8 list \<Rightarrow> u8 list) \<Rightarrow> u8 list \<Rightarrow> u8 list \<Rightarrow> nat \<Rightarrow> u8 list option" where
  "copy_cast src_size dst_size cast src dst num = do {
     ensure (length src \<ge> num * src_size);
     ensure (length dst \<ge> num * dst_size);
     Some (copy_loop src_size dst_size cast src 0 num dst)
   }"

text \<open>
  Floating-point numbers as bit patterns: an \<open>i32\<close> is exact as an \<open>f64\<close>, and so is an \<open>f32\<close>; a NaN keeps its
  payload and becomes quiet.
\<close>

fun ilog2 :: "nat \<Rightarrow> nat" where
  "ilog2 n = (if n < 2 then 0 else Suc (ilog2 (n div 2)))"

declare ilog2.simps [simp del]

definition f64_of_i32 :: "int \<Rightarrow> int" where
  "f64_of_i32 v =
     (if v = 0 then 0
      else let e = ilog2 (nat \<bar>v\<bar>) in
        (if v < 0 then 2 ^ 63 else 0) + int (1023 + e) * 2 ^ 52 + (\<bar>v\<bar> - 2 ^ e) * 2 ^ (52 - e))"

definition f64_of_f32 :: "int \<Rightarrow> int" where
  "f64_of_f32 b =
     (let s = b div 2 ^ 31; e = (b div 2 ^ 23) mod 256; f = b mod 2 ^ 23 in
      s * 2 ^ 63 +
      (if e = 255 then 2047 * 2 ^ 52 + (if f = 0 then 0 else f mod 2 ^ 22 * 2 ^ 29 + 2 ^ 51)
       else if e \<noteq> 0 then (e - 127 + 1023) * 2 ^ 52 + f * 2 ^ 29
       else if f = 0 then 0
       else let k = ilog2 (nat f) in (int k - 149 + 1023) * 2 ^ 52 + (f - 2 ^ k) * 2 ^ (52 - k)))"

definition copy_i32_to_i8 :: "u8 list \<Rightarrow> u8 list \<Rightarrow> nat \<Rightarrow> u8 list option" where
  "copy_i32_to_i8 = copy_cast 4 1 (\<lambda>b. int_bytes 1 (le_int b))"

definition copy_i32_to_i16 :: "u8 list \<Rightarrow> u8 list \<Rightarrow> nat \<Rightarrow> u8 list option" where
  "copy_i32_to_i16 = copy_cast 4 2 (\<lambda>b. int_bytes 2 (le_int b))"

definition copy_i32_to_i64 :: "u8 list \<Rightarrow> u8 list \<Rightarrow> nat \<Rightarrow> u8 list option" where
  "copy_i32_to_i64 = copy_cast 4 8 (\<lambda>b. int_bytes 8 (le_int b))"

definition copy_i32_to_i128 :: "u8 list \<Rightarrow> u8 list \<Rightarrow> nat \<Rightarrow> u8 list option" where
  "copy_i32_to_i128 = copy_cast 4 16 (\<lambda>b. int_bytes 16 (le_int b))"

definition copy_i32_to_f64 :: "u8 list \<Rightarrow> u8 list \<Rightarrow> nat \<Rightarrow> u8 list option" where
  "copy_i32_to_f64 = copy_cast 4 8 (\<lambda>b. int_bytes 8 (f64_of_i32 (le_int b)))"

definition copy_i64_to_i64 :: "u8 list \<Rightarrow> u8 list \<Rightarrow> nat \<Rightarrow> u8 list option" where
  "copy_i64_to_i64 = copy_cast 8 8 (\<lambda>b. int_bytes 8 (le_int b))"

definition copy_i64_to_i128 :: "u8 list \<Rightarrow> u8 list \<Rightarrow> nat \<Rightarrow> u8 list option" where
  "copy_i64_to_i128 = copy_cast 8 16 (\<lambda>b. int_bytes 16 (le_int b))"

definition copy_u64_to_u128 :: "u8 list \<Rightarrow> u8 list \<Rightarrow> nat \<Rightarrow> u8 list option" where
  "copy_u64_to_u128 = copy_cast 8 16 (\<lambda>b. int_bytes 16 (le_nat b))"

definition copy_f32_to_f64 :: "u8 list \<Rightarrow> u8 list \<Rightarrow> nat \<Rightarrow> u8 list option" where
  "copy_f32_to_f64 = copy_cast 4 8 (\<lambda>b. int_bytes 8 (f64_of_f32 (le_nat b)))"

definition copy_i32_to_u8 :: "u8 list \<Rightarrow> u8 list \<Rightarrow> nat \<Rightarrow> u8 list option" where
  "copy_i32_to_u8 = copy_cast 4 2 (\<lambda>b. int_bytes 2 (le_int b))"

definition copy_i32_to_u16 :: "u8 list \<Rightarrow> u8 list \<Rightarrow> nat \<Rightarrow> u8 list option" where
  "copy_i32_to_u16 = copy_cast 4 4 (\<lambda>b. int_bytes 4 (le_int b))"

text \<open>\<open>generate_cast_to_unsigned\<close>: each value is followed by a zero of the same width.\<close>

definition copy_i32_to_u32 :: "u8 list \<Rightarrow> u8 list \<Rightarrow> nat \<Rightarrow> u8 list option" where
  "copy_i32_to_u32 = copy_cast 4 8 (\<lambda>b. int_bytes 4 (le_int b) @ int_bytes 4 0)"

text \<open>\<open>$copy_fn(&src.data[src.offset..], &mut dst_slice[dst_offset..], num)\<close>\<close>

definition copy_values ::
    "(u8 list \<Rightarrow> u8 list \<Rightarrow> nat \<Rightarrow> u8 list option) \<Rightarrow> plain_decoder \<Rightarrow> pmv \<Rightarrow> nat \<Rightarrow> nat \<Rightarrow> pmv option" where
  "copy_values copy_fn src dst dst_offset num = do {
     s \<leftarrow> slice_from (pd_data src) (pd_offset src);
     b \<leftarrow> cb_as_slice_mut (pmv_values dst) (\<lambda>data. do {
       t \<leftarrow> slice_from data dst_offset;
       t \<leftarrow> copy_fn s t num;
       Some (take dst_offset data @ t)
     });
     Some (pmv_set_values dst b)
   }"

definition decode_int_variant ::
    "(u8 list \<Rightarrow> u8 list \<Rightarrow> nat \<Rightarrow> u8 list option) \<Rightarrow> nat \<Rightarrow> plain_decoder \<Rightarrow> pmv \<Rightarrow> nat \<Rightarrow> (plain_decoder \<times> pmv) option" where
  "decode_int_variant copy_fn type_width src dst num = do {
     let dst_offset = pmv_num_values dst * type_width;
     dst \<leftarrow> copy_values copy_fn src dst dst_offset num;
     Some (src\<lparr>pd_offset := pd_offset src + 4 * num\<rparr>, dst)
   }"

definition skip_width :: "nat \<Rightarrow> plain_decoder \<Rightarrow> nat \<Rightarrow> plain_decoder option" where
  "skip_width type_width src num = Some (src\<lparr>pd_offset := pd_offset src + type_width * num\<rparr>)"

subsection \<open>Decimals\<close>

text \<open>\<open>(10 as $dst_type).pow(e)\<close>\<close>

definition pow10 :: "bool \<Rightarrow> nat \<Rightarrow> nat \<Rightarrow> int option" where
  "pow10 sg sz e = (if fits_int sg sz (10 ^ e) then Some (10 ^ e) else None)"

definition write_null :: "int \<Rightarrow> int \<Rightarrow> pmv \<Rightarrow> nat \<Rightarrow> pmv option" where
  "write_null val upper dst i =
     (if upper \<le> val then do {
        b \<leftarrow> cb_as_slice_mut (pmv_validity dst) (\<lambda>data. bit_unset_bit data (pmv_num_values dst + i));
        let dst = pmv_set_validity dst b;
        Some (pmv_set_counts dst (pmv_num_values dst) (pmv_num_nulls dst + 1))
      }
      else Some dst)"

text \<open>\<open>read_unaligned\<close> and \<open>write_unaligned\<close> at a pointer into the value buffer.\<close>

definition value_read :: "bool \<Rightarrow> nat \<Rightarrow> pmv \<Rightarrow> nat \<Rightarrow> int option" where
  "value_read sg sz v offset =
     (let data = cb_data (pmv_values v); b = take sz (drop offset data) in
      if offset + sz \<le> length data then Some (if sg then le_int b else le_nat b) else None)"

definition value_write :: "nat \<Rightarrow> pmv \<Rightarrow> nat \<Rightarrow> int \<Rightarrow> pmv option" where
  "value_write sz v offset val = do {
     let data = cb_data (pmv_values v);
     ensure (offset + sz \<le> length data);
     Some (pmv_set_values v ((pmv_values v)\<lparr>cb_data := overwrite data offset (int_bytes sz val)\<rparr>))
   }"

definition write_val_or_null :: "nat \<Rightarrow> nat \<Rightarrow> int \<Rightarrow> int \<Rightarrow> pmv \<Rightarrow> nat \<Rightarrow> pmv option" where
  "write_val_or_null sz v adjusted upper dst i = do {
     dst \<leftarrow> value_write sz dst v adjusted;
     write_null adjusted upper dst i
   }"

fun rescale_loop :: "bool \<Rightarrow> nat \<Rightarrow> (int \<Rightarrow> int option) \<Rightarrow> int \<Rightarrow> nat \<Rightarrow> nat \<Rightarrow> nat \<Rightarrow> pmv \<Rightarrow> pmv option" where
  "rescale_loop sg sz adjust upper v i 0 dst = Some dst"
| "rescale_loop sg sz adjust upper v i (Suc n) dst = do {
     x \<leftarrow> value_read sg sz dst (v + i * sz);
     adjusted \<leftarrow> adjust x;
     dst \<leftarrow> write_val_or_null sz (v + i * sz) adjusted upper dst i;
     rescale_loop sg sz adjust upper v (i + 1) n dst
   }"

fun overflow_loop :: "bool \<Rightarrow> nat \<Rightarrow> int \<Rightarrow> nat \<Rightarrow> nat \<Rightarrow> nat \<Rightarrow> pmv \<Rightarrow> pmv option" where
  "overflow_loop sg sz upper v i 0 dst = Some dst"
| "overflow_loop sg sz upper v i (Suc n) dst = do {
     x \<leftarrow> value_read sg sz dst (v + i * sz);
     dst \<leftarrow> write_null x upper dst i;
     overflow_loop sg sz upper v (i + 1) n dst
   }"

definition checked_mul :: "bool \<Rightarrow> nat \<Rightarrow> int \<Rightarrow> int \<Rightarrow> int option" where
  "checked_mul sg sz a b = (if fits_int sg sz (a * b) then Some (a * b) else None)"

text \<open>The arguments are those of the macro: the copy routine, \<open>$type_width\<close>, and \<open>$dst_type\<close> by signedness and size.\<close>

definition decode_int_decimal ::
    "(u8 list \<Rightarrow> u8 list \<Rightarrow> nat \<Rightarrow> u8 list option) \<Rightarrow> nat \<Rightarrow> bool \<Rightarrow> nat \<Rightarrow>
     plain_decoder \<Rightarrow> pmv \<Rightarrow> nat \<Rightarrow> (plain_decoder \<times> pmv) option" where
  "decode_int_decimal copy_fn type_width sg sz src dst num = do {
     let dst_offset = pmv_num_values dst * sz;
     dst \<leftarrow> copy_values copy_fn src dst dst_offset num;
     let src_precision = cd_type_precision (pd_desc src);
     let src_scale = nat (max (cd_type_scale (pd_desc src)) 0);
     (dst_precision, dst_scale) \<leftarrow>
       (case pmv_type dst of
          Decimal128 p s \<Rightarrow> if s \<ge> 0 then Some (p, nat s) else None
        | _ \<Rightarrow> None);
     upper \<leftarrow> pow10 sg sz dst_precision;
     dst \<leftarrow>
       (if dst_scale > src_scale then do {
          mul \<leftarrow> pow10 sg sz (dst_scale - src_scale);
          rescale_loop sg sz (\<lambda>x. checked_mul sg sz x mul) upper dst_offset 0 num dst
        }
        else if dst_scale < src_scale then do {
          divisor \<leftarrow> pow10 sg sz (src_scale - dst_scale);
          rescale_loop sg sz (\<lambda>x. Some (tdiv x divisor)) upper dst_offset 0 num dst
        }
        else if src_precision > dst_precision then overflow_loop sg sz upper dst_offset 0 num dst
        else Some dst);
     Some (src\<lparr>pd_offset := pd_offset src + type_width * num\<rparr>, dst)
   }"

text \<open>\<open>unscaled << 8 | byte\<close>, on a signed integer of \<open>num_bytes\<close> bytes, for each of the next bytes.\<close>

fun read_unscaled :: "nat \<Rightarrow> u8 list \<Rightarrow> nat \<Rightarrow> nat \<Rightarrow> int \<Rightarrow> int option" where
  "read_unscaled num_bytes src_data src_offset 0 unscaled = Some unscaled"
| "read_unscaled num_bytes src_data src_offset (Suc n) unscaled = do {
     byte \<leftarrow> index src_data src_offset;
     read_unscaled num_bytes src_data (src_offset + 1) n
       (le_int (int_bytes num_bytes (unscaled * 256 + uint byte)))
   }"

fun flba_decimal_loop ::
    "nat \<Rightarrow> nat \<Rightarrow> nat \<Rightarrow> (int \<Rightarrow> int option) \<Rightarrow> bool \<Rightarrow> int \<Rightarrow> u8 list \<Rightarrow> nat \<Rightarrow> nat \<Rightarrow> nat \<Rightarrow> nat \<Rightarrow> pmv \<Rightarrow> pmv option" where
  "flba_decimal_loop num_bytes byte_width num_bits adjust check upper src_data src_offset base i 0 dst = Some dst"
| "flba_decimal_loop num_bytes byte_width num_bits adjust check upper src_data src_offset base i (Suc n) dst = do {
     unscaled \<leftarrow> read_unscaled num_bytes src_data src_offset byte_width 0;
     ensure (num_bits < 8 * num_bytes);
     let unscaled = le_int (int_bytes num_bytes (unscaled * 2 ^ num_bits)) div 2 ^ num_bits;
     unscaled \<leftarrow> adjust unscaled;
     dst \<leftarrow> value_memcpy_value dst (base + i * num_bytes) (int_bytes num_bytes unscaled) num_bytes;
     dst \<leftarrow> (if check then write_null unscaled upper dst i else Some dst);
     flba_decimal_loop num_bytes byte_width num_bits adjust check upper src_data (src_offset + byte_width) base (i + 1) n dst
   }"

definition decode_flba_decimal :: "nat \<Rightarrow> plain_decoder \<Rightarrow> pmv \<Rightarrow> nat \<Rightarrow> (plain_decoder \<times> pmv) option" where
  "decode_flba_decimal num_bytes src dst num = do {
     let byte_width = cd_type_length (pd_desc src);
     let num_bits = (num_bytes - byte_width) * 8;
     src_data \<leftarrow> slice_from (pd_data src) (pd_offset src);
     ensure (cb_owned (pmv_values dst));
     let base = pmv_num_values dst * num_bytes;
     ensure (base \<le> length (cb_data (pmv_values dst)));
     let src_precision = cd_type_precision (pd_desc src);
     let src_scale = nat (max (cd_type_scale (pd_desc src)) 0);
     let (dst_precision, dst_scale) =
       (case pmv_type dst of
          Decimal128 p s \<Rightarrow> if s \<ge> 0 then (p, nat s) else (src_precision, src_scale)
        | _ \<Rightarrow> (src_precision, src_scale));
     upper \<leftarrow> pow10 True num_bytes dst_precision;
     mul_div \<leftarrow> pow10 True num_bytes (if dst_scale < src_scale then src_scale - dst_scale else dst_scale - src_scale);
     dst \<leftarrow> flba_decimal_loop num_bytes byte_width num_bits
       (\<lambda>x. if dst_scale > src_scale then checked_mul True num_bytes x mul_div
            else if dst_scale < src_scale then Some (tdiv x mul_div)
            else Some x)
       (src_precision > dst_precision) upper src_data 0 base 0 num dst;
     Some (src\<lparr>pd_offset := pd_offset src + num * byte_width\<rparr>, dst)
   }"

subsection \<open>Byte arrays\<close>

text \<open>A length read as \<open>i32\<close> and cast to \<open>usize\<close>; sums of sizes that overflow panic.\<close>

definition len_as_usize :: "int \<Rightarrow> nat" where
  "len_as_usize len = (if len < 0 then nat (2 ^ 64 + len) else nat len)"

definition uadd :: "nat \<Rightarrow> nat \<Rightarrow> nat option" where
  "uadd a b = (if a + b < 2 ^ 64 then Some (a + b) else None)"

definition read_i32 :: "u8 list \<Rightarrow> nat \<Rightarrow> int option" where
  "read_i32 data offset = do { s \<leftarrow> slice_from data offset; read_int 4 s }"

text \<open>Growing the bytes of the child, as both loops over byte arrays do.\<close>

definition reserve_bytes :: "comet_buffer \<Rightarrow> nat \<Rightarrow> comet_buffer option" where
  "reserve_bytes value_buffer needed =
     (let value_buf_len = cb_len value_buffer in
      if value_buf_len < needed then cb_resize value_buffer (max needed (value_buf_len * 2))
      else Some value_buffer)"

fun binary_loop ::
    "u8 list \<Rightarrow> nat \<Rightarrow> comet_buffer \<Rightarrow> nat \<Rightarrow> int \<Rightarrow> comet_buffer \<Rightarrow> nat \<Rightarrow> nat \<Rightarrow> (nat \<times> comet_buffer \<times> comet_buffer \<times> nat) option" where
  "binary_loop src_data src_offset offset_buf offset_offset offset_value value_buffer value_offset 0 =
     Some (src_offset, offset_buf, value_buffer, value_offset)"
| "binary_loop src_data src_offset offset_buf offset_offset offset_value value_buffer value_offset (Suc num) = do {
     l \<leftarrow> read_i32 src_data src_offset;
     let len = len_as_usize l;
     let offset_value = offset_value + l;
     ensure (fits_int True 4 offset_value);
     offset_buf \<leftarrow> cb_as_slice_mut offset_buf (\<lambda>data. memcpy_value_at (int_bytes 4 offset_value) 4 data offset_offset);
     needed \<leftarrow> uadd value_offset len;
     value_buffer \<leftarrow> reserve_bytes value_buffer needed;
     let src_offset = src_offset + 4;
     src_end \<leftarrow> uadd src_offset len;
     s \<leftarrow> slice_range src_data src_offset src_end;
     value_buffer \<leftarrow> cb_as_slice_mut value_buffer (\<lambda>data. memcpy_at s data value_offset);
     binary_loop src_data src_end offset_buf (offset_offset + 4) offset_value value_buffer needed num
   }"

definition decode_binary :: "plain_decoder \<Rightarrow> pmv \<Rightarrow> nat \<Rightarrow> (plain_decoder \<times> pmv) option" where
  "decode_binary src dst num = do {
     let offset_offset = pmv_num_values dst * 4;
     ensure (cb_owned (pmv_values dst));
     offset_value \<leftarrow> read_i32 (cb_data (pmv_values dst)) offset_offset;
     child \<leftarrow> index (pmv_children dst) 0;
     (src_offset, offset_buf, value_buffer, value_offset) \<leftarrow>
       binary_loop (pd_data src) (pd_offset src) (pmv_values dst) (offset_offset + 4) offset_value
         (pmv_values child) (pmv_num_values child) num;
     let child = pmv_set_counts (pmv_set_values child value_buffer) value_offset (pmv_num_nulls child);
     Some (src\<lparr>pd_offset := src_offset\<rparr>,
       pmv_set_children (pmv_set_values dst offset_buf) ((pmv_children dst)[0 := child]))
   }"

fun skip_binary_loop :: "u8 list \<Rightarrow> nat \<Rightarrow> nat \<Rightarrow> nat option" where
  "skip_binary_loop src_data src_offset 0 = Some src_offset"
| "skip_binary_loop src_data src_offset (Suc num) = do {
     l \<leftarrow> read_i32 src_data src_offset;
     src_offset \<leftarrow> uadd (src_offset + 4) (len_as_usize l);
     skip_binary_loop src_data src_offset num
   }"

definition skip_binary :: "plain_decoder \<Rightarrow> nat \<Rightarrow> plain_decoder option" where
  "skip_binary src num = do {
     src_offset \<leftarrow> skip_binary_loop (pd_data src) (pd_offset src) num;
     Some (src\<lparr>pd_offset := src_offset\<rparr>)
   }"

subsection \<open>The decoder of a type\<close>

fun plain_decode :: "data_type \<Rightarrow> plain_decoder \<Rightarrow> pmv \<Rightarrow> nat \<Rightarrow> (plain_decoder \<times> pmv) option" where
  "plain_decode Int32Type = decode_default"
| "plain_decode Int64Type = decode_default"
| "plain_decode FloatType = decode_default"
| "plain_decode DoubleType = decode_default"
| "plain_decode FLBAType = decode_default"
| "plain_decode Int32DateType = decode_date"
| "plain_decode Int32TimestampMicrosType = decode_date_to_timestamp"
| "plain_decode Int64TimestampMillisType = decode_timestamp_millis"
| "plain_decode Int64TimestampMicrosType = decode_timestamp_micros"
| "plain_decode Int96TimestampMicrosType = decode_int96"
| "plain_decode BoolType = decode_bool"
| "plain_decode Int8Type = decode_int_variant copy_i32_to_i8 1"
| "plain_decode Int16Type = decode_int_variant copy_i32_to_i16 2"
| "plain_decode Int16ToDoubleType = decode_int_variant copy_i32_to_f64 8"
| "plain_decode Int32To64Type = decode_int_variant copy_i32_to_i64 8"
| "plain_decode Int32ToDoubleType = decode_int_variant copy_i32_to_f64 8"
| "plain_decode FloatToDoubleType = decode_int_variant copy_f32_to_f64 8"
| "plain_decode UInt8Type = decode_int_variant copy_i32_to_u8 2"
| "plain_decode UInt16Type = decode_int_variant copy_i32_to_u16 4"
| "plain_decode UInt32Type = decode_int_variant copy_i32_to_u32 8"
| "plain_decode Int32ToDecimal64Type = decode_int_decimal copy_i32_to_i64 4 True 8"
| "plain_decode Int32DecimalType = decode_int_decimal copy_i32_to_i128 4 True 16"
| "plain_decode Int64ToDecimal64Type = decode_int_decimal copy_i64_to_i64 8 True 8"
| "plain_decode Int64DecimalType = decode_int_decimal copy_i64_to_i128 8 True 16"
| "plain_decode UInt64Type = decode_int_decimal copy_u64_to_u128 8 False 16"
| "plain_decode ByteArrayType = decode_binary"
| "plain_decode StringType = decode_binary"
| "plain_decode FLBADecimal32Type = decode_flba_decimal 4"
| "plain_decode FLBADecimal64Type = decode_flba_decimal 8"
| "plain_decode FLBADecimalType = decode_flba_decimal 16"

fun plain_skip :: "data_type \<Rightarrow> plain_decoder \<Rightarrow> nat \<Rightarrow> plain_decoder option" where
  "plain_skip BoolType = skip_bool"
| "plain_skip ByteArrayType = skip_binary"
| "plain_skip StringType = skip_binary"
| "plain_skip Int96TimestampMicrosType = skip_int96"
| "plain_skip Int8Type = skip_width 4"
| "plain_skip Int16Type = skip_width 4"
| "plain_skip Int16ToDoubleType = skip_width 4"
| "plain_skip Int32To64Type = skip_width 4"
| "plain_skip Int32ToDoubleType = skip_width 4"
| "plain_skip FloatToDoubleType = skip_width 4"
| "plain_skip UInt8Type = skip_width 4"
| "plain_skip UInt16Type = skip_width 4"
| "plain_skip UInt32Type = skip_width 4"
| "plain_skip Int32ToDecimal64Type = skip_width 4"
| "plain_skip Int32DecimalType = skip_width 4"
| "plain_skip Int64ToDecimal64Type = skip_width 8"
| "plain_skip Int64DecimalType = skip_width 8"
| "plain_skip UInt64Type = skip_width 8"
| "plain_skip T = skip_default"

text \<open>The trait \<open>Decoder\<close>, implemented by \<open>PlainDecoder\<close>.\<close>

definition plain_read_batch :: "data_type \<Rightarrow> plain_decoder \<Rightarrow> pmv \<Rightarrow> nat \<Rightarrow> (plain_decoder \<times> pmv) option" where
  "plain_read_batch T d dst num = plain_decode T d dst num"

definition plain_read :: "data_type \<Rightarrow> plain_decoder \<Rightarrow> pmv \<Rightarrow> (plain_decoder \<times> pmv) option" where
  "plain_read T d dst = plain_read_batch T d dst 1"

definition plain_skip_batch :: "data_type \<Rightarrow> plain_decoder \<Rightarrow> nat \<Rightarrow> plain_decoder option" where
  "plain_skip_batch T d num = plain_skip T d num"

end
