(* ===== verification/Plain_Decoder_Spec.thy ===== *)
theory Plain_Decoder_Spec
  imports Plain_Decoder
begin

text \<open>
  The fixed-width PLAIN decoders meet the contract of the trait \<open>Decoder\<close>: one relation \<open>plain_blocks\<close> says, for
  every such type, which values the rest of a page holds, and the locale \<open>value_decoder\<close> is interpreted on it.
\<close>

subsection \<open>What a fixed-width decoder delivers\<close>

text \<open>
  For every type whose values have a fixed width and are never turned into nulls: the bytes one value takes in the
  page, the bytes it takes in the vector, and the bytes written for it, \<open>None\<close> when the decoder panics.
\<close>

fun is_fixed :: "data_type \<Rightarrow> bool" where
  "is_fixed T \<longleftrightarrow> T \<notin> {BoolType, ByteArrayType, StringType, Int32ToDecimal64Type, Int32DecimalType,
     Int64ToDecimal64Type, Int64DecimalType, UInt64Type, FLBADecimal32Type, FLBADecimal64Type, FLBADecimalType}"

fun src_width :: "data_type \<Rightarrow> column_desc \<Rightarrow> nat" where
  "src_width T desc =
     (if T \<in> {Int32Type, Int64Type, FloatType, DoubleType, FLBAType} then cd_type_length desc
      else if T \<in> {Int64TimestampMillisType, Int64TimestampMicrosType} then 8
      else if T = Int96TimestampMicrosType then 12
      else 4)"

fun dst_width :: "data_type \<Rightarrow> column_desc \<Rightarrow> nat" where
  "dst_width T desc =
     (if T \<in> {Int32Type, Int64Type, FloatType, DoubleType, FLBAType} then cd_type_length desc
      else if T = Int8Type then 1
      else if T \<in> {Int16Type, UInt8Type} then 2
      else if T \<in> {UInt16Type, Int32DateType} then 4
      else 8)"

text \<open>The annotated integer types assume the length of their physical type.\<close>

fun length_ok :: "data_type \<Rightarrow> column_desc \<Rightarrow> bool" where
  "length_ok T desc \<longleftrightarrow>
     (T \<in> {Int32DateType, Int32TimestampMicrosType} \<longrightarrow> cd_type_length desc = 4) \<and>
     (T \<in> {Int64TimestampMillisType, Int64TimestampMicrosType} \<longrightarrow> cd_type_length desc = 8)"

lemmas plain_types = is_fixed.simps src_width.simps dst_width.simps length_ok.simps

declare plain_types [simp del]

definition unless_before :: "bool \<Rightarrow> int \<Rightarrow> int \<Rightarrow> 'a \<Rightarrow> 'a option" where
  "unless_before legacy switch v x = (if legacy \<or> switch \<le> v then Some x else None)"

fun plain_value :: "data_type \<Rightarrow> bool \<Rightarrow> u8 list \<Rightarrow> u8 list option" where
  "plain_value Int32DateType legacy b = unless_before legacy JULIAN_GREGORIAN_SWITCH_OFF_DAY (le_int b) b"
| "plain_value Int32TimestampMicrosType legacy b =
     unless_before False JULIAN_GREGORIAN_SWITCH_OFF_DAY (le_int b) (int_bytes 8 (le_int b * MICROS_PER_DAY))"
| "plain_value Int64TimestampMillisType legacy b = do {
     ensure (fits_int True 8 (le_int b * 1000));
     unless_before legacy JULIAN_GREGORIAN_SWITCH_OFF_TS (le_int b * 1000) (int_bytes 8 (le_int b * 1000))
   }"
| "plain_value Int64TimestampMicrosType legacy b = unless_before legacy JULIAN_GREGORIAN_SWITCH_OFF_TS (le_int b) b"
| "plain_value Int96TimestampMicrosType legacy b = do {
     micros \<leftarrow> int96_to_microsecond b;
     unless_before legacy JULIAN_GREGORIAN_SWITCH_OFF_TS micros (int_bytes 8 micros)
   }"
| "plain_value Int8Type legacy b = Some (int_bytes 1 (le_int b))"
| "plain_value Int16Type legacy b = Some (int_bytes 2 (le_int b))"
| "plain_value UInt8Type legacy b = Some (int_bytes 2 (le_int b))"
| "plain_value UInt16Type legacy b = Some (int_bytes 4 (le_int b))"
| "plain_value UInt32Type legacy b = Some (int_bytes 4 (le_int b) @ int_bytes 4 0)"
| "plain_value Int32To64Type legacy b = Some (int_bytes 8 (le_int b))"
| "plain_value Int16ToDoubleType legacy b = Some (int_bytes 8 (f64_of_i32 (le_int b)))"
| "plain_value Int32ToDoubleType legacy b = Some (int_bytes 8 (f64_of_i32 (le_int b)))"
| "plain_value FloatToDoubleType legacy b = Some (int_bytes 8 (f64_of_f32 (le_nat b)))"
| "plain_value T legacy b = Some b"

text \<open>The values at an offset of a page, as blocks.\<close>

fun blocks_at :: "u8 list \<Rightarrow> nat \<Rightarrow> nat \<Rightarrow> u8 list list \<Rightarrow> bool" where
  "blocks_at data offset w [] \<longleftrightarrow> offset \<le> length data"
| "blocks_at data offset w (b # bs) \<longleftrightarrow>
     slice_range data offset (offset + w) = Some b \<and> blocks_at data (offset + w) w bs"

definition plain_legacy :: "plain_decoder \<Rightarrow> bool" where
  "plain_legacy d = use_legacy_date_timestamp_or_ntz (pd_read_options d)"

definition plain_blocks :: "data_type \<Rightarrow> nat \<Rightarrow> plain_decoder \<Rightarrow> u8 list list \<Rightarrow> bool" where
  "plain_blocks T w d xs \<longleftrightarrow> is_fixed T \<and> length_ok T (pd_desc d) \<and> w = dst_width T (pd_desc d) \<and>
     (\<exists>bs. blocks_at (pd_data d) (pd_offset d) (src_width T (pd_desc d)) bs \<and>
       list_all2 (\<lambda>b x. plain_value T (plain_legacy d) b = Some x) bs xs)"

lemma slice_range_length: "slice_range data i j = Some b \<Longrightarrow> length b = j - i"
  by (auto simp: slice_range_def split: if_splits)

lemma blocks_at_width: "blocks_at data offset w bs \<Longrightarrow> list_all (\<lambda>b. length b = w) bs"
  by (induction bs arbitrary: offset) (auto dest: slice_range_length)

lemma blocks_at_bound: "blocks_at data offset w bs \<Longrightarrow> offset + w * length bs \<le> length data"
  by (induction bs arbitrary: offset) (simp, fastforce)

lemma blocks_at_append:
  "blocks_at data offset w (bs @ cs) \<longleftrightarrow>
     blocks_at data offset w bs \<and> blocks_at data (offset + w * length bs) w cs"
proof (induction bs arbitrary: offset)
  case Nil
  then show ?case using blocks_at_bound [of data offset w cs] by auto
next
  case (Cons b bs)
  then show ?case by (simp add: add.assoc)
qed

lemma blocks_at_slice:
  "blocks_at data offset w bs \<Longrightarrow> slice_range data offset (offset + w * length bs) = Some (concat bs)"
proof (induction bs arbitrary: offset)
  case Nil
  then show ?case by (simp add: slice_range_def)
next
  case (Cons b bs)
  have "slice_range data (offset + w) (offset + w + w * length bs) = Some (concat bs)"
    using Cons.IH Cons.prems by simp
  then have 1: "take (w * length bs) (drop (offset + w) data) = concat bs" and 2: "offset + w + w * length bs \<le> length data"
    by (auto simp: slice_range_def split: if_splits)
  have 3: "take w (drop offset data) = b" using Cons.prems by (auto simp: slice_range_def split: if_splits)
  have "take (w + w * length bs) (drop offset data) = take w (drop offset data) @ take (w * length bs) (drop (offset + w) data)"
    by (simp add: take_add add.commute)
  then have "take (w + w * length bs) (drop offset data) = concat (b # bs)" unfolding 1 3 by simp
  then show ?case using 2 by (simp add: slice_range_def)
qed

lemma length_int_bytes [simp]: "length (int_bytes n v) = n"
  by (induction n arbitrary: v) auto

lemma plain_value_width:
  "plain_value T legacy b = Some x \<Longrightarrow> is_fixed T \<Longrightarrow> length_ok T desc \<Longrightarrow> length b = src_width T desc \<Longrightarrow>
     length x = dst_width T desc"
  by (cases T) (auto simp: plain_types unless_before_def Option.bind_eq_Some_conv split: if_splits)

lemma plain_blocks_width: "plain_blocks T w d xs \<Longrightarrow> list_all (\<lambda>x. length x = w) xs"
proof -
  assume a: "plain_blocks T w d xs"
  then obtain bs where b: "blocks_at (pd_data d) (pd_offset d) (src_width T (pd_desc d)) bs"
    and x: "list_all2 (\<lambda>b x. plain_value T (plain_legacy d) b = Some x) bs xs"
    by (auto simp: plain_blocks_def)
  have "length (xs ! i) = w" if i: "i < length xs" for i
  proof -
    have "length (bs ! i) = src_width T (pd_desc d)"
      using blocks_at_width [OF b] i list_all2_lengthD [OF x] by (simp add: list_all_length)
    then show ?thesis
      using plain_value_width [OF list_all2_nthD2 [OF x i]] a by (simp add: plain_blocks_def)
  qed
  then show ?thesis by (simp add: list_all_length)
qed

subsection \<open>The loops\<close>

lemma check_values_ok:
  "blocks_at data offset w bs \<Longrightarrow> (\<And>b. b \<in> set bs \<Longrightarrow> ok b = Some True) \<Longrightarrow>
     check_values ok data offset w (length bs) = Some ()"
  by (induction bs arbitrary: offset) (auto simp: ensure_def)

text \<open>The bytes of a vector overwritten from an offset on.\<close>

definition pmv_put :: "pmv \<Rightarrow> nat \<Rightarrow> u8 list \<Rightarrow> pmv" where
  "pmv_put v offset xs = pmv_set_values v ((pmv_values v)\<lparr>cb_data := overwrite (cb_data (pmv_values v)) offset xs\<rparr>)"

lemma pmv_write_put: "pmv_write w v xs = pmv_put v (pmv_num_values v * w) (concat xs)"
  by (simp add: pmv_write_def pmv_put_def)

lemma pmv_put_sel [simp]:
  "pmv_values (pmv_put v off xs) = (pmv_values v)\<lparr>cb_data := overwrite (cb_data (pmv_values v)) off xs\<rparr>"
  "pmv_num_values (pmv_put v off xs) = pmv_num_values v"
  by (simp_all add: pmv_put_def)

lemma pmv_put_Nil [simp]: "pmv_put v off [] = v"
  by (cases v) (simp add: pmv_put_def pmv_updates)

lemma pmv_put_put:
  "off + length xs + length ys \<le> length (cb_data (pmv_values v)) \<Longrightarrow>
     pmv_put (pmv_put v off xs) (off + length xs) ys = pmv_put v off (xs @ ys)"
  by (cases v) (simp add: pmv_put_def pmv_updates overwrite_overwrite)

lemma value_memcpy_eq:
  "cb_owned (pmv_values v) \<Longrightarrow> off + length s \<le> length (cb_data (pmv_values v)) \<Longrightarrow>
     value_memcpy v off s = Some (pmv_put v off s)"
  by (simp add: value_memcpy_def cb_deref_mut_def memcpy_at_eq pmv_put_def overwrite_def ensure_def)

lemma value_memcpy_value_eq:
  "cb_owned (pmv_values v) \<Longrightarrow> off + length s \<le> length (cb_data (pmv_values v)) \<Longrightarrow> n = length s \<Longrightarrow>
     value_memcpy_value v off s n = Some (pmv_put v off s)"
  by (simp add: value_memcpy_value_def cb_deref_mut_def memcpy_value_at_eq pmv_put_def overwrite_def ensure_def)

lemma convert_values_eq:
  assumes "blocks_at data offset w bs" and "list_all2 (\<lambda>b x. conv b = Some x) bs xs"
    and "list_all (\<lambda>x. length x = dw) xs" and "cb_owned (pmv_values v)"
    and "off + dw * length xs \<le> length (cb_data (pmv_values v))"
  shows "convert_values conv data offset w off dw v (length bs) = Some (pmv_put v off (concat xs))"
  using assms
proof (induction bs arbitrary: offset off xs v)
  case Nil
  then show ?case by simp
next
  case (Cons b bs)
  then obtain x ys where xs: "xs = x # ys" and x: "conv b = Some x" and ys: "list_all2 (\<lambda>b x. conv b = Some x) bs ys"
    by (auto simp: list_all2_Cons1)
  have len: "length x = dw" "list_all (\<lambda>x. length x = dw) ys" using Cons.prems(3) xs by auto
  have room: "off + dw + dw * length ys \<le> length (cb_data (pmv_values v))" using Cons.prems(5) xs by simp
  have 1: "value_memcpy_value v off x dw = Some (pmv_put v off x)"
    using Cons.prems(4) room len by (intro value_memcpy_value_eq) simp_all
  have "convert_values conv data (offset + w) w (off + dw) dw (pmv_put v off x) (length bs) =
      Some (pmv_put (pmv_put v off x) (off + dw) (concat ys))"
    using Cons.prems(1,4) ys len room by (intro Cons.IH) (simp_all add: length_overwrite)
  then show ?case
    using Cons.prems(1) x 1 len room pmv_put_put [of off x "concat ys" v] length_concat_blocks [OF len(2)]
    by (simp add: xs mult.commute)
qed

lemma copy_loop_eq:
  assumes "blocks_at data offset w bs" and "offset = i * w" and "list_all (\<lambda>b. length (cast b) = dw) bs"
    and "(i + length bs) * dw \<le> length dst"
  shows "copy_loop w dw cast data i (length bs) dst = overwrite dst (i * dw) (concat (map cast bs))"
  using assms
proof (induction bs arbitrary: offset i dst)
  case Nil
  then show ?case by simp
next
  case (Cons b bs)
  have b: "take w (drop (i * w) data) = b"
    using Cons.prems(1,2) by (auto simp: slice_range_def split: if_splits)
  have len: "length (cast b) = dw" "list_all (\<lambda>b. length (cast b) = dw) bs" using Cons.prems(3) by auto
  have room: "i * dw + dw + length bs * dw \<le> length dst" using Cons.prems(4) by (simp add: algebra_simps)
  have ov: "length (overwrite dst (i * dw) (cast b)) = length dst"
    by (rule length_overwrite) (use room len in simp)
  have blocks: "list_all (\<lambda>x. length x = dw) (map cast bs)" using len(2) by (simp add: list_all_iff)
  have "copy_loop w dw cast data (i + 1) (length bs) (overwrite dst (i * dw) (cast b)) =
      overwrite (overwrite dst (i * dw) (cast b)) ((i + 1) * dw) (concat (map cast bs))"
    using Cons.prems(1,2) len(2) room ov
    by (intro Cons.IH [of "offset + w"]) (simp_all add: algebra_simps)
  then show ?case
    using overwrite_overwrite [of "i * dw" "cast b" "concat (map cast bs)" dst] len room
      length_concat_blocks [OF blocks]
    by (simp add: b algebra_simps)
qed

lemma copy_values_eq:
  assumes bs: "blocks_at (pd_data d) (pd_offset d) w bs" and len: "\<And>b. length b = w \<Longrightarrow> length (cast b) = dw"
    and own: "cb_owned (pmv_values v)" and room: "off + dw * length bs \<le> length (cb_data (pmv_values v))"
  shows "copy_values (copy_cast w dw cast) d v off (length bs) = Some (pmv_put v off (concat (map cast bs)))"
proof -
  let ?data = "pd_data d" and ?off = "pd_offset d" and ?t = "drop off (cb_data (pmv_values v))"
  have le: "?off + w * length bs \<le> length ?data" by (rule blocks_at_bound [OF bs])
  have drop: "blocks_at (drop ?off ?data) k w bs" if "blocks_at ?data (?off + k) w bs" "?off \<le> length ?data" for k bs
    using that
    by (induction bs arbitrary: k)
      (auto simp: slice_range_def add.assoc add.commute add.left_commute split: if_splits)
  have 0: "blocks_at (drop ?off ?data) 0 w bs" using drop [of 0 bs] bs le by simp
  have "list_all (\<lambda>b. length (cast b) = dw) bs"
    using blocks_at_width [OF bs] len by (simp add: list_all_iff)
  then have loop: "copy_loop w dw cast (drop ?off ?data) 0 (length bs) ?t = overwrite ?t 0 (concat (map cast bs))"
    using copy_loop_eq [OF 0, of 0 cast dw ?t] room by (simp add: mult.commute)
  have "take off (cb_data (pmv_values v)) @ overwrite ?t 0 xs = overwrite (cb_data (pmv_values v)) off xs" for xs
    by (simp add: overwrite_def add.commute)
  moreover have "w * length bs \<le> length ?data - ?off" "dw * length bs \<le> length (cb_data (pmv_values v)) - off"
    using le room by simp_all
  ultimately show ?thesis
    using le own room loop
    by (simp add: copy_values_def copy_cast_def slice_from_def cb_as_slice_mut_def cb_deref_mut_def ensure_def
        pmv_put_def mult.commute add.commute)
qed

subsection \<open>The fixed-width decoders meet the contract of the trait\<close>

lemma check_before:
  assumes "blocks_at data offset w bs" and "list_all2 (\<lambda>b x. val b = Some x) bs xs"
    and "\<And>b x. val b = Some x \<Longrightarrow> length b = w \<Longrightarrow> ok b = Some True"
  shows "check_values ok data offset w (length bs) = Some ()"
proof (rule check_values_ok [OF assms(1)])
  fix b assume b: "b \<in> set bs"
  then obtain i where "i < length bs" "b = bs ! i" by (auto simp: in_set_conv_nth)
  then have "val b = Some (xs ! i)" using list_all2_nthD [OF assms(2)] by simp
  moreover have "length b = w" using blocks_at_width [OF assms(1)] b by (simp add: list_all_iff)
  ultimately show "ok b = Some True" by (rule assms(3))
qed

lemma read_int_block: "length b = n \<Longrightarrow> read_int n b = Some (le_int b)"
  by (simp add: read_int_def)

lemma list_all2_map: "list_all2 (\<lambda>b x. Some (f b) = Some x) bs xs \<longleftrightarrow> xs = map f bs"
  by (auto simp: list_all2_conv_all_nth intro: nth_equalityI)

lemma list_all2_mono_width:
  assumes "list_all2 (\<lambda>b x. val b = Some x) bs xs" and "blocks_at data offset w bs"
    and "\<And>b x. val b = Some x \<Longrightarrow> length b = w \<Longrightarrow> conv b = Some x"
  shows "list_all2 (\<lambda>b x. conv b = Some x) bs xs"
  using assms(1) blocks_at_width [OF assms(2)] assms(3)
  by (simp add: list_all2_conv_all_nth list_all_length)

lemma unless_before_Some: "unless_before legacy s v y = Some x \<longleftrightarrow> (legacy \<or> s \<le> v) \<and> x = y"
  by (auto simp: unless_before_def)

text \<open>One lemma for each shape of decoder.\<close>

lemma decode_default_spec:
  assumes "blocks_at (pd_data d) (pd_offset d) w bs" and w: "w = cd_type_length (pd_desc d)"
    and "pmv_fits w v (length bs)"
  shows "decode_default d v (length bs) = Some (d\<lparr>pd_offset := pd_offset d + w * length bs\<rparr>, pmv_write w v bs)"
proof -
  have len: "length (concat bs) = length bs * w"
    by (rule length_concat_blocks [OF blocks_at_width [OF assms(1)]])
  have "w * pmv_num_values v + length (concat bs) = (pmv_num_values v + length bs) * w"
    unfolding len by (simp add: algebra_simps)
  then have "value_memcpy v (w * pmv_num_values v) (concat bs) = Some (pmv_put v (w * pmv_num_values v) (concat bs))"
    using assms(3) unfolding pmv_fits_def by (intro value_memcpy_eq) simp_all
  then show ?thesis
    unfolding decode_default_def Let_def w [symmetric] blocks_at_slice [OF assms(1)] pmv_write_put
      mult.commute [of "pmv_num_values v" w] by simp
qed

lemma decode_date_default:
  "decode_date d v n = do {
     (if plain_legacy d then Some () else
        check_values (\<lambda>s. do { v \<leftarrow> read_int 4 s; Some (\<not> v < JULIAN_GREGORIAN_SWITCH_OFF_DAY) })
          (pd_data d) (pd_offset d) (cd_type_length (pd_desc d)) n);
     decode_default d v n
   }"
  by (simp add: decode_date_def decode_default_def plain_legacy_def Let_def)

lemma decode_timestamp_micros_default:
  "decode_timestamp_micros d v n = do {
     (if plain_legacy d then Some () else
        check_values (\<lambda>s. do { v \<leftarrow> read_int 8 s; Some (\<not> v < JULIAN_GREGORIAN_SWITCH_OFF_TS) })
          (pd_data d) (pd_offset d) (cd_type_length (pd_desc d)) n);
     decode_default d v n
   }"
  by (simp add: decode_timestamp_micros_def decode_default_def plain_legacy_def Let_def)

lemma list_all2_eq_width:
  assumes "list_all2 (\<lambda>b x. val b = Some x) bs xs" and "\<And>b x. val b = Some x \<Longrightarrow> x = b"
  shows "xs = bs"
  using assms by (auto simp: list_all2_conv_all_nth intro!: nth_equalityI)

lemma convert_spec:
  assumes "blocks_at (pd_data d) (pd_offset d) w bs" and "list_all2 (\<lambda>b x. conv b = Some x) bs xs"
    and "list_all (\<lambda>x. length x = dw) xs" and "pmv_fits dw v (length bs)"
  shows "convert_values conv (pd_data d) (pd_offset d) w (dw * pmv_num_values v) dw v (length bs) =
    Some (pmv_write dw v xs)"
proof -
  have "dw * pmv_num_values v + dw * length xs = (pmv_num_values v + length bs) * dw"
    unfolding list_all2_lengthD [OF assms(2)] by (simp add: algebra_simps)
  then show ?thesis
    using convert_values_eq [OF assms(1-3), of v "dw * pmv_num_values v"] assms(4)
    unfolding pmv_fits_def pmv_write_put mult.commute [of "pmv_num_values v" dw] by simp
qed

lemma decode_int_variant_spec:
  assumes "blocks_at (pd_data d) (pd_offset d) 4 bs" and "\<And>b. length b = 4 \<Longrightarrow> length (cast b) = dw"
    and "pmv_fits dw v (length bs)"
  shows "decode_int_variant (copy_cast 4 dw cast) dw d v (length bs) =
    Some (d\<lparr>pd_offset := pd_offset d + 4 * length bs\<rparr>, pmv_write dw v (map cast bs))"
proof -
  have "pmv_num_values v * dw + dw * length bs = (pmv_num_values v + length bs) * dw"
    by (simp add: algebra_simps)
  then have "copy_values (copy_cast 4 dw cast) d v (pmv_num_values v * dw) (length bs) =
      Some (pmv_put v (pmv_num_values v * dw) (concat (map cast bs)))"
    using assms(3) unfolding pmv_fits_def by (intro copy_values_eq [OF assms(1)] assms(2)) simp_all
  then show ?thesis by (simp add: decode_int_variant_def pmv_write_put)
qed

lemmas copy_routines = copy_i32_to_i8_def copy_i32_to_i16_def copy_i32_to_i64_def copy_i32_to_f64_def
  copy_f32_to_f64_def copy_i32_to_u8_def copy_i32_to_u16_def copy_i32_to_u32_def

definition delivers :: "data_type \<Rightarrow> plain_decoder \<Rightarrow> u8 list list \<Rightarrow> u8 list list \<Rightarrow> bool" where
  "delivers T d bs xs \<longleftrightarrow> length_ok T (pd_desc d) \<and> blocks_at (pd_data d) (pd_offset d) (src_width T (pd_desc d)) bs \<and>
     list_all2 (\<lambda>b x. plain_value T (plain_legacy d) b = Some x) bs xs"

definition delivered :: "data_type \<Rightarrow> plain_decoder \<Rightarrow> pmv \<Rightarrow> u8 list list \<Rightarrow> plain_decoder \<times> pmv" where
  "delivered T d v xs =
     (d\<lparr>pd_offset := pd_offset d + src_width T (pd_desc d) * length xs\<rparr>, pmv_write (dst_width T (pd_desc d)) v xs)"

lemma delivers_width:
  "delivers T d bs xs \<Longrightarrow> is_fixed T \<Longrightarrow> list_all (\<lambda>x. length x = dst_width T (pd_desc d)) xs"
  by (rule plain_blocks_width [of T _ d]) (auto simp: plain_blocks_def delivers_def)

lemma delivers_length: "delivers T d bs xs \<Longrightarrow> length xs = length bs"
  by (auto simp: delivers_def dest: list_all2_lengthD)

lemma delivers_default:
  assumes T: "T \<in> {Int32Type, Int64Type, FloatType, DoubleType, FLBAType}" and d: "delivers T d bs xs"
    and fits: "pmv_fits (dst_width T (pd_desc d)) v (length bs)"
  shows "plain_decode T d v (length bs) = Some (delivered T d v xs)"
proof -
  have "plain_value T (plain_legacy d) b = Some b" for b using T by auto
  then have "xs = bs" using d by (auto simp: delivers_def list.rel_eq)
  moreover have "src_width T (pd_desc d) = cd_type_length (pd_desc d)" "dst_width T (pd_desc d) = cd_type_length (pd_desc d)"
    using T by (auto simp: plain_types)
  moreover have "plain_decode T = decode_default" using T by auto
  ultimately show ?thesis
    using decode_default_spec [OF _ refl, of d bs v] d fits by (simp add: delivers_def delivered_def)
qed

lemma delivers_date:
  assumes d: "delivers Int32DateType d bs xs" and fits: "pmv_fits 4 v (length bs)"
  shows "decode_date d v (length bs) = Some (delivered Int32DateType d v xs)"
proof -
  have w: "cd_type_length (pd_desc d) = 4" and b: "blocks_at (pd_data d) (pd_offset d) 4 bs"
    and x: "list_all2 (\<lambda>b x. plain_value Int32DateType (plain_legacy d) b = Some x) bs xs"
    using d by (simp_all add: delivers_def plain_types)
  have "xs = bs" using x by (rule list_all2_eq_width) (simp add: unless_before_Some)
  moreover have "check_values (\<lambda>s. do { v \<leftarrow> read_int 4 s; Some (\<not> v < JULIAN_GREGORIAN_SWITCH_OFF_DAY) })
      (pd_data d) (pd_offset d) 4 (length bs) = Some ()" if "\<not> plain_legacy d"
    using check_before [OF b x] that by (simp add: unless_before_Some read_int_block not_less)
  ultimately show ?thesis
    using decode_default_spec [OF b _ fits] w
    by (simp add: decode_date_default delivered_def plain_types)
qed

lemma delivers_timestamp_micros:
  assumes d: "delivers Int64TimestampMicrosType d bs xs" and fits: "pmv_fits 8 v (length bs)"
  shows "decode_timestamp_micros d v (length bs) = Some (delivered Int64TimestampMicrosType d v xs)"
proof -
  have w: "cd_type_length (pd_desc d) = 8" and b: "blocks_at (pd_data d) (pd_offset d) 8 bs"
    and x: "list_all2 (\<lambda>b x. plain_value Int64TimestampMicrosType (plain_legacy d) b = Some x) bs xs"
    using d by (simp_all add: delivers_def plain_types)
  have "xs = bs" using x by (rule list_all2_eq_width) (simp add: unless_before_Some)
  moreover have "check_values (\<lambda>s. do { v \<leftarrow> read_int 8 s; Some (\<not> v < JULIAN_GREGORIAN_SWITCH_OFF_TS) })
      (pd_data d) (pd_offset d) 8 (length bs) = Some ()" if "\<not> plain_legacy d"
    using check_before [OF b x] that by (simp add: unless_before_Some read_int_block not_less)
  ultimately show ?thesis
    using decode_default_spec [OF b _ fits] w
    by (simp add: decode_timestamp_micros_default delivered_def plain_types)
qed

lemma delivers_days:
  assumes d: "delivers Int32TimestampMicrosType d bs xs" and fits: "pmv_fits 8 v (length bs)"
  shows "decode_date_to_timestamp d v (length bs) = Some (delivered Int32TimestampMicrosType d v xs)"
proof -
  have w: "cd_type_length (pd_desc d) = 4" and b: "blocks_at (pd_data d) (pd_offset d) 4 bs"
    and x: "list_all2 (\<lambda>b x. plain_value Int32TimestampMicrosType (plain_legacy d) b = Some x) bs xs"
    using d by (simp_all add: delivers_def plain_types)
  have "check_values (\<lambda>s. do { v \<leftarrow> read_int 4 s; Some (\<not> v < JULIAN_GREGORIAN_SWITCH_OFF_DAY) })
      (pd_data d) (pd_offset d) 4 (length bs) = Some ()"
    using check_before [OF b x] by (simp add: unless_before_Some read_int_block not_less)
  moreover have "list_all2 (\<lambda>b x. days_to_micros b = Some x) bs xs"
    using x b by (rule list_all2_mono_width) (simp add: unless_before_Some days_to_micros_def read_int_block)
  moreover have "list_all (\<lambda>x. length x = 8) xs"
    using delivers_width [OF d] by (simp add: plain_types)
  ultimately show ?thesis
    using convert_spec [OF b _ _ fits, of days_to_micros xs] w delivers_length [OF d]
    by (simp add: decode_date_to_timestamp_def delivered_def plain_types)
qed

lemma delivers_millis:
  assumes d: "delivers Int64TimestampMillisType d bs xs" and fits: "pmv_fits 8 v (length bs)"
  shows "decode_timestamp_millis d v (length bs) = Some (delivered Int64TimestampMillisType d v xs)"
proof -
  let ?conv = "\<lambda>s. do { v \<leftarrow> millis_to_micros s; Some (int_bytes 8 v) }"
  have w: "cd_type_length (pd_desc d) = 8" and b: "blocks_at (pd_data d) (pd_offset d) 8 bs"
    and x: "list_all2 (\<lambda>b x. plain_value Int64TimestampMillisType (plain_legacy d) b = Some x) bs xs"
    using d by (simp_all add: delivers_def plain_types)
  have m: "millis_to_micros b = Some (le_int b * 1000) \<and> x = int_bytes 8 (le_int b * 1000) \<and>
      (plain_legacy d \<or> JULIAN_GREGORIAN_SWITCH_OFF_TS \<le> le_int b * 1000)"
    if "plain_value Int64TimestampMillisType (plain_legacy d) b = Some x" "length b = 8" for b x
    using that
    by (simp add: millis_to_micros_def MICROS_PER_MILLIS_def read_int_block Let_def unless_before_Some ensure_def
        split: if_split_asm)
  have "check_values (\<lambda>s. do { v \<leftarrow> millis_to_micros s; Some (\<not> v < JULIAN_GREGORIAN_SWITCH_OFF_TS) })
      (pd_data d) (pd_offset d) 8 (length bs) = Some ()" if "\<not> plain_legacy d"
    using b x by (rule check_before) (frule (1) m, use that in simp)
  moreover have "list_all2 (\<lambda>b x. ?conv b = Some x) bs xs"
    using x b by (rule list_all2_mono_width) (frule (1) m, simp)
  moreover have "list_all (\<lambda>x. length x = 8) xs"
    using delivers_width [OF d] by (simp add: plain_types)
  ultimately show ?thesis
    using convert_spec [OF b _ _ fits, of ?conv xs] w delivers_length [OF d]
    by (simp add: decode_timestamp_millis_def delivered_def plain_types plain_legacy_def)
qed

lemma delivers_int96:
  assumes d: "delivers Int96TimestampMicrosType d bs xs" and fits: "pmv_fits 8 v (length bs)"
  shows "decode_int96 d v (length bs) = Some (delivered Int96TimestampMicrosType d v xs)"
proof -
  let ?conv = "\<lambda>s. do { micros \<leftarrow> int96_to_microsecond s; Some (int_bytes 8 micros) }"
  have b: "blocks_at (pd_data d) (pd_offset d) 12 bs"
    and x: "list_all2 (\<lambda>b x. plain_value Int96TimestampMicrosType (plain_legacy d) b = Some x) bs xs"
    using d by (simp_all add: delivers_def plain_types)
  have "check_values (\<lambda>s. do { micros \<leftarrow> int96_to_microsecond s; Some (\<not> micros < JULIAN_GREGORIAN_SWITCH_OFF_TS) })
      (pd_data d) (pd_offset d) 12 (length bs) = Some ()" if "\<not> plain_legacy d"
    using b x by (rule check_before) (use that in \<open>auto simp: unless_before_Some Option.bind_eq_Some_conv\<close>)
  moreover have "list_all2 (\<lambda>b x. ?conv b = Some x) bs xs"
    using x b by (rule list_all2_mono_width) (auto simp: unless_before_Some Option.bind_eq_Some_conv)
  moreover have "list_all (\<lambda>x. length x = 8) xs"
    using delivers_width [OF d] by (simp add: plain_types)
  ultimately show ?thesis
    using convert_spec [OF b _ _ fits, of ?conv xs] delivers_length [OF d]
    by (simp add: decode_int96_def delivered_def plain_types plain_legacy_def INT96_SRC_BYTE_WIDTH_def INT96_DST_BYTE_WIDTH_def)
qed

lemma delivers_variant:
  assumes d: "delivers T d bs xs" and w: "src_width T (pd_desc d) = 4" "dst_width T (pd_desc d) = dw"
    and T: "plain_decode T = decode_int_variant (copy_cast 4 dw cast) dw"
    and val: "\<And>b legacy. plain_value T legacy b = Some (cast b)"
    and len: "\<And>b. length b = 4 \<Longrightarrow> length (cast b) = dw"
    and fits: "pmv_fits dw v (length bs)"
  shows "plain_decode T d v (length bs) = Some (delivered T d v xs)"
proof -
  have b: "blocks_at (pd_data d) (pd_offset d) 4 bs" and "xs = map cast bs"
    using d by (simp_all add: delivers_def w val list_all2_map [simplified])
  then show ?thesis
    using decode_int_variant_spec [OF b len fits] by (simp add: T delivered_def w)
qed

lemma plain_decode_delivers:
  assumes T: "is_fixed T" and d: "delivers T d bs xs" and fits: "pmv_fits (dst_width T (pd_desc d)) v (length bs)"
  shows "plain_decode T d v (length bs) = Some (delivered T d v xs)"
proof -
  consider "T \<in> {Int32Type, Int64Type, FloatType, DoubleType, FLBAType}"
    | "T = Int32DateType" | "T = Int32TimestampMicrosType" | "T = Int64TimestampMillisType"
    | "T = Int64TimestampMicrosType" | "T = Int96TimestampMicrosType"
    | (variant) "T \<in> {Int8Type, Int16Type, Int16ToDoubleType, Int32To64Type, Int32ToDoubleType, FloatToDoubleType,
        UInt8Type, UInt16Type, UInt32Type}"
    using T by (cases T) (simp_all add: plain_types)
  then show ?thesis
  proof cases
    case variant
    then show ?thesis
      using fits
      apply (elim insertE emptyE)
      subgoal
        by (rule delivers_variant [OF d, where dw = 1 and cast = "\<lambda>b. int_bytes 1 (le_int b)"])
          (simp_all add: plain_types copy_routines del: int_bytes.simps One_nat_def)
      subgoal
        by (rule delivers_variant [OF d, where dw = 2 and cast = "\<lambda>b. int_bytes 2 (le_int b)"])
          (simp_all add: plain_types copy_routines del: int_bytes.simps One_nat_def)
      subgoal
        by (rule delivers_variant [OF d, where dw = 8 and cast = "\<lambda>b. int_bytes 8 (f64_of_i32 (le_int b))"])
          (simp_all add: plain_types copy_routines del: int_bytes.simps One_nat_def)
      subgoal
        by (rule delivers_variant [OF d, where dw = 8 and cast = "\<lambda>b. int_bytes 8 (le_int b)"])
          (simp_all add: plain_types copy_routines del: int_bytes.simps One_nat_def)
      subgoal
        by (rule delivers_variant [OF d, where dw = 8 and cast = "\<lambda>b. int_bytes 8 (f64_of_i32 (le_int b))"])
          (simp_all add: plain_types copy_routines del: int_bytes.simps One_nat_def)
      subgoal
        by (rule delivers_variant [OF d, where dw = 8 and cast = "\<lambda>b. int_bytes 8 (f64_of_f32 (le_nat b))"])
          (simp_all add: plain_types copy_routines del: int_bytes.simps One_nat_def)
      subgoal
        by (rule delivers_variant [OF d, where dw = 2 and cast = "\<lambda>b. int_bytes 2 (le_int b)"])
          (simp_all add: plain_types copy_routines del: int_bytes.simps One_nat_def)
      subgoal
        by (rule delivers_variant [OF d, where dw = 4 and cast = "\<lambda>b. int_bytes 4 (le_int b)"])
          (simp_all add: plain_types copy_routines del: int_bytes.simps One_nat_def)
      subgoal
        by (rule delivers_variant [OF d, where dw = 8 and cast = "\<lambda>b. int_bytes 4 (le_int b) @ int_bytes 4 0"])
          (simp_all add: plain_types copy_routines del: int_bytes.simps One_nat_def)
      done
  qed (use d fits in \<open>auto simp: plain_types delivers_date delivers_days delivers_millis delivers_timestamp_micros
      delivers_int96 intro: delivers_default\<close>)
qed

lemma plain_skip_fixed:
  "is_fixed T \<Longrightarrow> length_ok T (pd_desc d) \<Longrightarrow>
     plain_skip T d n = Some (d\<lparr>pd_offset := pd_offset d + src_width T (pd_desc d) * n\<rparr>)"
  by (cases T) (simp_all add: plain_types skip_default_def skip_width_def skip_int96_def INT96_SRC_BYTE_WIDTH_def)

lemma plain_blocks_append:
  assumes "plain_blocks T w d (xs @ ys)"
  obtains bs where "delivers T d bs xs" and "is_fixed T" and "w = dst_width T (pd_desc d)" and "length bs = length xs"
    and "plain_blocks T w (d\<lparr>pd_offset := pd_offset d + src_width T (pd_desc d) * length xs\<rparr>) ys"
proof -
  let ?P = "\<lambda>b x. plain_value T (plain_legacy d) b = Some x"
  obtain cs where T: "is_fixed T" "length_ok T (pd_desc d)" "w = dst_width T (pd_desc d)"
    and cs: "blocks_at (pd_data d) (pd_offset d) (src_width T (pd_desc d)) cs" and all: "list_all2 ?P cs (xs @ ys)"
    using assms by (auto simp: plain_blocks_def)
  obtain us vs where "cs = us @ vs" and us: "list_all2 ?P us xs" and vs: "list_all2 ?P vs ys"
    using all by (auto simp: list_all2_append2)
  moreover have len: "length us = length xs" using us by (rule list_all2_lengthD)
  ultimately have "blocks_at (pd_data d) (pd_offset d) (src_width T (pd_desc d)) us"
    and "blocks_at (pd_data d) (pd_offset d + src_width T (pd_desc d) * length xs) (src_width T (pd_desc d)) vs"
    using cs by (simp_all add: blocks_at_append)
  then have "delivers T d us xs"
    and "plain_blocks T w (d\<lparr>pd_offset := pd_offset d + src_width T (pd_desc d) * length xs\<rparr>) ys"
    using us vs T by (auto simp: delivers_def plain_blocks_def plain_legacy_def)
  then show ?thesis using that T len by blast
qed

lemma plain_read_batch_law:
  assumes "plain_blocks T w d (xs @ ys)" and "pmv_fits w v (length xs)"
  shows "\<exists>d'. plain_read_batch T d v (length xs) = Some (d', pmv_write w v xs) \<and> plain_blocks T w d' ys"
proof -
  obtain bs where d: "delivers T d bs xs" and T: "is_fixed T" and w: "w = dst_width T (pd_desc d)"
    and len: "length bs = length xs"
    and rest: "plain_blocks T w (d\<lparr>pd_offset := pd_offset d + src_width T (pd_desc d) * length xs\<rparr>) ys"
    by (rule plain_blocks_append [OF assms(1)])
  have "plain_decode T d v (length xs) = Some (delivered T d v xs)"
    using plain_decode_delivers [OF T d, of v] assms(2) unfolding w len by simp
  then show ?thesis using rest by (simp add: plain_read_batch_def delivered_def w)
qed

interpretation plain: value_decoder "plain_read T" "plain_read_batch T" "plain_skip_batch T" w "plain_blocks T w"
  for T w
proof
  fix d :: plain_decoder and xs ys :: "u8 list list" and x :: "u8 list" and v
  show "plain_blocks T w d xs \<Longrightarrow> list_all (\<lambda>x. length x = w) xs" by (rule plain_blocks_width)
  show "\<exists>d'. plain_read_batch T d v (length xs) = Some (d', pmv_write w v xs) \<and> plain_blocks T w d' ys"
    if "plain_blocks T w d (xs @ ys)" "pmv_fits w v (length xs)"
    using that by (rule plain_read_batch_law)
  show "\<exists>d'. plain_read T d v = Some (d', pmv_write w v [x]) \<and> plain_blocks T w d' ys"
    if "plain_blocks T w d (x # ys)" "pmv_fits w v 1"
    using plain_read_batch_law [of T w d "[x]" ys v] that by (simp add: plain_read_def)
  show "\<exists>d'. plain_skip_batch T d (length xs) = Some d' \<and> plain_blocks T w d' ys"
    if "plain_blocks T w d (xs @ ys)"
    using that
    by (elim plain_blocks_append) (auto simp: plain_skip_batch_def plain_skip_fixed delivers_def)
qed

subsection \<open>Properties\<close>


end
