(* ===== verification/Bit_Batch.thy ===== *)
theory Bit_Batch
  imports Bit_Reader_Spec
begin

text \<open>
  The batch readers of \<open>BitReader\<close>: \<open>get_batch\<close>, modelled here, and \<open>get_u32_batch\<close> of
  theory \<open>Bit_Reader\<close>. Both read value by value up to a word boundary, unpack 32 values at a time with the
  unrolled routines, and finish value by value. The lemmas show that the three phases
  together return the consecutive fields of the bit stream.
\<close>

subsection \<open>\<open>get_batch\<close>\<close>

text \<open>
  \<open>while i < values_to_read && self.bit_offset != 0\<close>, for the \<open>m\<close> values still to read, and the last
  loop \<open>while i < values_to_read\<close>; \<open>expect\<close> panics when there is no value.
\<close>

fun get_batch_align ::
  "bit_reader \<Rightarrow> 'a::len word list \<Rightarrow> nat \<Rightarrow> nat \<Rightarrow> nat \<Rightarrow> ('a word list \<times> nat \<times> bit_reader) option" where
  "get_batch_align r batch i 0 num_bits = Some (batch, i, r)"
| "get_batch_align r batch i (Suc m) num_bits =
     (if br_bit_offset r \<noteq> 0 then do {
        (res, r) \<leftarrow> get_value r num_bits;
        v \<leftarrow> res;
        batch \<leftarrow> update batch i v;
        get_batch_align r batch (i + 1) m num_bits
      } else Some (batch, i, r))"

fun get_batch_rest ::
  "bit_reader \<Rightarrow> 'a::len word list \<Rightarrow> nat \<Rightarrow> nat \<Rightarrow> nat \<Rightarrow> ('a word list \<times> bit_reader) option" where
  "get_batch_rest r batch i 0 num_bits = Some (batch, r)"
| "get_batch_rest r batch i (Suc m) num_bits = do {
     (res, r) \<leftarrow> get_value r num_bits;
     v \<leftarrow> res;
     batch \<leftarrow> update batch i v;
     get_batch_rest r batch (i + 1) m num_bits
   }"

text \<open>
  A 32-bit word copied over an element of type \<open>T\<close>: a wider element keeps its high bytes, a
  narrower one gets the low bytes of the word.
\<close>

definition store32 :: "u32 \<Rightarrow> 'a::len word \<Rightarrow> 'a word" where
  "store32 v old = (if LENGTH('a) > 32 then (old AND NOT (mask 32)) OR ucast v else ucast v)"

fun store32_run :: "'a::len word list \<Rightarrow> nat \<Rightarrow> u32 list \<Rightarrow> 'a word list option" where
  "store32_run batch i [] = Some batch"
| "store32_run batch i (v # vs) = do {
     old \<leftarrow> index batch i;
     batch \<leftarrow> update batch i (store32 v old);
     store32_run batch (i + 1) vs
   }"

text \<open>\<open>while values_to_read - i >= 32\<close>, with \<open>m = values_to_read - i\<close>.\<close>

fun get_batch_unpack ::
  "bit_reader \<Rightarrow> nat \<Rightarrow> 'a::len word list \<Rightarrow> nat \<Rightarrow> nat \<Rightarrow> nat \<Rightarrow> ('a word list \<times> nat \<times> bit_reader) option"
where
  "get_batch_unpack r in_ptr batch i m num_bits =
     (if m \<ge> 32 then do {
        ensure (in_ptr + 4 * num_bits \<le> length (br_buffer r));
        (out, consumed) \<leftarrow> unpack32 (word_at (br_buffer r) in_ptr) num_bits;
        let r = r\<lparr>br_byte_offset := br_byte_offset r + 4 * num_bits\<rparr>;
        batch \<leftarrow> store32_run batch i out;
        get_batch_unpack r (in_ptr + 4 * consumed) batch (i + 32) (m - 32) num_bits
      } else Some (batch, i, r))"

declare get_batch_unpack.simps [simp del]

definition get_batch ::
  "bit_reader \<Rightarrow> 'a::len word list \<Rightarrow> nat \<Rightarrow> (nat \<times> 'a word list \<times> bit_reader) option" where
  "get_batch r batch num_bits = do {
     ensure (num_bits \<le> 32);
     ensure (num_bits \<le> LENGTH('a));
     let values_to_read = length batch;
     let needed_bits = num_bits * values_to_read;
     left \<leftarrow> usub (br_total_bytes r) (br_byte_offset r);
     remaining_bits \<leftarrow> usub (left * 8) (br_bit_offset r);
     let values_to_read =
       (if remaining_bits < needed_bits then remaining_bits div num_bits else values_to_read);
     (batch, i, r) \<leftarrow>
       (if br_bit_offset r \<noteq> 0 then get_batch_align r batch 0 values_to_read num_bits
        else Some (batch, 0, r));
     ensure (br_byte_offset r \<le> length (br_buffer r));
     (batch, i, r) \<leftarrow> get_batch_unpack r (br_byte_offset r) batch i (values_to_read - i) num_bits;
     ensure (values_to_read - i < 32);
     r \<leftarrow> reload_buffer_values r;
     (batch, r) \<leftarrow> get_batch_rest r batch i (values_to_read - i) num_bits;
     Some (values_to_read, batch, r)
   }"

subsection \<open>Fields of a bit stream\<close>

definition bit_fields :: "(nat \<Rightarrow> bool) \<Rightarrow> nat \<Rightarrow> nat \<Rightarrow> nat \<Rightarrow> 'a::len word list" where
  "bit_fields f p w n = map (\<lambda>i. bits_word f (p + i * w) w) [0..<n]"

lemma length_bit_fields [simp]: "length (bit_fields f p w n) = n"
  by (simp add: bit_fields_def)

lemma bit_fields_0 [simp]: "bit_fields f p w 0 = []"
  by (simp add: bit_fields_def)

lemma bit_fields_append: "bit_fields f p w (m + n) = bit_fields f p w m @ bit_fields f (p + m * w) w n"
  by (rule nth_equalityI) (auto simp: bit_fields_def nth_append algebra_simps intro!: arg_cong [where f = "\<lambda>p. bits_word f p w"])

lemma bit_fields_Suc: "bit_fields f p w (Suc n) = bits_word f p w # bit_fields f (p + w) w n"
  using bit_fields_append [of f p w 1 n] by (simp add: bit_fields_def)

lemma bit_fields_cong:
  assumes "\<And>j. j < w * n \<Longrightarrow> f (p + j) = g (q + j)"
  shows "bit_fields f p w n = (bit_fields g q w n :: 'a::len word list)"
proof -
  have "(bits_word f (p + i * w) w :: 'a word) = bits_word g (q + i * w) w" if "i < n" for i
  proof (rule bits_word_cong)
    fix k assume "k < w"
    with that have "i * w + k < w * n"
      by (metis add.commute add_mult_distrib less_le_trans mult.commute mult_Suc mult_le_mono1 Suc_leI nat_add_left_cancel_less)
    with assms [of "i * w + k"] show "f (p + i * w + k) = g (q + i * w + k)" by (simp add: add.assoc)
  qed
  then show ?thesis by (simp add: bit_fields_def)
qed

lemma word_bit_word_at: "word_bit (word_at buf p) k = byte_bit buf (8 * p + k)"
proof -
  have "8 * (p + 4 * (k div 32)) + k mod 32 = 8 * p + k"
    using mult_div_mod_eq [of 32 k] by (simp add: distrib_left add.assoc)
  then show ?thesis
    by (simp add: word_bit_def word_at_def bit_le_word byte_bit_take byte_bit_drop)
      (simp add: add.commute)
qed

lemma unpack32_word_at:
  assumes "w \<le> 32"
  shows "unpack32 (word_at buf p) w = Some (bit_fields (byte_bit buf) (8 * p) w 32, w)"
proof -
  have "(bit_fields (byte_bit buf) (8 * p) w 32 :: u32 list) = bit_fields (word_bit (word_at buf p)) 0 w 32"
    by (rule bit_fields_cong) (simp add: word_bit_word_at)
  then show ?thesis
    using assms by (simp add: unpack32_eq map_unpack_value_bits bit_fields_def)
qed

lemma bit_fields_buffer:
  assumes "8 * p + w * n \<le> br_end r"
  shows "bit_fields (byte_bit (br_buffer r)) (8 * p) w n = bit_fields (br_bits r) (8 * p) w n"
  by (rule bit_fields_cong) (use assms in \<open>auto simp: br_bits_def br_end_def byte_bit_take\<close>)

subsection \<open>\<open>get_u32_batch\<close>\<close>

lemma get_u32_values_spec:
  assumes "br_inv r" and "w \<le> 32" and "br_pos r + w * m \<le> br_end r"
  shows "\<exists>r'. get_u32_values r m w = Some (bit_fields (br_bits r) (br_pos r) w m, r') \<and> br_step r (w * m) r'"
  using assms
proof (induction m arbitrary: r)
  case (Suc m)
  obtain r1 where v: "get_u32_value r w = Some (bits_word (br_bits r) (br_pos r) w, r1)"
    and s: "br_step r w r1"
    by (rule get_u32_value_spec [of r w]) (use Suc.prems in auto)
  note d = br_stepD [OF s]
  from Suc.IH [OF d(1) Suc.prems(2)] Suc.prems(3) d obtain r' where
    "get_u32_values r1 m w = Some (bit_fields (br_bits r) (br_pos r + w) w m, r')" and "br_step r1 (w * m) r'"
    by auto
  then show ?case using v br_step_trans [OF s] by (auto simp: bit_fields_Suc)
qed (auto simp: br_step_refl)

lemma get_u32_values_align_spec:
  assumes "br_inv r" and "w \<le> 32" and "br_pos r + w * m \<le> br_end r"
  shows "\<exists>n r'. n \<le> m \<and> get_u32_values_align r m w = Some (bit_fields (br_bits r) (br_pos r) w n, r') \<and>
    br_step r (w * n) r' \<and> (n = m \<or> br_bit_offset r' = 0)"
  using assms
proof (induction m arbitrary: r)
  case (Suc m)
  show ?case
  proof (cases "br_bit_offset r = 0")
    case True
    with Suc.prems show ?thesis by (intro exI [of _ 0]) auto
  next
    case False
    obtain r1 where v: "get_u32_value r w = Some (bits_word (br_bits r) (br_pos r) w, r1)"
      and s: "br_step r w r1"
      by (rule get_u32_value_spec [of r w]) (use Suc.prems in auto)
    note d = br_stepD [OF s]
    from Suc.IH [OF d(1) Suc.prems(2)] Suc.prems(3) d obtain n r' where n: "n \<le> m"
      and "get_u32_values_align r1 m w = Some (bit_fields (br_bits r) (br_pos r + w) w n, r')"
      and "br_step r1 (w * n) r'" and "n = m \<or> br_bit_offset r' = 0"
      by auto
    then show ?thesis using v br_step_trans [OF s] False
      by (intro exI [of _ "Suc n"]) (auto simp: bit_fields_Suc)
  qed
qed (auto simp: br_step_refl)

lemma get_u32_unpack_spec:
  assumes "w \<le> 32" and "8 * p + w * m \<le> br_end r" and "br_total_bytes r \<le> length (br_buffer r)"
  shows "get_u32_unpack r p m w =
     Some (bit_fields (br_bits r) (8 * p) w (32 * (m div 32)),
       r\<lparr>br_byte_offset := br_byte_offset r + 4 * w * (m div 32)\<rparr>)"
  using assms
proof (induction m arbitrary: r p rule: less_induct)
  case (less m)
  show ?case
  proof (cases "32 \<le> m")
    case False
    then show ?thesis by (simp add: get_u32_unpack.simps [of r])
  next
    case True
    then obtain k where m: "m = 32 + k" using le_Suc_ex by blast
    have q: "(32 + k) div 32 = 1 + k div 32" by simp
    let ?r = "r\<lparr>br_byte_offset := br_byte_offset r + 4 * w\<rparr>"
    have room: "8 * p + w * 32 \<le> br_end r" using less.prems(2) by (simp add: m distrib_left)
    then have "p + 4 * w \<le> length (br_buffer r)" using less.prems(3) by (simp add: br_end_def)
    moreover have "get_u32_unpack ?r (p + 4 * w) k w =
        Some (bit_fields (br_bits r) (8 * p + 32 * w) w (32 * (k div 32)),
          r\<lparr>br_byte_offset := br_byte_offset r + 4 * w + 4 * w * (k div 32)\<rparr>)"
      using less.IH [of k "p + 4 * w" ?r] less.prems
      by (simp add: m br_bits_def br_end_def algebra_simps)
    ultimately show ?thesis
      using True less.prems(1) unpack32_word_at [of w "br_buffer r" p]
        bit_fields_buffer [OF room, where 'a = 32]
        bit_fields_append [of "br_bits r" "8 * p" w 32 "32 * (k div 32)", where 'a = 32]
      unfolding m q by (simp add: get_u32_unpack.simps [of r] algebra_simps)
  qed
qed

text \<open>The word is reloaded once after the unrolled part, which only moves the byte offset.\<close>

lemma unpack_reload:
  assumes inv: "br_inv r" and b: "m = 0 \<or> br_bit_offset r = 0" and room: "br_pos r + w * m \<le> br_end r"
  obtains r' where
    "reload_buffer_values (r\<lparr>br_byte_offset := br_byte_offset r + 4 * w * (m div 32)\<rparr>) = Some r'"
    and "br_step r (w * (32 * (m div 32))) r'"
proof -
  let ?r = "r\<lparr>br_byte_offset := br_byte_offset r + 4 * w * (m div 32)\<rparr>"
  have le: "32 * (m div 32) \<le> m" by simp
  have "br_pos ?r = br_pos r + w * (32 * (m div 32))" by (simp add: br_pos_def algebra_simps)
  moreover have "br_pos r + w * (32 * (m div 32)) \<le> br_end r"
    using mult_le_mono2 [OF le, of w] room by linarith
  moreover have "br_end ?r = br_end r" by (simp add: br_end_def)
  ultimately obtain r' where "reload_buffer_values ?r = Some r'" and "br_step ?r 0 r'"
    using reload_step [of ?r] inv room by (auto simp: br_inv_def)
  then show ?thesis
    using that \<open>br_pos ?r = _\<close> by (auto simp: br_step_def)
qed

lemma get_u32_batch_spec:
  assumes inv: "br_inv r" and w: "w \<le> 32" and room: "br_pos r + w * n \<le> br_end r"
  obtains r' where "get_u32_batch r n w = Some (bit_fields (br_bits r) (br_pos r) w n, r')"
    and "br_step r (w * n) r'"
proof -
  obtain n1 r1 where n1: "n1 \<le> n" and al: "(if br_bit_offset r \<noteq> 0 then get_u32_values_align r n w else Some ([], r)) =
      Some (bit_fields (br_bits r) (br_pos r) w n1, r1)"
    and s1: "br_step r (w * n1) r1" and b1: "n1 = n \<or> br_bit_offset r1 = 0"
  proof (cases "br_bit_offset r = 0")
    case True
    then show ?thesis using that [of 0 r] inv by (simp add: br_step_refl)
  next
    case False
    then show ?thesis using that get_u32_values_align_spec [OF inv w room] by auto
  qed
  note d1 = br_stepD [OF s1]
  define m where "m = n - n1"
  have n: "n = n1 + m" using n1 by (simp add: m_def)
  have m: "m = 0 \<or> br_bit_offset r1 = 0" using b1 by (auto simp: m_def)
  have room1: "br_pos r1 + w * m \<le> br_end r1" using room d1 by (simp add: n algebra_simps)
  let ?p = "br_byte_offset r1" and ?k = "32 * (m div 32)"
  have tot: "br_total_bytes r1 \<le> length (br_buffer r1)" and "br_pos r1 \<le> br_end r1"
    using d1(1) by (auto simp: br_inv_def)
  then have p: "?p \<le> length (br_buffer r1)" by (simp add: br_pos_def br_end_def)
  have "8 * ?p + w * m \<le> br_end r1" using room1 by (simp add: br_pos_def)
  then have u: "get_u32_unpack r1 ?p m w = Some (bit_fields (br_bits r) (br_pos r + w * n1) w ?k,
      r1\<lparr>br_byte_offset := ?p + 4 * w * (m div 32)\<rparr>)"
    using get_u32_unpack_spec [OF w _ tot] m d1 by (auto simp: br_pos_def)
  obtain r2 where r2: "reload_buffer_values (r1\<lparr>br_byte_offset := ?p + 4 * w * (m div 32)\<rparr>) = Some r2"
    and s2: "br_step r1 (w * ?k) r2"
    using unpack_reload [OF d1(1) m room1] .
  note d2 = br_stepD [OF s2]
  have m_eq: "m = ?k + m mod 32" by simp
  have "br_pos r2 + w * (m mod 32) \<le> br_end r2"
    using room1 d2 by (simp add: add.assoc flip: distrib_left)
  from get_u32_values_spec [OF d2(1) w this] obtain r3 where
    v: "get_u32_values r2 (m mod 32) w = Some (bit_fields (br_bits r) (br_pos r + w * n1 + w * ?k) w (m mod 32), r3)"
    and s3: "br_step r2 (w * (m mod 32)) r3"
    using d1 d2 by auto
  have m_mod: "m - ?k = m mod 32" by (simp add: minus_mult_div_eq_mod)
  have "(bit_fields (br_bits r) (br_pos r) w n :: u32 list) = bit_fields (br_bits r) (br_pos r) w n1 @
      bit_fields (br_bits r) (br_pos r + w * n1) w ?k @
      bit_fields (br_bits r) (br_pos r + w * n1 + w * ?k) w (m mod 32)"
    unfolding n by (subst bit_fields_append, subst m_eq, subst bit_fields_append) (simp add: mult.commute)
  then have "get_u32_batch r n w = Some (bit_fields (br_bits r) (br_pos r) w n, r3)"
    using p by (simp only: get_u32_batch_def al u r2 v bind.bind_lunit prod.case length_bit_fields m_mod
        ensure_bind if_True flip: m_def)
  moreover have "br_step r (w * n) r3"
    using br_step_trans [OF br_step_trans [OF s1 s2] s3] by (simp add: n add.assoc flip: distrib_left)
  ultimately show ?thesis by (rule that)
qed

subsection \<open>The result of \<open>get_batch\<close>\<close>

text \<open>\<open>high_clear\<close> says that no element wider than 32
  bits has a high bit set, without which \<open>store32\<close> leaves those bits in place.\<close>

definition high_clear :: "'a::len word list \<Rightarrow> bool" where
  "high_clear batch \<longleftrightarrow> list_all (\<lambda>x. take_bit 32 x = x) batch \<or> LENGTH('a) \<le> 32"

lemma high_clear_overwrite:
  "high_clear xs \<Longrightarrow> high_clear vs \<Longrightarrow> high_clear (overwrite xs i vs)"
  by (auto simp: high_clear_def overwrite_def list_all_iff dest: in_set_takeD in_set_dropD)

lemma take_bit_bits_word: "w \<le> n \<Longrightarrow> take_bit n (bits_word f p w :: 'a::len word) = bits_word f p w"
  by (rule bit_word_eqI) (auto simp: bit_simps)

lemma high_clear_fields: "w \<le> 32 \<Longrightarrow> high_clear (bit_fields f p w n :: 'a::len word list)"
  by (auto simp: high_clear_def list_all_iff bit_fields_def take_bit_bits_word)

lemma store32_eq:
  "take_bit 32 old = old \<or> LENGTH('a) \<le> 32 \<Longrightarrow> store32 v (old :: 'a::len word) = ucast v"
proof -
  assume *: "take_bit 32 old = old \<or> LENGTH('a) \<le> 32"
  have "old AND NOT (mask 32) = 0" if "LENGTH('a) > 32"
  proof -
    have "take_bit 32 old AND NOT (mask 32) = 0"
      by (rule bit_word_eqI) (auto simp: bit_simps)
    with * that show ?thesis by simp
  qed
  then show ?thesis by (simp add: store32_def)
qed

lemma store32_run_eq:
  fixes batch :: "'a::len word list"
  assumes "high_clear batch" and "i + length vs \<le> length batch"
  shows "store32_run batch i vs = Some (overwrite batch i (map ucast vs))"
  using assms
proof (induction vs arbitrary: batch i)
  case (Cons v vs)
  have i: "i < length batch" using Cons.prems by simp
  with Cons.prems(1) have "take_bit 32 (batch ! i) = batch ! i \<or> LENGTH('a) \<le> 32"
    by (auto simp: high_clear_def list_all_length)
  then have st: "store32 v (batch ! i) = ucast v" by (rule store32_eq)
  have "high_clear [ucast v :: 'a word]"
  proof -
    have "take_bit 32 (ucast v :: 'a word) = ucast v"
      by (rule bit_word_eqI) (auto simp: bit_simps dest: bit_imp_le_length)
    then show ?thesis by (simp add: high_clear_def)
  qed
  then have "high_clear (batch[i := ucast v])"
    using high_clear_overwrite [OF Cons.prems(1), of "[ucast v]" i] i by (simp add: overwrite_single)
  with Cons.IH [of "batch[i := ucast v]" "Suc i"] Cons.prems(2) i st overwrite_Cons [of i "map ucast vs" batch "ucast v"]
  show ?case by (simp add: index_Some update_Some)
qed simp

lemma map_ucast_fields:
  "w \<le> 32 \<Longrightarrow> map ucast (bit_fields f p w n :: u32 list) = (bit_fields f p w n :: 'a::len word list)"
  by (simp add: bit_fields_def ucast_bits_word)

lemma get_batch_rest_spec:
  fixes batch :: "'a::len word list"
  assumes "br_inv r" and "w \<le> 32" and "w \<le> LENGTH('a)" and "br_pos r + w * m \<le> br_end r"
    and "i + m \<le> length batch"
  shows "\<exists>r'. get_batch_rest r batch i m w = Some (overwrite batch i (bit_fields (br_bits r) (br_pos r) w m), r') \<and>
    br_step r (w * m) r'"
  using assms
proof (induction m arbitrary: r batch i)
  case (Suc m)
  obtain r1 where v: "get_value r w = Some (Some (bits_word (br_bits r) (br_pos r) w :: 'a word), r1)"
    and s: "br_step r w r1"
    by (rule get_value_spec [of r w]) (use Suc.prems in auto)
  note d = br_stepD [OF s]
  let ?b = "batch[i := bits_word (br_bits r) (br_pos r) w]"
  from Suc.IH [OF d(1) Suc.prems(2,3), of "Suc i" ?b] Suc.prems(4,5) d obtain r' where
    "get_batch_rest r1 ?b (Suc i) m w = Some (overwrite ?b (Suc i) (bit_fields (br_bits r) (br_pos r + w) w m), r')"
    and "br_step r1 (w * m) r'" by auto
  then show ?case
    using v br_step_trans [OF s] Suc.prems(5) by (auto simp: bit_fields_Suc update_Some overwrite_Cons)
qed (auto simp: br_step_refl)

lemma get_batch_align_spec:
  fixes batch :: "'a::len word list"
  assumes "br_inv r" and "w \<le> 32" and "w \<le> LENGTH('a)" and "br_pos r + w * m \<le> br_end r"
    and "i + m \<le> length batch"
  shows "\<exists>n r'. n \<le> m \<and>
    get_batch_align r batch i m w = Some (overwrite batch i (bit_fields (br_bits r) (br_pos r) w n), i + n, r') \<and>
    br_step r (w * n) r' \<and> (n = m \<or> br_bit_offset r' = 0)"
  using assms
proof (induction m arbitrary: r batch i)
  case (Suc m)
  show ?case
  proof (cases "br_bit_offset r = 0")
    case True
    with Suc.prems show ?thesis by (intro exI [of _ 0]) auto
  next
    case False
    obtain r1 where v: "get_value r w = Some (Some (bits_word (br_bits r) (br_pos r) w :: 'a word), r1)"
      and s: "br_step r w r1"
      by (rule get_value_spec [of r w]) (use Suc.prems in auto)
    note d = br_stepD [OF s]
    let ?b = "batch[i := bits_word (br_bits r) (br_pos r) w]"
    from Suc.IH [OF d(1) Suc.prems(2,3), of "Suc i" ?b] Suc.prems(4,5) d obtain n r' where "n \<le> m"
      and "get_batch_align r1 ?b (Suc i) m w =
        Some (overwrite ?b (Suc i) (bit_fields (br_bits r) (br_pos r + w) w n), Suc i + n, r')"
      and "br_step r1 (w * n) r'" and "n = m \<or> br_bit_offset r' = 0" by auto
    then show ?thesis
      using v br_step_trans [OF s] Suc.prems(5) False
      by (intro exI [of _ "Suc n"]) (auto simp: bit_fields_Suc update_Some overwrite_Cons)
  qed
qed (auto simp: br_step_refl)

lemma get_batch_unpack_spec:
  fixes batch :: "'a::len word list"
  assumes "w \<le> 32" and "8 * p + w * m \<le> br_end r" and "br_total_bytes r \<le> length (br_buffer r)"
    and "high_clear batch" and "i + m \<le> length batch"
  shows "get_batch_unpack r p batch i m w =
     Some (overwrite batch i (bit_fields (br_bits r) (8 * p) w (32 * (m div 32))), i + 32 * (m div 32),
       r\<lparr>br_byte_offset := br_byte_offset r + 4 * w * (m div 32)\<rparr>)"
  using assms
proof (induction m arbitrary: r p batch i rule: less_induct)
  case (less m)
  show ?case
  proof (cases "32 \<le> m")
    case False
    then show ?thesis by (simp add: get_batch_unpack.simps [of r])
  next
    case True
    then obtain k where m: "m = 32 + k" using le_Suc_ex by blast
    have q: "(32 + k) div 32 = 1 + k div 32" by simp
    let ?r = "r\<lparr>br_byte_offset := br_byte_offset r + 4 * w\<rparr>"
    let ?b = "overwrite batch i (bit_fields (br_bits r) (8 * p) w 32)"
    have room: "8 * p + w * 32 \<le> br_end r" using less.prems(2) by (simp add: m distrib_left)
    then have "p + 4 * w \<le> length (br_buffer r)" using less.prems(3) by (simp add: br_end_def)
    moreover have "store32_run batch i (bit_fields (byte_bit (br_buffer r)) (8 * p) w 32) = Some ?b"
      using store32_run_eq [OF less.prems(4), of i "bit_fields (byte_bit (br_buffer r)) (8 * p) w 32"]
        less.prems(1,5) map_ucast_fields [of w, where 'a = 'a]
        bit_fields_buffer [OF room, where 'a = 'a]
      by (simp add: m)
    moreover have "get_batch_unpack ?r (p + 4 * w) ?b (i + 32) k w =
        Some (overwrite ?b (i + 32) (bit_fields (br_bits r) (8 * p + 32 * w) w (32 * (k div 32))),
          i + 32 + 32 * (k div 32),
          r\<lparr>br_byte_offset := br_byte_offset r + 4 * w + 4 * w * (k div 32)\<rparr>)"
      using less.IH [of k "p + 4 * w" ?r ?b "i + 32"] less.prems
        high_clear_overwrite [OF less.prems(4) high_clear_fields [OF less.prems(1)]]
      by (simp add: m br_bits_def br_end_def length_overwrite algebra_simps)
    moreover have "overwrite ?b (i + 32) (bit_fields (br_bits r) (8 * p + 32 * w) w (32 * (k div 32))) =
        overwrite batch i (bit_fields (br_bits r) (8 * p) w (32 + 32 * (k div 32)))"
    proof -
      have "32 * (k div 32) \<le> k" by simp
      then have "i + 32 + 32 * (k div 32) \<le> length batch" using less.prems(5) unfolding m by linarith
      then show ?thesis
        using overwrite_overwrite [of i "bit_fields (br_bits r) (8 * p) w 32"
            "bit_fields (br_bits r) (8 * p + 32 * w) w (32 * (k div 32))" batch]
        by (simp add: bit_fields_append)
    qed
    ultimately show ?thesis
      using True less.prems(1) unpack32_word_at [of w "br_buffer r" p]
      unfolding m q by (simp add: get_batch_unpack.simps [of r] algebra_simps)
  qed
qed

lemma overwrite_fields:
  assumes "m + n \<le> length b"
  shows "overwrite (overwrite b 0 (bit_fields f p w m)) m (bit_fields f (p + w * m) w n) =
    overwrite b 0 (bit_fields f p w (m + n))"
  using overwrite_overwrite [of 0 "bit_fields f p w m" "bit_fields f (p + m * w) w n" b] assms
  by (simp add: bit_fields_append mult.commute)

text \<open>The number of values \<open>get_batch\<close> reads: all, or what the remaining bits hold.\<close>

definition batch_count :: "bit_reader \<Rightarrow> nat \<Rightarrow> nat \<Rightarrow> nat" where
  "batch_count r len w = (if br_end r - br_pos r < w * len then (br_end r - br_pos r) div w else len)"

lemma batch_count_le: "w * batch_count r len w \<le> br_end r - br_pos r" "batch_count r len w \<le> len"
proof -
  show "w * batch_count r len w \<le> br_end r - br_pos r" by (simp add: batch_count_def)
  have "(br_end r - br_pos r) div w \<le> len" if "br_end r - br_pos r < w * len"
    using that by (intro less_imp_le less_mult_imp_div_less) (simp add: mult.commute)
  then show "batch_count r len w \<le> len" by (simp add: batch_count_def)
qed

lemma get_batch_spec:
  fixes batch :: "'a::len word list"
  assumes inv: "br_inv r" and w: "w \<le> 32" and wa: "w \<le> LENGTH('a)" and hc: "high_clear batch"
    and n: "n = batch_count r (length batch) w"
  obtains r' where "get_batch r batch w =
      Some (n, overwrite batch 0 (bit_fields (br_bits r) (br_pos r) w n), r')"
    and "br_step r (w * n) r'"
proof -
  have nl: "n \<le> length batch" and "w * n \<le> br_end r - br_pos r" and "br_pos r \<le> br_end r"
    using batch_count_le [where r = r and w = w] inv by (auto simp: n br_inv_def)
  then have room: "br_pos r + w * n \<le> br_end r" by linarith
  obtain n1 r1 where n1: "n1 \<le> n" and al: "(if br_bit_offset r \<noteq> 0 then get_batch_align r batch 0 n w else Some (batch, 0, r)) =
      Some (overwrite batch 0 (bit_fields (br_bits r) (br_pos r) w n1), n1, r1)"
    and s1: "br_step r (w * n1) r1" and b1: "n1 = n \<or> br_bit_offset r1 = 0"
  proof (cases "br_bit_offset r = 0")
    case True
    then show ?thesis using that [of 0 r] inv by (simp add: br_step_refl)
  next
    case False
    then show ?thesis using that get_batch_align_spec [OF inv w wa room, of 0 batch] nl by auto
  qed
  note d1 = br_stepD [OF s1]
  define m where "m = n - n1"
  have n_eq: "n = n1 + m" using n1 by (simp add: m_def)
  have m: "m = 0 \<or> br_bit_offset r1 = 0" using b1 by (auto simp: m_def)
  have room1: "br_pos r1 + w * m \<le> br_end r1" using room d1 by (simp add: n_eq algebra_simps)
  let ?p = "br_byte_offset r1" and ?k = "32 * (m div 32)"
  let ?b1 = "overwrite batch 0 (bit_fields (br_bits r) (br_pos r) w n1)"
  have tot: "br_total_bytes r1 \<le> length (br_buffer r1)" and "br_pos r1 \<le> br_end r1"
    using d1(1) by (auto simp: br_inv_def)
  then have p: "?p \<le> length (br_buffer r1)" by (simp add: br_pos_def br_end_def)
  have hc1: "high_clear ?b1" using hc w by (intro high_clear_overwrite high_clear_fields)
  have len1: "length ?b1 = length batch" using n1 nl by (simp add: length_overwrite)
  have "8 * ?p + w * m \<le> br_end r1" using room1 by (simp add: br_pos_def)
  then have u: "get_batch_unpack r1 ?p ?b1 n1 m w =
      Some (overwrite ?b1 n1 (bit_fields (br_bits r) (br_pos r + w * n1) w ?k), n1 + ?k,
        r1\<lparr>br_byte_offset := ?p + 4 * w * (m div 32)\<rparr>)"
    using get_batch_unpack_spec [OF w _ tot hc1, of ?p m n1] m d1 n_eq nl len1 by (auto simp: br_pos_def)
  obtain r2 where r2: "reload_buffer_values (r1\<lparr>br_byte_offset := ?p + 4 * w * (m div 32)\<rparr>) = Some r2"
    and s2: "br_step r1 (w * ?k) r2"
    using unpack_reload [OF d1(1) m room1] .
  note d2 = br_stepD [OF s2]
  let ?b2 = "overwrite ?b1 n1 (bit_fields (br_bits r) (br_pos r + w * n1) w ?k)"
  have m_eq: "m = ?k + m mod 32" and m_mod: "n - (n1 + ?k) = m mod 32"
    by (simp_all add: n_eq minus_mult_div_eq_mod)
  have len2: "length ?b2 = length batch" using n_eq nl len1 m_eq by (simp add: length_overwrite)
  have "br_pos r2 + w * (m mod 32) \<le> br_end r2"
    using room1 d2 by (simp add: add.assoc flip: distrib_left)
  moreover have "n1 + ?k + m mod 32 \<le> length ?b2" using n_eq nl len2 by simp
  ultimately obtain r3 where
    v: "get_batch_rest r2 ?b2 (n1 + ?k) (m mod 32) w =
      Some (overwrite ?b2 (n1 + ?k) (bit_fields (br_bits r) (br_pos r + w * n1 + w * ?k) w (m mod 32)), r3)"
    and s3: "br_step r2 (w * (m mod 32)) r3"
    using get_batch_rest_spec [OF d2(1) w wa] d1 d2 by metis
  have "overwrite ?b2 (n1 + ?k) (bit_fields (br_bits r) (br_pos r + w * n1 + w * ?k) w (m mod 32)) =
      overwrite batch 0 (bit_fields (br_bits r) (br_pos r) w n)" (is "?b3 = _")
    using overwrite_fields [of n1 ?k batch "br_bits r" "br_pos r" w]
      overwrite_fields [of "n1 + ?k" "m mod 32" batch "br_bits r" "br_pos r" w] n_eq nl
    by (simp add: add.assoc distrib_left)
  have g: "usub (br_total_bytes r) (br_byte_offset r) = Some (br_total_bytes r - br_byte_offset r)"
    "usub ((br_total_bytes r - br_byte_offset r) * 8) (br_bit_offset r) = Some (br_end r - br_pos r)"
    using \<open>br_pos r \<le> br_end r\<close> by (auto simp: usub_def br_pos_def br_end_def)
  have "get_batch r batch w = Some (n, ?b3, r3)"
    using w wa p by (simp only: get_batch_def ensure_bind if_True Let_def g bind.bind_lunit prod.case al u r2 v
        m_mod flip: batch_count_def n m_def) simp
  moreover have "br_step r (w * n) r3"
    using br_step_trans [OF br_step_trans [OF s1 s2] s3] by (simp add: n_eq add.assoc flip: distrib_left)
  ultimately show ?thesis using that \<open>?b3 = _\<close> by simp
qed

subsection \<open>Properties\<close>

text \<open>
  C17. \<open>get_batch\<close> fills the batch with consecutive fields of the stream, as many as the batch has room
  for or the remaining bits hold, keeps the other elements, and moves the cursor behind the last field. The elements of a
  batch of values wider than 32 bits must have clear high halves.
\<close>

theorem get_batch_reads_fields:
  fixes batch :: "'a::len word list"
  assumes "br_inv r" and "w \<le> 32" and "w \<le> LENGTH('a)" and "high_clear batch"
  shows "\<exists>r'. get_batch r batch w =
      Some (batch_count r (length batch) w,
        overwrite batch 0 (bit_fields (br_bits r) (br_pos r) w (batch_count r (length batch) w)), r') \<and>
    br_step r (w * batch_count r (length batch) w) r'"
  using get_batch_spec [OF assms refl] by blast

theorem get_batch_reads_fields_witness:
  "\<exists>r'. get_batch (\<lparr>br_buffer = [0xE4, 0x1B, 0x03], br_buffered_values = 0x031BE4, br_byte_offset = 0, br_bit_offset = 0, br_total_bytes = 3\<rparr>) [0, 0, 0, 0, 9 :: u32] 5 = Some (4, [4, 31, 6, 6, 9], r')"
proof -
  let ?r = "\<lparr>br_buffer = [0xE4, 0x1B, 0x03], br_buffered_values = 0x031BE4, br_byte_offset = 0, br_bit_offset = 0, br_total_bytes = 3\<rparr>" and ?b = "[0, 0, 0, 0, 9 :: u32]"
  have inv: "br_inv ?r" by code_simp
  have hc: "high_clear ?b" by (simp add: high_clear_def)
  have n: "batch_count ?r (length ?b) 5 = 4" by code_simp
  have o: "overwrite ?b 0 (bit_fields (br_bits ?r) (br_pos ?r) 5 4) = [4, 31, 6, 6, 9]" by code_simp
  show ?thesis using get_batch_reads_fields [OF inv _ _ hc, of 5] unfolding n o by auto
qed

text \<open>
  \<open>get_u32_batch\<close>, the unchecked batch reader behind dictionary indices, writes exactly the requested
  consecutive fields when the stream has them.
\<close>

theorem get_u32_batch_reads_fields:
  assumes "br_inv r" and "w \<le> 32" and "br_pos r + w * n \<le> br_end r"
  shows "\<exists>r'. get_u32_batch r n w = Some (bit_fields (br_bits r) (br_pos r) w n, r') \<and> br_step r (w * n) r'"
  using get_u32_batch_spec [OF assms] by blast

theorem get_u32_batch_reads_fields_witness:
  "\<exists>r'. get_u32_batch (\<lparr>br_buffer = [0xE4, 0x1B, 0x03], br_buffered_values = 0x031BE4, br_byte_offset = 0, br_bit_offset = 0, br_total_bytes = 3\<rparr>) 3 7 = Some ([0x64, 0x37, 0x0C], r')"
proof -
  let ?r = "\<lparr>br_buffer = [0xE4, 0x1B, 0x03], br_buffered_values = 0x031BE4, br_byte_offset = 0, br_bit_offset = 0, br_total_bytes = 3\<rparr>"
  have inv: "br_inv ?r" by code_simp
  have room: "br_pos ?r + 7 * 3 \<le> br_end ?r" by code_simp
  have f: "bit_fields (br_bits ?r) (br_pos ?r) 7 3 = [0x64, 0x37, 0x0C :: u32]" by code_simp
  show ?thesis using get_u32_batch_reads_fields [OF inv _ room] unfolding f by auto
qed

text \<open>
  A batch of 64-bit elements keeps the high halves it had: the unrolled part copies only the low
  32 bits of every element. Here 32 fields of one bit are read over elements that are all ones.
\<close>

theorem get_batch_keeps_high_half:
  "map_option (\<lambda>(n, batch, r). (n, batch ! 0)) (get_batch \<lparr>br_buffer = [0, 0, 0, 0], br_buffered_values = 0,
     br_byte_offset = 0, br_bit_offset = 0, br_total_bytes = 4\<rparr> (replicate 32 (- 1 :: u64)) 1) =
   Some (32, 0xFFFFFFFF00000000)"
  by code_simp

end
