(* ===== verification/Dict_Decoder.thy ===== *)
theory Dict_Decoder
  imports Bit_Batch Value_Decoder
begin

text \<open>
  \<open>DictDecoder\<close> of \<open>native/core/src/parquet/read/values.rs\<close>: dictionary indices in the hybrid of
  run-length and bit-packed runs. The relation \<open>hybrid\<close> says which values a byte stream encodes; the
  lemmas show that reading and skipping follow it run after run.
\<close>

record dict_decoder =
  dd_bit_width :: nat
  dd_bit_reader :: bit_reader
  dd_rle_left :: nat
  dd_bit_packed_left :: nat
  dd_current_value :: u32

subsection \<open>Run headers\<close>

text \<open>
  The two readings of an \<open>i64\<close> indicator, given as its bit pattern: \<open>(indicator >> 1) as usize\<close>, and
  \<open>((indicator >> 1) * 8) as usize\<close>, whose multiplication may overflow.
\<close>

definition rle_count :: "u64 \<Rightarrow> nat" where
  "rle_count indicator = unat (signed_drop_bit 1 indicator)"

definition packed_count :: "u64 \<Rightarrow> nat option" where
  "packed_count indicator = do {
     let groups = signed_drop_bit 1 indicator;
     ensure (- (2 ^ 63) \<le> sint groups * 8 \<and> sint groups * 8 < 2 ^ 63);
     Some (unat (groups * 8))
   }"

subsection \<open>The decoder\<close>

definition dict_new :: "u8 list \<Rightarrow> dict_decoder option" where
  "dict_new buf = do {
     b \<leftarrow> index buf 0;
     r \<leftarrow> br_new_all (drop 1 buf);
     Some \<lparr>dd_bit_width = unat b, dd_bit_reader = r, dd_rle_left = 0, dd_bit_packed_left = 0,
       dd_current_value = 0\<rparr>
   }"

definition dict_reload :: "dict_decoder \<Rightarrow> dict_decoder option" where
  "dict_reload d = do {
     (res, r) \<leftarrow> get_vlq_int (dd_bit_reader d);
     let d = d\<lparr>dd_bit_reader := r\<rparr>;
     (case res of
        None \<Rightarrow> None
      | Some indicator_value \<Rightarrow>
          if indicator_value AND 1 = 1 then do {
            n \<leftarrow> packed_count indicator_value;
            Some (d\<lparr>dd_bit_packed_left := n\<rparr>)
          } else do {
            let d = d\<lparr>dd_rle_left := rle_count indicator_value\<rparr>;
            let value_width = div_ceil (dd_bit_width d) 8;
            (res, r) \<leftarrow> get_aligned (dd_bit_reader d) value_width;
            v \<leftarrow> res;
            Some (d\<lparr>dd_bit_reader := r, dd_current_value := v\<rparr>)
          })
   }"

text \<open>Storing \<open>u32\<close> values through a pointer into the value buffer; the writes must stay in it.\<close>

definition write_u32s :: "u32 list \<Rightarrow> nat \<Rightarrow> u8 list \<Rightarrow> u8 list option" where
  "write_u32s vs offset data = do {
     ensure (offset + 4 * length vs \<le> length data);
     Some (overwrite data offset (concat (map le_bytes vs)))
   }"

definition dict_read :: "dict_decoder \<Rightarrow> pmv \<Rightarrow> (dict_decoder \<times> pmv) option" where
  "dict_read d dst = do {
     let dst_offset = pmv_num_values dst * 4;
     d \<leftarrow> (if dd_rle_left d = 0 \<and> dd_bit_packed_left d = 0 then dict_reload d else Some d);
     (value, d) \<leftarrow>
       (if dd_rle_left d > 0
        then Some (dd_current_value d, d\<lparr>dd_rle_left := dd_rle_left d - 1\<rparr>)
        else do {
          n \<leftarrow> usub (dd_bit_packed_left d) 1;
          (v, r) \<leftarrow> get_u32_value (dd_bit_reader d) (dd_bit_width d);
          Some (v, d\<lparr>dd_bit_reader := r, dd_bit_packed_left := n\<rparr>)
        });
     values \<leftarrow> cb_as_slice_mut (pmv_values dst) (write_u32s [value] dst_offset);
     Some (d, pmv_set_values dst values)
   }"

text \<open>A successful header read moves the reader forward, so a loop of reloads ends.\<close>

definition dd_bits_left :: "dict_decoder \<Rightarrow> nat" where
  "dd_bits_left d = br_end (dd_bit_reader d) - br_pos (dd_bit_reader d)"

lemma reload_buffer_values_fields:
  "reload_buffer_values r = Some r' \<Longrightarrow> br_byte_offset r' = br_byte_offset r \<and>
     br_bit_offset r' = br_bit_offset r \<and> br_total_bytes r' = br_total_bytes r"
  by (auto simp: reload_buffer_values_def Option.bind_eq_Some_conv)

lemma get_aligned_pos:
  assumes "get_aligned r n = Some (Some v, r')"
  shows "br_end r' = br_end r" and "br_pos r' = br_aligned r + 8 * n" and "br_pos r' \<le> br_end r"
proof -
  from assms have "br_end r' = br_end r \<and> br_pos r' = br_aligned r + 8 * n \<and> br_pos r' \<le> br_end r"
    unfolding get_aligned_def br_aligned_eq
    by (auto simp: Option.bind_eq_Some_conv Let_def split: if_splits dest!: reload_buffer_values_fields)
      (auto simp: br_pos_def br_end_def)
  then show "br_end r' = br_end r" and "br_pos r' = br_aligned r + 8 * n" and "br_pos r' \<le> br_end r"
    by auto
qed

lemma get_vlq_loop_progress:
  "get_vlq_loop r shift acc = Some (Some v, r') \<Longrightarrow>
     br_end r' = br_end r \<and> br_pos r < br_pos r' \<and> br_pos r' \<le> br_end r"
proof (induction r shift acc rule: get_vlq_loop.induct)
  case (1 r shift acc)
  then obtain b r1 where g: "get_aligned r 1 = Some (Some (b :: u8), r1)"
    by (auto simp: get_vlq_loop.simps [of r] split: option.splits prod.splits if_splits)
  note p = get_aligned_pos [OF g] br_pos_le_aligned [of r]
  show ?case
    using "1.prems" "1.IH" [OF g refl refl] g p
    by (fastforce simp: get_vlq_loop.simps [of r] split: option.splits if_splits)
qed

lemma dict_reload_progress:
  assumes "dict_reload d = Some d'"
  shows "dd_bits_left d' < dd_bits_left d"
proof -
  from assms obtain ind r where v: "get_vlq_int (dd_bit_reader d) = Some (Some ind, r)"
    by (auto simp: dict_reload_def Option.bind_eq_Some_conv Let_def split: option.splits)
  note p = get_vlq_loop_progress [OF v [unfolded get_vlq_int_def]]
  show ?thesis
  proof (cases "ind AND 1 = 1")
    case True
    with assms v have "dd_bit_reader d' = r"
      by (auto simp: dict_reload_def Let_def Option.bind_eq_Some_conv)
    with p show ?thesis by (auto simp: dd_bits_left_def)
  next
    case False
    with assms v obtain x r' where
      g: "get_aligned r (div_ceil (dd_bit_width d) 8) = Some (Some (x :: u32), r')" and r': "dd_bit_reader d' = r'"
      by (auto simp: dict_reload_def Let_def Option.bind_eq_Some_conv)
    from get_aligned_pos [OF g] br_pos_le_aligned [of r] p r' show ?thesis
      by (auto simp: dd_bits_left_def)
  qed
qed

subsection \<open>Batches\<close>

text \<open>The loop of \<open>read_batch\<close>; \<open>data\<close> is the value buffer, \<open>dst_offset\<close> the place of the next value.\<close>

function dict_read_loop ::
  "dict_decoder \<Rightarrow> u8 list \<Rightarrow> nat \<Rightarrow> nat \<Rightarrow> nat \<Rightarrow> (dict_decoder \<times> u8 list) option" where
  "dict_read_loop d data dst_offset values_read num =
     (if values_read < num then
        if dst_offset > length data then None
        else if dd_rle_left d > 0 then
          (let n = min (num - values_read) (dd_rle_left d) in
           case write_u32s (replicate n (dd_current_value d)) dst_offset data of
             None \<Rightarrow> None
           | Some data' \<Rightarrow>
               dict_read_loop (d\<lparr>dd_rle_left := dd_rle_left d - n\<rparr>) data' (dst_offset + 4 * n) (values_read + n) num)
        else if dd_bit_packed_left d > 0 then
          (let n = min (num - values_read) (dd_bit_packed_left d) in
           case get_u32_batch (dd_bit_reader d) n (dd_bit_width d) of
             None \<Rightarrow> None
           | Some (vs, r) \<Rightarrow>
               (case write_u32s vs dst_offset data of
                  None \<Rightarrow> None
                | Some data' \<Rightarrow>
                    dict_read_loop (d\<lparr>dd_bit_reader := r, dd_bit_packed_left := dd_bit_packed_left d - n\<rparr>)
                      data' (dst_offset + 4 * n) (values_read + n) num))
        else
          (case dict_reload d of
             None \<Rightarrow> None
           | Some d' \<Rightarrow> dict_read_loop d' data dst_offset values_read num)
      else Some (d, data))"
  by pat_completeness auto
termination
  by (relation "measures [\<lambda>(d, data, dst_offset, values_read, num). num - values_read,
      \<lambda>(d, data, dst_offset, values_read, num). dd_bits_left d]")
    (auto dest: dict_reload_progress)

declare dict_read_loop.simps [simp del]

definition dict_read_batch :: "dict_decoder \<Rightarrow> pmv \<Rightarrow> nat \<Rightarrow> (dict_decoder \<times> pmv) option" where
  "dict_read_batch d dst num = do {
     ensure (cb_owned (pmv_values dst));
     (d, data) \<leftarrow> dict_read_loop d (cb_data (pmv_values dst)) (pmv_num_values dst * 4) 0 num;
     Some (d, pmv_set_values dst ((pmv_values dst)\<lparr>cb_data := data\<rparr>))
   }"

function dict_skip_loop :: "dict_decoder \<Rightarrow> nat \<Rightarrow> nat \<Rightarrow> dict_decoder option" where
  "dict_skip_loop d values_skipped num =
     (if values_skipped < num then
        if dd_rle_left d > 0 then
          (let n = min (num - values_skipped) (dd_rle_left d) in
           dict_skip_loop (d\<lparr>dd_rle_left := dd_rle_left d - n\<rparr>) (values_skipped + n) num)
        else if dd_bit_packed_left d > 0 then
          (let n = min (num - values_skipped) (dd_bit_packed_left d) in
           case skip_bits (dd_bit_reader d) (n * dd_bit_width d) of
             None \<Rightarrow> None
           | Some (_, r) \<Rightarrow>
               dict_skip_loop (d\<lparr>dd_bit_reader := r, dd_bit_packed_left := dd_bit_packed_left d - n\<rparr>)
                 (values_skipped + n) num)
        else
          (case dict_reload d of
             None \<Rightarrow> None
           | Some d' \<Rightarrow> dict_skip_loop d' values_skipped num)
      else Some d)"
  by pat_completeness auto
termination
  by (relation "measures [\<lambda>(d, values_skipped, num). num - values_skipped,
      \<lambda>(d, values_skipped, num). dd_bits_left d]")
    (auto dest: dict_reload_progress)

declare dict_skip_loop.simps [simp del]

definition dict_skip_batch :: "dict_decoder \<Rightarrow> nat \<Rightarrow> dict_decoder option" where
  "dict_skip_batch d num = dict_skip_loop d 0 num"

subsection \<open>The values a stream encodes\<close>

text \<open>
  \<open>hybrid w f e p xs\<close>: from bit \<open>p\<close> on, the stream \<open>f\<close> of \<open>e\<close> bits encodes at least the values
  \<open>xs\<close> in runs of width \<open>w\<close>. No run is empty: a run-length run is a header \<open>n << 1\<close> and a byte-aligned value; a packed
  run is a header \<open>(g << 1) | 1\<close> and \<open>8 * g\<close> fields.
\<close>

definition rle_header :: "nat \<Rightarrow> u8 list" where
  "rle_header n = vlq_bytes (shl (of_nat n) 1)"

definition packed_header :: "nat \<Rightarrow> u8 list" where
  "packed_header g = vlq_bytes (shl (of_nat g) 1 OR 1)"

inductive hybrid :: "nat \<Rightarrow> (nat \<Rightarrow> bool) \<Rightarrow> nat \<Rightarrow> nat \<Rightarrow> u32 list \<Rightarrow> bool" for w f e where
  hybrid_end: "hybrid w f e p []"
| hybrid_rle: "0 < n \<Longrightarrow> n < 2 ^ 62 \<Longrightarrow> stream_has f p (rle_header n) \<Longrightarrow> q = p + 8 * length (rle_header n) \<Longrightarrow>
     q + 8 * div_ceil w 8 \<le> e \<Longrightarrow> hybrid w f e (q + 8 * div_ceil w 8) xs \<Longrightarrow>
     hybrid w f e p (replicate n (bits_word f q (8 * div_ceil w 8)) @ xs)"
| hybrid_packed: "0 < g \<Longrightarrow> g < 2 ^ 59 \<Longrightarrow> stream_has f p (packed_header g) \<Longrightarrow> q = p + 8 * length (packed_header g) \<Longrightarrow>
     q + w * (8 * g) \<le> e \<Longrightarrow> hybrid w f e (q + w * (8 * g)) xs \<Longrightarrow>
     hybrid w f e p (bit_fields f q w (8 * g) @ xs)"

lemma signed_drop_header:
  fixes x :: u64
  assumes "unat x < 2 ^ 62" and "b = 0 \<or> b = 1"
  shows "signed_drop_bit 1 (shl x 1 OR b) = x"
proof (rule bit_word_eqI)
  fix k assume k: "k < LENGTH(64)"
  have hi: "\<not> bit x j" if "62 \<le> j" for j
  proof -
    have "\<not> bit (unat x) j"
      using assms(1) that by (metis bit_take_bit_iff not_le take_bit_nat_eq_self)
    then show ?thesis by (simp add: bit_unsigned_iff)
  qed
  have b: "\<not> bit b (Suc j)" for j using assms(2) by (auto simp: bit_1_iff)
  show "bit (signed_drop_bit 1 (shl x 1 OR b)) k = bit x k"
  proof (cases "k < 63")
    case True
    then show ?thesis using b [of k] by (simp add: bit_signed_drop_bit_iff bit_or_iff bit_shl)
  next
    case False
    with k have "k = 63" by simp
    then show ?thesis using b [of 62] hi by (simp add: bit_signed_drop_bit_iff bit_or_iff bit_shl)
  qed
qed

lemma rle_count_header: "n < 2 ^ 62 \<Longrightarrow> rle_count (shl (of_nat n) 1) = n"
  using signed_drop_header [of "of_nat n" 0]
  by (simp add: rle_count_def unat_of_nat take_bit_nat_eq_self)

lemma packed_count_header:
  assumes "g < 2 ^ 59"
  shows "packed_count (shl (of_nat g) 1 OR 1) = Some (8 * g)"
proof -
  have u: "unat (of_nat g :: u64) = g" using assms by (simp add: unat_of_nat take_bit_nat_eq_self)
  have d: "signed_drop_bit 1 (shl (of_nat g :: u64) 1 OR 1) = of_nat g"
    using assms by (intro signed_drop_header) (simp_all add: u)
  have s: "sint (of_nat g :: u64) = int g"
    using assms by (simp add: signed_of_nat signed_take_bit_int_eq_self)
  have "unat (of_nat g * 8 :: u64) = 8 * g"
    using assms u by (simp add: unat_mult_lem [THEN iffD1])
  then show ?thesis using assms unfolding packed_count_def Let_def d by (simp add: s)
qed

lemma header_low_bits:
  "shl x 1 AND (1 :: u64) = 0" "(shl x 1 OR 1) AND (1 :: u64) = 1"
  by (rule bit_word_eqI; auto simp: bit_simps bit_shl bit_1_iff)+

subsection \<open>The decoder against the stream\<close>

text \<open>The values the decoder still delivers: the rest of the current run, then the runs after it.\<close>

definition dict_vals :: "dict_decoder \<Rightarrow> u32 list \<Rightarrow> bool" where
  "dict_vals d xs \<longleftrightarrow>
     (let r = dd_bit_reader d; w = dd_bit_width d; q = br_pos r + w * dd_bit_packed_left d in
      br_inv r \<and> w \<le> 32 \<and> (dd_rle_left d = 0 \<or> dd_bit_packed_left d = 0) \<and> 8 dvd q \<and> q \<le> br_end r \<and>
      (\<exists>rest. hybrid w (br_bits r) (br_end r) q rest \<and>
         xs = replicate (dd_rle_left d) (dd_current_value d) @
              bit_fields (br_bits r) (br_pos r) w (dd_bit_packed_left d) @ rest))"

lemma dict_new_vals:
  assumes "buf \<noteq> []" and "unat (hd buf) \<le> 32"
    and "hybrid (unat (hd buf)) (byte_bit (tl buf)) (8 * length (tl buf)) 0 xs"
  obtains d where "dict_new buf = Some d" and "dict_vals d xs"
proof -
  obtain r where r: "br_new (tl buf) (length (tl buf)) = Some r" "br_inv r" "br_pos r = 0"
    "br_end r = 8 * length (tl buf)" "br_bits r = byte_bit (tl buf)"
    by (rule br_new_spec [of "length (tl buf)" "tl buf"]) auto
  let ?d = "\<lparr>dd_bit_width = unat (hd buf), dd_bit_reader = r, dd_rle_left = 0, dd_bit_packed_left = 0,
    dd_current_value = 0\<rparr>"
  have "dict_new buf = Some ?d"
    using assms(1) r(1) by (simp add: dict_new_def index_def br_new_all_def drop_Suc hd_conv_nth)
  moreover have "dict_vals ?d xs" using assms(2,3) r by (simp add: dict_vals_def)
  ultimately show ?thesis by (rule that)
qed

text \<open>A header is read when the current run is used up.\<close>

lemma get_vlq_int_at:
  assumes "br_inv r" and "8 dvd br_pos r" and "stream_has (br_bits r) (br_pos r) (vlq_bytes v)"
    and "br_pos r + 8 * length (vlq_bytes v) \<le> br_end r"
  obtains r' where "get_vlq_int r = Some (Some v, r')" and "br_step r (8 * length (vlq_bytes v)) r'"
    and "8 dvd br_pos r'"
proof -
  have al: "br_aligned r = br_pos r" using assms(2) by (intro br_aligned_id) simp
  obtain r' where "get_vlq_int r = Some (Some v, r')"
    and "br_step r (br_aligned r + 8 * length (vlq_bytes v) - br_pos r) r'" and "br_pos r' mod 8 = 0"
    by (rule get_vlq_int_spec [of r v]) (use assms in \<open>auto simp: al\<close>)
  then show ?thesis using that [of r'] by (auto simp: al)
qed

lemma bit_offset_aligned: "br_inv r \<Longrightarrow> 8 dvd br_pos r \<Longrightarrow> br_bit_offset r \<le> 56"
proof -
  assume "br_inv r" and "8 dvd br_pos r"
  then have "br_bit_offset r < 64" and "8 dvd br_bit_offset r"
    by (auto simp: br_inv_def br_pos_def dvd_add_right_iff)
  then show ?thesis by (auto elim!: dvdE)
qed

lemma dict_reload_spec:
  assumes v: "dict_vals d (x # xs)" and z: "dd_rle_left d = 0" "dd_bit_packed_left d = 0"
  obtains d' where "dict_reload d = Some d'" and "dict_vals d' (x # xs)"
    and "dd_rle_left d' > 0 \<or> dd_bit_packed_left d' > 0"
proof -
  let ?r = "dd_bit_reader d" and ?w = "dd_bit_width d"
  have inv: "br_inv ?r" and w: "?w \<le> 32" and al: "8 dvd br_pos ?r"
    and hy: "hybrid ?w (br_bits ?r) (br_end ?r) (br_pos ?r) (x # xs)"
    using v z by (auto simp: dict_vals_def Let_def)
  from hy show ?thesis
  proof (cases rule: hybrid.cases)
    case (hybrid_rle n q ys)
    let ?h = "shl (of_nat n) 1 :: u64" and ?c = "div_ceil ?w 8"
    have room: "br_pos ?r + 8 * length (vlq_bytes ?h) \<le> br_end ?r" and q: "q = br_pos ?r + 8 * length (vlq_bytes ?h)"
      and st: "stream_has (br_bits ?r) (br_pos ?r) (vlq_bytes ?h)"
      using hybrid_rle by (auto simp: rle_header_def)
    obtain r1 where g: "get_vlq_int ?r = Some (Some ?h, r1)" and s1: "br_step ?r (8 * length (vlq_bytes ?h)) r1"
      and al1: "8 dvd br_pos r1"
      using get_vlq_int_at [OF inv al st room] .
    note d1 = br_stepD [OF s1]
    have al': "br_aligned r1 = br_pos r1" using al1 by (intro br_aligned_id) simp
    have c: "?c \<le> 4" using w by (simp add: div_ceil_8)
    obtain r2 where g2: "get_aligned r1 ?c = Some (Some (bits_word (br_bits r1) (br_aligned r1) (8 * ?c) :: u32), r2)"
      and s2: "br_step r1 (br_aligned r1 + 8 * ?c - br_pos r1) r2" and al2: "br_pos r2 mod 8 = 0"
      by (rule get_aligned_spec [OF d1(1), where 'a = 32 and n = ?c])
        (use c bit_offset_aligned [OF d1(1) al1] hybrid_rle(6) in \<open>simp_all add: al' d1 q\<close>)
    let ?v = "bits_word (br_bits ?r) q (8 * ?c) :: u32"
    let ?d = "d\<lparr>dd_rle_left := n, dd_bit_reader := r2, dd_current_value := ?v\<rparr>"
    have "dict_reload d = Some ?d"
      using g g2 rle_count_header [OF hybrid_rle(3)] by (simp add: dict_reload_def header_low_bits al' d1 q Let_def
          del: One_nat_def)
    moreover have "dict_vals ?d (x # xs)"
      using br_stepD [OF s2] d1 z w al2 hybrid_rle(1,2,6,7) by (auto simp: dict_vals_def Let_def al' q)
    ultimately show ?thesis by (rule that) (use hybrid_rle(2) in simp)
  next
    case (hybrid_packed g q ys)
    let ?h = "shl (of_nat g) 1 OR 1 :: u64"
    have room: "br_pos ?r + 8 * length (vlq_bytes ?h) \<le> br_end ?r" and q: "q = br_pos ?r + 8 * length (vlq_bytes ?h)"
      and st: "stream_has (br_bits ?r) (br_pos ?r) (vlq_bytes ?h)"
      using hybrid_packed by (auto simp: packed_header_def)
    obtain r1 where gv: "get_vlq_int ?r = Some (Some ?h, r1)" and s1: "br_step ?r (8 * length (vlq_bytes ?h)) r1"
      and al1: "8 dvd br_pos r1"
      using get_vlq_int_at [OF inv al st room] .
    note d1 = br_stepD [OF s1]
    let ?d = "d\<lparr>dd_bit_reader := r1, dd_bit_packed_left := 8 * g\<rparr>"
    have "dict_reload d = Some ?d"
      using gv packed_count_header [OF hybrid_packed(3)] by (simp add: dict_reload_def header_low_bits Let_def
          del: One_nat_def)
    moreover have "dict_vals ?d (x # xs)"
      using d1 z w al1 hybrid_packed(1,2,6,7) by (auto simp: dict_vals_def Let_def q)
    ultimately show ?thesis by (rule that) (use hybrid_packed(2) in simp)
  qed
qed

text \<open>Taking values from the current run.\<close>

lemma dict_vals_rle:
  assumes "dict_vals d zs" and "n \<le> dd_rle_left d" and "0 < n"
  shows "take n zs = replicate n (dd_current_value d)"
    and "dict_vals (d\<lparr>dd_rle_left := dd_rle_left d - n\<rparr>) (drop n zs)"
  using assms by (auto simp: dict_vals_def Let_def)

lemma dict_vals_packed:
  assumes v: "dict_vals d zs" and z: "dd_rle_left d = 0" and n: "n \<le> dd_bit_packed_left d"
    and st: "br_step (dd_bit_reader d) (dd_bit_width d * n) r'"
  shows "take n zs = bit_fields (br_bits (dd_bit_reader d)) (br_pos (dd_bit_reader d)) (dd_bit_width d) n"
    and "dict_vals (d\<lparr>dd_bit_reader := r', dd_bit_packed_left := dd_bit_packed_left d - n\<rparr>) (drop n zs)"
proof -
  let ?r = "dd_bit_reader d" and ?w = "dd_bit_width d" and ?m = "dd_bit_packed_left d - n"
  have m: "dd_bit_packed_left d = n + ?m" using n by simp
  have q: "br_pos ?r + ?w * n + ?w * ?m = br_pos ?r + ?w * dd_bit_packed_left d"
    by (subst (2) m) (simp add: distrib_left)
  note s = br_stepD [OF st]
  obtain rest where zs: "zs = bit_fields (br_bits ?r) (br_pos ?r) ?w (n + ?m) @ rest"
    and hy: "hybrid ?w (br_bits ?r) (br_end ?r) (br_pos ?r + ?w * dd_bit_packed_left d) rest"
    using v z m by (auto simp: dict_vals_def Let_def)
  show "take n zs = bit_fields (br_bits ?r) (br_pos ?r) ?w n"
    unfolding zs bit_fields_append by simp
  have "drop n zs = bit_fields (br_bits ?r) (br_pos ?r + ?w * n) ?w ?m @ rest"
    unfolding zs bit_fields_append by (simp add: mult.commute)
  moreover have "?w \<le> 32" and "8 dvd br_pos ?r + ?w * dd_bit_packed_left d"
    and "br_pos ?r + ?w * dd_bit_packed_left d \<le> br_end ?r"
    using v by (auto simp: dict_vals_def Let_def)
  ultimately show "dict_vals (d\<lparr>dd_bit_reader := r', dd_bit_packed_left := ?m\<rparr>) (drop n zs)"
    using z s hy by (simp add: dict_vals_def Let_def q)
qed

lemma dict_vals_packed_room:
  assumes "dict_vals d zs" and "n \<le> dd_bit_packed_left d"
  shows "br_pos (dd_bit_reader d) + dd_bit_width d * n \<le> br_end (dd_bit_reader d)"
    and "br_inv (dd_bit_reader d)" and "dd_bit_width d \<le> 32"
proof -
  have "dd_bit_width d * n \<le> dd_bit_width d * dd_bit_packed_left d" using assms(2) by simp
  moreover have "br_pos (dd_bit_reader d) + dd_bit_width d * dd_bit_packed_left d \<le> br_end (dd_bit_reader d)"
    using assms(1) by (auto simp: dict_vals_def Let_def)
  ultimately show "br_pos (dd_bit_reader d) + dd_bit_width d * n \<le> br_end (dd_bit_reader d)" by linarith
  show "br_inv (dd_bit_reader d)" and "dd_bit_width d \<le> 32"
    using assms(1) by (auto simp: dict_vals_def Let_def)
qed

lemma length_concat_le_bytes: "length (concat (map le_bytes (vs :: u32 list))) = 4 * length vs"
  by (induction vs) auto

lemma overwrite_u32s_split:
  fixes xs :: "u32 list"
  assumes "off + 4 * length xs \<le> length data" and "n \<le> length xs"
  shows "overwrite (overwrite data off (concat (map le_bytes (take n xs)))) (off + 4 * n)
      (concat (map le_bytes (drop n xs))) = overwrite data off (concat (map le_bytes xs))"
proof -
  have "concat (map le_bytes (take n xs)) @ concat (map le_bytes (drop n xs)) = concat (map le_bytes xs)"
    by (simp flip: concat_append map_append)
  moreover have "length (concat (map le_bytes (take n xs))) = 4 * n"
    using assms(2) by (simp only: length_concat_le_bytes length_take min_absorb2)
  ultimately show ?thesis
    using overwrite_overwrite [of off "concat (map le_bytes (take n xs))" "concat (map le_bytes (drop n xs))" data] assms
    by (simp add: length_concat_le_bytes)
qed

lemma dict_read_loop_spec:
  assumes "dict_vals d (xs @ ys)" and "num = vr + length xs" and "off + 4 * length xs \<le> length data"
  shows "\<exists>d'. dict_read_loop d data off vr num = Some (d', overwrite data off (concat (map le_bytes xs))) \<and>
    dict_vals d' ys"
  using assms
proof (induction d data off vr num arbitrary: xs rule: dict_read_loop.induct)
  case (1 d data off vr num)
  show ?case
  proof (cases xs)
    case Nil
    with 1 show ?thesis by (simp add: dict_read_loop.simps [of d])
  next
    case (Cons x xs')
    then have lt: "vr < num" and off: "\<not> off > length data" using "1.prems" by auto
    have step: "\<exists>d'. dict_read_loop d data off vr num =
          Some (d', overwrite data off (concat (map le_bytes xs))) \<and> dict_vals d' ys"
      if n: "n \<le> length xs" and tk: "write_u32s (take n xs) off data = Some data1"
        and eq: "dict_read_loop d data off vr num = dict_read_loop d1 data1 (off + 4 * n) (vr + n) num"
        and IH: "\<And>zs. dict_vals d1 (zs @ ys) \<Longrightarrow> num = vr + n + length zs \<Longrightarrow>
          off + 4 * n + 4 * length zs \<le> length data1 \<Longrightarrow>
          \<exists>d'. dict_read_loop d1 data1 (off + 4 * n) (vr + n) num =
            Some (d', overwrite data1 (off + 4 * n) (concat (map le_bytes zs))) \<and> dict_vals d' ys"
        and vals: "dict_vals d1 (drop n (xs @ ys))" for n d1 data1
    proof -
      have d1: "data1 = overwrite data off (concat (map le_bytes (take n xs)))"
        using tk by (simp add: write_u32s_def split: if_splits)
      have "length data1 = length data"
        using "1.prems"(3) n by (simp add: d1 length_overwrite length_concat_le_bytes)
      then show ?thesis
        using IH [of "drop n xs"] vals n "1.prems"(2,3) overwrite_u32s_split [OF "1.prems"(3) n]
        unfolding eq by (simp flip: d1)
    qed
    show ?thesis
    proof (cases "dd_rle_left d > 0")
      case True
      let ?n = "min (num - vr) (dd_rle_left d)"
      have n: "?n \<le> length xs" "0 < ?n" using "1.prems"(2) lt True by auto
      have tk: "take ?n xs = replicate ?n (dd_current_value d)"
        using dict_vals_rle(1) [OF "1.prems"(1) _ n(2)] n(1) by simp
      have wr: "write_u32s (replicate ?n (dd_current_value d)) off data =
          Some (overwrite data off (concat (map le_bytes (take ?n xs))))"
        using "1.prems"(3) n by (simp add: write_u32s_def tk)
      show ?thesis
      proof (rule step [OF n(1)])
        show "write_u32s (take ?n xs) off data = Some (overwrite data off (concat (map le_bytes (take ?n xs))))"
          using wr by (simp only: tk)
        show "dict_read_loop d data off vr num = dict_read_loop (d\<lparr>dd_rle_left := dd_rle_left d - ?n\<rparr>)
            (overwrite data off (concat (map le_bytes (take ?n xs)))) (off + 4 * ?n) (vr + ?n) num"
          using lt off True wr by (simp add: dict_read_loop.simps [of d] Let_def)
        show "dict_vals (d\<lparr>dd_rle_left := dd_rle_left d - ?n\<rparr>) (drop ?n (xs @ ys))"
          by (rule dict_vals_rle(2) [OF "1.prems"(1) _ n(2)]) simp
      qed (use "1.IH"(1) [OF lt off True refl wr] in auto)
    next
      case False
      then have z: "dd_rle_left d = 0" by simp
      show ?thesis
      proof (cases "dd_bit_packed_left d > 0")
        case True
        let ?n = "min (num - vr) (dd_bit_packed_left d)"
        let ?vs = "bit_fields (br_bits (dd_bit_reader d)) (br_pos (dd_bit_reader d)) (dd_bit_width d) ?n :: u32 list"
        have n: "?n \<le> length xs" using "1.prems"(2) lt by auto
        obtain r' where g: "get_u32_batch (dd_bit_reader d) ?n (dd_bit_width d) = Some (?vs, r')"
          and st: "br_step (dd_bit_reader d) (dd_bit_width d * ?n) r'"
          using get_u32_batch_spec [OF dict_vals_packed_room(2,3,1) [OF "1.prems"(1), of ?n]] by auto
        have tk: "take ?n xs = ?vs"
          using dict_vals_packed(1) [OF "1.prems"(1) z _ st] n by simp
        have wr: "write_u32s ?vs off data = Some (overwrite data off (concat (map le_bytes (take ?n xs))))"
          using "1.prems"(3) n by (simp add: write_u32s_def tk)
        show ?thesis
        proof (rule step [OF n])
          show "write_u32s (take ?n xs) off data = Some (overwrite data off (concat (map le_bytes (take ?n xs))))"
            using wr by (simp only: tk)
          show "dict_read_loop d data off vr num =
              dict_read_loop (d\<lparr>dd_bit_reader := r', dd_bit_packed_left := dd_bit_packed_left d - ?n\<rparr>)
                (overwrite data off (concat (map le_bytes (take ?n xs)))) (off + 4 * ?n) (vr + ?n) num"
            using lt off True False wr g by (simp add: dict_read_loop.simps [of d] Let_def)
          show "dict_vals (d\<lparr>dd_bit_reader := r', dd_bit_packed_left := dd_bit_packed_left d - ?n\<rparr>)
              (drop ?n (xs @ ys))"
            by (rule dict_vals_packed(2) [OF "1.prems"(1) z _ st]) simp
        qed (use "1.IH"(2) [OF lt off False True refl g refl wr] in auto)
      next
        case p: False
        obtain d' where r: "dict_reload d = Some d'" and v: "dict_vals d' (xs @ ys)"
          using dict_reload_spec [of d x "xs' @ ys"] "1.prems"(1) z p Cons by auto
        have "dict_read_loop d data off vr num = dict_read_loop d' data off vr num"
          using lt off False p r by (simp add: dict_read_loop.simps [of d])
        with "1.IH"(3) [OF lt off False p r v "1.prems"(2,3)] show ?thesis by simp
      qed
    qed
  qed
qed

lemma dict_read_batch_spec:
  assumes "dict_vals d (xs @ ys)" and "pmv_fits 4 v (length xs)"
  shows "\<exists>d'. dict_read_batch d v (length xs) = Some (d', pmv_write 4 v (map le_bytes xs)) \<and> dict_vals d' ys"
proof -
  have "pmv_num_values v * 4 + 4 * length xs \<le> length (cb_data (pmv_values v))" and "cb_owned (pmv_values v)"
    using assms(2) by (simp_all add: pmv_fits_def algebra_simps)
  then show ?thesis
    using dict_read_loop_spec [OF assms(1) _ \<open>_ \<le> _\<close>, of "length xs" 0]
    by (auto simp: dict_read_batch_def pmv_write_def)
qed

lemma dict_read_spec:
  assumes v: "dict_vals d (x # ys)" and fit: "pmv_fits 4 v 1"
  shows "\<exists>d'. dict_read d v = Some (d', pmv_write 4 v [le_bytes x]) \<and> dict_vals d' ys"
proof -
  have "pmv_num_values v * 4 + 4 \<le> length (cb_data (pmv_values v))" and "cb_owned (pmv_values v)"
    using fit by (simp_all add: pmv_fits_def algebra_simps)
  then have wr: "cb_as_slice_mut (pmv_values v) (write_u32s [x] (pmv_num_values v * 4)) =
      Some ((pmv_values v)\<lparr>cb_data := overwrite (cb_data (pmv_values v)) (pmv_num_values v * 4) (le_bytes x)\<rparr>)"
    by (simp add: cb_as_slice_mut_def cb_deref_mut_def write_u32s_def)
  have run: "\<exists>d'. (if dd_rle_left e > 0
        then Some (dd_current_value e, e\<lparr>dd_rle_left := dd_rle_left e - 1\<rparr>)
        else usub (dd_bit_packed_left e) 1 \<bind> (\<lambda>n.
          get_u32_value (dd_bit_reader e) (dd_bit_width e) \<bind> (\<lambda>(v, r).
          Some (v, e\<lparr>dd_bit_reader := r, dd_bit_packed_left := n\<rparr>)))) = Some (x, d') \<and> dict_vals d' ys"
    if ve: "dict_vals e (x # ys)" and "dd_rle_left e > 0 \<or> dd_bit_packed_left e > 0" for e
  proof (cases "dd_rle_left e > 0")
    case True
    with dict_vals_rle [OF ve, of 1] show ?thesis by simp
  next
    case False
    with that have z: "dd_rle_left e = 0" and n: "1 \<le> dd_bit_packed_left e" by auto
    note rm = dict_vals_packed_room [OF ve n]
    obtain r' where g: "get_u32_value (dd_bit_reader e) (dd_bit_width e) =
        Some (bits_word (br_bits (dd_bit_reader e)) (br_pos (dd_bit_reader e)) (dd_bit_width e), r')"
      and st: "br_step (dd_bit_reader e) (dd_bit_width e * 1) r'"
      using get_u32_value_spec [of "dd_bit_reader e" "dd_bit_width e"] rm by auto
    from dict_vals_packed [OF ve z n st] g z n show ?thesis
      by (simp add: usub_Some bit_fields_Suc)
  qed
  obtain e where e: "(if dd_rle_left d = 0 \<and> dd_bit_packed_left d = 0 then dict_reload d else Some d) = Some e"
    "dict_vals e (x # ys)" "dd_rle_left e > 0 \<or> dd_bit_packed_left e > 0"
  proof (cases "dd_rle_left d = 0 \<and> dd_bit_packed_left d = 0")
    case True
    then obtain e where "dict_reload d = Some e" "dict_vals e (x # ys)"
      "dd_rle_left e > 0 \<or> dd_bit_packed_left e > 0"
      using dict_reload_spec [OF v] by blast
    with True show ?thesis by (intro that [of e]) auto
  next
    case False
    with v show ?thesis by (intro that [of d]) auto
  qed
  from run [OF e(2,3)] show ?thesis
    by (elim exE conjE) (simp only: dict_read_def pmv_write_def Let_def e(1) wr bind.bind_lunit prod.case
        concat.simps append_Nil2, blast)
qed

lemma dict_skip_loop_spec:
  assumes "dict_vals d (xs @ ys)" and "num = vs + length xs"
  shows "\<exists>d'. dict_skip_loop d vs num = Some d' \<and> dict_vals d' ys"
  using assms
proof (induction d vs num arbitrary: xs rule: dict_skip_loop.induct)
  case (1 d vs num)
  show ?case
  proof (cases xs)
    case Nil
    with 1 show ?thesis by (simp add: dict_skip_loop.simps [of d])
  next
    case (Cons x xs')
    then have lt: "vs < num" using "1.prems" by auto
    show ?thesis
    proof (cases "dd_rle_left d > 0")
      case True
      let ?n = "min (num - vs) (dd_rle_left d)"
      have n: "?n \<le> length xs" "0 < ?n" using "1.prems"(2) lt True by auto
      have "dict_vals (d\<lparr>dd_rle_left := dd_rle_left d - ?n\<rparr>) (drop ?n xs @ ys)"
        using dict_vals_rle(2) [OF "1.prems"(1) _ n(2)] n(1) by simp
      with "1.IH"(1) [OF lt True refl this] "1.prems"(2) n lt True show ?thesis
        by (simp add: dict_skip_loop.simps [of d] Let_def)
    next
      case False
      then have z: "dd_rle_left d = 0" by simp
      show ?thesis
      proof (cases "dd_bit_packed_left d > 0")
        case True
        let ?n = "min (num - vs) (dd_bit_packed_left d)"
        have n: "?n \<le> length xs" using "1.prems"(2) lt by auto
        note rm = dict_vals_packed_room [OF "1.prems"(1), of ?n]
        have m: "min (br_end (dd_bit_reader d) - br_pos (dd_bit_reader d)) (?n * dd_bit_width d) = dd_bit_width d * ?n"
          using rm(1) by (simp add: mult.commute)
        obtain r' where g: "skip_bits (dd_bit_reader d) (?n * dd_bit_width d) = Some (dd_bit_width d * ?n, r')"
          and st: "br_step (dd_bit_reader d) (dd_bit_width d * ?n) r'"
          using skip_bits_spec [of "dd_bit_reader d" "?n * dd_bit_width d", unfolded m] rm(2) by auto
        have "dict_vals (d\<lparr>dd_bit_reader := r', dd_bit_packed_left := dd_bit_packed_left d - ?n\<rparr>) (drop ?n xs @ ys)"
          using dict_vals_packed(2) [OF "1.prems"(1) z _ st] n by simp
        with "1.IH"(2) [OF lt False True refl g refl this] "1.prems"(2) n lt True False g show ?thesis
          by (simp add: dict_skip_loop.simps [of d] Let_def)
      next
        case p: False
        obtain d' where r: "dict_reload d = Some d'" and v: "dict_vals d' (xs @ ys)"
          using dict_reload_spec [of d x "xs' @ ys"] "1.prems"(1) z p Cons by auto
        have "dict_skip_loop d vs num = dict_skip_loop d' vs num"
          using lt False p r by (simp add: dict_skip_loop.simps [of d])
        with "1.IH"(3) [OF lt False p r v "1.prems"(2)] show ?thesis by simp
      qed
    qed
  qed
qed

text \<open>The decoder provides the interface, with the four bytes of an index as its values.\<close>

definition dict_blocks :: "dict_decoder \<Rightarrow> u8 list list \<Rightarrow> bool" where
  "dict_blocks d bs \<longleftrightarrow> dict_vals d (map le_word bs) \<and> list_all (\<lambda>b. length b = 4) bs"

lemma map_le_bytes_blocks: "list_all (\<lambda>b. length b = 4) bs \<Longrightarrow> map le_bytes (map le_word bs :: u32 list) = bs"
  by (induction bs) (auto simp: le_bytes_le_word)

lemma dict_blocks_map: "dict_blocks d (map le_bytes (vs :: u32 list)) \<longleftrightarrow> dict_vals d vs"
  by (simp add: dict_blocks_def list_all_iff le_word_le_bytes o_def)

interpretation dict: value_decoder dict_read dict_read_batch dict_skip_batch 4 dict_blocks
proof unfold_locales
  show "list_all (\<lambda>x. length x = 4) xs" if "dict_blocks d xs" for d xs
    using that by (simp add: dict_blocks_def)
next
  fix d x ys v
  assume a: "dict_blocks d (x # ys)" and f: "pmv_fits 4 v 1"
  then have "dict_vals d (le_word x # map le_word ys)" and x: "length x = 4"
    by (simp_all add: dict_blocks_def)
  from dict_read_spec [OF this(1) f] x a
  show "\<exists>d'. dict_read d v = Some (d', pmv_write 4 v [x]) \<and> dict_blocks d' ys"
    by (auto simp: dict_blocks_def le_bytes_le_word)
next
  fix d xs ys v
  assume a: "dict_blocks d (xs @ ys)" and f: "pmv_fits 4 v (length xs)"
  then have "dict_vals d (map le_word xs @ map le_word ys)" and "list_all (\<lambda>b. length b = 4) xs"
    and "list_all (\<lambda>b. length b = 4) ys" by (simp_all add: dict_blocks_def)
  with dict_read_batch_spec [OF this(1)] f
  show "\<exists>d'. dict_read_batch d v (length xs) = Some (d', pmv_write 4 v xs) \<and> dict_blocks d' ys"
    by (simp only: length_map map_le_bytes_blocks dict_blocks_def) blast
next
  fix d xs ys
  assume "dict_blocks d (xs @ ys)"
  then have "dict_vals d (map le_word xs @ map le_word ys)" and "list_all (\<lambda>b. length b = 4) ys"
    by (simp_all add: dict_blocks_def)
  with dict_skip_loop_spec [OF this(1), of "length xs" 0]
  show "\<exists>d'. dict_skip_batch d (length xs) = Some d' \<and> dict_blocks d' ys"
    by (auto simp: dict_skip_batch_def dict_blocks_def)
qed

text \<open>A stream of a run of three ones and one group of eight packed bits.\<close>

lemma hybrid_sample: "hybrid 1 (byte_bit [6, 1, 3, 5]) 32 0 ([1, 1, 1] @ [1, 0, 1, 0, 0, 0, 0, 0])"
proof -
  let ?f = "byte_bit [6, 1, 3, 5]"
  have "hybrid 1 ?f 32 16 (bit_fields ?f 24 1 (8 * 1) @ [])"
  proof (rule hybrid_packed)
    show "stream_has ?f 16 (packed_header 1)" by code_simp
    show "24 = 16 + 8 * length (packed_header 1)" by code_simp
  qed (simp_all add: hybrid_end)
  moreover have "(bit_fields ?f 24 1 (8 * 1) :: u32 list) = [1, 0, 1, 0, 0, 0, 0, 0]" by code_simp
  ultimately have rest: "hybrid 1 ?f 32 16 [1, 0, 1, 0, 0, 0, 0, 0]" by simp
  have "hybrid 1 ?f 32 0 (replicate 3 (bits_word ?f 8 (8 * div_ceil 1 8)) @ [1, 0, 1, 0, 0, 0, 0, 0])"
  proof (rule hybrid_rle)
    show "stream_has ?f 0 (rle_header 3)" by code_simp
    show "8 = 0 + 8 * length (rle_header 3)" by code_simp
    show "hybrid 1 ?f 32 (8 + 8 * div_ceil 1 8) [1, 0, 1, 0, 0, 0, 0, 0]" using rest by (simp add: div_ceil_8)
  qed (simp_all add: div_ceil_8)
  moreover have "(bits_word ?f 8 (8 * div_ceil 1 8) :: u32) = 1" by code_simp
  ultimately show ?thesis by (simp add: numeral_3_eq_3)
qed

subsection \<open>Properties\<close>

text \<open>
  C15. Reading a batch of dictionary indices: on a page whose first byte is a width of at most 32 bits and
  whose rest encodes \<open>xs @ ys\<close> in the hybrid of run-length and bit-packed runs, \<open>read_batch\<close> writes the
  indices \<open>xs\<close> behind the last value of the vector, across any number of runs.
\<close>

theorem dict_page_read:
  assumes "unat w \<le> 32" and "hybrid (unat w) (byte_bit buf) (8 * length buf) 0 (xs @ ys)" and "pmv_fits 4 v (length xs)"
  shows "\<exists>d d'. dict_new (w # buf) = Some d \<and>
    dict_read_batch d v (length xs) = Some (d', pmv_write 4 v (map le_bytes xs)) \<and> dict_vals d' ys"
proof -
  obtain d where "dict_new (w # buf) = Some d" "dict_vals d (xs @ ys)"
    by (rule dict_new_vals [of "w # buf" "xs @ ys"]) (use assms(1,2) in simp_all)
  with dict_read_batch_spec [OF _ assms(3)] show ?thesis by blast
qed

theorem dict_page_read_witness:
  "\<exists>v d d'. pmv_new 8 Int32 = Some v \<and> dict_new [1, 6, 1, 3, 5] = Some d \<and>
    dict_read_batch d v 3 = Some (d', pmv_write 4 v (map le_bytes [1, 1, 1 :: u32]))"
proof -
  obtain v where v: "pmv_new 8 Int32 = Some v" "pmv_inv 4 v" "pmv_elems 4 v = []" "pmv_room 4 v 8"
    by (rule pmv_new_int32 [of 8]) simp_all
  have "pmv_fits 4 v (length [1, 1, 1 :: u32])" by (rule pmv_room_fits [OF v(2)]) (rule pmv_room_mono [OF v(4)], simp)
  moreover have "hybrid (unat (1 :: u8)) (byte_bit [6, 1, 3, 5]) (8 * length [6, 1, 3, 5 :: u8]) 0
      ([1, 1, 1] @ [1, 0, 1, 0, 0, 0, 0, 0])" using hybrid_sample by simp
  moreover have "unat (1 :: u8) \<le> 32" and "length [1, 1, 1 :: u32] = 3" by simp_all
  ultimately show ?thesis using dict_page_read v(1) by metis
qed

text \<open>
  C20. Skipping is reading without writing: after \<open>skip_batch\<close> over the first indices, \<open>read_batch\<close> delivers
  exactly the ones that follow them.
\<close>

theorem dict_skip_then_read:
  assumes "dict_vals d (xs @ ys @ zs)" and "pmv_fits 4 v (length ys)"
  shows "\<exists>d1 d2. dict_skip_batch d (length xs) = Some d1 \<and>
    dict_read_batch d1 v (length ys) = Some (d2, pmv_write 4 v (map le_bytes ys)) \<and> dict_vals d2 zs"
  using dict.skip_then_read [of d "map le_bytes xs" "map le_bytes ys" "map le_bytes zs" v] assms
    dict_blocks_map [of d "xs @ ys @ zs"] by (auto simp: dict_blocks_map)

theorem dict_skip_then_read_witness:
  "\<exists>v d d1 d2. pmv_new 8 Int32 = Some v \<and> dict_new [1, 6, 1, 3, 5] = Some d \<and> dict_skip_batch d 3 = Some d1 \<and>
    dict_read_batch d1 v 3 = Some (d2, pmv_write 4 v (map le_bytes [1, 0, 1 :: u32]))"
proof -
  obtain v where v: "pmv_new 8 Int32 = Some v" "pmv_inv 4 v" "pmv_elems 4 v = []" "pmv_room 4 v 8"
    by (rule pmv_new_int32 [of 8]) simp_all
  have fit: "pmv_fits 4 v (length [1, 0, 1 :: u32])"
    by (rule pmv_room_fits [OF v(2)]) (rule pmv_room_mono [OF v(4)], simp)
  obtain d where d: "dict_new [1, 6, 1, 3, 5] = Some d" "dict_vals d ([1, 1, 1] @ [1, 0, 1] @ [0, 0, 0, 0, 0])"
    by (rule dict_new_vals [of "[1, 6, 1, 3, 5]" "[1, 1, 1] @ [1, 0, 1] @ [0, 0, 0, 0, 0]"])
      (use hybrid_sample in simp_all)
  have "length [1, 1, 1 :: u32] = 3" and "length [1, 0, 1 :: u32] = 3" by simp_all
  with dict_skip_then_read [OF d(2) fit] v(1) d(1) show ?thesis by metis
qed

end
