(* ===== verification/Level_Decoder.thy ===== *)
theory Level_Decoder
  imports Dict_Decoder
begin

text \<open>
  \<open>LevelDecoder\<close> of \<open>native/core/src/parquet/read/levels.rs\<close>: definition levels in the hybrid
  encoding, which decide for every slot of a vector whether it takes the next value of a value
  decoder or is null. The value decoder is a parameter, the three operations of the \<open>Decoder\<close>
  interface; the main lemmas are proved once for every decoder that keeps its contract.
\<close>

datatype mode = RLE | BitPacked

text \<open>\<open>ld_max_def_level\<close> is what \<open>desc.max_def_level()\<close> returns, an \<open>i16\<close>; levels are \<open>i32\<close>.\<close>

record level_decoder =
  ld_max_def_level :: "16 word"
  ld_bit_width :: u8
  ld_mode :: mode
  ld_num_values :: nat
  ld_current_value :: u32
  ld_current_count :: nat
  ld_current_buffer :: "u32 list"
  ld_current_buffer_idx :: nat
  ld_bit_reader :: "bit_reader option"
  ld_need_length :: bool

definition INITIAL_BUF_LEN :: nat where
  "INITIAL_BUF_LEN = 16"

definition level_new :: "16 word \<Rightarrow> u8 \<Rightarrow> bool \<Rightarrow> level_decoder" where
  "level_new max_def_level bit_width need_length =
     \<lparr>ld_max_def_level = max_def_level, ld_bit_width = bit_width, ld_mode = RLE, ld_num_values = 0,
      ld_current_value = 0, ld_current_count = 0, ld_current_buffer = replicate INITIAL_BUF_LEN 0,
      ld_current_buffer_idx = 0, ld_bit_reader = None, ld_need_length = need_length\<rparr>"

definition level_set_data :: "level_decoder \<Rightarrow> nat \<Rightarrow> u8 list \<Rightarrow> (nat \<times> level_decoder) option" where
  "level_set_data l page_value_count page_data =
     (let l = l\<lparr>ld_num_values := page_value_count\<rparr> in
      if ld_bit_width l = 0 then
        Some (0, l\<lparr>ld_mode := RLE, ld_current_count := page_value_count\<rparr>)
      else if ld_need_length l then do {
        let u32_size = 4;
        n \<leftarrow> read_u32 page_data;
        let data_size = unat n;
        s \<leftarrow> slice_from page_data u32_size;
        r \<leftarrow> br_new s data_size;
        Some (u32_size + data_size, l\<lparr>ld_bit_reader := Some r\<rparr>)
      }
      else do {
        r \<leftarrow> br_new_all page_data;
        Some (0, l\<lparr>ld_bit_reader := Some r\<rparr>)
      })"

text \<open>\<open>if buf.len() < n { buf.resize(n, 0) }\<close>\<close>

definition grow :: "u32 list \<Rightarrow> nat \<Rightarrow> u32 list" where
  "grow buf n = (if length buf < n then buf @ replicate (n - length buf) 0 else buf)"

definition read_next_group :: "level_decoder \<Rightarrow> level_decoder option" where
  "read_next_group l = do {
     r \<leftarrow> ld_bit_reader l;
     (res, r) \<leftarrow> get_vlq_int r;
     let l = l\<lparr>ld_bit_reader := Some r\<rparr>;
     (case res of
        None \<Rightarrow> Some l
      | Some indicator_value \<Rightarrow>
          if indicator_value AND 1 = 1 then do {
            count \<leftarrow> packed_count indicator_value;
            let l = l\<lparr>ld_mode := BitPacked, ld_current_count := count\<rparr>;
            let buf = grow (ld_current_buffer l) count;
            (n, batch, r) \<leftarrow> get_batch r (take count buf) (unat (ld_bit_width l));
            Some (l\<lparr>ld_current_buffer := batch @ drop count buf, ld_current_buffer_idx := 0,
              ld_bit_reader := Some r\<rparr>)
          } else do {
            let l = l\<lparr>ld_mode := RLE, ld_current_count := rle_count indicator_value\<rparr>;
            let value_width = div_ceil (unat (ld_bit_width l)) 8;
            (v, r) \<leftarrow> get_aligned r value_width;
            v \<leftarrow> v;
            Some (l\<lparr>ld_current_value := v, ld_bit_reader := Some r\<rparr>)
          })
   }"

text \<open>The two comparisons with the maximal level: \<open>as i16\<close> for a run, \<open>as i32\<close> in a packed run.\<close>

definition rle_defined :: "level_decoder \<Rightarrow> bool" where
  "rle_defined l \<longleftrightarrow> (ucast (ld_current_value l) :: 16 word) = ld_max_def_level l"

definition packed_defined :: "level_decoder \<Rightarrow> u32 \<Rightarrow> bool" where
  "packed_defined l v \<longleftrightarrow> v = scast (ld_max_def_level l)"

text \<open>\<open>for i in 0..n\<close> over a packed run, from index \<open>i\<close> of the buffer.\<close>

fun level_read_packed :: "('d \<Rightarrow> pmv \<Rightarrow> ('d \<times> pmv) option) \<Rightarrow> level_decoder \<Rightarrow> nat \<Rightarrow> nat \<Rightarrow>
    pmv \<Rightarrow> 'd \<Rightarrow> (pmv \<times> 'd) option" where
  "level_read_packed rd l i 0 vector d = Some (vector, d)"
| "level_read_packed rd l i (Suc n) vector d = do {
     v \<leftarrow> index (ld_current_buffer l) i;
     (vector, d) \<leftarrow>
       (if packed_defined l v then do {
          b \<leftarrow> cb_as_slice_mut (pmv_validity vector) (\<lambda>data. bit_set_bit data (pmv_num_values vector));
          (d, vector) \<leftarrow> rd d (pmv_set_validity vector b);
          Some (pmv_set_counts vector (pmv_num_values vector + 1) (pmv_num_nulls vector), d)
        } else do {
          vector \<leftarrow> put_null vector;
          Some (vector, d)
        });
     level_read_packed rd l (i + 1) n vector d
   }"

text \<open>One turn of the loop of \<open>read_batch\<close>, for the \<open>n\<close> levels taken from the current run.\<close>

definition level_read_run :: "('d \<Rightarrow> pmv \<Rightarrow> ('d \<times> pmv) option) \<Rightarrow>
    ('d \<Rightarrow> pmv \<Rightarrow> nat \<Rightarrow> ('d \<times> pmv) option) \<Rightarrow> level_decoder \<Rightarrow> nat \<Rightarrow> pmv \<Rightarrow> 'd \<Rightarrow>
    (level_decoder \<times> pmv \<times> 'd) option" where
  "level_read_run rd rdb l n vector d = do {
     (l, vector, d) \<leftarrow>
       (case ld_mode l of
          RLE \<Rightarrow>
            if rle_defined l then do {
              b \<leftarrow> cb_as_slice_mut (pmv_validity vector)
                    (\<lambda>data. bit_set_bits data (pmv_num_values vector) n);
              (d, vector) \<leftarrow> rdb d (pmv_set_validity vector b) n;
              Some (l, pmv_set_counts vector (pmv_num_values vector + n) (pmv_num_nulls vector), d)
            } else do {
              vector \<leftarrow> put_nulls vector n;
              Some (l, vector, d)
            }
        | BitPacked \<Rightarrow> do {
            (vector, d) \<leftarrow> level_read_packed rd l (ld_current_buffer_idx l) n vector d;
            Some (l\<lparr>ld_current_buffer_idx := ld_current_buffer_idx l + n\<rparr>, vector, d)
          });
     Some (l\<lparr>ld_current_count := ld_current_count l - n\<rparr>, vector, d)
   }"

text \<open>The guard at the head of both loops: a used-up run is followed by the next group.\<close>

definition level_refill :: "level_decoder \<Rightarrow> level_decoder option" where
  "level_refill l = do {
     l \<leftarrow> (if ld_current_count l = 0 then read_next_group l else Some l);
     ensure (ld_current_count l > 0);
     Some l
   }"

lemma level_refill_count: "level_refill l = Some l' \<Longrightarrow> 0 < ld_current_count l'"
  by (auto simp: level_refill_def Option.bind_eq_Some_conv split: if_splits)

function level_read_loop :: "('d \<Rightarrow> pmv \<Rightarrow> ('d \<times> pmv) option) \<Rightarrow>
    ('d \<Rightarrow> pmv \<Rightarrow> nat \<Rightarrow> ('d \<times> pmv) option) \<Rightarrow> level_decoder \<Rightarrow> nat \<Rightarrow> pmv \<Rightarrow> 'd \<Rightarrow>
    (level_decoder \<times> pmv \<times> 'd) option" where
  "level_read_loop rd rdb l left vector d =
     (if left > 0 then
        (case level_refill l of
           None \<Rightarrow> None
         | Some l1 \<Rightarrow>
             (case level_read_run rd rdb l1 (min left (ld_current_count l1)) vector d of
                None \<Rightarrow> None
              | Some (l2, vector', d') \<Rightarrow>
                  level_read_loop rd rdb l2 (left - min left (ld_current_count l1)) vector' d'))
      else Some (l, vector, d))"
  by pat_completeness auto
termination
  by (relation "measure (\<lambda>(rd, rdb, l, left, vector, d). left)") (auto dest: level_refill_count)

declare level_read_loop.simps [simp del]

definition level_read_batch :: "('d \<Rightarrow> pmv \<Rightarrow> ('d \<times> pmv) option) \<Rightarrow>
    ('d \<Rightarrow> pmv \<Rightarrow> nat \<Rightarrow> ('d \<times> pmv) option) \<Rightarrow> level_decoder \<Rightarrow> nat \<Rightarrow> pmv \<Rightarrow> 'd \<Rightarrow>
    (level_decoder \<times> pmv \<times> 'd) option" where
  "level_read_batch rd rdb l tot vector d = level_read_loop rd rdb l tot vector d"

text \<open>\<open>skip_batch\<close>: the number of values to skip in a packed run, one turn of the loop, the loop.\<close>

fun level_count_packed :: "level_decoder \<Rightarrow> nat \<Rightarrow> nat \<Rightarrow> nat option" where
  "level_count_packed l i 0 = Some 0"
| "level_count_packed l i (Suc n) = do {
     v \<leftarrow> index (ld_current_buffer l) i;
     k \<leftarrow> level_count_packed l (i + 1) n;
     Some (if packed_defined l v then k + 1 else k)
   }"

definition level_skip_run :: "('d \<Rightarrow> nat \<Rightarrow> 'd option) \<Rightarrow> bool \<Rightarrow> level_decoder \<Rightarrow> nat \<Rightarrow> pmv \<Rightarrow> 'd \<Rightarrow>
    (level_decoder \<times> pmv \<times> 'd) option" where
  "level_skip_run skb nulls l n vector d = do {
     (l, d) \<leftarrow>
       (case ld_mode l of
          RLE \<Rightarrow>
            if rle_defined l then do {
              d \<leftarrow> skb d n;
              Some (l, d)
            } else Some (l, d)
        | BitPacked \<Rightarrow> do {
            num_skips \<leftarrow> level_count_packed l (ld_current_buffer_idx l) n;
            d \<leftarrow> skb d num_skips;
            Some (l\<lparr>ld_current_buffer_idx := ld_current_buffer_idx l + n\<rparr>, d)
          });
     vector \<leftarrow> (if nulls then put_nulls vector n else Some vector);
     Some (l\<lparr>ld_current_count := ld_current_count l - n\<rparr>, vector, d)
   }"

function level_skip_loop :: "('d \<Rightarrow> nat \<Rightarrow> 'd option) \<Rightarrow> bool \<Rightarrow> level_decoder \<Rightarrow> nat \<Rightarrow> pmv \<Rightarrow> 'd \<Rightarrow>
    (level_decoder \<times> pmv \<times> 'd) option" where
  "level_skip_loop skb nulls l skip vector d =
     (if skip > 0 then
        (case level_refill l of
           None \<Rightarrow> None
         | Some l1 \<Rightarrow>
             (case level_skip_run skb nulls l1 (min skip (ld_current_count l1)) vector d of
                None \<Rightarrow> None
              | Some (l2, vector', d') \<Rightarrow>
                  level_skip_loop skb nulls l2 (skip - min skip (ld_current_count l1)) vector' d'))
      else Some (l, vector, d))"
  by pat_completeness auto
termination
  by (relation "measure (\<lambda>(skb, nulls, l, skip, vector, d). skip)") (auto dest: level_refill_count)

declare level_skip_loop.simps [simp del]

definition level_skip_batch :: "('d \<Rightarrow> nat \<Rightarrow> 'd option) \<Rightarrow> level_decoder \<Rightarrow> nat \<Rightarrow> pmv \<Rightarrow> 'd \<Rightarrow> bool \<Rightarrow>
    (level_decoder \<times> pmv \<times> 'd) option" where
  "level_skip_batch skb l tot vector d nulls =
     level_skip_loop skb nulls l tot vector d"

subsection \<open>The levels still to come\<close>

text \<open>
  \<open>level_flags l fs\<close>: from the state \<open>l\<close> on, the stream gives levels of which the \<open>i\<close>-th is the maximal
  one exactly when \<open>fs ! i\<close>. Levels are at most 16 bits wide and the maximal level is not negative.
\<close>

definition run_flags :: "level_decoder \<Rightarrow> bool list" where
  "run_flags l = (case ld_mode l of
       RLE \<Rightarrow> replicate (ld_current_count l) (rle_defined l)
     | BitPacked \<Rightarrow> map (packed_defined l)
         (take (ld_current_count l) (drop (ld_current_buffer_idx l) (ld_current_buffer l))))"

definition level_rest :: "level_decoder \<Rightarrow> u32 list \<Rightarrow> bool" where
  "level_rest l vs \<longleftrightarrow> (case ld_bit_reader l of
       None \<Rightarrow> vs = []
     | Some r \<Rightarrow> br_inv r \<and> 8 dvd br_pos r \<and>
         hybrid (unat (ld_bit_width l)) (br_bits r) (br_end r) (br_pos r) vs)"

definition level_flags :: "level_decoder \<Rightarrow> bool list \<Rightarrow> bool" where
  "level_flags l fs \<longleftrightarrow> unat (ld_bit_width l) \<le> 16 \<and> unat (ld_max_def_level l) < 2 ^ 15 \<and>
     (ld_mode l = BitPacked \<longrightarrow>
        ld_current_buffer_idx l + ld_current_count l \<le> length (ld_current_buffer l)) \<and>
     (\<exists>vs. level_rest l vs \<and> fs = run_flags l @ map (\<lambda>v. v = ucast (ld_max_def_level l)) vs)"

lemma length_run_flags:
  "level_flags l fs \<Longrightarrow> length (run_flags l) = ld_current_count l"
  by (auto simp: level_flags_def run_flags_def split: mode.splits)

lemma ucast16_eq_iff:
  assumes "unat (v :: u32) < 2 ^ 16"
  shows "(ucast v :: 16 word) = m \<longleftrightarrow> v = ucast m"
proof -
  have "unat (take_bit 16 v) = unat v"
    using assms by (simp add: unsigned_take_bit_eq take_bit_nat_eq_self)
  then have "take_bit 16 v = v" by (simp only: word_unat_eq_iff)
  moreover have "ucast (ucast v :: 16 word) = take_bit 16 v"
    by (rule bit_word_eqI) (auto simp: bit_simps)
  moreover have "(ucast (ucast m :: u32) :: 16 word) = m"
    by (rule bit_word_eqI) (auto simp: bit_simps)
  ultimately show ?thesis by auto
qed

lemma scast16_eq_ucast:
  assumes "unat (m :: 16 word) < 2 ^ 15"
  shows "(scast m :: u32) = ucast m"
proof (rule bit_word_eqI)
  fix k assume k: "k < LENGTH(32)"
  have hi: "\<not> bit m j" if "15 \<le> j" for j
  proof -
    have "\<not> bit (unat m) j"
      using assms that by (metis bit_take_bit_iff not_le take_bit_nat_eq_self)
    then show ?thesis by (simp add: bit_unsigned_iff)
  qed
  show "bit (scast m :: u32) k = bit (ucast m :: u32) k"
    using hi [of 15] hi [of k] k by (auto simp: bit_simps min_def)
qed

lemma bits_word16_less:
  assumes "w \<le> 16"
  shows "unat (bits_word f p w :: u32) < 2 ^ 16"
proof -
  have "unat (bits_word f p w :: u32) < 2 ^ w" using assms by (intro unat_bits_word_less) simp
  also have "\<dots> \<le> 2 ^ 16" using assms by (rule power_increasing) simp
  finally show ?thesis .
qed

text \<open>Loading the next group keeps the flags.\<close>

lemma read_next_group_spec:
  assumes fl: "level_flags l (f # fs)" and z: "ld_current_count l = 0"
  obtains l' where "read_next_group l = Some l'" and "level_flags l' (f # fs)" and "0 < ld_current_count l'"
proof -
  let ?w = "unat (ld_bit_width l)" and ?m = "ld_max_def_level l"
  have w: "?w \<le> 16" and m: "unat ?m < 2 ^ 15" using fl by (auto simp: level_flags_def)
  have nil: "run_flags l = []" using length_run_flags [OF fl] z by simp
  obtain vs where rest: "level_rest l vs" and fs: "f # fs = map (\<lambda>v. v = ucast ?m) vs"
    using fl nil by (auto simp: level_flags_def)
  obtain r where r: "ld_bit_reader l = Some r" and inv: "br_inv r" and al: "8 dvd br_pos r"
    and hy: "hybrid ?w (br_bits r) (br_end r) (br_pos r) vs"
    using rest fs by (auto simp: level_rest_def split: option.splits)
  from hy show ?thesis
  proof (cases rule: hybrid.cases)
    case hybrid_end
    with fs show ?thesis by simp
  next
    case (hybrid_rle n q ys)
    let ?h = "shl (of_nat n) 1 :: u64" and ?c = "div_ceil ?w 8"
    have room: "br_pos r + 8 * length (vlq_bytes ?h) \<le> br_end r" and q: "q = br_pos r + 8 * length (vlq_bytes ?h)"
      and st: "stream_has (br_bits r) (br_pos r) (vlq_bytes ?h)"
      using hybrid_rle by (auto simp: rle_header_def)
    obtain r1 where g: "get_vlq_int r = Some (Some ?h, r1)" and s1: "br_step r (8 * length (vlq_bytes ?h)) r1"
      and al1: "8 dvd br_pos r1"
      using get_vlq_int_at [OF inv al st room] .
    note d1 = br_stepD [OF s1]
    have al': "br_aligned r1 = br_pos r1" using al1 by (intro br_aligned_id) simp
    have c: "?c \<le> 2" using w by (simp add: div_ceil_8)
    obtain r2 where g2: "get_aligned r1 ?c = Some (Some (bits_word (br_bits r1) (br_aligned r1) (8 * ?c) :: u32), r2)"
      and s2: "br_step r1 (br_aligned r1 + 8 * ?c - br_pos r1) r2" and al2: "br_pos r2 mod 8 = 0"
      by (rule get_aligned_spec [OF d1(1), where 'a = 32 and n = ?c])
        (use c bit_offset_aligned [OF d1(1) al1] hybrid_rle(6) in \<open>simp_all add: al' d1 q\<close>)
    let ?v = "bits_word (br_bits r) q (8 * ?c) :: u32"
    let ?l = "l\<lparr>ld_bit_reader := Some r2, ld_mode := RLE, ld_current_count := n, ld_current_value := ?v\<rparr>"
    have "read_next_group l = Some ?l"
      using g g2 rle_count_header [OF hybrid_rle(3)] r
      by (simp add: read_next_group_def header_low_bits al' d1 q Let_def del: One_nat_def)
    moreover have "(ucast ?v :: 16 word) = ?m \<longleftrightarrow> ?v = ucast ?m"
      using c by (intro ucast16_eq_iff bits_word16_less) simp
    then have "level_flags ?l (f # fs)"
      using br_stepD [OF s2] d1 w m al2 hybrid_rle(1,7) fs
      by (auto simp: level_flags_def run_flags_def level_rest_def rle_defined_def al' q)
    ultimately show ?thesis by (rule that) (use hybrid_rle(2) in simp)
  next
    case (hybrid_packed g q ys)
    let ?h = "shl (of_nat g) 1 OR 1 :: u64" and ?n = "8 * g"
    have room: "br_pos r + 8 * length (vlq_bytes ?h) \<le> br_end r" and q: "q = br_pos r + 8 * length (vlq_bytes ?h)"
      and st: "stream_has (br_bits r) (br_pos r) (vlq_bytes ?h)"
      using hybrid_packed by (auto simp: packed_header_def)
    obtain r1 where gv: "get_vlq_int r = Some (Some ?h, r1)" and s1: "br_step r (8 * length (vlq_bytes ?h)) r1"
      and al1: "8 dvd br_pos r1"
      using get_vlq_int_at [OF inv al st room] .
    note d1 = br_stepD [OF s1]
    let ?buf = "grow (ld_current_buffer l) ?n"
    let ?vs = "bit_fields (br_bits r) q ?w ?n :: u32 list"
    have len: "length (take ?n ?buf) = ?n" by (auto simp: grow_def)
    have "\<not> br_end r1 - br_pos r1 < ?w * ?n" using hybrid_packed(6) d1(2,4) q by linarith
    then have cnt: "batch_count r1 (length (take ?n ?buf)) ?w = ?n"
      unfolding len by (simp only: batch_count_def if_False)
    have hc: "high_clear (take ?n ?buf)" by (simp add: high_clear_def)
    obtain r2 where b: "get_batch r1 (take ?n ?buf) ?w =
        Some (?n, overwrite (take ?n ?buf) 0 (bit_fields (br_bits r1) (br_pos r1) ?w ?n), r2)"
      and s2: "br_step r1 (?w * ?n) r2"
      by (rule get_batch_spec [OF d1(1) _ _ hc cnt [symmetric]]) (use w in simp_all)
    have ow: "overwrite (take ?n ?buf) 0 ?vs = ?vs"
      using len by (simp add: overwrite_def del: length_take)
    let ?l = "l\<lparr>ld_bit_reader := Some r2, ld_mode := BitPacked, ld_current_count := ?n,
      ld_current_buffer := ?vs @ drop ?n ?buf, ld_current_buffer_idx := 0\<rparr>"
    have "read_next_group l = Some ?l"
      using gv packed_count_header [OF hybrid_packed(3)] r b ow
      by (simp add: read_next_group_def header_low_bits Let_def d1 q del: One_nat_def)
    moreover have "level_flags ?l (f # fs)"
      using br_stepD [OF s2] d1 w m al1 hybrid_packed(1,7) fs scast16_eq_ucast [OF m]
      by (auto simp: level_flags_def run_flags_def level_rest_def packed_defined_def q)
    ultimately show ?thesis by (rule that) (use hybrid_packed(2) in simp)
  qed
qed

lemma level_refill_spec:
  assumes "level_flags l (f # fs)"
  obtains l' where "level_refill l = Some l'" and "level_flags l' (f # fs)" and "0 < ld_current_count l'"
proof (cases "ld_current_count l = 0")
  case True
  obtain l' where "read_next_group l = Some l'" and "level_flags l' (f # fs)" and "0 < ld_current_count l'"
    by (rule read_next_group_spec [OF assms True])
  with True show ?thesis by (intro that [of l']) (simp_all add: level_refill_def)
next
  case False
  with assms show ?thesis by (intro that [of l]) (simp_all add: level_refill_def)
qed

text \<open>Taking \<open>n\<close> levels from the current run.\<close>

definition level_advance :: "level_decoder \<Rightarrow> nat \<Rightarrow> level_decoder" where
  "level_advance l n =
     (case ld_mode l of
        RLE \<Rightarrow> l\<lparr>ld_current_count := ld_current_count l - n\<rparr>
      | BitPacked \<Rightarrow> l\<lparr>ld_current_buffer_idx := ld_current_buffer_idx l + n,
          ld_current_count := ld_current_count l - n\<rparr>)"

lemma level_flags_run:
  assumes "level_flags l gs" and "n \<le> ld_current_count l"
  shows "take n gs = take n (run_flags l)" and "level_flags (level_advance l n) (drop n gs)"
proof -
  obtain vs where vs: "level_rest l vs" "gs = run_flags l @ map (\<lambda>v. v = ucast (ld_max_def_level l)) vs"
    using assms(1) by (auto simp: level_flags_def)
  have len: "n \<le> length (run_flags l)" using length_run_flags [OF assms(1)] assms(2) by simp
  then show "take n gs = take n (run_flags l)" by (simp add: vs)
  let ?l = "level_advance l n"
  have "run_flags ?l = drop n (run_flags l)"
    by (cases "ld_mode l") (simp_all add: run_flags_def rle_defined_def packed_defined_def [abs_def]
        drop_map drop_take add.commute level_advance_def)
  moreover have "level_rest ?l vs"
    using vs(1) by (cases "ld_bit_reader l"; cases "ld_mode l") (simp_all add: level_rest_def level_advance_def)
  ultimately show "level_flags ?l (drop n gs)"
    using assms vs len by (cases "ld_mode l") (auto simp: level_flags_def level_advance_def)
qed

text \<open>The slots that a list of flags makes of a list of values.\<close>

fun merge :: "bool list \<Rightarrow> 'a list \<Rightarrow> 'a option list" where
  "merge [] xs = []"
| "merge (False # fs) xs = None # merge fs xs"
| "merge (True # fs) [] = None # merge fs []"
| "merge (True # fs) (x # xs) = Some x # merge fs xs"

lemma length_merge [simp]: "length (merge fs xs) = length fs"
  by (induction fs xs rule: merge.induct) auto

lemma merge_True: "merge (replicate n True) xs = map Some xs" if "length xs = n"
  using that by (induction n arbitrary: xs) (auto simp: length_Suc_conv)

lemma merge_False: "merge (replicate n False) xs = replicate n None"
  by (induction n) auto

lemma count_list_replicate: "count_list (replicate n b) c = (if b = c then n else 0)"
  by (induction n) auto

lemma merge_append:
  "length xs = count_list fs True \<Longrightarrow> merge (fs @ gs) (xs @ ys) = merge fs xs @ merge gs ys"
proof (induction fs arbitrary: xs)
  case (Cons f fs)
  from Cons.prems Cons.IH [of xs] Cons.IH [of "tl xs"] show ?case by (cases f; cases xs) auto
qed simp

subsection \<open>Reading and skipping through any decoder\<close>

context value_decoder
begin

lemma read_rle_true:
  assumes inv: "pmv_inv width v" and room: "pmv_room width v (length xs)" and d: "vals d (xs @ ys)"
  shows "\<exists>b d' v'. cb_as_slice_mut (pmv_validity v) (\<lambda>data. bit_set_bits data (pmv_num_values v) (length xs)) = Some b \<and>
    dec_read_batch d (pmv_set_validity v b) (length xs) = Some (d', v') \<and> vals d' ys \<and>
    appended width v (map Some xs) (pmv_set_counts v' (pmv_num_values v' + length xs) (pmv_num_nulls v'))"
proof -
  have wd: "list_all (\<lambda>x. length x = width) xs" using vals_width [OF d] by simp
  have "pmv_num_values v + length xs \<le> 8 * length (cb_data (pmv_validity v))"
    using inv room by (auto simp: pmv_inv_def pmv_room_def cb_inv_def)
  from bit_set_bits_spec [OF this] obtain data where
    data: "bit_set_bits (cb_data (pmv_validity v)) (pmv_num_values v) (length xs) = Some data"
      "length data = length (cb_data (pmv_validity v))"
      "\<And>k. byte_bit data k \<longleftrightarrow> byte_bit (cb_data (pmv_validity v)) k \<or>
        pmv_num_values v \<le> k \<and> k < pmv_num_values v + length xs" by blast
  note a = appended_values [where f = "\<lambda>data. bit_set_bits data (pmv_num_values v) (length xs)",
      OF inv room wd data refl]
  from read_batch_law [OF d a(2)] obtain d' where
    "dec_read_batch d (pmv_set_validity v ((pmv_validity v)\<lparr>cb_data := data\<rparr>)) (length xs) =
      Some (d', pmv_write width (pmv_set_validity v ((pmv_validity v)\<lparr>cb_data := data\<rparr>)) xs)" "vals d' ys"
    by blast
  with a(1,3) show ?thesis by (auto simp: pmv_write_def)
qed

lemma read_one_true:
  assumes inv: "pmv_inv width v" and room: "pmv_room width v 1" and d: "vals d (x # ys)"
  shows "\<exists>b d' v'. cb_as_slice_mut (pmv_validity v) (\<lambda>data. bit_set_bit data (pmv_num_values v)) = Some b \<and>
    dec_read d (pmv_set_validity v b) = Some (d', v') \<and> vals d' ys \<and>
    appended width v [Some x] (pmv_set_counts v' (pmv_num_values v' + 1) (pmv_num_nulls v'))"
proof -
  let ?n = "pmv_num_values v" and ?val = "cb_data (pmv_validity v)"
  have wd: "list_all (\<lambda>x. length x = width) [x]" using vals_width [OF d] by simp
  have n: "?n < 8 * length ?val"
    using inv room by (auto simp: pmv_inv_def pmv_room_def cb_inv_def)
  let ?data = "?val[?n div 8 := ?val ! (?n div 8) OR shl 1 (?n mod 8)]"
  have bits: "byte_bit ?data k \<longleftrightarrow> byte_bit ?val k \<or> ?n \<le> k \<and> k < ?n + length [x]" for k
    unfolding byte_bit_set_bit [OF n] by auto
  have room': "pmv_room width v (length [x])" and len: "length ?data = length ?val" using room by simp_all
  note a = appended_values [where f = "\<lambda>data. bit_set_bit data ?n" and xs = "[x]",
      OF inv room' wd bit_set_bit_eq [OF n] len bits refl]
  have "pmv_fits width (pmv_set_validity v ((pmv_validity v)\<lparr>cb_data := ?data\<rparr>)) 1" using a(2) by simp
  from read_law [OF d this] obtain d' where
    "dec_read d (pmv_set_validity v ((pmv_validity v)\<lparr>cb_data := ?data\<rparr>)) =
      Some (d', pmv_write width (pmv_set_validity v ((pmv_validity v)\<lparr>cb_data := ?data\<rparr>)) [x])" "vals d' ys"
    by blast
  with a(1,3) show ?thesis by (auto simp: pmv_write_def)
qed

lemma read_packed_spec:
  assumes "pmv_inv width v" and "pmv_room width v n" and "vals d (xs @ ys)" and "i + n \<le> length (ld_current_buffer l)"
    and "fs = map (packed_defined l) (take n (drop i (ld_current_buffer l)))" and "length xs = count_list fs True"
  shows "\<exists>v' d'. level_read_packed dec_read l i n v d = Some (v', d') \<and> vals d' ys \<and>
    appended width v (merge fs xs) v'"
  using assms
proof (induction n arbitrary: i v d fs xs)
  case 0
  then show ?case by (simp add: appended_refl)
next
  case (Suc n)
  let ?x = "ld_current_buffer l ! i"
  let ?gs = "map (packed_defined l) (take n (drop (Suc i) (ld_current_buffer l)))"
  have i: "i < length (ld_current_buffer l)" using Suc.prems(4) by simp
  then have fs: "fs = packed_defined l ?x # ?gs"
    using Suc.prems(5) by (simp add: Cons_nth_drop_Suc [symmetric])
  have room1: "pmv_room width v 1" using Suc.prems(2) by (rule pmv_room_mono) simp
  have step: "\<exists>v' d'. level_read_packed dec_read l (Suc i) n v1 d1 = Some (v', d') \<and> vals d' ys \<and>
      appended width v (s # merge ?gs zs) v'"
    if ap: "appended width v [s] v1" and vd: "vals d1 (zs @ ys)" and lz: "length zs = count_list ?gs True"
    for s zs v1 d1
  proof -
    have "pmv_room width v1 n" by (rule appended_room [OF ap]) (use Suc.prems(2) in simp)
    from Suc.IH [OF appended_inv [OF ap] this vd _ refl lz] Suc.prems(4) obtain v' d' where
      "level_read_packed dec_read l (Suc i) n v1 d1 = Some (v', d')" "vals d' ys"
      "appended width v1 (merge ?gs zs) v'" by auto
    with appended_trans [OF ap] show ?thesis by fastforce
  qed
  show ?case
  proof (cases "packed_defined l ?x")
    case True
    with Suc.prems(6) fs obtain x zs where xs: "xs = x # zs" and lz: "length zs = count_list ?gs True"
      by (cases xs) auto
    from read_one_true [OF Suc.prems(1) room1, of d x "zs @ ys"] Suc.prems(3) xs obtain b d1 v1 where
      "cb_as_slice_mut (pmv_validity v) (\<lambda>data. bit_set_bit data (pmv_num_values v)) = Some b"
      "dec_read d (pmv_set_validity v b) = Some (d1, v1)" and vd: "vals d1 (zs @ ys)"
      and ap: "appended width v [Some x] (pmv_set_counts v1 (pmv_num_values v1 + 1) (pmv_num_nulls v1))" by auto
    with step [OF ap vd lz] True i show ?thesis by (simp add: index_Some fs xs)
  next
    case False
    with Suc.prems(6) fs have lz: "length xs = count_list ?gs True" by simp
    obtain v1 where "put_nulls v 1 = Some v1" and ap: "appended width v (replicate 1 None) v1"
      by (rule appended_nulls [OF Suc.prems(1) room1])
    with step [of None v1 d xs] Suc.prems(3) lz False i show ?thesis by (simp add: index_Some fs put_null_def)
  qed
qed

lemma read_run_spec:
  assumes inv: "pmv_inv width v" and room: "pmv_room width v n" and d: "vals d (xs @ ys)"
    and fl: "level_flags l gs" and n: "n \<le> ld_current_count l" and lx: "length xs = count_list (take n gs) True"
  shows "\<exists>v' d'. level_read_run dec_read dec_read_batch l n v d = Some (level_advance l n, v', d') \<and> vals d' ys \<and>
    appended width v (merge (take n gs) xs) v'"
proof (cases "ld_mode l")
  case RLE
  then have gs: "take n gs = replicate n (rle_defined l)"
    using level_flags_run(1) [OF fl n] n by (simp add: run_flags_def)
  show ?thesis
  proof (cases "rle_defined l")
    case True
    then have nx: "length xs = n" using lx by (simp add: gs count_list_replicate)
    from read_rle_true [OF inv _ d] room nx obtain b d' v' where
      "cb_as_slice_mut (pmv_validity v) (\<lambda>data. bit_set_bits data (pmv_num_values v) n) = Some b"
      "dec_read_batch d (pmv_set_validity v b) n = Some (d', v')" "vals d' ys"
      "appended width v (map Some xs) (pmv_set_counts v' (pmv_num_values v' + n) (pmv_num_nulls v'))" by auto
    with RLE True nx show ?thesis
      by (simp add: level_read_run_def level_advance_def gs merge_True)
  next
    case False
    then have "xs = []" using lx by (simp add: gs count_list_replicate)
    obtain v' where "put_nulls v n = Some v'" and "appended width v (replicate n None) v'"
      by (rule appended_nulls [OF inv room])
    with RLE False \<open>xs = []\<close> d show ?thesis
      by (simp add: level_read_run_def level_advance_def gs merge_False)
  qed
next
  case BitPacked
  have fits: "ld_current_buffer_idx l + ld_current_count l \<le> length (ld_current_buffer l)"
    using fl BitPacked by (simp add: level_flags_def)
  have gs: "take n gs = map (packed_defined l) (take n (drop (ld_current_buffer_idx l) (ld_current_buffer l)))"
    using level_flags_run(1) [OF fl n] n BitPacked by (simp add: run_flags_def take_map min_absorb1)
  from read_packed_spec [OF inv room d _ gs lx] fits n obtain v' d' where
    "level_read_packed dec_read l (ld_current_buffer_idx l) n v d = Some (v', d')" "vals d' ys"
    "appended width v (merge (take n gs) xs) v'" by auto
  with BitPacked show ?thesis by (simp add: level_read_run_def level_advance_def)
qed

lemma read_loop_spec:
  assumes "pmv_inv width v" and "pmv_room width v (length fs)" and "vals d (xs @ ys)"
    and "level_flags l (fs @ gs)" and "length xs = count_list fs True" and "left = length fs"
  shows "\<exists>l' v' d'. level_read_loop dec_read dec_read_batch l left v d = Some (l', v', d') \<and>
    level_flags l' gs \<and> vals d' ys \<and> appended width v (merge fs xs) v'"
  using assms
proof (induction left arbitrary: l v d fs xs rule: less_induct)
  case (less left)
  show ?case
  proof (cases fs)
    case Nil
    with less.prems show ?thesis by (auto simp: level_read_loop.simps [of _ _ l] appended_refl)
  next
    case (Cons f fs')
    then have pos: "0 < left" using less.prems(6) by simp
    obtain l1 where r: "level_refill l = Some l1" and fl1: "level_flags l1 (fs @ gs)" and c: "0 < ld_current_count l1"
      by (rule level_refill_spec [of l f "fs' @ gs"]) (use less.prems(4) Cons in simp_all)
    define n where "n = min left (ld_current_count l1)"
    have n: "n \<le> ld_current_count l1" "n \<le> length fs" "0 < n" using c pos less.prems(6) by (auto simp: n_def)
    let ?f1 = "take n fs" and ?f2 = "drop n fs"
    let ?k = "count_list ?f1 True"
    have tk: "take n (fs @ gs) = ?f1" and dr: "drop n (fs @ gs) = ?f2 @ gs" using n(2) by simp_all
    have "count_list fs True = ?k + count_list ?f2 True" by (simp flip: count_list_append)
    then have k: "length xs = ?k + count_list ?f2 True" using less.prems(5) by simp
    have room1: "pmv_room width v n" using less.prems(2) n(2) by (rule pmv_room_mono)
    have d1: "vals d (take ?k xs @ (drop ?k xs @ ys))" using less.prems(3) by (simp flip: append_assoc)
    have "length (take ?k xs) = ?k" using k by simp
    from read_run_spec [OF less.prems(1) room1 d1 fl1 n(1), unfolded tk, OF this] obtain v1 d1 where
      run: "level_read_run dec_read dec_read_batch l1 n v d = Some (level_advance l1 n, v1, d1)"
      and vd: "vals d1 (drop ?k xs @ ys)" and ap: "appended width v (merge ?f1 (take ?k xs)) v1" by blast
    have room2: "pmv_room width v1 (length ?f2)"
      by (rule appended_room [OF ap]) (use less.prems(2) n(2) in simp)
    have "left - n < left" and "length (drop ?k xs) = count_list ?f2 True" and "left - n = length ?f2"
      using n(3) pos k less.prems(6) by auto
    from less.IH [OF this(1) appended_inv [OF ap] room2 vd level_flags_run(2) [OF fl1 n(1), unfolded dr] this(2,3)]
    obtain l' v' d' where
      rest: "level_read_loop dec_read dec_read_batch (level_advance l1 n) (left - n) v1 d1 = Some (l', v', d')"
      "level_flags l' gs" "vals d' ys" "appended width v1 (merge ?f2 (drop ?k xs)) v'" by blast
    have "merge fs xs = merge ?f1 (take ?k xs) @ merge ?f2 (drop ?k xs)"
      using merge_append [of "take ?k xs" ?f1 ?f2 "drop ?k xs"] k by simp
    with appended_trans [OF ap rest(4)] rest run r pos show ?thesis
      by (auto simp: level_read_loop.simps [of _ _ l] n_def)
  qed
qed

lemma count_packed:
  "i + n \<le> length (ld_current_buffer l) \<Longrightarrow>
     level_count_packed l i n =
       Some (count_list (map (packed_defined l) (take n (drop i (ld_current_buffer l)))) True)"
proof (induction n arbitrary: i)
  case (Suc n)
  then have "i < length (ld_current_buffer l)" by simp
  with Suc show ?case by (simp add: index_Some Cons_nth_drop_Suc [symmetric])
qed simp

lemma skip_run_spec:
  assumes d: "vals d (xs @ ys)" and fl: "level_flags l gs" and n: "n \<le> ld_current_count l"
    and lx: "length xs = count_list (take n gs) True"
    and pn: "(if nulls then put_nulls v n else Some v) = Some v'"
  shows "\<exists>d'. level_skip_run dec_skip_batch nulls l n v d = Some (level_advance l n, v', d') \<and> vals d' ys"
proof (cases "ld_mode l")
  case RLE
  then have gs: "take n gs = replicate n (rle_defined l)"
    using level_flags_run(1) [OF fl n] n by (simp add: run_flags_def)
  show ?thesis
  proof (cases "rle_defined l")
    case True
    then have "length xs = n" using lx by (simp add: gs count_list_replicate)
    with skip_batch_law [OF d] RLE True pn show ?thesis
      by (auto simp: level_skip_run_def level_advance_def)
  next
    case False
    then have "xs = []" using lx by (simp add: gs count_list_replicate)
    with RLE False d pn show ?thesis by (simp add: level_skip_run_def level_advance_def)
  qed
next
  case BitPacked
  have fits: "ld_current_buffer_idx l + ld_current_count l \<le> length (ld_current_buffer l)"
    using fl BitPacked by (simp add: level_flags_def)
  have gs: "take n gs = map (packed_defined l) (take n (drop (ld_current_buffer_idx l) (ld_current_buffer l)))"
    using level_flags_run(1) [OF fl n] n BitPacked by (simp add: run_flags_def take_map min_absorb1)
  have "level_count_packed l (ld_current_buffer_idx l) n = Some (length xs)"
    using count_packed [of "ld_current_buffer_idx l" n l] fits n lx by (simp add: gs)
  with skip_batch_law [OF d] BitPacked pn show ?thesis
    by (auto simp: level_skip_run_def level_advance_def)
qed

lemma skip_loop_spec:
  assumes "pmv_inv width v" and "nulls \<Longrightarrow> pmv_room width v (length fs)" and "vals d (xs @ ys)"
    and "level_flags l (fs @ gs)" and "length xs = count_list fs True" and "skip = length fs"
  shows "\<exists>l' v' d'. level_skip_loop dec_skip_batch nulls l skip v d = Some (l', v', d') \<and>
    level_flags l' gs \<and> vals d' ys \<and>
    (if nulls then appended width v (replicate skip None) v' else v' = v)"
  using assms
proof (induction skip arbitrary: l v d fs xs rule: less_induct)
  case (less skip)
  show ?case
  proof (cases fs)
    case Nil
    with less.prems show ?thesis by (auto simp: level_skip_loop.simps [of _ _ l] appended_refl)
  next
    case (Cons f fs')
    then have pos: "0 < skip" using less.prems(6) by simp
    obtain l1 where r: "level_refill l = Some l1" and fl1: "level_flags l1 (fs @ gs)" and c: "0 < ld_current_count l1"
      by (rule level_refill_spec [of l f "fs' @ gs"]) (use less.prems(4) Cons in simp_all)
    define n where "n = min skip (ld_current_count l1)"
    have n: "n \<le> ld_current_count l1" "n \<le> length fs" "0 < n" using c pos less.prems(6) by (auto simp: n_def)
    let ?f1 = "take n fs" and ?f2 = "drop n fs"
    let ?k = "count_list ?f1 True"
    have tk: "take n (fs @ gs) = ?f1" and dr: "drop n (fs @ gs) = ?f2 @ gs" using n(2) by simp_all
    have "count_list fs True = ?k + count_list ?f2 True" by (simp flip: count_list_append)
    then have k: "length xs = ?k + count_list ?f2 True" using less.prems(5) by simp
    have d1: "vals d (take ?k xs @ (drop ?k xs @ ys))" using less.prems(3) by (simp flip: append_assoc)
    obtain v1 where pn: "(if nulls then put_nulls v n else Some v) = Some v1"
      and ap: "if nulls then appended width v (replicate n None) v1 else v1 = v"
    proof (cases nulls)
      case True
      then have "pmv_room width v n" using less.prems(2) n(2) pmv_room_mono by blast
      then obtain v1 where "put_nulls v n = Some v1" "appended width v (replicate n None) v1"
        by (rule appended_nulls [OF less.prems(1)])
      with True show ?thesis by (intro that [of v1]) simp_all
    next
      case False
      then show ?thesis by (intro that [of v]) simp_all
    qed
    have inv1: "pmv_inv width v1"
      using ap less.prems(1) by (cases nulls) (simp_all add: appended_inv)
    have room2: "pmv_room width v1 (length ?f2)" if nulls
    proof (rule appended_room)
      show "appended width v (replicate n None) v1" using ap that by simp
      show "pmv_room width v (length (replicate n (None :: u8 list option)) + length ?f2)"
        using less.prems(2) [OF that] n(2) by simp
    qed
    have "length (take ?k xs) = ?k" using k by simp
    from skip_run_spec [OF d1 fl1 n(1), unfolded tk, OF this pn] obtain d1 where
      run: "level_skip_run dec_skip_batch nulls l1 n v d = Some (level_advance l1 n, v1, d1)"
      and vd: "vals d1 (drop ?k xs @ ys)" by blast
    have "skip - n < skip" and "length (drop ?k xs) = count_list ?f2 True" and "skip - n = length ?f2"
      using n(3) pos k less.prems(6) by auto
    from less.IH [OF this(1) inv1 room2 vd level_flags_run(2) [OF fl1 n(1), unfolded dr] this(2,3)]
    obtain l' v' d' where
      rest: "level_skip_loop dec_skip_batch nulls (level_advance l1 n) (skip - n) v1 d1 = Some (l', v', d')"
      "level_flags l' gs" "vals d' ys" "if nulls then appended width v1 (replicate (skip - n) None) v' else v' = v1" by blast
    have "(replicate skip None :: u8 list option list) = replicate n None @ replicate (skip - n) None"
      using n less.prems(6) by (simp flip: replicate_add)
    then have "if nulls then appended width v (replicate skip None) v' else v' = v"
      using ap rest(4) appended_trans [of width v "replicate n None" v1] by (cases nulls) simp_all
    with rest run r pos show ?thesis
      by (auto simp: level_skip_loop.simps [of _ _ l] n_def)
  qed
qed

end

text \<open>A page of levels, with or without the four bytes of its length in front.\<close>

definition level_page :: "bool \<Rightarrow> u8 list \<Rightarrow> u8 list \<Rightarrow> u8 list" where
  "level_page need body rest = (if need then le_bytes (of_nat (length body) :: u32) @ body @ rest else body)"

lemma level_set_data_flags:
  assumes w: "bw \<noteq> 0" "unat bw \<le> 16" and m: "unat m < 2 ^ 15" and len: "length body < 2 ^ 32"
    and h: "hybrid (unat bw) (byte_bit body) (8 * length body) 0 ls"
  obtains l where "level_set_data (level_new m bw need) n (level_page need body rest) =
      Some (if need then 4 + length body else 0, l)"
    and "level_flags l (map (\<lambda>v. v = ucast m) ls)"
proof -
  have u: "unat (of_nat (length body) :: u32) = length body"
    using len by (simp add: unat_of_nat take_bit_nat_eq_self)
  obtain r where r: "br_new (if need then body @ rest else body) (length body) = Some r" "br_inv r" "br_pos r = 0"
    "br_end r = 8 * length body" "br_bits r = byte_bit body"
    by (rule br_new_spec [of "length body" "if need then body @ rest else body"]) auto
  let ?l = "(level_new m bw need)\<lparr>ld_num_values := n, ld_bit_reader := Some r\<rparr>"
  have "level_set_data (level_new m bw need) n (level_page need body rest) =
      Some (if need then 4 + length body else 0, ?l)"
    using w(1) r(1) by (cases need)
      (simp_all add: level_set_data_def level_new_def level_page_def read_u32_def slice_from_def
        le_word_le_bytes u br_new_all_def)
  moreover have "level_flags ?l (map (\<lambda>v. v = ucast m) ls)"
    using w(2) m h r(2-5)
    by (auto simp: level_flags_def level_new_def run_flags_def level_rest_def)
  ultimately show ?thesis by (rule that)
qed

subsection \<open>Properties\<close>

text \<open>
  C14. Reading a nullable page of dictionary indices: the definition levels decide slot by slot between the
  next index and a null. Whatever mixture of runs encodes the levels \<open>ls\<close>, the vector gains one element per
  level, the next index where the level is the maximal one and a null elsewhere, and keeps its invariant.
\<close>

theorem read_nullable_page:
  assumes "bw \<noteq> 0" and "unat bw \<le> 16" and "unat m < 2 ^ 15" and "length body < 2 ^ 32"
    and "hybrid (unat bw) (byte_bit body) (8 * length body) 0 ls"
    and "dict_vals d (xs @ ys)" and "length xs = count_list (map (\<lambda>v. v = ucast m) ls) True"
    and "pmv_inv 4 v" and "pmv_room 4 v (length ls)"
  shows "\<exists>k l l' v' d'. level_set_data (level_new m bw need) n (level_page need body rest) = Some (k, l) \<and>
    level_read_batch dict_read dict_read_batch l (length ls) v d = Some (l', v', d') \<and> dict_vals d' ys \<and>
    pmv_inv 4 v' \<and> pmv_elems 4 v' = pmv_elems 4 v @ merge (map (\<lambda>v. v = ucast m) ls) (map le_bytes xs)"
proof -
  let ?fs = "map (\<lambda>v. v = ucast m) ls"
  obtain l where l: "level_set_data (level_new m bw need) n (level_page need body rest) =
      Some (if need then 4 + length body else 0, l)" "level_flags l ?fs"
    by (rule level_set_data_flags [OF assms(1-5)])
  have "dict_blocks d (map le_bytes xs @ map le_bytes ys)" using assms(6) dict_blocks_map [of d "xs @ ys"] by simp
  then have "\<exists>l' v' d'. level_read_loop dict_read dict_read_batch l (length ls) v d = Some (l', v', d') \<and>
      level_flags l' [] \<and> dict_blocks d' (map le_bytes ys) \<and> appended 4 v (merge ?fs (map le_bytes xs)) v'"
    by (intro dict.read_loop_spec [OF assms(8)]) (use assms(7,9) l(2) in simp_all)
  then show ?thesis unfolding level_read_batch_def appended_def dict_blocks_map using l(1) by blast
qed

theorem read_nullable_page_witness:
  "\<exists>v d k l l' v' d'. pmv_new 16 Int32 = Some v \<and> dict_new [1, 6, 1, 3, 5] = Some d \<and>
    level_set_data (level_new 1 1 True) 11 [4, 0, 0, 0, 6, 1, 3, 5] = Some (k, l) \<and>
    level_read_batch dict_read dict_read_batch l 11 v d = Some (l', v', d') \<and>
    pmv_elems 4 v' = [Some [1, 0, 0, 0], Some [1, 0, 0, 0], Some [1, 0, 0, 0], Some [1, 0, 0, 0], None,
      Some [0, 0, 0, 0], None, None, None, None, None]"
proof -
  obtain v where v: "pmv_new 16 Int32 = Some v" "pmv_inv 4 v" "pmv_elems 4 v = []" "pmv_room 4 v 16"
    by (rule pmv_new_int32 [of 16]) simp_all
  let ?ls = "[1, 1, 1] @ [1, 0, 1, 0, 0, 0, 0, 0] :: u32 list"
  obtain d where d: "dict_new [1, 6, 1, 3, 5] = Some d" "dict_vals d ([1, 1, 1, 1, 0] @ [1, 0, 0, 0, 0, 0])"
    by (rule dict_new_vals [of "[1, 6, 1, 3, 5]" "[1, 1, 1, 1, 0] @ [1, 0, 0, 0, 0, 0]"])
      (use hybrid_sample in simp_all)
  have h: "hybrid (unat (1 :: u8)) (byte_bit [6, 1, 3, 5]) (8 * length [6, 1, 3, 5 :: u8]) 0 ?ls"
    using hybrid_sample by simp
  have room: "pmv_room 4 v (length ?ls)" by (rule pmv_room_mono [OF v(4)]) simp
  have pg: "level_page True [6, 1, 3, 5] [] = [4, 0, 0, 0, 6, 1, 3, 5]" by code_simp
  have mg: "merge (map (\<lambda>v. v = ucast (1 :: 16 word)) ?ls) (map le_bytes [1, 1, 1, 1, 0 :: u32]) =
    [Some [1, 0, 0, 0], Some [1, 0, 0, 0], Some [1, 0, 0, 0], Some [1, 0, 0, 0], None,
      Some [0, 0, 0, 0], None, None, None, None, None]" by code_simp
  have n: "length ?ls = 11" by simp
  have "length [1, 1, 1, 1, 0 :: u32] = count_list (map (\<lambda>v. v = ucast (1 :: 16 word)) ?ls) True" by code_simp
  from read_nullable_page [OF _ _ _ _ h d(2) this v(2) room, of True 11 "[]", unfolded pg mg v(3) n append_Nil]
  obtain k l l' v' d' where
    "level_set_data (level_new 1 1 True) 11 [4, 0, 0, 0, 6, 1, 3, 5] = Some (k, l)"
    "level_read_batch dict_read dict_read_batch l 11 v d = Some (l', v', d')"
    "pmv_elems 4 v' = [Some [1, 0, 0, 0], Some [1, 0, 0, 0], Some [1, 0, 0, 0], Some [1, 0, 0, 0], None,
      Some [0, 0, 0, 0], None, None, None, None, None]" by auto
  with v(1) d(1) show ?thesis by blast
qed

text \<open>
  C19. Skipping levels skips exactly the values they select in the value decoder; with \<open>put_nulls\<close> the vector
  gains a null per level, without it the vector is untouched.
\<close>

theorem level_skip_batch_skips:
  assumes "pmv_inv 4 v" and "pmv_room 4 v (length fs)" and "dict_vals d (xs @ ys)"
    and "level_flags l (fs @ gs)" and "length xs = count_list fs True"
  shows "\<exists>l' v' d'. level_skip_batch dict_skip_batch l (length fs) v d nulls = Some (l', v', d') \<and>
    level_flags l' gs \<and> dict_vals d' ys \<and>
    (if nulls then pmv_elems 4 v' = pmv_elems 4 v @ replicate (length fs) None \<and> pmv_inv 4 v' else v' = v)"
proof -
  have "dict_blocks d (map le_bytes xs @ map le_bytes ys)" using assms(3) dict_blocks_map [of d "xs @ ys"] by simp
  then have "\<exists>l' v' d'. level_skip_loop dict_skip_batch nulls l (length fs) v d = Some (l', v', d') \<and>
      level_flags l' gs \<and> dict_blocks d' (map le_bytes ys) \<and>
      (if nulls then appended 4 v (replicate (length fs) None) v' else v' = v)"
    by (intro dict.skip_loop_spec [OF assms(1), where xs = "map le_bytes xs"]) (use assms(2,4,5) in simp_all)
  then show ?thesis unfolding level_skip_batch_def appended_def dict_blocks_map by (cases nulls) auto
qed

theorem level_skip_batch_skips_witness:
  "\<exists>v d k l l' v' d'. pmv_new 16 Int32 = Some v \<and> dict_new [1, 6, 1, 3, 5] = Some d \<and>
    level_set_data (level_new 1 1 False) 11 [6, 1, 3, 5] = Some (k, l) \<and>
    level_skip_batch dict_skip_batch l 5 v d True = Some (l', v', d') \<and> pmv_elems 4 v' = replicate 5 None"
proof -
  obtain v where v: "pmv_new 16 Int32 = Some v" "pmv_inv 4 v" "pmv_elems 4 v = []" "pmv_room 4 v 16"
    by (rule pmv_new_int32 [of 16]) simp_all
  obtain d where d: "dict_new [1, 6, 1, 3, 5] = Some d" "dict_vals d ([1, 1, 1, 1] @ [0, 1, 0, 0, 0, 0, 0])"
    by (rule dict_new_vals [of "[1, 6, 1, 3, 5]" "[1, 1, 1, 1] @ [0, 1, 0, 0, 0, 0, 0]"])
      (use hybrid_sample in simp_all)
  let ?fs = "[True, True, True, True, False]" and ?gs = "[True, False, False, False, False, False]"
  obtain l where l: "level_set_data (level_new 1 1 False) 11 (level_page False [6, 1, 3, 5] []) =
      Some (if False then 4 + length [6, 1, 3, 5 :: u8] else 0, l)"
    "level_flags l (map (\<lambda>v. v = ucast (1 :: 16 word)) ([1, 1, 1] @ [1, 0, 1, 0, 0, 0, 0, 0]))"
    by (rule level_set_data_flags [of 1 1 "[6, 1, 3, 5]" "[1, 1, 1] @ [1, 0, 1, 0, 0, 0, 0, 0]" False 11 "[]"])
      (use hybrid_sample in simp_all)
  have fl: "level_flags l (?fs @ ?gs)" using l(2) by simp
  have room: "pmv_room 4 v (length ?fs)" by (rule pmv_room_mono [OF v(4)]) simp
  from level_skip_batch_skips [OF v(2) room d(2) fl, of True] v(1,3) d(1) l(1) show ?thesis
    by (auto simp: level_page_def eval_nat_numeral)
qed

end
