(* ===== verification/Column_Reader.thy ===== *)
theory Column_Reader
  imports Plain_Decoder_Spec Level_Decoder
begin

text \<open>
  \<open>TypedColumnReader\<close> of \<open>native/core/src/parquet/read/column.rs\<close>, which puts the level decoder, the value
  decoders and the vector together: it takes dictionary and data pages, reads and skips batches, and converts
  a vector of dictionary indices when a chunk falls back to plain pages (\<open>PlainDictDecoding\<close> of
  \<open>native/core/src/parquet/read/mod.rs\<close> and \<open>values.rs\<close>). The type parameter is an argument.
\<close>

subsection \<open>Decoding dictionary indices\<close>

definition dict_one_copy :: "nat \<Rightarrow> nat \<Rightarrow> pmv \<Rightarrow> pmv \<Rightarrow> nat \<Rightarrow> pmv option" where
  "dict_one_copy idx val_idx src dst bit_width = do {
     let byte_width = bit_width div 8;
     s \<leftarrow> slice_range (cb_deref (pmv_values src)) (val_idx * byte_width) ((val_idx + 1) * byte_width);
     value_memcpy dst (idx * byte_width) s
   }"

text \<open>The pointer casts of \<open>make_int_variant_dict_impl\<close>, by the sizes of the two types and the cast.\<close>

definition dict_one_variant :: "nat \<Rightarrow> nat \<Rightarrow> (u8 list \<Rightarrow> u8 list) \<Rightarrow> nat \<Rightarrow> nat \<Rightarrow> pmv \<Rightarrow> pmv \<Rightarrow> pmv option" where
  "dict_one_variant src_size dst_size cast idx val_idx src dst = do {
     let data = cb_data (pmv_values src);
     ensure (val_idx * src_size + src_size \<le> length data);
     ensure (cb_owned (pmv_values dst));
     let target = cb_data (pmv_values dst);
     ensure (idx * dst_size + dst_size \<le> length target);
     Some (pmv_set_values dst ((pmv_values dst)
       \<lparr>cb_data := overwrite target (idx * dst_size) (cast (take src_size (drop (val_idx * src_size) data)))\<rparr>))
   }"

definition dict_one_bool :: "nat \<Rightarrow> nat \<Rightarrow> pmv \<Rightarrow> pmv \<Rightarrow> pmv option" where
  "dict_one_bool idx val_idx src dst = do {
     v \<leftarrow> bit_get_bit (cb_as_slice (pmv_values src)) val_idx;
     if v then do {
       b \<leftarrow> cb_as_slice_mut (pmv_values dst) (\<lambda>data. bit_set_bit data idx);
       Some (pmv_set_values dst b)
     } else Some dst
   }"

text \<open>\<open>get_u32_le\<close> of the slice from an offset on.\<close>

definition get_u32_le_at :: "u8 list \<Rightarrow> nat \<Rightarrow> nat option" where
  "get_u32_le_at data offset = do {
     s \<leftarrow> slice_from data offset;
     ensure (4 \<le> length s);
     Some (unat (le_word (take 4 s) :: u32))
   }"

definition dict_one_binary :: "nat \<Rightarrow> nat \<Rightarrow> pmv \<Rightarrow> pmv \<Rightarrow> pmv option" where
  "dict_one_binary idx val_idx src dst = do {
     ensure (length (pmv_children src) = 1);
     ensure (length (pmv_children dst) = 1);
     src_child \<leftarrow> index (pmv_children src) 0;
     dst_child \<leftarrow> index (pmv_children dst) 0;
     start \<leftarrow> get_u32_le_at (cb_deref (pmv_values src)) (val_idx * 4);
     end' \<leftarrow> get_u32_le_at (cb_deref (pmv_values src)) ((val_idx + 1) * 4);
     len \<leftarrow> usub end' start;
     curr_offset \<leftarrow> get_u32_le_at (cb_deref (pmv_values dst)) (idx * 4);
     value_buffer \<leftarrow> reserve_bytes (pmv_values dst_child) (curr_offset + len);
     s \<leftarrow> slice_range (cb_deref (pmv_values src_child)) start end';
     value_buffer \<leftarrow> cb_deref_mut value_buffer (\<lambda>data. memcpy_at s data curr_offset);
     offset_buf \<leftarrow> cb_deref_mut (pmv_values dst)
       (\<lambda>data. memcpy_value_at (le_bytes (of_nat (curr_offset + len) :: u32)) 4 data ((idx + 1) * 4));
     let dst_child = pmv_set_counts (pmv_set_values dst_child value_buffer)
       (pmv_num_values dst_child + len) (pmv_num_nulls dst_child);
     Some (pmv_set_children (pmv_set_values dst offset_buf) [dst_child])
   }"

definition dict_one_flba_decimal :: "nat \<Rightarrow> nat \<Rightarrow> pmv \<Rightarrow> pmv \<Rightarrow> pmv option" where
  "dict_one_flba_decimal num_bytes val_idx src dst = do {
     s \<leftarrow> slice_range (cb_deref (pmv_values src)) (val_idx * num_bytes) ((val_idx + 1) * num_bytes);
     value_memcpy dst (pmv_num_values dst * num_bytes) s
   }"

definition dict_one_int96 :: "nat \<Rightarrow> pmv \<Rightarrow> pmv \<Rightarrow> pmv option" where
  "dict_one_int96 val_idx src dst = do {
     let src_offset = val_idx * INT96_DST_BYTE_WIDTH;
     let dst_offset = pmv_num_values dst * INT96_DST_BYTE_WIDTH;
     s \<leftarrow> slice_range (cb_deref (pmv_values src)) src_offset (src_offset + INT96_DST_BYTE_WIDTH);
     value_memcpy dst dst_offset s
   }"

fun decode_dict_one :: "data_type \<Rightarrow> nat \<Rightarrow> nat \<Rightarrow> pmv \<Rightarrow> pmv \<Rightarrow> nat \<Rightarrow> pmv option" where
  "decode_dict_one Int16ToDoubleType idx val_idx src dst bit_width =
     dict_one_variant 2 8 (\<lambda>b. int_bytes 8 (f64_of_i32 (le_int b))) idx val_idx src dst"
| "decode_dict_one Int32To64Type idx val_idx src dst bit_width =
     dict_one_variant 4 8 (\<lambda>b. int_bytes 8 (le_int b)) idx val_idx src dst"
| "decode_dict_one Int32ToDecimal64Type idx val_idx src dst bit_width =
     dict_one_variant 4 8 (\<lambda>b. int_bytes 8 (le_int b)) idx val_idx src dst"
| "decode_dict_one Int32ToDoubleType idx val_idx src dst bit_width =
     dict_one_variant 4 8 (\<lambda>b. int_bytes 8 (f64_of_i32 (le_int b))) idx val_idx src dst"
| "decode_dict_one Int32TimestampMicrosType idx val_idx src dst bit_width =
     dict_one_variant 4 8 (\<lambda>b. int_bytes 8 (le_int b)) idx val_idx src dst"
| "decode_dict_one FloatToDoubleType idx val_idx src dst bit_width =
     dict_one_variant 4 8 (\<lambda>b. int_bytes 8 (f64_of_f32 (le_nat b))) idx val_idx src dst"
| "decode_dict_one Int32DecimalType idx val_idx src dst bit_width =
     dict_one_variant 16 16 (\<lambda>b. b) idx val_idx src dst"
| "decode_dict_one Int64DecimalType idx val_idx src dst bit_width =
     dict_one_variant 16 16 (\<lambda>b. b) idx val_idx src dst"
| "decode_dict_one UInt64Type idx val_idx src dst bit_width =
     dict_one_variant 16 16 (\<lambda>b. b) idx val_idx src dst"
| "decode_dict_one BoolType idx val_idx src dst bit_width = dict_one_bool idx val_idx src dst"
| "decode_dict_one ByteArrayType idx val_idx src dst bit_width = dict_one_binary idx val_idx src dst"
| "decode_dict_one StringType idx val_idx src dst bit_width = dict_one_binary idx val_idx src dst"
| "decode_dict_one FLBADecimal32Type idx val_idx src dst bit_width = dict_one_flba_decimal 4 val_idx src dst"
| "decode_dict_one FLBADecimal64Type idx val_idx src dst bit_width = dict_one_flba_decimal 8 val_idx src dst"
| "decode_dict_one FLBADecimalType idx val_idx src dst bit_width = dict_one_flba_decimal 16 val_idx src dst"
| "decode_dict_one Int96TimestampMicrosType idx val_idx src dst bit_width = dict_one_int96 val_idx src dst"
| "decode_dict_one T idx val_idx src dst bit_width = dict_one_copy idx val_idx src dst bit_width"

text \<open>The loop of \<open>decode_dict\<close>; \<open>value_buf\<close> is what is left of the indices.\<close>

fun decode_dict_loop :: "data_type \<Rightarrow> pmv \<Rightarrow> nat \<Rightarrow> u8 list \<Rightarrow> u8 list \<Rightarrow> nat \<Rightarrow> nat \<Rightarrow> pmv \<Rightarrow> pmv option" where
  "decode_dict_loop T dictionary bit_width validity_buf value_buf i 0 dst = Some dst"
| "decode_dict_loop T dictionary bit_width validity_buf value_buf i (Suc n) dst = do {
     valid \<leftarrow> bit_get_bit validity_buf i;
     dst \<leftarrow>
       (if valid then do {
          val_idx \<leftarrow> get_u32_le_at value_buf 0;
          dst \<leftarrow> decode_dict_one T i val_idx dictionary dst bit_width;
          Some (pmv_set_counts dst (pmv_num_values dst + 1) (pmv_num_nulls dst))
        } else do {
          ensure (4 \<le> length value_buf);
          put_null dst
        });
     decode_dict_loop T dictionary bit_width validity_buf (drop 4 value_buf) (i + 1) n dst
   }"

definition decode_dict :: "data_type \<Rightarrow> pmv \<Rightarrow> pmv \<Rightarrow> nat \<Rightarrow> pmv option" where
  "decode_dict T src dst bit_width = do {
     ensure (pmv_dictionary dst = None);
     dictionary \<leftarrow> pmv_dictionary src;
     dst \<leftarrow> decode_dict_loop T dictionary bit_width (cb_as_slice (pmv_validity src)) (cb_as_slice (pmv_values src))
       0 (pmv_num_values src) dst;
     Some (pmv_set_validity dst (pmv_validity src))
   }"

subsection \<open>The reader\<close>

datatype encoding = PLAIN | PLAIN_DICTIONARY | RLE_DICTIONARY | OtherEncoding

text \<open>\<open>Box<dyn Decoder>\<close>\<close>

datatype decoder = PlainDecoder plain_decoder | DictDecoder dict_decoder

definition get_decoder :: "u8 list \<Rightarrow> encoding \<Rightarrow> column_desc \<Rightarrow> read_options \<Rightarrow> decoder option" where
  "get_decoder value_data encoding desc opts =
     (case encoding of
        PLAIN \<Rightarrow> map_option PlainDecoder (plain_new value_data desc opts)
      | PLAIN_DICTIONARY \<Rightarrow> map_option PlainDecoder (plain_new value_data desc opts)
      | RLE_DICTIONARY \<Rightarrow> map_option DictDecoder (dict_new value_data)
      | OtherEncoding \<Rightarrow> None)"

fun dyn_read :: "data_type \<Rightarrow> decoder \<Rightarrow> pmv \<Rightarrow> (decoder \<times> pmv) option" where
  "dyn_read T (PlainDecoder d) dst = map_option (map_prod PlainDecoder id) (plain_read T d dst)"
| "dyn_read T (DictDecoder d) dst = map_option (map_prod DictDecoder id) (dict_read d dst)"

fun dyn_read_batch :: "data_type \<Rightarrow> decoder \<Rightarrow> pmv \<Rightarrow> nat \<Rightarrow> (decoder \<times> pmv) option" where
  "dyn_read_batch T (PlainDecoder d) dst num = map_option (map_prod PlainDecoder id) (plain_read_batch T d dst num)"
| "dyn_read_batch T (DictDecoder d) dst num = map_option (map_prod DictDecoder id) (dict_read_batch d dst num)"

fun dyn_skip_batch :: "data_type \<Rightarrow> decoder \<Rightarrow> nat \<Rightarrow> decoder option" where
  "dyn_skip_batch T (PlainDecoder d) num = map_option PlainDecoder (plain_skip_batch T d num)"
| "dyn_skip_batch T (DictDecoder d) num = map_option DictDecoder (dict_skip_batch d num)"

record column_reader =
  cr_desc :: column_desc
  cr_arrow_type :: arrow_type
  cr_rep_level_decoder :: "level_decoder option"
  cr_def_level_decoder :: "level_decoder option"
  cr_value_decoder :: "decoder option"
  cr_num_values_in_page :: nat
  cr_vector :: pmv
  cr_capacity :: nat
  cr_bit_width :: nat
  cr_is_const :: bool
  cr_read_options :: read_options

definition cr_new :: "column_desc \<Rightarrow> nat \<Rightarrow> arrow_type \<Rightarrow> read_options \<Rightarrow> column_reader option" where
  "cr_new desc capacity arrow_type opts = do {
     vector \<leftarrow> pmv_new capacity arrow_type;
     bit_width \<leftarrow> pmv_bit_width arrow_type;
     Some \<lparr>cr_desc = desc, cr_arrow_type = arrow_type, cr_rep_level_decoder = None, cr_def_level_decoder = None,
       cr_value_decoder = None, cr_num_values_in_page = 0, cr_vector = vector, cr_capacity = capacity,
       cr_bit_width = bit_width, cr_is_const = False, cr_read_options = opts\<rparr>
   }"

definition cr_reset_batch :: "column_reader \<Rightarrow> column_reader option" where
  "cr_reset_batch R = do {
     vector \<leftarrow> pmv_reset (cr_vector R);
     Some (R\<lparr>cr_vector := vector\<rparr>)
   }"

definition cr_current_batch :: "column_reader \<Rightarrow> (execution_error + array_data \<times> column_reader) option" where
  "cr_current_batch R = do {
     res \<leftarrow> get_array_data (cr_vector R);
     Some (case res of Inl e \<Rightarrow> Inl e | Inr (a, vector) \<Rightarrow> Inr (a, R\<lparr>cr_vector := vector\<rparr>))
   }"

definition cr_read_batch :: "data_type \<Rightarrow> column_reader \<Rightarrow> nat \<Rightarrow> nat \<Rightarrow> ((nat \<times> nat) \<times> column_reader) option" where
  "cr_read_batch T R tot null_pad_size = do {
     ensure (cr_value_decoder R \<noteq> None \<and> cr_def_level_decoder R \<noteq> None);
     let n = min (cr_num_values_in_page R) tot;
     value_decoder \<leftarrow> cr_value_decoder R;
     dl_decoder \<leftarrow> cr_def_level_decoder R;
     let previous_num_nulls = pmv_num_nulls (cr_vector R);
     vector \<leftarrow> put_nulls (cr_vector R) null_pad_size;
     (dl_decoder, vector, value_decoder) \<leftarrow>
       level_read_batch (dyn_read T) (dyn_read_batch T) dl_decoder n vector value_decoder;
     nulls \<leftarrow> usub (pmv_num_nulls vector) previous_num_nulls;
     Some ((n, nulls), R\<lparr>cr_num_values_in_page := cr_num_values_in_page R - n, cr_vector := vector,
       cr_def_level_decoder := Some dl_decoder, cr_value_decoder := Some value_decoder\<rparr>)
   }"

definition cr_skip_batch :: "data_type \<Rightarrow> column_reader \<Rightarrow> nat \<Rightarrow> bool \<Rightarrow> (nat \<times> column_reader) option" where
  "cr_skip_batch T R tot nulls = do {
     ensure (cr_value_decoder R \<noteq> None \<and> cr_def_level_decoder R \<noteq> None);
     let n = min (cr_num_values_in_page R) tot;
     value_decoder \<leftarrow> cr_value_decoder R;
     dl_decoder \<leftarrow> cr_def_level_decoder R;
     (dl_decoder, vector, value_decoder) \<leftarrow>
       level_skip_batch (dyn_skip_batch T) dl_decoder n (cr_vector R) value_decoder nulls;
     Some (n, R\<lparr>cr_num_values_in_page := cr_num_values_in_page R - n, cr_vector := vector,
       cr_def_level_decoder := Some dl_decoder, cr_value_decoder := Some value_decoder\<rparr>)
   }"

definition cr_set_dictionary_page :: "data_type \<Rightarrow> column_reader \<Rightarrow> nat \<Rightarrow> u8 list \<Rightarrow> encoding \<Rightarrow> column_reader option" where
  "cr_set_dictionary_page T R page_value_count page_data encoding = do {
     let encoding = (if encoding = PLAIN then PLAIN_DICTIONARY else encoding);
     ensure (encoding = PLAIN_DICTIONARY);
     ensure (pmv_dictionary (cr_vector R) = None);
     value_vector \<leftarrow> pmv_new page_value_count (cr_arrow_type R);
     dictionary \<leftarrow> get_decoder page_data encoding (cr_desc R) (cr_read_options R);
     (dictionary, value_vector) \<leftarrow> dyn_read_batch T dictionary value_vector page_value_count;
     let value_vector = pmv_set_counts value_vector page_value_count (pmv_num_nulls value_vector);
     vector \<leftarrow> pmv_new (cr_capacity R) Int32;
     Some (R\<lparr>cr_vector := set_dictionary vector value_vector\<rparr>)
   }"

definition cr_check_dictionary :: "data_type \<Rightarrow> column_reader \<Rightarrow> encoding \<Rightarrow> column_reader option" where
  "cr_check_dictionary T R encoding =
     (if pmv_dictionary (cr_vector R) \<noteq> None \<and> encoding = PLAIN then do {
        new_vector \<leftarrow> pmv_new (cr_capacity R) (cr_arrow_type R);
        vector \<leftarrow> decode_dict T (cr_vector R) new_vector (cr_bit_width R);
        ensure (pmv_dictionary vector = None);
        Some (R\<lparr>cr_vector := vector\<rparr>)
      } else Some R)"

text \<open>\<open>log2(level as u64 + 1) as u8\<close>, with the level sign-extended.\<close>

definition level_bit_width :: "16 word \<Rightarrow> u8 option" where
  "level_bit_width level = do {
     let x = (scast level :: u64);
     ensure (x + 1 \<noteq> 0);
     n \<leftarrow> log2 (x + 1);
     Some (of_nat n)
   }"

definition cr_set_page_v1 :: "data_type \<Rightarrow> column_reader \<Rightarrow> nat \<Rightarrow> u8 list \<Rightarrow> encoding \<Rightarrow> column_reader option" where
  "cr_set_page_v1 T R page_value_count page_data encoding = do {
     let encoding = (if encoding = PLAIN_DICTIONARY then RLE_DICTIONARY else encoding);
     let R = R\<lparr>cr_num_values_in_page := page_value_count\<rparr>;
     R \<leftarrow> cr_check_dictionary T R encoding;
     let page_buffer = page_data;
     bit_width \<leftarrow> level_bit_width (cd_max_rep_level (cr_desc R));
     let rl_decoder = level_new (cd_max_def_level (cr_desc R)) bit_width True;
     (offset, rl_decoder) \<leftarrow> level_set_data rl_decoder page_value_count page_buffer;
     page_buffer \<leftarrow> slice_from page_buffer offset;
     bit_width \<leftarrow> level_bit_width (cd_max_def_level (cr_desc R));
     let dl_decoder = level_new (cd_max_def_level (cr_desc R)) bit_width True;
     (offset, dl_decoder) \<leftarrow> level_set_data dl_decoder page_value_count page_buffer;
     page_buffer \<leftarrow> slice_from page_buffer offset;
     value_decoder \<leftarrow> get_decoder page_buffer encoding (cr_desc R) (cr_read_options R);
     Some (R\<lparr>cr_rep_level_decoder := Some rl_decoder, cr_def_level_decoder := Some dl_decoder,
       cr_value_decoder := Some value_decoder\<rparr>)
   }"

definition cr_set_page_v2 ::
    "data_type \<Rightarrow> column_reader \<Rightarrow> nat \<Rightarrow> u8 list \<Rightarrow> u8 list \<Rightarrow> u8 list \<Rightarrow> encoding \<Rightarrow> column_reader option" where
  "cr_set_page_v2 T R page_value_count def_level_data rep_level_data value_data encoding = do {
     let R = R\<lparr>cr_num_values_in_page := page_value_count\<rparr>;
     R \<leftarrow> cr_check_dictionary T R encoding;
     bit_width \<leftarrow> level_bit_width (cd_max_rep_level (cr_desc R));
     let rl_decoder = level_new (cd_max_def_level (cr_desc R)) bit_width False;
     (_, rl_decoder) \<leftarrow> level_set_data rl_decoder page_value_count rep_level_data;
     bit_width \<leftarrow> level_bit_width (cd_max_def_level (cr_desc R));
     let dl_decoder = level_new (cd_max_def_level (cr_desc R)) bit_width False;
     (_, dl_decoder) \<leftarrow> level_set_data dl_decoder page_value_count def_level_data;
     value_decoder \<leftarrow> get_decoder value_data encoding (cr_desc R) (cr_read_options R);
     Some (R\<lparr>cr_rep_level_decoder := Some rl_decoder, cr_def_level_decoder := Some dl_decoder,
       cr_value_decoder := Some value_decoder\<rparr>)
   }"

subsection \<open>Constant columns\<close>

definition cr_check_const :: "column_reader \<Rightarrow> column_reader option" where
  "cr_check_const R = do {
     ensure (cr_value_decoder R = None);
     ensure (\<not> cr_is_const R);
     Some (R\<lparr>cr_is_const := True\<rparr>)
   }"

text \<open>\<open>self.vector.num_values += n\<close>\<close>

definition cr_add_values :: "column_reader \<Rightarrow> pmv \<Rightarrow> nat \<Rightarrow> column_reader" where
  "cr_add_values R vector n =
     R\<lparr>cr_vector := pmv_set_counts vector (pmv_num_values vector + n) (pmv_num_nulls vector)\<rparr>"

definition cr_set_null :: "column_reader \<Rightarrow> column_reader option" where
  "cr_set_null R = do {
     R \<leftarrow> cr_check_const R;
     vector \<leftarrow> put_nulls (cr_vector R) (cr_capacity R);
     Some (R\<lparr>cr_vector := vector\<rparr>)
   }"

definition cr_set_boolean :: "column_reader \<Rightarrow> bool \<Rightarrow> column_reader option" where
  "cr_set_boolean R value = do {
     R \<leftarrow> cr_check_const R;
     vector \<leftarrow>
       (if value then do {
          b \<leftarrow> cb_as_slice_mut (pmv_values (cr_vector R)) (\<lambda>dst. bit_set_bits dst 0 (cr_capacity R));
          Some (pmv_set_values (cr_vector R) b)
        } else Some (cr_vector R));
     Some (cr_add_values R vector (cr_capacity R))
   }"

text \<open>A loop that writes the same bytes \<open>n\<close> times.\<close>

fun fill_loop :: "u8 list \<Rightarrow> pmv \<Rightarrow> nat \<Rightarrow> nat \<Rightarrow> pmv option" where
  "fill_loop value vector offset 0 = Some vector"
| "fill_loop value vector offset (Suc n) = do {
     vector \<leftarrow> value_memcpy_value vector offset value (length value);
     fill_loop value vector (offset + length value) n
   }"

text \<open>\<open>set_fixed\<close>; the argument is \<open>value.as_bytes()\<close>.\<close>

definition cr_set_fixed :: "column_reader \<Rightarrow> u8 list \<Rightarrow> column_reader option" where
  "cr_set_fixed R value = do {
     R \<leftarrow> cr_check_const R;
     vector \<leftarrow> fill_loop value (cr_vector R) 0 (cr_capacity R);
     Some (cr_add_values R vector (cr_capacity R))
   }"

fun set_binary_loop :: "u8 list \<Rightarrow> comet_buffer \<Rightarrow> nat \<Rightarrow> comet_buffer \<Rightarrow> nat \<Rightarrow> nat \<Rightarrow> (comet_buffer \<times> comet_buffer) option" where
  "set_binary_loop buffer value_buf value_buf_offset offset_buf offset_buf_offset 0 = Some (value_buf, offset_buf)"
| "set_binary_loop buffer value_buf value_buf_offset offset_buf offset_buf_offset (Suc n) = do {
     value_buf \<leftarrow> cb_as_slice_mut value_buf (\<lambda>data. memcpy_at buffer data value_buf_offset);
     let value_buf_offset = value_buf_offset + length buffer;
     offset_buf \<leftarrow> cb_as_slice_mut offset_buf
       (\<lambda>data. memcpy_value_at (le_bytes (of_nat value_buf_offset :: u32)) 4 data offset_buf_offset);
     set_binary_loop buffer value_buf value_buf_offset offset_buf (offset_buf_offset + 4) n
   }"

definition cr_set_binary :: "column_reader \<Rightarrow> u8 list \<Rightarrow> column_reader option" where
  "cr_set_binary R buffer = do {
     R \<leftarrow> cr_check_const R;
     let len = length buffer;
     let total_len = len * cr_capacity R;
     child_vector \<leftarrow> index (pmv_children (cr_vector R)) 0;
     value_buf \<leftarrow> cb_resize (pmv_values child_vector) total_len;
     (value_buf, offset_buf) \<leftarrow> set_binary_loop buffer value_buf 0 (pmv_values (cr_vector R)) 4 (cr_capacity R);
     let vector = pmv_set_children (pmv_set_values (cr_vector R) offset_buf)
       ((pmv_children (cr_vector R))[0 := pmv_set_values child_vector value_buf]);
     Some (cr_add_values R vector (cr_capacity R))
   }"

definition DECIMAL_BYTE_WIDTH :: nat where
  "DECIMAL_BYTE_WIDTH = 16"

text \<open>The bytes of a big-endian decimal in little-endian order, sign-extended.\<close>

definition decimal_bytes :: "u8 list \<Rightarrow> u8 list option" where
  "decimal_bytes buffer = do {
     let len = length buffer;
     ensure (len \<le> DECIMAL_BYTE_WIDTH);
     let bytes = rev buffer @ replicate (DECIMAL_BYTE_WIDTH - len) 0;
     last_i \<leftarrow> usub len 1;
     top \<leftarrow> index bytes last_i;
     Some (if top AND 0x80 = 0x80 then take len bytes @ replicate (DECIMAL_BYTE_WIDTH - len) 0xff else bytes)
   }"

definition cr_set_decimal_flba :: "column_reader \<Rightarrow> u8 list \<Rightarrow> column_reader option" where
  "cr_set_decimal_flba R buffer = do {
     R \<leftarrow> cr_check_const R;
     bytes \<leftarrow> decimal_bytes buffer;
     vector \<leftarrow> fill_loop bytes (cr_vector R) 0 (cr_capacity R);
     Some (cr_add_values R vector (cr_capacity R))
   }"

fun position_loop :: "int \<Rightarrow> pmv \<Rightarrow> nat \<Rightarrow> nat \<Rightarrow> pmv option" where
  "position_loop i vector offset 0 = Some vector"
| "position_loop i vector offset (Suc n) = do {
     vector \<leftarrow> value_memcpy_value vector offset (int_bytes 8 i) 8;
     position_loop (i + 1) vector (offset + 8) n
   }"

text \<open>The cast \<open>size as i64\<close> wraps; the sum \<open>value + size as i64\<close> is checked.\<close>

definition cr_set_position :: "column_reader \<Rightarrow> int \<Rightarrow> nat \<Rightarrow> column_reader option" where
  "cr_set_position R value n = do {
     let offset = pmv_num_values (cr_vector R) * 8;
     let len = le_int (int_bytes 8 (int n));
     ensure (fits_int True 8 (value + len));
     vector \<leftarrow> position_loop value (cr_vector R) offset (nat len);
     Some (cr_add_values R vector n)
   }"

fun deleted_loop :: "u8 list \<Rightarrow> nat \<Rightarrow> u8 list \<Rightarrow> u8 list option" where
  "deleted_loop [] i dst = Some dst"
| "deleted_loop (b # bs) i dst = do {
     dst \<leftarrow> (if b = 1 then bit_set_bit dst i else if b = 0 then bit_unset_bit dst i else Some dst);
     deleted_loop bs (i + 1) dst
   }"

definition cr_set_is_deleted :: "column_reader \<Rightarrow> u8 list \<Rightarrow> column_reader option" where
  "cr_set_is_deleted R buffer = do {
     b \<leftarrow> cb_as_slice_mut (pmv_values (cr_vector R)) (deleted_loop buffer 0);
     Some (cr_add_values R (pmv_set_values (cr_vector R) b) (length buffer))
   }"

end
