(* ===== verification/Column_Reader_Spec.thy ===== *)
theory Column_Reader_Spec
  imports Column_Reader
begin

text \<open>
  What the column reader delivers: setting a page and reading it in batches of any sizes, with skips and padding
  in between, refines a machine on the list of slots the page encodes; falling back from a dictionary to plain
  pages looks every index up.
\<close>

subsection \<open>The decoder object\<close>

fun dyn_vals :: "data_type \<Rightarrow> nat \<Rightarrow> decoder \<Rightarrow> u8 list list \<Rightarrow> bool" where
  "dyn_vals T w (PlainDecoder d) xs \<longleftrightarrow> plain_blocks T w d xs"
| "dyn_vals T w (DictDecoder d) xs \<longleftrightarrow> w = 4 \<and> dict_blocks d xs"

interpretation dyn: value_decoder "dyn_read T" "dyn_read_batch T" "dyn_skip_batch T" w "dyn_vals T w" for T w
proof
  fix d :: decoder and xs ys :: "u8 list list" and x :: "u8 list" and v
  show "dyn_vals T w d xs \<Longrightarrow> list_all (\<lambda>x. length x = w) xs"
    by (cases d) (auto dest: plain.vals_width dict.vals_width)
  show "\<exists>d'. dyn_read T d v = Some (d', pmv_write w v [x]) \<and> dyn_vals T w d' ys"
    if "dyn_vals T w d (x # ys)" "pmv_fits w v 1"
    using that by (cases d) (auto dest!: plain.read_law dict.read_law)
  show "\<exists>d'. dyn_read_batch T d v (length xs) = Some (d', pmv_write w v xs) \<and> dyn_vals T w d' ys"
    if "dyn_vals T w d (xs @ ys)" "pmv_fits w v (length xs)"
    using that by (cases d) (auto dest!: plain.read_batch_law dict.read_batch_law)
  show "\<exists>d'. dyn_skip_batch T d (length xs) = Some d' \<and> dyn_vals T w d' ys"
    if "dyn_vals T w d (xs @ ys)"
    using that by (cases d) (auto dest!: plain.skip_batch_law dict.skip_batch_law)
qed

subsection \<open>Levels of a page\<close>

lemma level_bit_width_spec:
  assumes "unat m < 2 ^ 15"
  obtains bw where "level_bit_width m = Some bw" and "unat bw \<le> 16" and "bw = 0 \<longleftrightarrow> m = 0"
proof -
  let ?x = "scast m :: u64"
  have "\<not> bit (unat m) 15" using assms by (simp add: bit_iff_odd)
  then have "\<not> bit m 15" by (simp add: bit_unsigned_iff)
  moreover have "n = 15" if "bit m n" "15 \<le> n" for n
    using bit_imp_le_length [OF that(1)] that(2) by simp
  ultimately have "?x = ucast m"
    by (intro bit_word_eqI) (auto simp: bit_simps min_def not_less)
  moreover have "unat (ucast m :: u64) = unat m"
    using assms by (simp add: unsigned_ucast_eq take_bit_nat_eq_self)
  ultimately have x: "unat ?x = unat m" by simp
  then have x1: "unat (?x + 1) = unat m + 1" using assms by (simp add: unat_word_ariths)
  then have nz: "?x + 1 \<noteq> 0" by auto
  obtain n where n: "log2 (?x + 1) = Some n" "unat (?x + 1) \<le> 2 ^ n" "0 < n \<Longrightarrow> 2 ^ (n - 1) < unat (?x + 1)"
    using log2_spec [of "?x + 1"] nz by blast
  have le: "n \<le> 16"
  proof (rule ccontr)
    assume "\<not> n \<le> 16"
    then have "(2 :: nat) ^ 16 \<le> 2 ^ (n - 1)" by (intro power_increasing) simp_all
    also have "\<dots> < unat m + 1" using n(3) \<open>\<not> n \<le> 16\<close> x1 by simp
    finally show False using assms by simp
  qed
  have "n = 0 \<longleftrightarrow> m = 0"
  proof
    assume "n = 0"
    then show "m = 0" using n(2) x1 by (simp add: unat_eq_zero)
  next
    assume m: "m = 0"
    show "n = 0"
    proof (rule ccontr)
      assume "n \<noteq> 0"
      then have "(2 :: nat) ^ (n - 1) < 1" using n(3) x1 m by simp
      then show False by simp
    qed
  qed
  moreover have "(of_nat n :: u8) = 0 \<longleftrightarrow> n = 0" using le by (auto simp: word_of_nat_eq_0_iff dest: dvd_imp_le)
  moreover have "unat (of_nat n :: u8) = n" using le by (simp add: unat_of_nat take_bit_nat_eq_self)
  ultimately show ?thesis using that [of "of_nat n"] n(1) nz le by (simp add: level_bit_width_def)
qed

text \<open>
  \<open>level_stream m need part n ls\<close>: the part of a page that holds the definition levels encodes \<open>ls\<close>, of which the
  first \<open>n\<close> count; a column whose maximal level is zero has no such part.
\<close>

definition level_stream :: "16 word \<Rightarrow> bool \<Rightarrow> u8 list \<Rightarrow> nat \<Rightarrow> u32 list \<Rightarrow> bool" where
  "level_stream m need part n ls \<longleftrightarrow> unat m < 2 ^ 15 \<and> n \<le> length ls \<and>
     (if m = 0 then part = [] \<and> ls = replicate n 0
      else \<exists>body bw. level_bit_width m = Some bw \<and> length body < 2 ^ 32 \<and>
        part = (if need then le_bytes (of_nat (length body) :: u32) @ body else body) \<and>
        hybrid (unat bw) (byte_bit body) (8 * length body) 0 ls)"

definition slot_flags :: "16 word \<Rightarrow> nat \<Rightarrow> u32 list \<Rightarrow> bool list" where
  "slot_flags m n ls = map (\<lambda>v. v = ucast m) (take n ls)"

lemma length_slot_flags [simp]: "n \<le> length ls \<Longrightarrow> length (slot_flags m n ls) = n"
  by (simp add: slot_flags_def)

lemma set_levels:
  assumes s: "level_stream m need part n ls"
  obtains bw l gs where "level_bit_width m = Some bw"
    and "level_set_data (level_new m bw need) n (if need then part @ rest else part) =
      Some (if need then length part else 0, l)"
    and "level_flags l (slot_flags m n ls @ gs)"
proof -
  have m: "unat m < 2 ^ 15" and n: "n \<le> length ls" using s by (simp_all add: level_stream_def)
  obtain bw where bw: "level_bit_width m = Some bw" "unat bw \<le> 16" "bw = 0 \<longleftrightarrow> m = 0"
    by (rule level_bit_width_spec [OF m])
  show ?thesis
  proof (cases "m = 0")
    case True
    let ?l = "(level_new 0 0 need)\<lparr>ld_num_values := n, ld_mode := RLE, ld_current_count := n\<rparr>"
    have "level_set_data (level_new 0 0 need) n (if need then part @ rest else part) =
        Some (if need then length part else 0, ?l)"
      using s True by (simp add: level_set_data_def level_new_def level_stream_def)
    moreover have "level_flags ?l (slot_flags m n ls @ [])"
      using s True
      by (simp add: level_flags_def level_new_def level_stream_def run_flags_def level_rest_def slot_flags_def rle_defined_def)
    ultimately show ?thesis using bw True by (intro that [of bw ?l "[]"]) simp_all
  next
    case False
    then obtain body where b: "length body < 2 ^ 32" "hybrid (unat bw) (byte_bit body) (8 * length body) 0 ls"
      and part: "part = (if need then le_bytes (of_nat (length body) :: u32) @ body else body)"
      using s bw(1) by (auto simp: level_stream_def)
    have page: "(if need then part @ rest else part) = level_page need body rest"
      by (simp add: part level_page_def)
    obtain l where "level_set_data (level_new m bw need) n (level_page need body rest) =
        Some (if need then 4 + length body else 0, l)" and fl: "level_flags l (map (\<lambda>v. v = ucast m) ls)"
      by (rule level_set_data_flags [OF _ bw(2) m b]) (use False bw(3) in auto)
    moreover have "map (\<lambda>v. v = ucast m) ls = slot_flags m n ls @ map (\<lambda>v. v = ucast m) (drop n ls)"
      by (simp add: slot_flags_def flip: map_append)
    ultimately show ?thesis using that [OF bw(1)] unfolding page by (simp add: part)
  qed
qed

subsection \<open>Reading a page\<close>

text \<open>A page in the middle of being read: the flags of its remaining slots and the values they select.\<close>

definition page_state :: "data_type \<Rightarrow> nat \<Rightarrow> column_reader \<Rightarrow> bool list \<Rightarrow> u8 list list \<Rightarrow> bool" where
  "page_state T w R fs xs \<longleftrightarrow> cr_num_values_in_page R = length fs \<and> length xs = count_list fs True \<and>
     (\<exists>l gs d ys. cr_def_level_decoder R = Some l \<and> level_flags l (fs @ gs) \<and>
        cr_value_decoder R = Some d \<and> dyn_vals T w d (xs @ ys))"

lemma merge_take:
  "take n (merge fs xs) = merge (take n fs) (take (count_list (take n fs) True) xs)"
  by (induction fs xs arbitrary: n rule: merge.induct) (auto simp: take_Cons split: nat.split)

lemma merge_drop:
  "length xs = count_list fs True \<Longrightarrow>
     drop n (merge fs xs) = merge (drop n fs) (drop (count_list (take n fs) True) xs)"
  by (induction fs xs arbitrary: n rule: merge.induct) (auto simp: drop_Cons take_Cons split: nat.split)

lemma count_list_split:
  fixes fs :: "'a list"
  shows "count_list fs x = count_list (take n fs) x + count_list (drop n fs) x"
  by (simp flip: count_list_append)

lemma page_read_batch:
  assumes st: "page_state T w R fs xs" and inv: "pmv_inv w (cr_vector R)"
    and room: "pmv_room w (cr_vector R) (pad + min (length fs) tot)"
    and n: "n = min (length fs) tot" and k: "k = count_list (take n fs) True"
  obtains nulls R' where "cr_read_batch T R tot pad = Some ((n, nulls), R')"
    and "page_state T w R' (drop n fs) (drop k xs)"
    and "appended w (cr_vector R) (replicate pad None @ take n (merge fs xs)) (cr_vector R')"
    and "nulls = length (filter (\<lambda>x. x = None) (replicate pad None @ take n (merge fs xs)))"
    and "cr_desc R' = cr_desc R"
proof -
  obtain l gs d ys where p: "cr_num_values_in_page R = length fs" "length xs = count_list fs True"
    and l: "cr_def_level_decoder R = Some l" "level_flags l (fs @ gs)"
    and d: "cr_value_decoder R = Some d" "dyn_vals T w d (xs @ ys)"
    using st by (auto simp: page_state_def)
  obtain v1 where v1: "put_nulls (cr_vector R) pad = Some v1" "appended w (cr_vector R) (replicate pad None) v1"
    by (rule appended_nulls [OF inv pmv_room_mono [OF room, of pad]]) simp_all
  have room1: "pmv_room w v1 (length (take n fs))"
    by (rule appended_room [OF v1(2)]) (use room n in \<open>simp add: min.commute\<close>)
  have kx: "k \<le> length xs" using p(2) k count_list_split [of fs True n] by simp
  have "dyn_vals T w d (take k xs @ (drop k xs @ ys))" using d(2) by (simp flip: append_assoc)
  moreover have "level_flags l (take n fs @ (drop n fs @ gs))" using l(2) by (simp flip: append_assoc)
  moreover have "length (take k xs) = count_list (take n fs) True" "n = length (take n fs)" using kx k n by simp_all
  ultimately obtain l' v' d' where run: "level_read_loop (dyn_read T) (dyn_read_batch T) l n v1 d = Some (l', v', d')"
    and l': "level_flags l' (drop n fs @ gs)" and d': "dyn_vals T w d' (drop k xs @ ys)"
    and ap: "appended w v1 (merge (take n fs) (take k xs)) v'"
    using dyn.read_loop_spec [OF appended_inv [OF v1(2)] room1] by blast
  have ap2: "appended w (cr_vector R) (replicate pad None @ take n (merge fs xs)) v'"
    using appended_trans [OF v1(2) ap] by (simp add: merge_take k)
  have nulls: "pmv_num_nulls v' = pmv_num_nulls (cr_vector R) +
      length (filter (\<lambda>x. x = None) (replicate pad None @ take n (merge fs xs)))"
    using ap2 num_nulls_elems [OF inv] num_nulls_elems [OF appended_inv [OF ap2]]
    by (simp add: appended_def)
  let ?R = "R\<lparr>cr_num_values_in_page := length fs - n, cr_vector := v',
    cr_def_level_decoder := Some l', cr_value_decoder := Some d'\<rparr>"
  have "cr_read_batch T R tot pad =
      Some ((n, length (filter (\<lambda>x. x = None) (replicate pad None @ take n (merge fs xs)))), ?R)"
    using v1(1) run l(1) d(1) nulls p(1) n
    by (simp add: cr_read_batch_def level_read_batch_def usub_def ensure_def Let_def)
  moreover have "page_state T w ?R (drop n fs) (drop k xs)"
    using l' d' p(2) k kx count_list_split [of fs True n] by (auto simp: page_state_def)
  ultimately show ?thesis using ap2 by (intro that [of _ ?R]) simp_all
qed

lemma page_skip_batch:
  assumes st: "page_state T w R fs xs" and inv: "pmv_inv w (cr_vector R)"
    and room: "nulls \<Longrightarrow> pmv_room w (cr_vector R) (min (length fs) tot)"
    and n: "n = min (length fs) tot" and k: "k = count_list (take n fs) True"
  obtains R' where "cr_skip_batch T R tot nulls = Some (n, R')" and "page_state T w R' (drop n fs) (drop k xs)"
    and "appended w (cr_vector R) (if nulls then replicate n None else []) (cr_vector R')"
    and "cr_desc R' = cr_desc R"
proof -
  obtain l gs d ys where p: "cr_num_values_in_page R = length fs" "length xs = count_list fs True"
    and l: "cr_def_level_decoder R = Some l" "level_flags l (fs @ gs)"
    and d: "cr_value_decoder R = Some d" "dyn_vals T w d (xs @ ys)"
    using st by (auto simp: page_state_def)
  have kx: "k \<le> length xs" using p(2) k count_list_split [of fs True n] by simp
  have "dyn_vals T w d (take k xs @ (drop k xs @ ys))" using d(2) by (simp flip: append_assoc)
  moreover have "level_flags l (take n fs @ (drop n fs @ gs))" using l(2) by (simp flip: append_assoc)
  ultimately obtain l' v' d' where run: "level_skip_loop (dyn_skip_batch T) nulls l n (cr_vector R) d = Some (l', v', d')"
    and l': "level_flags l' (drop n fs @ gs)" and d': "dyn_vals T w d' (drop k xs @ ys)"
    and ap: "if nulls then appended w (cr_vector R) (replicate n None) v' else v' = cr_vector R"
    using dyn.skip_loop_spec [OF inv, of nulls "take n fs" T d "take k xs" "drop k xs @ ys" l "drop n fs @ gs" n]
      kx n k room by (auto simp: min_absorb2 min.commute)
  let ?R = "R\<lparr>cr_num_values_in_page := length fs - n, cr_vector := v',
    cr_def_level_decoder := Some l', cr_value_decoder := Some d'\<rparr>"
  have "cr_skip_batch T R tot nulls = Some (n, ?R)"
    using run l(1) d(1) p(1) n by (simp add: cr_skip_batch_def level_skip_batch_def ensure_def Let_def)
  moreover have "page_state T w ?R (drop n fs) (drop k xs)"
    using l' d' p(2) k kx count_list_split [of fs True n] by (auto simp: page_state_def)
  moreover have "appended w (cr_vector R) (if nulls then replicate n None else []) v'"
    using ap inv by (cases nulls) (simp_all add: appended_refl)
  ultimately show ?thesis by (intro that [of ?R]) simp_all
qed

subsection \<open>Setting a page\<close>

text \<open>
  The values that the value part of a page encodes: for a plain page the blocks the type makes of its bytes, for
  a page of dictionary indices the four bytes of each index.
\<close>

definition page_values :: "data_type \<Rightarrow> column_desc \<Rightarrow> read_options \<Rightarrow> nat \<Rightarrow> encoding \<Rightarrow> u8 list \<Rightarrow> u8 list list \<Rightarrow> bool" where
  "page_values T desc opts w enc data xs \<longleftrightarrow>
     (case enc of
        PLAIN \<Rightarrow> is_fixed T \<and> length_ok T desc \<and> w = dst_width T desc \<and>
          (\<exists>bs. blocks_at data 0 (src_width T desc) bs \<and>
            list_all2 (\<lambda>b x. plain_value T (use_legacy_date_timestamp_or_ntz opts) b = Some x) bs xs)
      | RLE_DICTIONARY \<Rightarrow> w = 4 \<and>
          (\<exists>bw buf us vs. data = bw # buf \<and> unat bw \<le> 32 \<and> xs = map le_bytes us \<and>
            hybrid (unat bw) (byte_bit buf) (8 * length buf) 0 (us @ vs))
      | _ \<Rightarrow> False)"

lemma get_decoder_values:
  assumes "page_values T desc opts w enc data xs"
  obtains d ys where "get_decoder data enc desc opts = Some d" and "dyn_vals T w d (xs @ ys)"
proof (cases enc)
  case PLAIN
  obtain r where "br_new data (length data) = Some r" by (rule br_new_spec [of "length data" data]) auto
  moreover obtain d where d: "d = \<lparr>pd_data = data, pd_offset = 0, pd_bit_reader = r, pd_read_options = opts, pd_desc = desc\<rparr>"
    by simp
  moreover have "plain_blocks T w d xs"
    using assms PLAIN by (simp add: page_values_def plain_blocks_def plain_legacy_def d)
  ultimately show ?thesis
    using PLAIN by (intro that [of "PlainDecoder d" "[]"]) (simp_all add: get_decoder_def plain_new_def)
next
  case RLE_DICTIONARY
  then obtain bw buf us vs where a: "w = 4" "data = bw # buf" "unat bw \<le> 32" "xs = map le_bytes (us :: u32 list)"
    "hybrid (unat bw) (byte_bit buf) (8 * length buf) 0 (us @ vs)"
    using assms by (auto simp: page_values_def)
  obtain d where "dict_new data = Some d" "dict_vals d (us @ vs)"
    by (rule dict_new_vals [of data "us @ vs"]) (use a in simp_all)
  then show ?thesis
    using RLE_DICTIONARY a dict_blocks_map [of d "us @ vs"]
    by (intro that [of "DictDecoder d" "map le_bytes vs"]) (simp_all add: get_decoder_def)
qed (use assms in \<open>simp_all add: page_values_def\<close>)

definition set_page :: "bool \<Rightarrow> data_type \<Rightarrow> column_reader \<Rightarrow> nat \<Rightarrow> u8 list \<Rightarrow> u8 list \<Rightarrow> encoding \<Rightarrow> column_reader option" where
  "set_page v1 T R n part data enc =
     (if v1 then cr_set_page_v1 T R n (part @ data) enc else cr_set_page_v2 T R n part [] data enc)"

lemma level_bit_width_0: "level_bit_width 0 = Some 0"
  by code_simp

lemma set_page_spec:
  assumes rep: "cd_max_rep_level (cr_desc R) = 0" and lev: "level_stream (cd_max_def_level (cr_desc R)) v1 part n ls"
    and vals: "page_values T (cr_desc R) (cr_read_options R) w enc data xs"
    and dict: "enc = PLAIN \<Longrightarrow> pmv_dictionary (cr_vector R) = None"
    and len: "length xs = count_list (slot_flags (cd_max_def_level (cr_desc R)) n ls) True"
  obtains R' where "set_page v1 T R n part data enc = Some R'"
    and "page_state T w R' (slot_flags (cd_max_def_level (cr_desc R)) n ls) xs"
    and "cr_vector R' = cr_vector R" and "cr_desc R' = cr_desc R"
proof -
  let ?m = "cd_max_def_level (cr_desc R)"
  obtain d ys where d: "get_decoder data enc (cr_desc R) (cr_read_options R) = Some d" "dyn_vals T w d (xs @ ys)"
    by (rule get_decoder_values [OF vals])
  obtain bw l gs where l: "level_bit_width ?m = Some bw"
    "level_set_data (level_new ?m bw v1) n (if v1 then part @ data else part) = Some (if v1 then length part else 0, l)"
    "level_flags l (slot_flags ?m n ls @ gs)" by (rule set_levels [OF lev])
  have enc: "enc \<noteq> PLAIN_DICTIONARY" using vals by (auto simp: page_values_def)
  have chk: "cr_check_dictionary T (R\<lparr>cr_num_values_in_page := n\<rparr>) enc = Some (R\<lparr>cr_num_values_in_page := n\<rparr>)"
    using dict by (auto simp: cr_check_dictionary_def)
  have rl: "level_set_data (level_new ?m 0 need) n page = Some (0, (level_new ?m 0 need)
      \<lparr>ld_num_values := n, ld_mode := RLE, ld_current_count := n\<rparr>)" for need page
    by (simp add: level_set_data_def level_new_def)
  define R' where "R' = R\<lparr>cr_num_values_in_page := n,
    cr_rep_level_decoder := Some ((level_new ?m 0 v1)\<lparr>ld_num_values := n, ld_mode := RLE, ld_current_count := n\<rparr>),
    cr_def_level_decoder := Some l, cr_value_decoder := Some d\<rparr>"
  have "set_page v1 T R n part data enc = Some R'"
    using enc chk rl l(1,2) d(1) rep
    by (cases v1) (simp_all add: set_page_def cr_set_page_v1_def cr_set_page_v2_def level_bit_width_0
        slice_from_def R'_def)
  moreover have "n \<le> length ls" using lev by (simp add: level_stream_def)
  then have "page_state T w R' (slot_flags ?m n ls) xs"
    using l(3) d(2) len by (auto simp: page_state_def R'_def)
  ultimately show ?thesis by (intro that [of R']) (simp_all add: R'_def)
qed

subsection \<open>Sequences of operations\<close>

text \<open>The operations a client performs on a page, and the machine on slots that they refine.\<close>

datatype page_op = ReadBatch nat nat | SkipBatch nat bool

fun run_op :: "data_type \<Rightarrow> column_reader \<Rightarrow> page_op \<Rightarrow> column_reader option" where
  "run_op T R (ReadBatch tot pad) = map_option snd (cr_read_batch T R tot pad)"
| "run_op T R (SkipBatch tot nulls) = map_option snd (cr_skip_batch T R tot nulls)"

fun run_ops :: "data_type \<Rightarrow> column_reader \<Rightarrow> page_op list \<Rightarrow> column_reader option" where
  "run_ops T R [] = Some R"
| "run_ops T R (a # as) = do { R \<leftarrow> run_op T R a; run_ops T R as }"

fun op_slots :: "page_op \<Rightarrow> 'a option list \<Rightarrow> 'a option list \<times> 'a option list" where
  "op_slots (ReadBatch tot pad) slots = (replicate pad None @ take tot slots, drop tot slots)"
| "op_slots (SkipBatch tot nulls) slots =
     (if nulls then replicate (min (length slots) tot) None else [], drop tot slots)"

fun ops_slots :: "page_op list \<Rightarrow> 'a option list \<Rightarrow> 'a option list" where
  "ops_slots [] slots = []"
| "ops_slots (a # as) slots = (case op_slots a slots of (out, rest) \<Rightarrow> out @ ops_slots as rest)"

lemma merge_rest:
  assumes "page_state T w R fs xs" and "n = min (length fs) tot"
  shows "drop tot (merge fs xs) = merge (drop n fs) (drop (count_list (take n fs) True) xs)"
    and "take n (merge fs xs) = take tot (merge fs xs)"
  using assms merge_drop [of xs fs n] by (auto simp: page_state_def min_def)

lemma run_op_spec:
  assumes st: "page_state T w R fs xs" and inv: "pmv_inv w (cr_vector R)"
    and a: "op_slots a (merge fs xs) = (out, rest)" and room: "pmv_room w (cr_vector R) (length out)"
  obtains R' gs ys where "run_op T R a = Some R'" and "page_state T w R' gs ys"
    and "rest = merge gs ys" and "appended w (cr_vector R) out (cr_vector R')"
proof (cases a)
  case (ReadBatch tot pad)
  let ?n = "min (length fs) tot"
  note m = merge_rest [OF st refl, of tot]
  have r: "pmv_room w (cr_vector R) (pad + ?n)"
    using room a ReadBatch by (auto simp: min.commute)
  obtain nulls R' where "cr_read_batch T R tot pad = Some ((?n, nulls), R')"
    and ps: "page_state T w R' (drop ?n fs) (drop (count_list (take ?n fs) True) xs)"
    and "appended w (cr_vector R) (replicate pad None @ take ?n (merge fs xs)) (cr_vector R')"
    using page_read_batch [OF st inv r refl refl] .
  then show ?thesis using a ReadBatch m by (intro that [OF _ ps]) auto
next
  case (SkipBatch tot nulls)
  let ?n = "min (length fs) tot"
  note m = merge_rest [OF st refl, of tot]
  have r: "nulls \<Longrightarrow> pmv_room w (cr_vector R) ?n" using room a SkipBatch by auto
  obtain R' where "cr_skip_batch T R tot nulls = Some (?n, R')"
    and ps: "page_state T w R' (drop ?n fs) (drop (count_list (take ?n fs) True) xs)"
    and "appended w (cr_vector R) (if nulls then replicate ?n None else []) (cr_vector R')"
    using page_skip_batch [OF st inv r refl refl] .
  then show ?thesis using a SkipBatch m by (intro that [OF _ ps]) auto
qed

lemma run_ops_spec:
  assumes "page_state T w R fs xs" and "pmv_inv w (cr_vector R)"
    and "pmv_room w (cr_vector R) (length (ops_slots as (merge fs xs)))"
  shows "\<exists>R'. run_ops T R as = Some R' \<and> appended w (cr_vector R) (ops_slots as (merge fs xs)) (cr_vector R')"
  using assms
proof (induction as arbitrary: R fs xs)
  case Nil
  then show ?case by (simp add: appended_refl)
next
  case (Cons a as)
  obtain out rest where o: "op_slots a (merge fs xs) = (out, rest)" by fastforce
  then have room: "pmv_room w (cr_vector R) (length out + length (ops_slots as rest))" using Cons.prems(3) by simp
  obtain R1 gs ys where R1: "run_op T R a = Some R1" "page_state T w R1 gs ys" "rest = merge gs ys"
    "appended w (cr_vector R) out (cr_vector R1)"
    by (rule run_op_spec [OF Cons.prems(1,2) o pmv_room_mono [OF room]]) simp_all
  have "pmv_room w (cr_vector R1) (length (ops_slots as (merge gs ys)))"
    using appended_room [OF R1(4)] room R1(3) by simp
  from Cons.IH [OF R1(2) appended_inv [OF R1(4)] this] obtain R' where
    "run_ops T R1 as = Some R'" "appended w (cr_vector R1) (ops_slots as (merge gs ys)) (cr_vector R')" by blast
  then show ?case using R1 o appended_trans [OF R1(4)] by simp
qed

subsection \<open>Falling back from a dictionary\<close>

definition dict_entry :: "nat \<Rightarrow> pmv \<Rightarrow> nat \<Rightarrow> u8 list" where
  "dict_entry w D k = take w (drop (k * w) (cb_data (pmv_values D)))"

text \<open>The types, with the width of an element and of the Arrow type in bits, whose dictionary entries are copied.\<close>

fun dict_copies :: "data_type \<Rightarrow> nat \<Rightarrow> nat \<Rightarrow> bool" where
  "dict_copies T w bit_width \<longleftrightarrow>
     (if T \<in> {Int8Type, UInt8Type, Int16Type, UInt16Type, Int32Type, UInt32Type, Int32DateType, Int64Type, FloatType,
          Int64ToDecimal64Type, FLBAType, DoubleType, Int64TimestampMillisType, Int64TimestampMicrosType}
      then bit_width = 8 * w
      else if T \<in> {Int32DecimalType, Int64DecimalType, UInt64Type, FLBADecimalType} then w = 16
      else if T \<in> {FLBADecimal64Type, Int96TimestampMicrosType} then w = 8
      else T = FLBADecimal32Type \<and> w = 4)"

declare dict_copies.simps [simp del]

lemma decode_dict_one_spec:
  assumes T: "dict_copies T w bit_width" and D: "cb_inv (pmv_values D)" "(k + 1) * w \<le> cb_len (pmv_values D)"
    and own: "cb_owned (pmv_values dst)" and room: "(pmv_num_values dst + 1) * w \<le> length (cb_data (pmv_values dst))"
  shows "decode_dict_one T (pmv_num_values dst) k D dst bit_width =
    Some (pmv_put dst (pmv_num_values dst * w) (dict_entry w D k))"
proof -
  let ?i = "pmv_num_values dst"
  have le: "k * w + w \<le> length (cb_data (pmv_values D))" "?i * w + w \<le> length (cb_data (pmv_values dst))"
    using D room by (simp_all add: cb_inv_def)
  have s: "slice_range (cb_deref (pmv_values D)) (k * w) (k * w + w) = Some (dict_entry w D k)"
    using D le(1) by (simp add: slice_range_def cb_deref_def cb_inv_def dict_entry_def)
  have len: "length (dict_entry w D k) = w" using le(1) by (simp add: dict_entry_def)
  have m: "value_memcpy dst (?i * w) (dict_entry w D k) = Some (pmv_put dst (?i * w) (dict_entry w D k))"
    using own le(2) len by (intro value_memcpy_eq) simp_all
  have copy: "dict_one_copy ?i k D dst (8 * w) = Some (pmv_put dst (?i * w) (dict_entry w D k))"
    using s m by (simp add: dict_one_copy_def add.commute)
  have variant: "dict_one_variant w w (\<lambda>b. b) ?i k D dst = Some (pmv_put dst (?i * w) (dict_entry w D k))"
    using le own by (simp add: dict_one_variant_def ensure_def pmv_put_def dict_entry_def Let_def)
  have flba: "dict_one_flba_decimal w k D dst = Some (pmv_put dst (?i * w) (dict_entry w D k))"
    using s m by (simp add: dict_one_flba_decimal_def add.commute)
  have int96: "dict_one_int96 k D dst = Some (pmv_put dst (?i * w) (dict_entry w D k))" if "w = 8"
    using s m that by (simp add: dict_one_int96_def INT96_DST_BYTE_WIDTH_def)
  show ?thesis
    using T copy variant flba int96 by (cases T) (simp_all add: dict_copies.simps)
qed

text \<open>The loop leaves the earlier elements alone and writes the entry of every index.\<close>

lemma dict_entry_put:
  assumes "(i + 1) * w \<le> length (cb_data (pmv_values v))" and "length x = w"
  shows "dict_entry w (pmv_put v (i * w) x) i = x"
    and "j < i \<Longrightarrow> dict_entry w (pmv_put v (i * w) x) j = dict_entry w v j"
proof -
  show "dict_entry w (pmv_put v (i * w) x) i = x"
    using take_drop_overwrite_inside [of 0 w x "i * w" "cb_data (pmv_values v)"] assms
    by (simp add: dict_entry_def)
next
  assume "j < i"
  then have "(j + 1) * w \<le> i * w" by (intro mult_le_mono1) simp
  then show "dict_entry w (pmv_put v (i * w) x) j = dict_entry w v j"
    using take_drop_overwrite_before [of "j * w" w "i * w" "cb_data (pmv_values v)" x] assms
    by (simp add: dict_entry_def)
qed

definition same_vector :: "pmv \<Rightarrow> pmv \<Rightarrow> bool" where
  "same_vector v v' \<longleftrightarrow> pmv_type v' = pmv_type v \<and> pmv_validity v' = pmv_validity v \<and> pmv_children v' = pmv_children v \<and>
     pmv_dictionary v' = pmv_dictionary v \<and> length (cb_data (pmv_values v')) = length (cb_data (pmv_values v)) \<and>
     (pmv_values v')\<lparr>cb_data := []\<rparr> = (pmv_values v)\<lparr>cb_data := []\<rparr>"

lemma same_vector_owned: "same_vector v v' \<Longrightarrow> cb_owned (pmv_values v') = cb_owned (pmv_values v)"
  unfolding same_vector_def by (metis comet_buffer.simps(4) comet_buffer.update_convs(1) comet_buffer.surjective)

lemma same_vector_inv: "same_vector v v' \<Longrightarrow> cb_inv (pmv_values v) \<Longrightarrow> cb_inv (pmv_values v')"
  unfolding same_vector_def by (cases "pmv_values v"; cases "pmv_values v'") (simp add: cb_inv_def)

lemma same_vector_trans: "same_vector v v' \<Longrightarrow> same_vector v' v'' \<Longrightarrow> same_vector v v''"
  by (simp add: same_vector_def)

lemma same_vector_put:
  "off + length x \<le> length (cb_data (pmv_values v)) \<Longrightarrow> same_vector v (pmv_put v off x)"
  by (simp add: same_vector_def length_overwrite) (simp add: pmv_put_def)

lemma same_vector_counts: "same_vector v (pmv_set_counts v a b)"
  by (simp add: same_vector_def)

lemma num_nulls_put [simp]: "pmv_num_nulls (pmv_put v off x) = pmv_num_nulls v"
  by (simp add: pmv_put_def)

definition index_at :: "u8 list \<Rightarrow> nat \<Rightarrow> nat" where
  "index_at data j = unat (le_word (take 4 (drop (4 * j) data)) :: u32)"

lemma decode_dict_loop_spec:
  assumes T: "dict_copies T w bit_width" and D: "cb_inv (pmv_values D)"
    and ix: "\<And>j. i \<le> j \<Longrightarrow> j < i + n \<Longrightarrow> byte_bit vb j \<Longrightarrow> (index_at data j + 1) * w \<le> cb_len (pmv_values D)"
    and vb: "i + n \<le> 8 * length vb" and data: "4 * (i + n) \<le> length data"
    and i: "pmv_num_values dst = i" and own: "cb_owned (pmv_values dst)" and nb: "\<not> is_binary_type (pmv_type dst)"
    and room: "(i + n) * w \<le> length (cb_data (pmv_values dst))"
  shows "\<exists>v. decode_dict_loop T D bit_width vb (drop (4 * i) data) i n dst = Some v \<and> same_vector dst v \<and>
    pmv_num_values v = i + n \<and>
    pmv_num_nulls v = pmv_num_nulls dst + length (filter (\<lambda>j. \<not> byte_bit vb j) [i..<i + n]) \<and>
    (\<forall>j<i. dict_entry w v j = dict_entry w dst j) \<and>
    (\<forall>j. i \<le> j \<and> j < i + n \<and> byte_bit vb j \<longrightarrow> dict_entry w v j = dict_entry w D (index_at data j))"
  using ix vb data i own nb room
proof (induction n arbitrary: i dst)
  case 0
  then show ?case by (auto simp: same_vector_def)
next
  case (Suc n)
  have gb: "bit_get_bit vb i = Some (byte_bit vb i)" using Suc.prems(2) by (simp add: bit_get_bit_eq)
  have room: "(i + 1) * w \<le> length (cb_data (pmv_values dst))"
    using Suc.prems(7) by (rule le_trans [rotated]) simp
  let ?x = "dict_entry w D (index_at data i)"
  define d1 where "d1 = (if byte_bit vb i
    then pmv_set_counts (pmv_put dst (i * w) ?x) (i + 1) (pmv_num_nulls dst)
    else pmv_set_counts dst (i + 1) (pmv_num_nulls dst + 1))"
  have len: "length ?x = w" if "byte_bit vb i"
    using Suc.prems(1) [of i] that D by (simp add: dict_entry_def cb_inv_def)
  have off: "i * w + w \<le> length (cb_data (pmv_values dst))" using room by simp
  have step: "decode_dict_loop T D bit_width vb (drop (4 * i) data) i (Suc n) dst =
      decode_dict_loop T D bit_width vb (drop (4 * (i + 1)) data) (i + 1) n d1"
  proof (cases "byte_bit vb i")
    case True
    have "get_u32_le_at (drop (4 * i) data) 0 = Some (index_at data i)"
      using Suc.prems(3) by (simp add: get_u32_le_at_def slice_from_def ensure_def index_at_def)
    moreover have "decode_dict_one T i (index_at data i) D dst bit_width = Some (pmv_put dst (i * w) ?x)"
      using decode_dict_one_spec [OF T D, of "index_at data i" dst] Suc.prems(1) [of i] True Suc.prems(4,5) room by simp
    ultimately show ?thesis using True gb Suc.prems(4) by (simp add: d1_def add.commute)
  next
    case False
    moreover have "4 \<le> length data - 4 * i" using Suc.prems(3) by simp
    ultimately show ?thesis
      using gb Suc.prems(4,6) by (simp add: d1_def ensure_def put_null_def put_nulls_def add.commute)
  qed
  have sv: "same_vector dst d1"
  proof (cases "byte_bit vb i")
    case True
    then show ?thesis
      using same_vector_trans [OF same_vector_put [of "i * w" ?x dst] same_vector_counts] len off by (simp add: d1_def)
  qed (simp add: d1_def same_vector_counts)
  have old: "\<forall>j<i. dict_entry w d1 j = dict_entry w dst j"
    and new: "byte_bit vb i \<Longrightarrow> dict_entry w d1 i = ?x"
    using dict_entry_put [of i w dst ?x] room len by (auto simp: d1_def dict_entry_def)
  have cnt: "pmv_num_values d1 = i + 1"
    "pmv_num_nulls d1 = pmv_num_nulls dst + (if byte_bit vb i then 0 else 1)" by (simp_all add: d1_def)
  obtain v where v: "decode_dict_loop T D bit_width vb (drop (4 * (i + 1)) data) (i + 1) n d1 = Some v"
    "same_vector d1 v" "pmv_num_values v = i + 1 + n"
    "pmv_num_nulls v = pmv_num_nulls d1 + length (filter (\<lambda>j. \<not> byte_bit vb j) [i + 1..<i + 1 + n])"
    "\<forall>j<i + 1. dict_entry w v j = dict_entry w d1 j"
    "\<forall>j. i + 1 \<le> j \<and> j < i + 1 + n \<and> byte_bit vb j \<longrightarrow> dict_entry w v j = dict_entry w D (index_at data j)"
    using Suc.IH [of "i + 1" d1] Suc.prems cnt(1) sv same_vector_owned [OF sv]
    by (auto simp: same_vector_def add.assoc)
  have upt: "[i..<i + Suc n] = i # [i + 1..<i + 1 + n]" by (simp add: upt_conv_Cons)
  have "dict_entry w v j = dict_entry w D (index_at data j)" if "i \<le> j" "j < i + Suc n" "byte_bit vb j" for j
    using that v(5,6) new by (cases "j = i") auto
  moreover have "\<forall>j<i. dict_entry w v j = dict_entry w dst j" using v(5) old by simp
  moreover have "pmv_num_nulls v = pmv_num_nulls dst + length (filter (\<lambda>j. \<not> byte_bit vb j) [i..<i + Suc n])"
    unfolding upt v(4) cnt(2) by simp
  ultimately show ?case
    unfolding step v(1) using v(3) same_vector_trans [OF sv v(2)] by simp
qed

lemma index_at_elem:
  "pmv_elem 4 v j = (if byte_bit (cb_data (pmv_validity v)) j
     then Some (take 4 (drop (4 * j) (cb_data (pmv_values v)))) else None)"
  by (simp add: pmv_elem_def mult.commute)

text \<open>Every index of a vector is below the number of entries of its dictionary.\<close>

definition indices_below :: "nat \<Rightarrow> pmv \<Rightarrow> bool" where
  "indices_below n v \<longleftrightarrow> (\<forall>b. Some b \<in> set (pmv_elems 4 v) \<longrightarrow> unat (le_word b :: u32) < n)"

lemma decode_dict_spec:
  assumes T: "dict_copies T w bit_width" and src: "pmv_inv 4 src" "pmv_dictionary src = Some D"
    and D: "cb_inv (pmv_values D)" "n * w \<le> cb_len (pmv_values D)" and ix: "indices_below n src"
    and dst: "pmv_inv w dst" "pmv_num_values dst = 0" "pmv_dictionary dst = None" "pmv_room w dst (pmv_num_values src)"
  obtains v where "decode_dict T src dst bit_width = Some v" and "pmv_inv w v"
    and "pmv_elems w v = map (map_option (\<lambda>b. dict_entry w D (unat (le_word b :: u32)))) (pmv_elems 4 src)"
    and "pmv_dictionary v = None" and "pmv_type v = pmv_type dst" and "pmv_validity v = pmv_validity src"
    and "cb_len (pmv_values v) = cb_len (pmv_values dst)"
proof -
  let ?vb = "cb_data (pmv_validity src)" and ?data = "cb_data (pmv_values src)" and ?k = "pmv_num_values src"
  have sl: "cb_as_slice (pmv_validity src) = ?vb" "cb_as_slice (pmv_values src) = ?data"
    using src(1) by (simp_all add: pmv_inv_def cb_inv_def cb_as_slice_def cb_deref_def)
  have bnd: "(index_at ?data j + 1) * w \<le> cb_len (pmv_values D)" if "j < ?k" "byte_bit ?vb j" for j
  proof -
    have "Some (take 4 (drop (4 * j) ?data)) \<in> set (pmv_elems 4 src)"
      using that by (force simp: pmv_elems_def index_at_elem)
    then have "index_at ?data j < n" using ix by (simp add: indices_below_def index_at_def)
    then have "(index_at ?data j + 1) * w \<le> n * w" by (intro mult_le_mono1) simp
    then show ?thesis using D(2) by simp
  qed
  have z: "pmv_num_nulls dst = 0" using dst(1,2) by (simp add: pmv_inv_def)
  obtain v where v: "decode_dict_loop T D bit_width ?vb (drop (4 * 0) ?data) 0 ?k dst = Some v" "same_vector dst v"
    "pmv_num_values v = 0 + ?k" "pmv_num_nulls v = pmv_num_nulls dst + length (filter (\<lambda>j. \<not> byte_bit ?vb j) [0..<0 + ?k])"
    "\<forall>j. 0 \<le> j \<and> j < 0 + ?k \<and> byte_bit ?vb j \<longrightarrow> dict_entry w v j = dict_entry w D (index_at ?data j)"
    using decode_dict_loop_spec [OF T D(1), of 0 ?k ?vb ?data dst] bnd src(1) dst
    by (auto simp: pmv_inv_def pmv_room_def cb_inv_def mult.commute)
  let ?v = "pmv_set_validity v (pmv_validity src)"
  have vi: "cb_inv (pmv_values v)" using same_vector_inv [OF v(2)] dst(1) by (simp add: pmv_inv_def)
  have ln: "cb_len (pmv_values v) = cb_len (pmv_values dst)"
    using v(2) vi dst(1) by (auto simp: same_vector_def pmv_inv_def cb_inv_def)
  have "decode_dict T src dst bit_width = Some ?v"
    using src(2) dst(3) v(1) sl by (simp add: decode_dict_def ensure_def)
  moreover have "pmv_inv w ?v"
    using src(1) dst(1,4) v(2,3,4) vi z ln by (simp add: pmv_inv_def pmv_room_def same_vector_def dst(2))
  moreover have "pmv_elem w ?v j = map_option (\<lambda>b. dict_entry w D (unat (le_word b :: u32))) (pmv_elem 4 src j)"
    if "j < ?k" for j
    using that v(5) unfolding index_at_elem [of src] pmv_elem_def [of w] by (simp add: index_at_def dict_entry_def)
  then have "pmv_elems w ?v = map (map_option (\<lambda>b. dict_entry w D (unat (le_word b :: u32)))) (pmv_elems 4 src)"
    using v(3) by (simp add: pmv_elems_def)
  ultimately show ?thesis using that [of ?v] v(2) dst(3) ln by (simp add: same_vector_def)
qed

subsection \<open>A chunk with a dictionary\<close>

lemma set_dictionary_sel [simp]:
  "pmv_type (set_dictionary v D) = pmv_type v" "pmv_num_values (set_dictionary v D) = pmv_num_values v"
  "pmv_num_nulls (set_dictionary v D) = pmv_num_nulls v" "pmv_validity (set_dictionary v D) = pmv_validity v"
  "pmv_values (set_dictionary v D) = pmv_values v" "pmv_dictionary (set_dictionary v D) = Some D"
  by (simp_all add: set_dictionary_def)

lemma set_dictionary_inv:
  "pmv_inv w (set_dictionary v D) = pmv_inv w v" "pmv_room w (set_dictionary v D) n = pmv_room w v n"
  "pmv_elems w (set_dictionary v D) = pmv_elems w v"
  by (simp_all add: pmv_inv_def pmv_room_def pmv_elems_def pmv_elem_def)

definition fixed_arrow :: "arrow_type \<Rightarrow> nat \<Rightarrow> bool" where
  "fixed_arrow ty w \<longleftrightarrow> pmv_bit_width ty = Some (8 * w) \<and> 0 < w \<and> \<not> is_binary_type ty"

lemma pmv_new_dictionary: "pmv_new cap ty = Some v \<Longrightarrow> pmv_dictionary v = None"
  by (auto simp: pmv_new_def new_with_bit_width_def new_with_bit_width_at.simps Option.bind_eq_Some_conv)

lemma set_dictionary_page_spec:
  assumes ty: "fixed_arrow (cr_arrow_type R) w" and cap: "0 < cr_capacity R" "cr_capacity R * 32 + 64 \<le> 2 ^ 64"
    and vals: "page_values T (cr_desc R) (cr_read_options R) w PLAIN data xs"
    and k: "0 < length xs" "length xs * (8 * w) + 64 \<le> 2 ^ 64" and none: "pmv_dictionary (cr_vector R) = None"
  obtains v D where "cr_set_dictionary_page T R (length xs) data PLAIN = Some (R\<lparr>cr_vector := set_dictionary v D\<rparr>)"
    and "pmv_inv 4 v" and "pmv_elems 4 v = []" and "pmv_room 4 v (cr_capacity R)"
    and "cb_inv (pmv_values D)" and "length xs * w \<le> cb_len (pmv_values D)"
    and "\<And>i. i < length xs \<Longrightarrow> dict_entry w D i = xs ! i"
proof -
  obtain v where v: "pmv_new (cr_capacity R) Int32 = Some v" "pmv_inv 4 v" "pmv_elems 4 v = []" "pmv_room 4 v (cr_capacity R)"
    by (rule pmv_new_int32 [OF cap])
  obtain u where u: "pmv_new (length xs) (cr_arrow_type R) = Some u" "pmv_inv w u" "pmv_elems w u = []" "pmv_room w u (length xs)"
    by (rule pmv_new_spec [OF k(1) _ _ _ k(2)]) (use ty in \<open>auto simp: fixed_arrow_def\<close>)
  have u0: "pmv_num_values u = 0" using u(3) length_pmv_elems [of w u] by simp
  obtain d ys where d: "get_decoder data PLAIN (cr_desc R) (cr_read_options R) = Some d" "dyn_vals T w d (xs @ ys)"
    by (rule get_decoder_values [OF vals])
  have w: "list_all (\<lambda>x. length x = w) xs" using dyn.vals_width [OF d(2)] by simp
  obtain d' where rd: "dyn_read_batch T d u (length xs) = Some (d', pmv_write w u xs)"
    using dyn.read_batch_law [OF d(2) pmv_room_fits [OF u(2,4)]] by blast
  let ?D = "pmv_set_counts (pmv_write w u xs) (length xs) (pmv_num_nulls (pmv_write w u xs))"
  have cb: "cb_inv (pmv_values u)" and len: "length xs * w \<le> cb_len (pmv_values u)"
    using u(2,4) u0 by (simp_all add: pmv_inv_def pmv_room_def)
  have ov: "cb_data (pmv_values ?D) = concat xs @ drop (length xs * w) (cb_data (pmv_values u))"
    by (simp add: pmv_write_def u0 overwrite_def length_concat_blocks [OF w])
  have "cr_set_dictionary_page T R (length xs) data PLAIN = Some (R\<lparr>cr_vector := set_dictionary v ?D\<rparr>)"
    using d(1) rd u(1) v(1) none by (auto simp: cr_set_dictionary_page_def ensure_def get_decoder_def)
  moreover have "length (cb_data (pmv_values ?D)) = length (cb_data (pmv_values u))"
    unfolding ov using cb len length_concat_blocks [OF w] by (simp add: cb_inv_def)
  then have "cb_inv (pmv_values ?D)" using cb by (simp add: pmv_write_def cb_inv_def)
  moreover have "dict_entry w ?D i = xs ! i" if "i < length xs" for i
    unfolding dict_entry_def ov
    using take_drop_concat_blocks [OF w that] mult_le_mono1 [OF Suc_leI [OF that], of w] length_concat_blocks [OF w]
    by simp
  moreover have "length xs * w \<le> cb_len (pmv_values ?D)" using len by (simp add: pmv_write_def)
  ultimately show ?thesis using v(2-4) by (intro that [of v ?D])
qed

text \<open>What pages and batches leave alone.\<close>

definition same_config :: "column_reader \<Rightarrow> column_reader \<Rightarrow> bool" where
  "same_config R R' \<longleftrightarrow> cr_capacity R' = cr_capacity R \<and> cr_arrow_type R' = cr_arrow_type R \<and> cr_bit_width R' = cr_bit_width R"

lemma run_op_config: "run_op T R a = Some R' \<Longrightarrow> same_config R R'"
  by (cases a)
    (auto simp: cr_read_batch_def cr_skip_batch_def same_config_def Option.bind_eq_Some_conv Let_def split: if_splits)

lemma run_ops_config: "run_ops T R as = Some R' \<Longrightarrow> same_config R R'"
proof (induction as arbitrary: R)
  case (Cons a as)
  then obtain R1 where "run_op T R a = Some R1" "same_config R1 R'" by (auto simp: Option.bind_eq_Some_conv)
  then show ?case using run_op_config [of T R a R1] by (simp add: same_config_def)
qed (simp add: same_config_def)

lemma set_page_config: "set_page v1 T R n part data RLE_DICTIONARY = Some R' \<Longrightarrow> same_config R R'"
  by (cases v1) (auto simp: set_page_def cr_set_page_v1_def cr_set_page_v2_def cr_check_dictionary_def same_config_def
      Option.bind_eq_Some_conv Let_def)

lemma merge_map: "merge fs (map f xs) = map (map_option f) (merge fs xs)"
  by (induction fs xs rule: merge.induct) auto

lemma op_slots_map:
  "op_slots a (map (map_option f) s) = map_prod (map (map_option f)) (map (map_option f)) (op_slots a s)"
  by (cases a) (simp_all add: take_map drop_map)

lemma ops_slots_map: "ops_slots as (map (map_option f) s) = map (map_option f) (ops_slots as s)"
  by (induction as arbitrary: s) (auto simp: op_slots_map split: prod.split)

lemma op_slots_subset: "op_slots a s = (out, rest) \<Longrightarrow> set out \<subseteq> insert None (set s) \<and> set rest \<subseteq> set s"
  by (cases a) (auto dest: in_set_takeD in_set_dropD split: if_splits)

lemma ops_slots_subset: "set (ops_slots as s) \<subseteq> insert None (set s)"
proof (induction as arbitrary: s)
  case (Cons a as)
  obtain out rest where o: "op_slots a s = (out, rest)" by fastforce
  then show ?case using op_slots_subset [OF o] Cons.IH [of rest] by auto
qed simp

lemma set_merge: "set (merge fs xs) \<subseteq> insert None (Some ` set xs)"
  by (induction fs xs rule: merge.induct) auto

lemma check_dictionary_spec:
  assumes ty: "fixed_arrow (cr_arrow_type R) w" "cr_bit_width R = 8 * w" "dict_copies T w (8 * w)"
    and cap: "0 < cr_capacity R" "cr_capacity R * (8 * w) + 64 \<le> 2 ^ 64"
    and v: "pmv_inv 4 (cr_vector R)" "pmv_dictionary (cr_vector R) = Some D"
      "pmv_elems 4 (cr_vector R) = map (map_option (le_bytes :: u32 \<Rightarrow> u8 list)) S" "length S \<le> cr_capacity R"
    and D: "cb_inv (pmv_values D)" "n * w \<le> cb_len (pmv_values D)" "\<And>i. Some i \<in> set S \<Longrightarrow> unat i < n"
  obtains x where "cr_check_dictionary T R PLAIN = Some (R\<lparr>cr_vector := x\<rparr>)" and "pmv_inv w x"
    and "pmv_elems w x = map (map_option (\<lambda>i. dict_entry w D (unat i))) S"
proof -
  have nv: "pmv_num_values (cr_vector R) = length S" using v(3) length_pmv_elems [of 4 "cr_vector R"] by simp
  obtain u where u: "pmv_new (cr_capacity R) (cr_arrow_type R) = Some u" "pmv_inv w u" "pmv_elems w u = []" "pmv_room w u (cr_capacity R)"
    by (rule pmv_new_spec [OF cap(1) _ _ _ cap(2)]) (use ty(1) in \<open>auto simp: fixed_arrow_def\<close>)
  have u0: "pmv_num_values u = 0" using u(3) length_pmv_elems [of w u] by simp
  have ud: "pmv_dictionary u = None" using u(1) by (rule pmv_new_dictionary)
  obtain x where x: "decode_dict T (cr_vector R) u (8 * w) = Some x" "pmv_inv w x"
    "pmv_elems w x = map (map_option (\<lambda>b. dict_entry w D (unat (le_word b :: u32)))) (pmv_elems 4 (cr_vector R))"
    "pmv_dictionary x = None"
  proof (rule decode_dict_spec [OF ty(3) v(1,2) D(1,2) _ u(2) u0 ud])
    show "indices_below n (cr_vector R)"
      unfolding indices_below_def v(3)
    proof (intro allI impI)
      fix b assume "Some b \<in> set (map (map_option (le_bytes :: u32 \<Rightarrow> u8 list)) S)"
      then obtain i where "Some i \<in> set S" "b = le_bytes i" by (auto elim!: imageE simp: eq_commute [of "Some b"])
      then show "unat (le_word b :: u32) < n" using D(3) by (simp add: le_word_le_bytes)
    qed
    show "pmv_room w u (pmv_num_values (cr_vector R))" unfolding nv by (rule pmv_room_mono [OF u(4) v(4)])
  qed
  have "pmv_elems w x = map (map_option (\<lambda>i. dict_entry w D (unat i))) S"
    unfolding x(3) v(3) by (simp add: option.map_comp o_def le_word_le_bytes)
  moreover have "cr_check_dictionary T R PLAIN = Some (R\<lparr>cr_vector := x\<rparr>)"
    using v(2) ty(2) u(1) x(1,4) by (simp add: cr_check_dictionary_def ensure_def)
  ultimately show ?thesis using that x(2) by blast
qed

subsection \<open>Properties\<close>






end
