(* ===== verification/Reader_Types.thy ===== *)
theory Reader_Types
  imports Column_Reader_Spec
begin

text \<open>
  \<open>ColumnReader::get\<close> of \<open>native/core/src/parquet/read/column.rs\<close>: the choice of a reader and of the Arrow type
  of its vector from the types of the file and of the query. A combination that the code does not support panics.
\<close>

datatype physical_type = BOOLEAN | INT32 | INT64 | INT96 | FLOAT | DOUBLE | BYTE_ARRAY | FIXED_LEN_BYTE_ARRAY

datatype time_unit = MILLIS | MICROS | NANOS

datatype logical_type =
    Integer int bool
  | Decimal int int
  | Date
  | Timestamp_of bool time_unit
  | String
  | Enum
  | Uuid
  | OtherLogical

record type_promotion_info =
  tp_physical_type :: physical_type
  tp_precision :: int
  tp_scale :: int
  tp_bit_width :: int

definition DECIMAL_MAX_INT_DIGITS :: int where
  "DECIMAL_MAX_INT_DIGITS = 9"

definition DECIMAL_MAX_LONG_DIGITS :: int where
  "DECIMAL_MAX_LONG_DIGITS = 18"

text \<open>\<open>ArrowDataType::Decimal128(precision as u8, scale as i8)\<close>\<close>

definition decimal_type :: "type_promotion_info \<Rightarrow> arrow_type" where
  "decimal_type info = Decimal128 (nat (tp_precision info mod 256)) ((tp_scale info + 128) mod 256 - 128)"

text \<open>The reader of an integer column that is read as a decimal, repeated for bytes, shorts and integers.\<close>

definition int_to_decimal_reader :: "type_promotion_info \<Rightarrow> data_type \<times> arrow_type" where
  "int_to_decimal_reader info =
     (if tp_precision info \<le> DECIMAL_MAX_INT_DIGITS \<and> tp_scale info < 1 then (Int32Type, Int32)
      else if tp_precision info \<le> DECIMAL_MAX_LONG_DIGITS then (Int32ToDecimal64Type, decimal_type info)
      else (Int32DecimalType, decimal_type info))"

definition int8_reader :: "type_promotion_info \<Rightarrow> data_type \<times> arrow_type" where
  "int8_reader info =
     (case tp_physical_type info of
        FIXED_LEN_BYTE_ARRAY \<Rightarrow> int_to_decimal_reader info
      | INT32 \<Rightarrow>
          if tp_bit_width info = 16 then (Int16Type, Int16)
          else if tp_bit_width info = 32 then (Int32Type, Int32)
          else (Int8Type, Int8)
      | INT64 \<Rightarrow> (Int32To64Type, Int64)
      | _ \<Rightarrow> (Int8Type, Int8))"

definition int16_reader :: "type_promotion_info \<Rightarrow> data_type \<times> arrow_type" where
  "int16_reader info =
     (case tp_physical_type info of
        DOUBLE \<Rightarrow> (Int16ToDoubleType, Float64)
      | INT64 \<Rightarrow> (Int32To64Type, Int64)
      | INT32 \<Rightarrow> if tp_bit_width info = 32 then (Int32Type, Int32) else (Int16Type, Int16)
      | FIXED_LEN_BYTE_ARRAY \<Rightarrow> int_to_decimal_reader info
      | _ \<Rightarrow> (Int16Type, Int16))"

definition int32_signed_reader :: "type_promotion_info \<Rightarrow> data_type \<times> arrow_type" where
  "int32_signed_reader info =
     (case tp_physical_type info of
        INT32 \<Rightarrow> if tp_bit_width info = 16 then (Int16Type, Int16) else (Int32Type, Int32)
      | _ \<Rightarrow> (Int32Type, Int32))"

definition int32_integer_reader :: "int \<Rightarrow> bool \<Rightarrow> type_promotion_info \<Rightarrow> (data_type \<times> arrow_type) option" where
  "int32_integer_reader bit_width is_signed info =
     (if bit_width = 8 then Some (if is_signed then int8_reader info else (UInt8Type, Int16))
      else if bit_width = 16 then Some (if is_signed then int16_reader info else (UInt16Type, Int32))
      else if bit_width = 32 then Some (if is_signed then int32_signed_reader info else (UInt32Type, Int64))
      else None)"

definition int32_reader :: "logical_type option \<Rightarrow> type_promotion_info \<Rightarrow> bool \<Rightarrow> (data_type \<times> arrow_type) option" where
  "int32_reader logical info use_decimal_128 =
     (case logical of
        Some (Integer bit_width is_signed) \<Rightarrow> int32_integer_reader bit_width is_signed info
      | Some (Decimal scale precision) \<Rightarrow>
          Some (if use_decimal_128 \<or> tp_precision info > DECIMAL_MAX_LONG_DIGITS
                then (Int32DecimalType, decimal_type info) else (Int32ToDecimal64Type, decimal_type info))
      | Some Date \<Rightarrow>
          Some (case tp_physical_type info of
                  INT64 \<Rightarrow> (Int32TimestampMicrosType, Timestamp)
                | _ \<Rightarrow> (Int32DateType, Date32))
      | Some _ \<Rightarrow> None
      | None \<Rightarrow>
          (case tp_physical_type info of
             INT32 \<Rightarrow> Some (if tp_bit_width info = 16 then (Int16Type, Int16) else (Int32Type, Int32))
           | INT64 \<Rightarrow> Some (Int32To64Type, Int64)
           | DOUBLE \<Rightarrow> Some (Int32ToDoubleType, Float64)
           | FIXED_LEN_BYTE_ARRAY \<Rightarrow> Some (int_to_decimal_reader info)
           | _ \<Rightarrow> None))"

definition int64_reader :: "logical_type option \<Rightarrow> type_promotion_info \<Rightarrow> bool \<Rightarrow> (data_type \<times> arrow_type) option" where
  "int64_reader logical info use_decimal_128 =
     (case logical of
        Some (Integer bit_width is_signed) \<Rightarrow>
          if bit_width = 64 then Some (if is_signed then (Int64Type, Int64) else (UInt64Type, Decimal128 20 0))
          else None
      | Some (Decimal scale precision) \<Rightarrow>
          Some (if use_decimal_128 \<or> tp_precision info > DECIMAL_MAX_LONG_DIGITS
                then (Int64DecimalType, decimal_type info) else (Int64ToDecimal64Type, decimal_type info))
      | Some (Timestamp_of is_adjusted_to_u_t_c unit) \<Rightarrow>
          Some (case unit of
                  MILLIS \<Rightarrow> (Int64TimestampMillisType, Timestamp)
                | MICROS \<Rightarrow> (Int64TimestampMicrosType, Timestamp)
                | NANOS \<Rightarrow> (Int64Type, Int64))
      | Some _ \<Rightarrow> None
      | None \<Rightarrow>
          Some (case tp_physical_type info of
                  FIXED_LEN_BYTE_ARRAY \<Rightarrow>
                    if tp_precision info \<le> DECIMAL_MAX_LONG_DIGITS \<and> tp_scale info < 1 then (Int64Type, Int64)
                    else (Int64DecimalType, decimal_type info)
                | _ \<Rightarrow> (Int64Type, Int64)))"

definition byte_array_reader :: "logical_type option \<Rightarrow> (data_type \<times> arrow_type) option" where
  "byte_array_reader logical =
     (case logical of
        Some String \<Rightarrow> Some (StringType, Utf8)
      | Some Enum \<Rightarrow> Some (StringType, Utf8)
      | Some _ \<Rightarrow> None
      | None \<Rightarrow> Some (ByteArrayType, Binary))"

definition flba_reader ::
    "logical_type option \<Rightarrow> type_promotion_info \<Rightarrow> bool \<Rightarrow> nat \<Rightarrow> (data_type \<times> arrow_type) option" where
  "flba_reader logical info use_decimal_128 type_length =
     (case logical of
        Some (Decimal scale precision) \<Rightarrow>
          Some (if \<not> use_decimal_128 \<and> precision \<le> DECIMAL_MAX_INT_DIGITS then (FLBADecimal32Type, Int32)
                else if \<not> use_decimal_128 \<and> tp_precision info \<le> DECIMAL_MAX_LONG_DIGITS
                then (FLBADecimal64Type, decimal_type info)
                else (FLBADecimalType, decimal_type info))
      | Some Uuid \<Rightarrow> Some (FLBAType, FixedSizeBinary (int type_length))
      | Some _ \<Rightarrow> None
      | None \<Rightarrow> Some (FLBAType, FixedSizeBinary (int type_length)))"

definition float_reader :: "type_promotion_info \<Rightarrow> (data_type \<times> arrow_type) option" where
  "float_reader info =
     (case tp_physical_type info of
        FLOAT \<Rightarrow> Some (FloatType, Float32)
      | DOUBLE \<Rightarrow> Some (FloatToDoubleType, Float64)
      | _ \<Rightarrow> None)"

definition column_type ::
    "physical_type \<Rightarrow> logical_type option \<Rightarrow> type_promotion_info \<Rightarrow> bool \<Rightarrow> nat \<Rightarrow> (data_type \<times> arrow_type) option" where
  "column_type physical logical info use_decimal_128 type_length =
     (case physical of
        BOOLEAN \<Rightarrow> Some (BoolType, Boolean)
      | INT32 \<Rightarrow> int32_reader logical info use_decimal_128
      | INT64 \<Rightarrow> int64_reader logical info use_decimal_128
      | INT96 \<Rightarrow> Some (Int96TimestampMicrosType, Timestamp)
      | FLOAT \<Rightarrow> float_reader info
      | DOUBLE \<Rightarrow> Some (DoubleType, Float64)
      | BYTE_ARRAY \<Rightarrow> byte_array_reader logical
      | FIXED_LEN_BYTE_ARRAY \<Rightarrow> flba_reader logical info use_decimal_128 type_length)"

text \<open>The reader, with its type parameter as the first component.\<close>

definition ColumnReader_get ::
    "column_desc \<Rightarrow> physical_type \<Rightarrow> logical_type option \<Rightarrow> type_promotion_info \<Rightarrow> nat \<Rightarrow> bool \<Rightarrow> bool \<Rightarrow>
     (data_type \<times> column_reader) option" where
  "ColumnReader_get desc physical logical info capacity use_decimal_128 use_legacy = do {
     let opts = \<lparr>use_legacy_date_timestamp_or_ntz = use_legacy\<rparr>;
     (T, arrow_type) \<leftarrow> column_type physical logical info use_decimal_128 (cd_type_length desc);
     R \<leftarrow> cr_new desc capacity arrow_type opts;
     Some (T, R)
   }"

subsection \<open>The vector is wide enough\<close>

text \<open>The bytes a decoder writes for one value, and the length of a physical type that has one.\<close>

fun elem_width :: "data_type \<Rightarrow> column_desc \<Rightarrow> nat" where
  "elem_width T desc =
     (if T \<in> {Int32DecimalType, Int64DecimalType, UInt64Type, FLBADecimalType} then 16
      else if T \<in> {Int32ToDecimal64Type, Int64ToDecimal64Type, FLBADecimal64Type} then 8
      else if T \<in> {FLBADecimal32Type, ByteArrayType, StringType} then 4
      else dst_width T desc)"

fun physical_length :: "physical_type \<Rightarrow> nat option" where
  "physical_length INT32 = Some 4"
| "physical_length FLOAT = Some 4"
| "physical_length INT64 = Some 8"
| "physical_length DOUBLE = Some 8"
| "physical_length INT96 = Some 12"
| "physical_length _ = None"

definition widened :: "data_type list" where
  "widened = [Int16ToDoubleType, Int32To64Type, Int32ToDecimal64Type, Int32ToDoubleType, Int32TimestampMicrosType,
     FloatToDoubleType, Int64ToDecimal64Type]"

definition has_length :: "physical_type \<Rightarrow> column_desc \<Rightarrow> bool" where
  "has_length physical desc \<longleftrightarrow> (case physical_length physical of None \<Rightarrow> True | Some n \<Rightarrow> cd_type_length desc = n)"

lemmas reader_defs = int_to_decimal_reader_def int8_reader_def int16_reader_def int32_signed_reader_def
  int32_integer_reader_def int32_reader_def int64_reader_def byte_array_reader_def flba_reader_def float_reader_def
  decimal_type_def

text \<open>What is chosen, by the Arrow type: the width of the elements against the width of the vector.\<close>

definition choice_ok :: "column_desc \<Rightarrow> data_type \<times> arrow_type \<Rightarrow> bool" where
  "choice_ok desc c \<longleftrightarrow> (case c of (T, ty) \<Rightarrow>
     (case pmv_bit_width ty of
        None \<Rightarrow> False
      | Some b \<Rightarrow> T = BoolType \<and> b = 1 \<or>
          T \<noteq> BoolType \<and> 8 * elem_width T desc \<le> b \<and> length_ok T desc \<and>
          (T \<in> set widened \<or> T = FLBADecimal64Type \<or> 8 * elem_width T desc = b) \<and>
          (T \<in> set widened \<or> T \<in> {ByteArrayType, StringType} \<or> dict_copies T (elem_width T desc) b)))"

lemmas choice_simps = choice_ok_def widened_def dict_copies.simps plain_types

lemma int_to_decimal_ok: "cd_type_length desc = 4 \<Longrightarrow> choice_ok desc (int_to_decimal_reader info)"
  by (simp add: int_to_decimal_reader_def decimal_type_def choice_simps)

lemma int8_ok: "cd_type_length desc = 4 \<Longrightarrow> choice_ok desc (int8_reader info)"
  using int_to_decimal_ok [of desc info]
  by (cases "tp_physical_type info") (simp_all add: int8_reader_def choice_simps)

lemma int16_ok: "cd_type_length desc = 4 \<Longrightarrow> choice_ok desc (int16_reader info)"
  using int_to_decimal_ok [of desc info]
  by (cases "tp_physical_type info") (simp_all add: int16_reader_def choice_simps)

lemma int32_signed_ok: "cd_type_length desc = 4 \<Longrightarrow> choice_ok desc (int32_signed_reader info)"
  by (cases "tp_physical_type info") (simp_all add: int32_signed_reader_def choice_simps)

lemma int32_integer_ok:
  "cd_type_length desc = 4 \<Longrightarrow> int32_integer_reader bw sg info = Some c \<Longrightarrow> choice_ok desc c"
  using int8_ok [of desc info] int16_ok [of desc info] int32_signed_ok [of desc info]
  by (auto simp: int32_integer_reader_def choice_simps split: if_splits)

lemma int32_ok:
  assumes len: "cd_type_length desc = 4" and c: "int32_reader logical info dec = Some c"
  shows "choice_ok desc c"
proof (cases logical)
  case None
  then show ?thesis
    using c len int_to_decimal_ok [OF len, of info]
    by (cases "tp_physical_type info") (auto simp: int32_reader_def choice_simps split: if_split_asm)
next
  case (Some lt)
  then show ?thesis
  proof (cases lt)
    case (Integer bw sg)
    then show ?thesis using c Some int32_integer_ok [OF len] by (simp add: int32_reader_def)
  next
    case Date
    then show ?thesis
      using c len Some by (cases "tp_physical_type info") (auto simp: int32_reader_def choice_simps)
  qed (use c len Some in \<open>auto simp: int32_reader_def decimal_type_def choice_simps split: if_split_asm\<close>)
qed

lemma int64_ok:
  assumes len: "cd_type_length desc = 8" and c: "int64_reader logical info dec = Some c"
  shows "choice_ok desc c"
proof (cases logical)
  case None
  then show ?thesis
    using c len
    by (cases "tp_physical_type info") (auto simp: int64_reader_def decimal_type_def choice_simps split: if_split_asm)
next
  case (Some lt)
  then show ?thesis
  proof (cases lt)
    case (Timestamp_of utc unit)
    then show ?thesis using c len Some by (cases unit) (auto simp: int64_reader_def choice_simps)
  qed (use c len Some in \<open>auto simp: int64_reader_def decimal_type_def choice_simps split: if_split_asm\<close>)
qed

lemma flba_ok:
  assumes "flba_reader logical info dec (cd_type_length desc) = Some c"
  shows "choice_ok desc c"
proof (cases logical)
  case None
  then show ?thesis using assms by (auto simp: flba_reader_def choice_simps)
next
  case (Some lt)
  then show ?thesis
    using assms by (cases lt) (auto simp: flba_reader_def decimal_type_def choice_simps split: if_split_asm)
qed

lemma column_type_ok:
  assumes "has_length physical desc" and "column_type physical logical info dec (cd_type_length desc) = Some c"
  shows "choice_ok desc c"
proof (cases physical)
  case BYTE_ARRAY
  then show ?thesis
  proof (cases logical)
    case (Some lt)
    then show ?thesis
      using assms BYTE_ARRAY by (cases lt) (auto simp: column_type_def byte_array_reader_def choice_simps)
  qed (use assms BYTE_ARRAY in \<open>auto simp: column_type_def byte_array_reader_def choice_simps\<close>)
next
  case FLOAT
  then show ?thesis using assms
    by (cases "tp_physical_type info") (auto simp: column_type_def has_length_def float_reader_def choice_simps)
next
  case INT32
  then show ?thesis using assms int32_ok by (simp add: column_type_def has_length_def)
next
  case INT64
  then show ?thesis using assms int64_ok by (simp add: column_type_def has_length_def)
next
  case FIXED_LEN_BYTE_ARRAY
  then show ?thesis using assms flba_ok by (simp add: column_type_def)
qed (use assms in \<open>auto simp: column_type_def has_length_def choice_simps\<close>)

lemma cb_new_len: "cb_new n = Some b \<Longrightarrow> n + 64 \<le> 2 ^ 64 \<Longrightarrow> n \<le> cb_len b"
  by (cases "n = 0") (auto elim: cb_new_spec [of n])

lemma pmv_new_len:
  assumes v: "pmv_new cap ty = Some v" and b: "pmv_bit_width ty = Some b" and big: "(cap + 1) * (b + 8) + 64 \<le> 2 ^ 64"
  shows "cap \<le> 8 * cb_len (pmv_validity v)" and "cap * b \<le> 8 * cb_len (pmv_values v)"
proof -
  let ?n = "div_ceil ((if is_binary_type ty then cap + 1 else cap) * b) 8"
  obtain c d where c: "cb_new (div_ceil cap 8) = Some c" "pmv_validity v = c"
    and d: "cb_new ?n = Some d" "cb_len (pmv_values v) = cb_len d"
    using v b
    by (auto simp: pmv_new_def new_with_bit_width_def new_with_bit_width_at.simps Option.bind_eq_Some_conv
        cb_deref_mut_def ensure_def split: if_split_asm)
  have le: "cap \<le> 8 * div_ceil cap 8" "(if is_binary_type ty then cap + 1 else cap) * b \<le> 8 * ?n"
    by (rule div_ceil_mult_ge, simp)+
  have "(if is_binary_type ty then cap + 1 else cap) * b \<le> (cap + 1) * b" by (intro mult_le_mono1) simp
  moreover have "cap + (cap + 1) * b + 8 \<le> (cap + 1) * (b + 8)" by (simp add: algebra_simps)
  moreover have dc: "div_ceil x 8 \<le> x + 7" for x by (simp add: div_ceil_8)
  ultimately have up: "div_ceil cap 8 \<le> (cap + 1) * (b + 8)" "?n \<le> (cap + 1) * (b + 8)"
    using dc [of cap] dc [of "(if is_binary_type ty then cap + 1 else cap) * b"] by linarith+
  then have "div_ceil cap 8 \<le> cb_len c" "?n \<le> cb_len d"
    using cb_new_len [OF c(1)] cb_new_len [OF d(1)] big by (meson add_right_mono le_trans)+
  moreover have "cap * b \<le> (if is_binary_type ty then cap + 1 else cap) * b" by (intro mult_le_mono1) simp
  ultimately show "cap \<le> 8 * cb_len (pmv_validity v)" "cap * b \<le> 8 * cb_len (pmv_values v)"
    unfolding c(2) d(2) using le by linarith+
qed

subsection \<open>Properties\<close>

text \<open>
  C4. Every reader that \<open>ColumnReader::get\<close> builds has a vector wide enough for its decoder: the element the
  decoder writes for a value is not wider than an element of the chosen Arrow type, and the buffers hold a batch
  of the requested capacity. The dictionary fallback copies entries at the right width for every choice but the
  types that widen an integer, a float or a decimal of eight bytes, and the byte arrays, which have offsets.
\<close>

theorem column_reader_fits:
  assumes "has_length physical desc"
    and "ColumnReader_get desc physical logical info capacity use_decimal_128 use_legacy = Some (T, R)"
    and "(capacity + 1) * (cr_bit_width R + 8) + 64 \<le> 2 ^ 64"
  shows "pmv_bit_width (cr_arrow_type R) = Some (cr_bit_width R) \<and> capacity \<le> 8 * cb_len (pmv_validity (cr_vector R)) \<and>
    capacity * cr_bit_width R \<le> 8 * cb_len (pmv_values (cr_vector R)) \<and>
    (if T = BoolType then cr_bit_width R = 1
     else length_ok T desc \<and> 8 * elem_width T desc \<le> cr_bit_width R \<and>
       (T \<in> set widened \<or> T \<in> {ByteArrayType, StringType} \<or> dict_copies T (elem_width T desc) (cr_bit_width R)))"
proof -
  obtain ty v b where ct: "column_type physical logical info use_decimal_128 (cd_type_length desc) = Some (T, ty)"
    and v: "pmv_new capacity ty = Some v" "pmv_bit_width ty = Some b"
    and R: "cr_vector R = v" "cr_arrow_type R = ty" "cr_bit_width R = b"
    using assms(2) by (auto simp: ColumnReader_get_def cr_new_def Option.bind_eq_Some_conv)
  have "choice_ok desc (T, ty)" by (rule column_type_ok [OF assms(1) ct])
  then show ?thesis
    using pmv_new_len [OF v] assms(3) v(2) unfolding R choice_ok_def by auto
qed

theorem column_reader_fits_witness:
  "\<exists>R. ColumnReader_get \<lparr>cd_type_length = 4, cd_type_precision = 0, cd_type_scale = 0, cd_max_def_level = 1,
      cd_max_rep_level = 0\<rparr> INT32 None \<lparr>tp_physical_type = INT64, tp_precision = 0, tp_scale = 0, tp_bit_width = 64\<rparr>
      16 False False = Some (Int32To64Type, R) \<and> cr_bit_width R = 64 \<and>
    16 * 64 \<le> 8 * cb_len (pmv_values (cr_vector R))"
proof -
  let ?desc = "\<lparr>cd_type_length = 4, cd_type_precision = 0, cd_type_scale = 0, cd_max_def_level = 1, cd_max_rep_level = 0\<rparr>"
  let ?info = "\<lparr>tp_physical_type = INT64, tp_precision = 0, tp_scale = 0, tp_bit_width = 64\<rparr>"
  obtain v where v: "pmv_new 16 Int64 = Some v" "pmv_inv 8 v" "pmv_elems 8 v = []" "pmv_room 8 v 16"
    by (rule pmv_new_spec [of 16 Int64 8]) (simp_all add: is_binary_type_def)
  then obtain R where R: "ColumnReader_get ?desc INT32 None ?info 16 False False = Some (Int32To64Type, R)" "cr_bit_width R = 64"
    by (auto simp: ColumnReader_get_def column_type_def int32_reader_def cr_new_def)
  have "has_length INT32 ?desc" by (simp add: has_length_def)
  from column_reader_fits [OF this R(1)] R(2)
  have "16 * 64 \<le> 8 * cb_len (pmv_values (cr_vector R))" by simp
  with R show ?thesis by blast
qed

end
