(* ===== verification/Shuffle_Codec.thy ===== *)
theory Shuffle_Codec
  imports Comet_Prelude "HOL-Library.Sublist"
begin

text \<open>
  The blocks of a shuffle file: \<open>ShuffleBlockWriter\<close> and \<open>read_ipc_compressed\<close> of
  \<open>native/core/src/execution/shuffle/codec.rs\<close>, the buffering \<open>BufBatchWriter\<close> of \<open>shuffle_writer.rs\<close>,
  and the reader \<open>NativeBatchDecoderIterator.scala\<close> with the native call it makes.

  A record batch is its list of rows. The Arrow stream format and the compressors are parameters: \<open>enc\<close>
  gives the bytes of a batch under a codec, \<open>dec\<close> reads them back with the number of columns it found;
  \<open>codec_law\<close> is the only thing relied on. A file or stream is the list of its bytes, and the operating
  system does not fail.
\<close>

subsection \<open>\<open>ShuffleBlockWriter\<close>\<close>

datatype shuffle_error = DfInternal string | DfNotImplemented string | DfExecution string | DfArrow string

type_synonym 'a res = "(shuffle_error + 'a) option"

datatype compression_codec = CodecNone | Lz4Frame | Zstd int | Snappy

record shuffle_block_writer =
  sbw_codec :: compression_codec
  sbw_header_bytes :: "u8 list"

fun codec_header :: "compression_codec \<Rightarrow> u8 list" where
  "codec_header Snappy = [0x53, 0x4E, 0x41, 0x50]"
| "codec_header Lz4Frame = [0x4C, 0x5A, 0x34, 0x5F]"
| "codec_header (Zstd _) = [0x5A, 0x53, 0x54, 0x44]"
| "codec_header CodecNone = [0x4E, 0x4F, 0x4E, 0x45]"

text \<open>Seeking past the end of an empty \<open>Vec\<close> and writing there fills the gap with zeros.\<close>

definition sbw_try_new :: "nat \<Rightarrow> compression_codec \<Rightarrow> shuffle_block_writer" where
  "sbw_try_new field_count codec =
     \<lparr>sbw_codec = codec,
      sbw_header_bytes = replicate 8 0 @ le_bytes (of_nat field_count :: u64) @ codec_header codec\<rparr>"

text \<open>The output is positioned at its end, as its one caller leaves it.\<close>

definition write_batch ::
    "(compression_codec \<Rightarrow> 'r list \<Rightarrow> u8 list res) \<Rightarrow> shuffle_block_writer \<Rightarrow> 'r list \<Rightarrow> u8 list \<Rightarrow> (nat \<times> u8 list) res" where
  "write_batch enc w batch output =
     (if length batch = 0 then Some (Inr (0, output))
      else
        let start_pos = length output;
            output = output @ sbw_header_bytes w
        in and_then (enc (sbw_codec w) batch) (\<lambda>body.
          let output = output @ body;
              end_pos = length output;
              ipc_length = end_pos - start_pos - 8;
              max_size = 2 ^ 31 - 1
          in if ipc_length > max_size then Some (Inl (DfExecution ''Shuffle block size exceeds maximum size''))
             else Some (Inr (end_pos - start_pos,
               take start_pos output @ le_bytes (of_nat ipc_length :: u64) @ drop (start_pos + 8) output))))"

datatype frame_format = FrameSnappy | FrameLz4 | FrameZstd | FrameNone

fun codec_format :: "compression_codec \<Rightarrow> frame_format" where
  "codec_format Snappy = FrameSnappy"
| "codec_format Lz4Frame = FrameLz4"
| "codec_format (Zstd _) = FrameZstd"
| "codec_format CodecNone = FrameNone"

definition read_ipc_compressed :: "(frame_format \<Rightarrow> u8 list \<Rightarrow> (nat \<times> 'r list) res) \<Rightarrow> u8 list \<Rightarrow> (nat \<times> 'r list) res" where
  "read_ipc_compressed dec bytes = do {
     tag \<leftarrow> slice_range bytes 0 4;
     rest \<leftarrow> slice_from bytes 4;
     if tag = codec_header Snappy then dec FrameSnappy rest
     else if tag = codec_header Lz4Frame then dec FrameLz4 rest
     else if tag = codec_header (Zstd 0) then dec FrameZstd rest
     else if tag = codec_header CodecNone then dec FrameNone rest
     else Some (Inl (DfExecution ''Failed to decode batch: invalid compression codec''))
   }"

subsection \<open>\<open>BufBatchWriter\<close>\<close>

record buf_batch_writer =
  bbw_block_writer :: shuffle_block_writer
  bbw_writer :: "u8 list"
  bbw_buffer :: "u8 list"
  bbw_buffer_max_size :: nat

definition bbw_new :: "shuffle_block_writer \<Rightarrow> u8 list \<Rightarrow> buf_batch_writer" where
  "bbw_new w writer =
     \<lparr>bbw_block_writer = w, bbw_writer = writer, bbw_buffer = [], bbw_buffer_max_size = 1024 * 1024\<rparr>"

definition bbw_write ::
    "(compression_codec \<Rightarrow> 'r list \<Rightarrow> u8 list res) \<Rightarrow> 'r list \<Rightarrow> buf_batch_writer \<Rightarrow> (nat \<times> buf_batch_writer) res" where
  "bbw_write enc batch b =
     and_then (write_batch enc (bbw_block_writer b) batch (bbw_buffer b)) (\<lambda>(bytes_written, buffer).
       Some (Inr (bytes_written,
         if length buffer \<ge> bbw_buffer_max_size b then b\<lparr>bbw_writer := bbw_writer b @ buffer, bbw_buffer := []\<rparr>
         else b\<lparr>bbw_buffer := buffer\<rparr>)))"

definition bbw_flush :: "buf_batch_writer \<Rightarrow> buf_batch_writer" where
  "bbw_flush b =
     (if bbw_buffer b \<noteq> [] then b\<lparr>bbw_writer := bbw_writer b @ bbw_buffer b, bbw_buffer := []\<rparr>
      else b\<lparr>bbw_buffer := []\<rparr>)"

text \<open>The loop every caller runs: write each batch of an iterator.\<close>

fun bbw_write_all ::
    "(compression_codec \<Rightarrow> 'r list \<Rightarrow> u8 list res) \<Rightarrow> 'r list list \<Rightarrow> buf_batch_writer \<Rightarrow> (nat \<times> buf_batch_writer) res" where
  "bbw_write_all enc [] b = Some (Inr (0, b))"
| "bbw_write_all enc (batch # batches) b =
     and_then (bbw_write enc batch b) (\<lambda>(n, b).
     and_then (bbw_write_all enc batches b) (\<lambda>(m, b). Some (Inr (n + m, b))))"

subsection \<open>\<open>NativeBatchDecoderIterator\<close>\<close>

datatype reader_error =
    EOFException string
  | IllegalStateException string
  | IllegalArgumentException
  | NegativeArraySizeException
  | NoSuchElementException
  | CometNativeException shuffle_error
  | CometNativePanic

text \<open>\<open>it_capacity\<close> is the capacity of the thread's direct buffer. Released vectors are not tracked.\<close>

record 'r decoder_iterator =
  it_in :: "u8 list"
  it_capacity :: nat
  it_batch :: "'r list option"
  it_closed :: bool

definition INITIAL_BUFFER_SIZE :: nat where
  "INITIAL_BUFFER_SIZE = 128 * 1024"

text \<open>The constructor calls \<open>fetchNext\<close> before \<open>channel\<close> is initialised, which therefore returns nothing.\<close>

definition it_new :: "u8 list \<Rightarrow> nat \<Rightarrow> 'r decoder_iterator" where
  "it_new input capacity = \<lparr>it_in = input, it_capacity = capacity, it_batch = None, it_closed = False\<rparr>"

definition it_close :: "'r decoder_iterator \<Rightarrow> 'r decoder_iterator" where
  "it_close it =
     (if it_closed it then it
      else it\<lparr>it_capacity := (if it_capacity it > INITIAL_BUFFER_SIZE then INITIAL_BUFFER_SIZE else it_capacity it),
              it_closed := True\<rparr>)"

text \<open>\<open>decodeShuffleBlock\<close> and \<open>prepare_output\<close>: no column array is exported when none is asked for.\<close>

definition decode_shuffle_block :: "(frame_format \<Rightarrow> u8 list \<Rightarrow> (nat \<times> 'r list) res) \<Rightarrow> nat \<Rightarrow> u8 list \<Rightarrow> reader_error + 'r list" where
  "decode_shuffle_block dec num_cols bytes =
     (case read_ipc_compressed dec bytes of
        None \<Rightarrow> Inl CometNativePanic
      | Some (Inl e) \<Rightarrow> Inl (CometNativeException e)
      | Some (Inr (columns, rows)) \<Rightarrow>
          if num_cols > 0 \<and> columns \<noteq> num_cols then Inl (CometNativeException (DfInternal ''Output column count mismatch''))
          else Inr rows)"

definition fetchNext :: "(frame_format \<Rightarrow> u8 list \<Rightarrow> (nat \<times> 'r list) res) \<Rightarrow> 'r decoder_iterator \<Rightarrow>
    reader_error + ('r list option \<times> 'r decoder_iterator)" where
  "fetchNext dec it =
     (if it_closed it then Inr (None, it)
      else
        let s = it_in it in
        if length s < 8 then
          (if s = [] then Inr (None, it_close it)
           else Inl (EOFException ''Data corrupt: unexpected EOF while reading compressed ipc lengths''))
        else
          let compressedLength = (le_word (take 8 s) :: u64);
              s = drop 8 s
          in if length s < 8 then Inl (EOFException ''Data corrupt: unexpected EOF while reading field count'')
          else
            let fieldCount = sint (ucast (le_word (take 8 s) :: u64) :: u32);
                s = drop 8 s;
                bytesToRead = compressedLength - 8
            in if sint bytesToRead > 2 ^ 31 - 1 then Inl (IllegalStateException ''Native shuffle block size exceeds maximum'')
            else
              let capacity = (if int (it_capacity it) < sint bytesToRead
                    then nat (min (sint bytesToRead * 2) (2 ^ 31 - 1)) else it_capacity it);
                  limit = sint (ucast bytesToRead :: u32)
              in if limit < 0 \<or> limit > int capacity then Inl IllegalArgumentException
              else if length s < nat limit then
                Inl (EOFException ''Data corrupt: unexpected EOF while reading compressed batch'')
              else if fieldCount < 0 then Inl NegativeArraySizeException
              else (case decode_shuffle_block dec (nat fieldCount) (take (nat limit) s) of
                  Inl e \<Rightarrow> Inl e
                | Inr rows \<Rightarrow> Inr (Some rows, it\<lparr>it_in := drop (nat limit) s, it_capacity := capacity\<rparr>)))"

definition hasNext :: "(frame_format \<Rightarrow> u8 list \<Rightarrow> (nat \<times> 'r list) res) \<Rightarrow> 'r decoder_iterator \<Rightarrow>
    reader_error + (bool \<times> 'r decoder_iterator)" where
  "hasNext dec it =
     (if it_closed it then Inr (False, it)
      else if it_batch it \<noteq> None then Inr (True, it)
      else (case fetchNext dec it of
          Inl e \<Rightarrow> Inl e
        | Inr (None, it) \<Rightarrow> Inr (False, it_close (it\<lparr>it_batch := None\<rparr>))
        | Inr (Some b, it) \<Rightarrow> Inr (True, it\<lparr>it_batch := Some b\<rparr>)))"

definition next_batch :: "(frame_format \<Rightarrow> u8 list \<Rightarrow> (nat \<times> 'r list) res) \<Rightarrow> 'r decoder_iterator \<Rightarrow>
    reader_error + ('r list \<times> 'r decoder_iterator)" where
  "next_batch dec it =
     (case hasNext dec it of
        Inl e \<Rightarrow> Inl e
      | Inr (False, it) \<Rightarrow> Inl NoSuchElementException
      | Inr (True, it) \<Rightarrow> Inr (the (it_batch it), it\<lparr>it_batch := None\<rparr>))"

text \<open>A consumer of the iterator: it takes batches as long as there are any, which need not end.\<close>

partial_function (option) drain :: "(frame_format \<Rightarrow> u8 list \<Rightarrow> (nat \<times> 'r list) res) \<Rightarrow> 'r decoder_iterator \<Rightarrow>
    (reader_error + 'r list list) option" where
  "drain dec it =
     (case hasNext dec it of
        Inl e \<Rightarrow> Some (Inl e)
      | Inr (has_more, it) \<Rightarrow>
          if \<not> has_more then Some (Inr [])
          else (case next_batch dec it of
              Inl e \<Rightarrow> Some (Inl e)
            | Inr (b, it) \<Rightarrow> do { r \<leftarrow> drain dec it; Some (map_sum id ((#) b) r) }))"

subsection \<open>The layout of a block\<close>

definition block :: "nat \<Rightarrow> compression_codec \<Rightarrow> u8 list \<Rightarrow> u8 list" where
  "block n c body = le_bytes (of_nat (length body + 12) :: u64) @ le_bytes (of_nat n :: u64) @ codec_header c @ body"

text \<open>What is relied on: a batch can be written, its block is below two gigabytes, and its bytes read back as the
  same rows and the \<open>n\<close> columns of the schema.\<close>

definition body_of :: "(compression_codec \<Rightarrow> 'r list \<Rightarrow> u8 list res) \<Rightarrow> compression_codec \<Rightarrow> 'r list \<Rightarrow> u8 list" where
  "body_of enc c rows = (case enc c rows of Some (Inr body) \<Rightarrow> body | _ \<Rightarrow> [])"

definition can_encode :: "(compression_codec \<Rightarrow> 'r list \<Rightarrow> u8 list res) \<Rightarrow> compression_codec \<Rightarrow> 'r list \<Rightarrow> bool" where
  "can_encode enc c rows \<longleftrightarrow>
     (case enc c rows of Some (Inr body) \<Rightarrow> length body + 12 \<le> 2 ^ 31 - 1 | _ \<Rightarrow> False)"

definition codec_law :: "nat \<Rightarrow> compression_codec \<Rightarrow> (compression_codec \<Rightarrow> 'r list \<Rightarrow> u8 list res) \<Rightarrow>
    (frame_format \<Rightarrow> u8 list \<Rightarrow> (nat \<times> 'r list) res) \<Rightarrow> bool" where
  "codec_law n c enc dec \<longleftrightarrow>
     (\<forall>rows body. rows \<noteq> [] \<longrightarrow> enc c rows = Some (Inr body) \<longrightarrow> dec (codec_format c) body = Some (Inr (n, rows)))"

definition blocks :: "(compression_codec \<Rightarrow> 'r list \<Rightarrow> u8 list res) \<Rightarrow> nat \<Rightarrow> compression_codec \<Rightarrow> 'r list list \<Rightarrow> u8 list" where
  "blocks enc n c batches = concat (map (\<lambda>rows. if rows = [] then [] else block n c (body_of enc c rows)) batches)"

lemma blocks_simps [simp]:
  "blocks enc n c [] = []"
  "blocks enc n c (rows # bs) = (if rows = [] then [] else block n c (body_of enc c rows)) @ blocks enc n c bs"
  "blocks enc n c (bs @ bs') = blocks enc n c bs @ blocks enc n c bs'"
  by (simp_all add: blocks_def)

lemma length_codec_header [simp]: "length (codec_header c) = 4"
  by (cases c) simp_all

lemma can_encode_body: "can_encode enc c rows \<Longrightarrow> enc c rows = Some (Inr (body_of enc c rows)) \<and> length (body_of enc c rows) + 12 \<le> 2 ^ 31 - 1"
  by (simp add: can_encode_def body_of_def split: option.splits sum.splits)

lemma write_batch_empty [simp]: "write_batch enc w [] out = Some (Inr (0, out))"
  by (simp add: write_batch_def)

lemma write_batch_block:
  assumes "can_encode enc c rows" and "rows \<noteq> []"
  shows "write_batch enc (sbw_try_new n c) rows out =
    Some (Inr (length (body_of enc c rows) + 20, out @ block n c (body_of enc c rows)))"
  using assms(2) can_encode_body [OF assms(1)]
  by (simp add: write_batch_def sbw_try_new_def block_def Let_def add.commute)

lemma write_batch_too_long:
  assumes "enc c rows = Some (Inr body)" and "rows \<noteq> []" and "2 ^ 31 - 1 < length body + 12"
  shows "write_batch enc (sbw_try_new n c) rows out = Some (Inl (DfExecution ''Shuffle block size exceeds maximum size''))"
  using assms by (simp add: write_batch_def sbw_try_new_def Let_def)

text \<open>The bytes a buffered writer is responsible for, in its file and in its buffer.\<close>

definition bbw_bytes :: "buf_batch_writer \<Rightarrow> u8 list" where
  "bbw_bytes b = bbw_writer b @ bbw_buffer b"

lemma bbw_new_simps [simp]:
  "bbw_bytes (bbw_new w out) = out" "bbw_block_writer (bbw_new w out) = w"
  by (simp_all add: bbw_new_def bbw_bytes_def)

lemma bbw_flush_simps [simp]:
  "bbw_writer (bbw_flush b) = bbw_bytes b" "bbw_bytes (bbw_flush b) = bbw_bytes b"
  "bbw_block_writer (bbw_flush b) = bbw_block_writer b"
  by (simp_all add: bbw_flush_def bbw_bytes_def)

lemma bbw_write_blocks:
  assumes "rows = [] \<or> can_encode enc c rows" and "bbw_block_writer b = sbw_try_new n c"
  obtains m b' where "bbw_write enc rows b = Some (Inr (m, b'))"
    and "bbw_bytes b' = bbw_bytes b @ blocks enc n c [rows]" and "bbw_block_writer b' = sbw_try_new n c"
proof (cases "rows = []")
  case True
  then have "bbw_write enc rows b = Some (Inr (0, if bbw_buffer_max_size b \<le> length (bbw_buffer b)
      then b\<lparr>bbw_writer := bbw_writer b @ bbw_buffer b, bbw_buffer := []\<rparr> else b\<lparr>bbw_buffer := bbw_buffer b\<rparr>))"
    by (simp add: bbw_write_def)
  from this show ?thesis by (rule that) (use True assms(2) in \<open>simp_all add: bbw_bytes_def\<close>)
next
  case False
  let ?buf = "bbw_buffer b @ block n c (body_of enc c rows)"
  from False have "bbw_write enc rows b = Some (Inr (length (body_of enc c rows) + 20,
      if bbw_buffer_max_size b \<le> length ?buf
      then b\<lparr>bbw_writer := bbw_writer b @ ?buf, bbw_buffer := []\<rparr> else b\<lparr>bbw_buffer := ?buf\<rparr>))"
    using assms write_batch_block [of enc c rows n "bbw_buffer b"] by (simp add: bbw_write_def)
  from this show ?thesis by (rule that) (use False assms(2) in \<open>simp_all add: bbw_bytes_def\<close>)
qed

lemma bbw_write_all_blocks:
  assumes "list_all (\<lambda>rows. rows = [] \<or> can_encode enc c rows) batches" and "bbw_block_writer b = sbw_try_new n c"
  obtains m b' where "bbw_write_all enc batches b = Some (Inr (m, b'))"
    and "bbw_bytes b' = bbw_bytes b @ blocks enc n c batches" and "bbw_block_writer b' = sbw_try_new n c"
  using assms
proof (induction batches arbitrary: b thesis)
  case Nil
  then show ?case by simp
next
  case (Cons rows bs)
  from Cons.prems(2,3) obtain m b1 where 1: "bbw_write enc rows b = Some (Inr (m, b1))"
      "bbw_bytes b1 = bbw_bytes b @ blocks enc n c [rows]" "bbw_block_writer b1 = sbw_try_new n c"
    by (auto intro: bbw_write_blocks [of rows enc c b n])
  from Cons.prems(2) have "list_all (\<lambda>rows. rows = [] \<or> can_encode enc c rows) bs" by simp
  from Cons.IH [OF _ this 1(3)] obtain m' b2 where 2: "bbw_write_all enc bs b1 = Some (Inr (m', b2))"
      "bbw_bytes b2 = bbw_bytes b1 @ blocks enc n c bs" "bbw_block_writer b2 = sbw_try_new n c" by blast
  show ?case by (rule Cons.prems(1) [of "m + m'" b2]) (use 1 2 in simp_all)
qed

subsection \<open>Reading the blocks back\<close>

lemma codec_formats [simp]: "read_ipc_compressed dec (codec_header c @ body) = dec (codec_format c) body"
  by (cases c) (simp_all add: read_ipc_compressed_def rust_simps)

lemma decode_block:
  assumes "codec_law n c enc dec" and "enc c rows = Some (Inr body)" and "rows \<noteq> []"
  shows "decode_shuffle_block dec n (codec_header c @ body) = Inr rows"
  using assms by (simp add: decode_shuffle_block_def codec_law_def)

lemma le_word_of_le_bytes [simp]: "le_word (le_bytes (w :: u64)) = w"
  by (rule le_word_le_bytes) simp

lemma fetch_block:
  assumes law: "codec_law n c enc dec" and enc: "can_encode enc c rows" "rows \<noteq> []" and n: "n < 2 ^ 31"
    and it: "\<not> it_closed it" "it_in it = block n c (body_of enc c rows) @ rest"
  shows "\<exists>cap. fetchNext dec it = Inr (Some rows, it\<lparr>it_in := rest, it_capacity := cap\<rparr>)"
proof -
  let ?body = "body_of enc c rows"
  have e: "enc c rows = Some (Inr ?body)" and l: "length ?body + 12 \<le> 2 ^ 31 - 1" using can_encode_body [OF enc(1)] by simp_all
  have w: "of_nat (length ?body + 12) - (8 :: u64) = of_nat (length ?body + 4)" by simp
  have s: "sint (of_nat (length ?body + 4) :: u64) = int (length ?body + 4)"
    using l by (intro sint_of_nat) simp
  have u: "(ucast (of_nat (length ?body + 4) :: u64) :: u32) = of_nat (length ?body + 4)"
    using l by (intro ucast_of_nat) simp
  have s2: "sint (of_nat (length ?body + 4) :: u32) = int (length ?body + 4)"
    using l by (intro sint_of_nat) simp
  have n2: "sint (ucast (of_nat n :: u64) :: u32) = int n"
    using n by (simp add: ucast_of_nat sint_of_nat del: of_nat_add)
  define cap where "cap = (if int (it_capacity it) < int (length ?body + 4)
      then nat (min (int (length ?body + 4) * 2) (2 ^ 31 - 1)) else it_capacity it)"
  have cap: "int (length ?body + 4) \<le> int cap" using l by (simp add: cap_def)
  have b: "take 8 (it_in it) = le_bytes (of_nat (length ?body + 12) :: u64)"
    "take 8 (drop 8 (it_in it)) = le_bytes (of_nat n :: u64)"
    "drop 8 (drop 8 (it_in it)) = codec_header c @ ?body @ rest" "length (it_in it) = 20 + length ?body + length rest"
    using it(2) by (simp_all add: block_def)
  have t: "take (length ?body + 4) (codec_header c @ ?body @ rest) = codec_header c @ ?body"
    "drop (length ?body + 4) (codec_header c @ ?body @ rest) = rest" by simp_all
  have "fetchNext dec it = Inr (Some rows, it\<lparr>it_in := rest, it_capacity := cap\<rparr>)"
    unfolding fetchNext_def Let_def length_drop b le_word_of_le_bytes w s u s2 n2 cap_def [symmetric] nat_int t
      decode_block [OF law e enc(2)]
    using it(1) cap l by simp
  then show ?thesis by blast
qed

lemma fetch_end: "\<not> it_closed it \<Longrightarrow> it_in it = [] \<Longrightarrow> fetchNext dec it = Inr (None, it_close it)"
  by (simp add: fetchNext_def)

lemma fetch_consumes: "fetchNext dec it = Inr (Some b, it') \<Longrightarrow> length (it_in it') < length (it_in it)"
  by (auto simp: fetchNext_def Let_def split: if_splits sum.splits)

lemma drain_terminates_closed: "it_closed it \<Longrightarrow> drain dec it = Some (Inr [])"
  by (simp add: drain.simps hasNext_def)

lemma drain_fetched:
  assumes "\<not> it_closed it" and "it_batch it = None"
  shows "drain dec it = (case fetchNext dec it of
      Inl e \<Rightarrow> Some (Inl e)
    | Inr (None, it') \<Rightarrow> Some (Inr [])
    | Inr (Some b, it') \<Rightarrow> if it_closed it' then Some (Inl NoSuchElementException)
        else map_option (map_sum id ((#) b)) (drain dec (it'\<lparr>it_batch := None\<rparr>)))"
  using assms
  by (subst drain.simps) (auto simp: hasNext_def next_batch_def map_option_case split: sum.splits option.splits bind_splits)

lemma fetch_open: "fetchNext dec it = Inr (Some b, it') \<Longrightarrow> \<not> it_closed it'"
  by (auto simp: fetchNext_def Let_def split: if_splits sum.splits)

lemma drain_blocks:
  assumes law: "codec_law n c enc dec" and n: "n < 2 ^ 31"
  shows "list_all (\<lambda>rows. rows = [] \<or> can_encode enc c rows) batches \<Longrightarrow> \<not> it_closed it \<Longrightarrow> it_batch it = None \<Longrightarrow>
    it_in it = blocks enc n c batches \<Longrightarrow> drain dec it = Some (Inr (filter (\<lambda>rows. rows \<noteq> []) batches))"
proof (induction batches arbitrary: it)
  case Nil
  then show ?case by (simp add: drain_fetched fetch_end)
next
  case (Cons rows bs)
  show ?case
  proof (cases "rows = []")
    case True
    with Cons show ?thesis by simp
  next
    case False
    with Cons.prems fetch_block [OF law _ False n, of it "blocks enc n c bs"] obtain cap where
      "fetchNext dec it = Inr (Some rows, it\<lparr>it_in := blocks enc n c bs, it_capacity := cap\<rparr>)" by auto
    with Cons False show ?thesis by (simp add: drain_fetched)
  qed
qed

lemma drain_total: "\<exists>r. drain dec it = Some r"
proof (induction "length (it_in it)" arbitrary: it rule: less_induct)
  case less
  then have none: "\<exists>r. drain dec it' = Some r" if "it_batch it' = None" "length (it_in it') \<le> length (it_in it)" for it'
  proof (cases "it_closed it'")
    case True
    then show ?thesis by (simp add: drain_terminates_closed)
  next
    case False
    show ?thesis
    proof (cases "\<exists>b it2. fetchNext dec it' = Inr (Some b, it2)")
      case True
      then obtain b it2 where f: "fetchNext dec it' = Inr (Some b, it2)" by blast
      with less(1) [of "it2\<lparr>it_batch := None\<rparr>"] fetch_consumes [OF f] that(2) obtain r where
        "drain dec (it2\<lparr>it_batch := None\<rparr>) = Some r" by auto
      with f False that(1) show ?thesis by (simp add: drain_fetched)
    next
      case no: False
      then show ?thesis using False that(1) by (auto simp: drain_fetched split: sum.split option.split)
    qed
  qed
  show ?case
  proof (cases "it_batch it")
    case None
    with none show ?thesis by simp
  next
    case (Some b)
    with none [of "it\<lparr>it_batch := None\<rparr>"] show ?thesis
      by (cases "it_closed it") (auto simp: drain.simps [of dec it] drain_terminates_closed hasNext_def next_batch_def)
  qed
qed

subsection \<open>Properties\<close>

text \<open>
  C12. Shuffle blocks round trip: whatever the codec, the blocks a buffered writer leaves in its file after a flush
  are read back by the iterator as the batches that were written, without the empty ones, and then it ends;
  neither the size of the write buffer nor that of the reader's matters.
\<close>

theorem shuffle_blocks_round_trip:
  assumes "codec_law n c enc dec" and "n < 2 ^ 31" and "list_all (can_encode enc c) batches"
  shows "\<exists>m b. bbw_write_all enc batches ((bbw_new (sbw_try_new n c) [])\<lparr>bbw_buffer_max_size := limit\<rparr>) = Some (Inr (m, b)) \<and>
    drain dec (it_new (bbw_writer (bbw_flush b)) cap) = Some (Inr (filter (\<lambda>rows. rows \<noteq> []) batches))"
proof -
  let ?b = "(bbw_new (sbw_try_new n c) [])\<lparr>bbw_buffer_max_size := limit\<rparr>"
  have ok: "list_all (\<lambda>rows. rows = [] \<or> can_encode enc c rows) batches" using assms(3) by (rule list.pred_mono_strong) simp
  have "bbw_block_writer ?b = sbw_try_new n c" "bbw_bytes ?b = []" by (simp_all add: bbw_new_def bbw_bytes_def)
  with bbw_write_all_blocks [OF ok] obtain m b where b: "bbw_write_all enc batches ?b = Some (Inr (m, b))"
    "bbw_bytes b = blocks enc n c batches" by (metis append_Nil)
  moreover have "drain dec (it_new (blocks enc n c batches) cap) = Some (Inr (filter (\<lambda>rows. rows \<noteq> []) batches))"
    by (rule drain_blocks [OF assms(1,2) ok]) (simp_all add: it_new_def)
  ultimately show ?thesis by simp
qed

theorem shuffle_blocks_round_trip_witness:
  "\<exists>m b. bbw_write_all (\<lambda>c rows. Some (Inr rows)) [[1, 2], [], [3 :: u8]]
      ((bbw_new (sbw_try_new 1 (Zstd 1)) [])\<lparr>bbw_buffer_max_size := 30\<rparr>) = Some (Inr (m, b)) \<and>
    drain (\<lambda>format body. Some (Inr (1, body))) (it_new (bbw_writer (bbw_flush b)) 0) = Some (Inr [[1, 2], [3]])"
  using shuffle_blocks_round_trip [of 1 "Zstd 1" "\<lambda>c rows. Some (Inr rows)" "\<lambda>format body. Some (Inr (1, body))"
      "[[1, 2], [], [3 :: u8]]" 30 0]
  by (simp add: codec_law_def can_encode_def)

text \<open>
  C13. Reading a shuffle stream ends: for every sequence of bytes, also one that is cut off or corrupt, and whatever
  the native decoder makes of the blocks, taking batches from the iterator stops after finitely many, with the
  batches or with an exception.
\<close>

theorem shuffle_reader_terminates: "\<exists>result. drain dec (it_new bytes cap) = Some result"
  by (rule drain_total)

end
