(* ===== verification/Spark_Hash.thy ===== *)
theory Spark_Hash
  imports Comet_Prelude
begin

text \<open>
  Hashing of \<open>native/spark-expr/src/hash_funcs\<close>: the Spark-compatible Murmur3 hash of a byte string,
  and the column-wise hashing of a batch that Murmur3 and XxHash64 share through macros. XxHash64 itself
  and Arrow's \<open>take\<close> are code of other packages and arguments here. An Arrow array is its list of values
  with an optional validity list; a float is the word of its bits. A panic is \<open>None\<close>, an \<open>Err\<close> is \<open>Inl\<close>.
\<close>

subsection \<open>Murmur3\<close>

definition rotate_left :: "u32 \<Rightarrow> nat \<Rightarrow> u32" where
  "rotate_left x n = shl x n OR shr x (32 - n)"

definition mix_k1 :: "u32 \<Rightarrow> u32" where
  "mix_k1 k1 =
     (let k1 = k1 * 0xcc9e2d51;
          k1 = rotate_left k1 15;
          k1 = k1 * 0x1b873593
      in k1)"

definition mix_h1 :: "u32 \<Rightarrow> u32 \<Rightarrow> u32" where
  "mix_h1 h1 k1 =
     (let h1 = h1 XOR k1;
          h1 = rotate_left h1 13;
          h1 = h1 * 5 + 0xe6546b64
      in h1)"

definition fmix :: "u32 \<Rightarrow> u32 \<Rightarrow> u32" where
  "fmix h1 len =
     (let h1 = h1 XOR len;
          h1 = h1 XOR shr h1 16;
          h1 = h1 * 0x85ebca6b;
          h1 = h1 XOR shr h1 13;
          h1 = h1 * 0xc2b2ae35;
          h1 = h1 XOR shr h1 16
      in h1)"

text \<open>The loop over aligned words; the target is little-endian.\<close>

fun hash_bytes_by_int :: "u8 list \<Rightarrow> u32 \<Rightarrow> u32" where
  "hash_bytes_by_int (a # b # c # d # data) h1 = hash_bytes_by_int data (mix_h1 h1 (mix_k1 (le_word [a, b, c, d])))"
| "hash_bytes_by_int _ h1 = h1"

text \<open>The loop over the bytes behind the last aligned word, each sign-extended.\<close>

fun hash_tail :: "u8 list \<Rightarrow> u32 \<Rightarrow> u32" where
  "hash_tail [] h1 = h1"
| "hash_tail (b # data) h1 = hash_tail data (mix_h1 h1 (mix_k1 (scast b)))"

definition spark_compatible_murmur3_hash :: "u8 list \<Rightarrow> u32 \<Rightarrow> u32" where
  "spark_compatible_murmur3_hash data seed =
     (let len = length data;
          len_aligned = len - len mod 4;
          h1 = (if len_aligned > 0 then hash_bytes_by_int (take len_aligned data) seed else seed);
          h1 = hash_tail (drop len_aligned data) h1
      in fmix h1 (of_nat len))"

subsection \<open>Arrays and columns\<close>

record 'a arr =
  arr_values :: "'a list"
  arr_validity :: "bool list option"

definition null_count :: "'a arr \<Rightarrow> nat" where
  "null_count a = (case arr_validity a of None \<Rightarrow> 0 | Some v \<Rightarrow> length (filter Not v))"

definition arr_is_null :: "'a arr \<Rightarrow> nat \<Rightarrow> bool option" where
  "arr_is_null a i =
     (case arr_validity a of None \<Rightarrow> Some False | Some v \<Rightarrow> do { b \<leftarrow> index v i; Some (\<not> b) })"

text \<open>The iterator of an array gives \<open>None\<close> for a null.\<close>

definition arr_get :: "'a arr \<Rightarrow> nat \<Rightarrow> 'a option" where
  "arr_get a i = (case arr_validity a of
       Some v \<Rightarrow> if v ! i then Some (arr_values a ! i) else None
     | None \<Rightarrow> Some (arr_values a ! i))"

definition arr_iter :: "'a arr \<Rightarrow> 'a option list" where
  "arr_iter a = map (arr_get a) [0..<length (arr_values a)]"

datatype time_unit = Second | Millisecond | Microsecond | Nanosecond

datatype index_type = IdxInt8 | IdxInt16 | IdxInt32 | IdxInt64 | IdxUInt8 | IdxUInt16 | IdxUInt32 | IdxUInt64 | IdxOther

datatype column =
    BooleanArray "bool arr"
  | Int8Array "8 word arr" | Int16Array "16 word arr" | Int32Array "32 word arr" | Int64Array "64 word arr"
  | Float32Array "32 word arr" | Float64Array "64 word arr"
  | TimestampArray time_unit "64 word arr" | Date32Array "32 word arr" | Date64Array "64 word arr"
  | StringArray "u8 list arr" | LargeStringArray "u8 list arr"
  | BinaryArray "u8 list arr" | LargeBinaryArray "u8 list arr" | FixedSizeBinaryArray "u8 list arr"
  | Decimal128Array nat "128 word arr"
  | DictionaryArray index_type "int arr" column
  | OtherArray string nat

fun column_len :: "column \<Rightarrow> nat" where
  "column_len (BooleanArray a) = length (arr_values a)"
| "column_len (Int8Array a) = length (arr_values a)"
| "column_len (Int16Array a) = length (arr_values a)"
| "column_len (Int32Array a) = length (arr_values a)"
| "column_len (Int64Array a) = length (arr_values a)"
| "column_len (Float32Array a) = length (arr_values a)"
| "column_len (Float64Array a) = length (arr_values a)"
| "column_len (TimestampArray u a) = length (arr_values a)"
| "column_len (Date32Array a) = length (arr_values a)"
| "column_len (Date64Array a) = length (arr_values a)"
| "column_len (StringArray a) = length (arr_values a)"
| "column_len (LargeStringArray a) = length (arr_values a)"
| "column_len (BinaryArray a) = length (arr_values a)"
| "column_len (LargeBinaryArray a) = length (arr_values a)"
| "column_len (FixedSizeBinaryArray a) = length (arr_values a)"
| "column_len (Decimal128Array p a) = length (arr_values a)"
| "column_len (DictionaryArray t keys values) = length (arr_values keys)"
| "column_len (OtherArray t n) = n"

datatype hash_error = Internal string | TryFromInt

subsection \<open>The hashing macros\<close>

text \<open>\<open>for (i, hash) in hashes.iter_mut().enumerate()\<close>\<close>

fun for_hashes :: "(nat \<Rightarrow> 'h \<Rightarrow> 'h option) \<Rightarrow> nat \<Rightarrow> 'h list \<Rightarrow> 'h list option" where
  "for_hashes f i [] = Some []"
| "for_hashes f i (h # hs) = do {
     h \<leftarrow> f i h;
     hs \<leftarrow> for_hashes f (Suc i) hs;
     Some (h # hs)
   }"

text \<open>\<open>for (i, (hash, value)) in hashes.iter_mut().zip(values.iter()).enumerate()\<close>\<close>

fun zip_hashes :: "(nat \<Rightarrow> 'v \<Rightarrow> 'h \<Rightarrow> 'h option) \<Rightarrow> nat \<Rightarrow> 'v list \<Rightarrow> 'h list \<Rightarrow> 'h list option" where
  "zip_hashes f i (v # vs) (h # hs) = do {
     h \<leftarrow> f i v h;
     hs \<leftarrow> zip_hashes f (Suc i) vs hs;
     Some (h # hs)
   }"
| "zip_hashes f i _ hs = Some hs"

definition hash_array :: "('v \<Rightarrow> 'h \<Rightarrow> 'h) \<Rightarrow> 'v arr \<Rightarrow> 'h list \<Rightarrow> 'h list option" where
  "hash_array m array hashes =
     (if null_count array = 0 then
        for_hashes (\<lambda>i h. do { v \<leftarrow> index (arr_values array) i; Some (m v h) }) 0 hashes
      else
        for_hashes (\<lambda>i h. do {
          null \<leftarrow> arr_is_null array i;
          if \<not> null then do { v \<leftarrow> index (arr_values array) i; Some (m v h) } else Some h
        }) 0 hashes)"

definition hash_array_boolean :: "(u8 list \<Rightarrow> 'h \<Rightarrow> 'h) \<Rightarrow> bool arr \<Rightarrow> 'h list \<Rightarrow> 'h list option" where
  "hash_array_boolean hash_method = hash_array (\<lambda>b. hash_method (le_bytes (of_bool b :: u32)))"

definition hash_array_primitive :: "('v \<Rightarrow> 'h \<Rightarrow> 'h) \<Rightarrow> 'v arr \<Rightarrow> 'h list \<Rightarrow> 'h list option" where
  "hash_array_primitive m array hashes =
     (if null_count array = 0 then zip_hashes (\<lambda>i v h. Some (m v h)) 0 (arr_values array) hashes
      else
        zip_hashes (\<lambda>i v h. do {
          null \<leftarrow> arr_is_null array i;
          if \<not> null then Some (m v h) else Some h
        }) 0 (arr_values array) hashes)"

text \<open>\<open>value == 0.0 && value.is_sign_negative()\<close> is the word with the sign bit alone.\<close>

definition hash_array_primitive_float :: "(u8 list \<Rightarrow> 'h \<Rightarrow> 'h) \<Rightarrow> 'a::len word arr \<Rightarrow> 'h list \<Rightarrow> 'h list option" where
  "hash_array_primitive_float hash_method =
     hash_array_primitive (\<lambda>v. if v = push_bit (LENGTH('a) - 1) 1 then hash_method (le_bytes (0 :: 'a word))
       else hash_method (le_bytes v))"

text \<open>\<open>i64::try_from\<close> of an \<open>i128\<close>; the early return with \<open>?\<close> leaves the hashes before it changed.\<close>

fun for_hashes_try :: "(nat \<Rightarrow> 'h \<Rightarrow> ('e + 'h) option) \<Rightarrow> nat \<Rightarrow> 'h list \<Rightarrow> ('e + 'h list) option" where
  "for_hashes_try f i [] = Some (Inr [])"
| "for_hashes_try f i (h # hs) = do {
     r \<leftarrow> f i h;
     (case r of
        Inl e \<Rightarrow> Some (Inl e)
      | Inr h \<Rightarrow> do {
          rest \<leftarrow> for_hashes_try f (Suc i) hs;
          (case rest of Inl e \<Rightarrow> Some (Inl e) | Inr hs \<Rightarrow> Some (Inr (h # hs)))
        })
   }"

definition try_i64 :: "128 word \<Rightarrow> hash_error + 64 word" where
  "try_i64 v = (if - (2 ^ 63) \<le> sint v \<and> sint v < 2 ^ 63 then Inr (word_of_int (sint v)) else Inl TryFromInt)"

definition hash_array_small_decimal :: "(u8 list \<Rightarrow> 'h \<Rightarrow> 'h) \<Rightarrow> 128 word arr \<Rightarrow> 'h list \<Rightarrow> (hash_error + 'h list) option" where
  "hash_array_small_decimal hash_method array hashes =
     (let hash = (\<lambda>i h. do {
        v \<leftarrow> index (arr_values array) i;
        (case try_i64 v of Inl e \<Rightarrow> Some (Inl e) | Inr v \<Rightarrow> Some (Inr (hash_method (le_bytes v) h)))
      }) in
      if null_count array = 0 then for_hashes_try hash 0 hashes
      else for_hashes_try (\<lambda>i h. do {
          null \<leftarrow> arr_is_null array i;
          if \<not> null then hash i h else Some (Inr h)
        }) 0 hashes)"

definition hash_array_decimal :: "(u8 list \<Rightarrow> 'h \<Rightarrow> 'h) \<Rightarrow> 128 word arr \<Rightarrow> 'h list \<Rightarrow> 'h list option" where
  "hash_array_decimal hash_method = hash_array (\<lambda>v. hash_method (le_bytes v))"

subsection \<open>\<open>create_hashes_internal\<close>\<close>

text \<open>The \<open>match\<close> on the type of a column. \<open>dict\<close> hashes a dictionary array.\<close>

fun hash_column :: "(u8 list \<Rightarrow> 'h \<Rightarrow> 'h) \<Rightarrow> (int arr \<Rightarrow> column \<Rightarrow> 'h list \<Rightarrow> bool \<Rightarrow> (hash_error + 'h list) option) \<Rightarrow>
    column \<Rightarrow> 'h list \<Rightarrow> bool \<Rightarrow> (hash_error + 'h list) option" where
  "hash_column hm dict (BooleanArray a) hs first = returns (hash_array_boolean hm a hs)"
| "hash_column hm dict (Int8Array a) hs first = returns (hash_array_primitive (\<lambda>v. hm (le_bytes (scast v :: 32 word))) a hs)"
| "hash_column hm dict (Int16Array a) hs first = returns (hash_array_primitive (\<lambda>v. hm (le_bytes (scast v :: 32 word))) a hs)"
| "hash_column hm dict (Int32Array a) hs first = returns (hash_array_primitive (\<lambda>v. hm (le_bytes v)) a hs)"
| "hash_column hm dict (Int64Array a) hs first = returns (hash_array_primitive (\<lambda>v. hm (le_bytes v)) a hs)"
| "hash_column hm dict (Float32Array a) hs first = returns (hash_array_primitive_float hm a hs)"
| "hash_column hm dict (Float64Array a) hs first = returns (hash_array_primitive_float hm a hs)"
| "hash_column hm dict (TimestampArray u a) hs first = returns (hash_array_primitive (\<lambda>v. hm (le_bytes v)) a hs)"
| "hash_column hm dict (Date32Array a) hs first = returns (hash_array_primitive (\<lambda>v. hm (le_bytes v)) a hs)"
| "hash_column hm dict (Date64Array a) hs first = returns (hash_array_primitive (\<lambda>v. hm (le_bytes v)) a hs)"
| "hash_column hm dict (StringArray a) hs first = returns (hash_array hm a hs)"
| "hash_column hm dict (LargeStringArray a) hs first = returns (hash_array hm a hs)"
| "hash_column hm dict (BinaryArray a) hs first = returns (hash_array hm a hs)"
| "hash_column hm dict (LargeBinaryArray a) hs first = returns (hash_array hm a hs)"
| "hash_column hm dict (FixedSizeBinaryArray a) hs first = returns (hash_array hm a hs)"
| "hash_column hm dict (Decimal128Array precision a) hs first =
     (if precision \<le> 18 then hash_array_small_decimal hm a hs else returns (hash_array_decimal hm a hs))"
| "hash_column hm dict (DictionaryArray index_type keys values) hs first =
     (if index_type = IdxOther then Some (Inl (Internal ''Unsupported dictionary type in hasher hashing''))
      else dict keys values hs first)"
| "hash_column hm dict (OtherArray ty n) hs first = Some (Inl (Internal ''Unsupported data type in hasher''))"

text \<open>\<open>for (i, col) in arrays.iter().enumerate()\<close>\<close>

fun create_hashes_internal :: "(u8 list \<Rightarrow> 'h \<Rightarrow> 'h) \<Rightarrow> (int arr \<Rightarrow> column \<Rightarrow> 'h list \<Rightarrow> bool \<Rightarrow> (hash_error + 'h list) option) \<Rightarrow>
    nat \<Rightarrow> column list \<Rightarrow> 'h list \<Rightarrow> (hash_error + 'h list) option" where
  "create_hashes_internal hm dict i [] hs = Some (Inr hs)"
| "create_hashes_internal hm dict i (col # cols) hs = do {
     r \<leftarrow> hash_column hm dict col hs (i = 0);
     (case r of Inl e \<Rightarrow> Some (Inl e) | Inr hs \<Rightarrow> create_hashes_internal hm dict (i + 1) cols hs)
   }"

text \<open>The loop over the keys of a dictionary array whose distinct values are hashed already.\<close>

fun assign_hashes :: "'h list \<Rightarrow> int option list \<Rightarrow> 'h list \<Rightarrow> (hash_error + 'h list) option" where
  "assign_hashes dict_hashes (key # keys) (h # hs) = do {
     r \<leftarrow> (case key of
            None \<Rightarrow> Some (Inr h)
          | Some k \<Rightarrow>
              if k < 0 then Some (Inl (Internal ''Can not convert key value to usize in dictionary''))
              else do { d \<leftarrow> index dict_hashes (nat k); Some (Inr d) });
     (case r of
        Inl e \<Rightarrow> Some (Inl e)
      | Inr h \<Rightarrow> do {
          rest \<leftarrow> assign_hashes dict_hashes keys hs;
          (case rest of Inl e \<Rightarrow> Some (Inl e) | Inr hs \<Rightarrow> Some (Inr (h # hs)))
        })
   }"
| "assign_hashes dict_hashes _ hs = Some (Inr hs)"

text \<open>
  \<open>create_hashes_dictionary\<close> and \<open>create_xxhash64_hashes_dictionary\<close> differ in the width of the hash alone.
  \<open>create\<close> is the recursive call, \<open>tk\<close> is Arrow's \<open>take\<close>.
\<close>

definition create_hashes_dictionary :: "(column list \<Rightarrow> 'h::len word list \<Rightarrow> (hash_error + 'h word list) option) \<Rightarrow>
    (column \<Rightarrow> int arr \<Rightarrow> hash_error + column) \<Rightarrow> int arr \<Rightarrow> column \<Rightarrow> 'h word list \<Rightarrow> bool \<Rightarrow>
    (hash_error + 'h word list) option" where
  "create_hashes_dictionary create tk keys values hashes_buffer first_col =
     (if \<not> first_col then
        (case tk values keys of
           Inl e \<Rightarrow> Some (Inl e)
         | Inr unpacked \<Rightarrow> create [unpacked] hashes_buffer)
      else do {
        r \<leftarrow> create [values] (replicate (column_len values) 42);
        (case r of
           Inl e \<Rightarrow> Some (Inl e)
         | Inr dict_hashes \<Rightarrow> assign_hashes dict_hashes (arr_iter keys) hashes_buffer)
      })"

text \<open>
  \<open>create_murmur3_hashes\<close> and \<open>create_xxhash64_hashes\<close>. Each level of dictionaries is one recursive call;
  \<open>depth\<close> bounds them, and two are enough for dictionaries of plain values.
\<close>

primrec create_hashes :: "(u8 list \<Rightarrow> 'h::len word \<Rightarrow> 'h word) \<Rightarrow> (column \<Rightarrow> int arr \<Rightarrow> hash_error + column) \<Rightarrow> nat \<Rightarrow>
    column list \<Rightarrow> 'h word list \<Rightarrow> (hash_error + 'h word list) option" where
  "create_hashes hm tk 0 = (\<lambda>arrays hashes_buffer. None)"
| "create_hashes hm tk (Suc depth) =
     create_hashes_internal hm (create_hashes_dictionary (create_hashes hm tk depth) tk) 0"

definition create_murmur3_hashes :: "(column \<Rightarrow> int arr \<Rightarrow> hash_error + column) \<Rightarrow> nat \<Rightarrow> column list \<Rightarrow> u32 list \<Rightarrow>
    (hash_error + u32 list) option" where
  "create_murmur3_hashes tk depth = create_hashes spark_compatible_murmur3_hash tk depth"

definition create_xxhash64_hashes :: "(u8 list \<Rightarrow> u64 \<Rightarrow> u64) \<Rightarrow> (column \<Rightarrow> int arr \<Rightarrow> hash_error + column) \<Rightarrow> nat \<Rightarrow>
    column list \<Rightarrow> u64 list \<Rightarrow> (hash_error + u64 list) option" where
  "create_xxhash64_hashes xxhash64 tk depth = create_hashes xxhash64 tk depth"

subsection \<open>Row by row\<close>

text \<open>The reference: the bytes that stand for a cell, none for a null, and the hash of a row over its cells.\<close>

definition float_bytes :: "'a::len word \<Rightarrow> u8 list" where
  "float_bytes v = le_bytes (if v = push_bit (LENGTH('a) - 1) 1 then 0 else v)"

fun col_cells :: "column \<Rightarrow> u8 list option list" where
  "col_cells (BooleanArray a) = map (map_option (\<lambda>b. le_bytes (of_bool b :: u32))) (arr_iter a)"
| "col_cells (Int8Array a) = map (map_option (\<lambda>v. le_bytes (scast v :: u32))) (arr_iter a)"
| "col_cells (Int16Array a) = map (map_option (\<lambda>v. le_bytes (scast v :: u32))) (arr_iter a)"
| "col_cells (Int32Array a) = map (map_option le_bytes) (arr_iter a)"
| "col_cells (Int64Array a) = map (map_option le_bytes) (arr_iter a)"
| "col_cells (Float32Array a) = map (map_option float_bytes) (arr_iter a)"
| "col_cells (Float64Array a) = map (map_option float_bytes) (arr_iter a)"
| "col_cells (TimestampArray u a) = map (map_option le_bytes) (arr_iter a)"
| "col_cells (Date32Array a) = map (map_option le_bytes) (arr_iter a)"
| "col_cells (Date64Array a) = map (map_option le_bytes) (arr_iter a)"
| "col_cells (StringArray a) = arr_iter a"
| "col_cells (LargeStringArray a) = arr_iter a"
| "col_cells (BinaryArray a) = arr_iter a"
| "col_cells (LargeBinaryArray a) = arr_iter a"
| "col_cells (FixedSizeBinaryArray a) = arr_iter a"
| "col_cells (Decimal128Array p a) =
     map (map_option (\<lambda>v. if p \<le> 18 then le_bytes (word_of_int (sint v) :: 64 word) else le_bytes v)) (arr_iter a)"
| "col_cells (DictionaryArray t keys values) =
     map (\<lambda>k. case k of None \<Rightarrow> None | Some k \<Rightarrow> col_cells values ! nat k) (arr_iter keys)"
| "col_cells (OtherArray t n) = replicate n None"

definition hash_cell :: "('v \<Rightarrow> 'h \<Rightarrow> 'h) \<Rightarrow> 'v option \<Rightarrow> 'h \<Rightarrow> 'h" where
  "hash_cell m c h = (case c of None \<Rightarrow> h | Some v \<Rightarrow> m v h)"

definition row_hash :: "(u8 list \<Rightarrow> 'h \<Rightarrow> 'h) \<Rightarrow> column list \<Rightarrow> nat \<Rightarrow> 'h \<Rightarrow> 'h" where
  "row_hash hm cols i seed = fold (\<lambda>c h. hash_cell hm (col_cells c ! i) h) cols seed"

text \<open>Arrays as Arrow builds them: a validity bit per value.\<close>

definition arr_wf :: "nat \<Rightarrow> 'a arr \<Rightarrow> bool" where
  "arr_wf n a \<longleftrightarrow> length (arr_values a) = n \<and> (case arr_validity a of None \<Rightarrow> True | Some v \<Rightarrow> length v = n)"

fun flat_wf :: "nat \<Rightarrow> column \<Rightarrow> bool" where
  "flat_wf n (BooleanArray a) = arr_wf n a"
| "flat_wf n (Int8Array a) = arr_wf n a"
| "flat_wf n (Int16Array a) = arr_wf n a"
| "flat_wf n (Int32Array a) = arr_wf n a"
| "flat_wf n (Int64Array a) = arr_wf n a"
| "flat_wf n (Float32Array a) = arr_wf n a"
| "flat_wf n (Float64Array a) = arr_wf n a"
| "flat_wf n (TimestampArray u a) = arr_wf n a"
| "flat_wf n (Date32Array a) = arr_wf n a"
| "flat_wf n (Date64Array a) = arr_wf n a"
| "flat_wf n (StringArray a) = arr_wf n a"
| "flat_wf n (LargeStringArray a) = arr_wf n a"
| "flat_wf n (BinaryArray a) = arr_wf n a"
| "flat_wf n (LargeBinaryArray a) = arr_wf n a"
| "flat_wf n (FixedSizeBinaryArray a) = arr_wf n a"
| "flat_wf n (Decimal128Array p a) = (arr_wf n a \<and>
     (p \<le> 18 \<longrightarrow> list_all (\<lambda>v. - (2 ^ 63) \<le> sint v \<and> sint v < 2 ^ 63) (arr_values a)))"
| "flat_wf n (DictionaryArray t keys values) = False"
| "flat_wf n (OtherArray t m) = False"

fun col_wf :: "nat \<Rightarrow> column \<Rightarrow> bool" where
  "col_wf n (DictionaryArray t keys values) = (t \<noteq> IdxOther \<and> arr_wf n keys \<and> flat_wf (column_len values) values \<and>
     list_all (\<lambda>k. case k of None \<Rightarrow> True | Some k \<Rightarrow> 0 \<le> k \<and> nat k < column_len values) (arr_iter keys))"
| "col_wf n c = flat_wf n c"

text \<open>What Arrow documents of \<open>take\<close>: the value at each key, null for a null key.\<close>

definition take_law :: "(column \<Rightarrow> int arr \<Rightarrow> 'e + column) \<Rightarrow> bool" where
  "take_law tk \<longleftrightarrow> (\<forall>n t keys values. col_wf n (DictionaryArray t keys values) \<longrightarrow>
     (\<exists>c. tk values keys = Inr c \<and> flat_wf n c \<and> col_cells c = col_cells (DictionaryArray t keys values)))"

lemma for_hashes_cells:
  "length cs = length hs \<Longrightarrow> (\<And>i h. i < length hs \<Longrightarrow> f (k + i) h = Some (hash_cell m (cs ! i) h)) \<Longrightarrow>
     for_hashes f k hs = Some (map2 (hash_cell m) cs hs)"
proof (induction hs arbitrary: k cs)
  case (Cons h hs)
  then obtain c cs' where cs: "cs = c # cs'" "length cs' = length hs" by (cases cs) auto
  have "f (Suc k + i) h = Some (hash_cell m (cs' ! i) h)" if "i < length hs" for i h
    using Cons.prems(2) [of "Suc i" h] that cs by simp
  with Cons.IH [OF cs(2)] have "for_hashes f (Suc k) hs = Some (map2 (hash_cell m) cs' hs)" by blast
  with Cons.prems(2) [of 0 h] cs show ?case by simp
qed simp

lemma for_hashes_try_cells:
  "length cs = length hs \<Longrightarrow> (\<And>i h. i < length hs \<Longrightarrow> f (k + i) h = Some (Inr (hash_cell m (cs ! i) h))) \<Longrightarrow>
     for_hashes_try f k hs = Some (Inr (map2 (hash_cell m) cs hs))"
proof (induction hs arbitrary: k cs)
  case (Cons h hs)
  then obtain c cs' where cs: "cs = c # cs'" "length cs' = length hs" by (cases cs) auto
  have "f (Suc k + i) h = Some (Inr (hash_cell m (cs' ! i) h))" if "i < length hs" for i h
    using Cons.prems(2) [of "Suc i" h] that cs by simp
  with Cons.IH [OF cs(2)] have "for_hashes_try f (Suc k) hs = Some (Inr (map2 (hash_cell m) cs' hs))" by blast
  with Cons.prems(2) [of 0 h] cs show ?case by simp
qed simp

lemma zip_hashes_cells:
  "length cs = length hs \<Longrightarrow> length vs = length hs \<Longrightarrow>
     (\<And>i h. i < length hs \<Longrightarrow> f (k + i) (vs ! i) h = Some (hash_cell m (cs ! i) h)) \<Longrightarrow>
     zip_hashes f k vs hs = Some (map2 (hash_cell m) cs hs)"
proof (induction hs arbitrary: k cs vs)
  case (Cons h hs)
  then obtain c cs' v vs' where cs: "cs = c # cs'" "length cs' = length hs" "vs = v # vs'" "length vs' = length hs"
    by (cases cs; cases vs) auto
  have "f (Suc k + i) (vs' ! i) h = Some (hash_cell m (cs' ! i) h)" if "i < length hs" for i h
    using Cons.prems(3) [of "Suc i" h] that cs by simp
  with Cons.IH [OF cs(2,4)] have "zip_hashes f (Suc k) vs' hs = Some (map2 (hash_cell m) cs' hs)" by blast
  with Cons.prems(3) [of 0 h] cs show ?case by simp
qed simp

lemmas hashes_cells = for_hashes_cells [where k = 0, unfolded add_0] for_hashes_try_cells [where k = 0, unfolded add_0]
  zip_hashes_cells [where k = 0, unfolded add_0]

lemma arr_iter_simps [simp]:
  "length (arr_iter a) = length (arr_values a)"
  "i < length (arr_values a) \<Longrightarrow> arr_iter a ! i = arr_get a i"
  by (simp_all add: arr_iter_def)

lemma no_nulls:
  assumes "arr_wf n a" and "null_count a = 0" and "i < n"
  shows "arr_get a i = Some (arr_values a ! i)"
proof (cases "arr_validity a")
  case (Some v)
  then have "i < length v" and "\<forall>b \<in> set v. b"
    using assms by (simp_all add: arr_wf_def null_count_def filter_empty_conv)
  then have "v ! i" using nth_mem by blast
  with Some show ?thesis by (simp add: arr_get_def)
qed (simp add: arr_get_def)

lemma is_null_get:
  assumes "arr_wf n a" and "i < n"
  shows "arr_is_null a i = Some (arr_get a i = None)"
    and "arr_get a i \<noteq> None \<Longrightarrow> arr_get a i = Some (arr_values a ! i)"
  using assms by (auto simp: arr_wf_def arr_is_null_def arr_get_def index_def split: option.splits)

text \<open>Both branches of a macro, with and without nulls, update each hash with its cell.\<close>

lemma hash_array_cells:
  assumes "arr_wf (length hs) a"
  shows "hash_array m a hs = Some (map2 (hash_cell m) (arr_iter a) hs)"
proof -
  have len: "length (arr_values a) = length hs" using assms by (simp add: arr_wf_def)
  then have v: "index (arr_values a) i = Some (arr_values a ! i)" if "i < length hs" for i
    using that by (simp add: index_Some)
  show ?thesis
  proof (cases "null_count a = 0")
    case True
    then show ?thesis unfolding hash_array_def if_P [OF True]
      by (intro hashes_cells(1)) (simp_all add: len v no_nulls [OF assms] hash_cell_def)
  next
    case False
    have "(do { null \<leftarrow> arr_is_null a i; if \<not> null then do { v \<leftarrow> index (arr_values a) i; Some (m v h) } else Some h }) =
        Some (hash_cell m (arr_get a i) h)" if "i < length hs" for i h
      using that is_null_get [OF assms that] v [OF that] by (cases "arr_get a i") (auto simp: hash_cell_def)
    then show ?thesis unfolding hash_array_def if_not_P [OF False]
      by (intro hashes_cells(1)) (simp_all add: len)
  qed
qed

lemma hash_array_primitive_cells:
  assumes "arr_wf (length hs) a"
  shows "hash_array_primitive m a hs = Some (map2 (hash_cell m) (arr_iter a) hs)"
proof -
  have len: "length (arr_values a) = length hs" using assms by (simp add: arr_wf_def)
  show ?thesis
  proof (cases "null_count a = 0")
    case True
    then show ?thesis unfolding hash_array_primitive_def if_P [OF True]
      by (intro hashes_cells(3)) (simp_all add: len no_nulls [OF assms] hash_cell_def)
  next
    case False
    have "(do { null \<leftarrow> arr_is_null a i; if \<not> null then Some (m (arr_values a ! i) h) else Some h }) =
        Some (hash_cell m (arr_get a i) h)" if "i < length hs" for i h
      using that is_null_get [OF assms that] by (cases "arr_get a i") (auto simp: hash_cell_def)
    then show ?thesis unfolding hash_array_primitive_def if_not_P [OF False]
      by (intro hashes_cells(3)) (simp_all add: len)
  qed
qed

lemma hash_array_small_decimal_cells:
  assumes "arr_wf (length hs) a" and fits: "list_all (\<lambda>v. - (2 ^ 63) \<le> sint v \<and> sint v < 2 ^ 63) (arr_values a)"
  shows "hash_array_small_decimal hm a hs =
    Some (Inr (map2 (hash_cell (\<lambda>v. hm (le_bytes (word_of_int (sint v) :: 64 word)))) (arr_iter a) hs))"
proof -
  let ?m = "\<lambda>v. hm (le_bytes (word_of_int (sint v) :: 64 word))"
  have len: "length (arr_values a) = length hs" using assms by (simp add: arr_wf_def)
  have v: "(do { v \<leftarrow> index (arr_values a) i;
      (case try_i64 v of Inl e \<Rightarrow> Some (Inl e) | Inr v \<Rightarrow> Some (Inr (hm (le_bytes v) h))) }) =
      Some (Inr (?m (arr_values a ! i) h))" if "i < length hs" for i h
    using that fits len by (simp add: index_Some try_i64_def list_all_length)
  show ?thesis
  proof (cases "null_count a = 0")
    case True
    then show ?thesis unfolding hash_array_small_decimal_def Let_def if_P [OF True]
      by (intro hashes_cells(2)) (simp_all add: len v no_nulls [OF assms(1)] hash_cell_def)
  next
    case False
    have "(do { null \<leftarrow> arr_is_null a i; if \<not> null then Some (Inr (?m (arr_values a ! i) h)) else Some (Inr h) }) =
        Some (Inr (hash_cell ?m (arr_get a i) h))" if "i < length hs" for i h
      using that is_null_get [OF assms(1) that] by (cases "arr_get a i") (auto simp: hash_cell_def)
    then show ?thesis unfolding hash_array_small_decimal_def Let_def if_not_P [OF False]
      by (intro hashes_cells(2)) (simp_all add: len v cong: if_cong)
  qed
qed

lemma hash_cell_map: "hash_cell hm (map_option f c) = hash_cell (\<lambda>v. hm (f v)) c"
  by (cases c) (simp_all add: hash_cell_def fun_eq_iff)

lemma map2_hash_map: "map2 (hash_cell hm) (map (map_option f) cs) hs = map2 (hash_cell (\<lambda>v. hm (f v))) cs hs"
  by (simp add: map_zip_map hash_cell_map split_def)

lemmas hash_macros = hash_array_boolean_def hash_array_primitive_float_def hash_array_decimal_def float_bytes_def

lemma hash_flat_column:
  assumes "flat_wf (length hs) c"
  shows "hash_column hm dict c hs first = Some (Inr (map2 (hash_cell hm) (col_cells c) hs))"
  using assms
  by (cases c) (auto simp: hash_macros returns_def hash_array_cells hash_array_primitive_cells hash_array_small_decimal_cells
      map2_hash_map if_distrib [of hm] if_distrib [of le_bytes] cong: if_cong)

lemma length_col_cells: "col_wf n c \<Longrightarrow> length (col_cells c) = n"
  by (cases c) (auto simp: arr_wf_def)

lemma flat_col_wf: "flat_wf n c \<Longrightarrow> col_wf n c"
  by (cases c) auto

text \<open>Handing the hashes of the distinct values out to the keys.\<close>

lemma assign_hashes_cells:
  "length ks = length hs \<Longrightarrow>
     list_all (\<lambda>k. case k of None \<Rightarrow> True | Some k \<Rightarrow> 0 \<le> k \<and> nat k < length ds) ks \<Longrightarrow>
     assign_hashes ds ks hs = Some (Inr (map2 (\<lambda>k h. case k of None \<Rightarrow> h | Some k \<Rightarrow> ds ! nat k) ks hs))"
proof (induction ks arbitrary: hs)
  case (Cons k ks)
  then obtain h hs' where "hs = h # hs'" "length ks = length hs'" by (cases hs) auto
  with Cons show ?case by (cases k) (auto simp: index_Some)
qed simp

lemma create_flat:
  assumes "flat_wf (length hs) c"
  shows "create_hashes hm tk (Suc d) [c] hs = Some (Inr (map2 (hash_cell hm) (col_cells c) hs))"
  by (simp add: hash_flat_column [OF assms])

lemma hash_dictionary:
  assumes law: "take_law tk" and wf: "col_wf (length hs) (DictionaryArray t keys values)"
    and seed: "first \<Longrightarrow> hs = replicate (length hs) 42"
  shows "create_hashes_dictionary (create_hashes hm tk (Suc d)) tk keys values hs first =
    Some (Inr (map2 (hash_cell hm) (col_cells (DictionaryArray t keys values)) hs))"
proof (cases first)
  case False
  from law wf obtain c where "tk values keys = Inr c" "flat_wf (length hs) c"
    "col_cells c = col_cells (DictionaryArray t keys values)" unfolding take_law_def by blast
  with False create_flat [of hs c hm tk d] show ?thesis by (simp add: create_hashes_dictionary_def)
next
  case True
  let ?n = "column_len values"
  let ?ds = "map2 (hash_cell hm) (col_cells values) (replicate ?n 42)"
  have vals: "flat_wf ?n values" and lens: "length (arr_values keys) = length hs"
    and ks: "list_all (\<lambda>k. case k of None \<Rightarrow> True | Some k \<Rightarrow> 0 \<le> k \<and> nat k < ?n) (arr_iter keys)"
    using wf by (simp_all add: arr_wf_def)
  have lv: "length (col_cells values) = ?n" using vals by (intro length_col_cells flat_col_wf)
  have ld: "length ?ds = ?n" using lv by simp
  have "create_hashes hm tk (Suc d) [values] (replicate ?n 42) = Some (Inr ?ds)"
    using create_flat [of "replicate ?n 42" "values" hm tk d] vals by simp
  moreover have "assign_hashes ?ds (arr_iter keys) hs =
      Some (Inr (map2 (\<lambda>k h. case k of None \<Rightarrow> h | Some k \<Rightarrow> ?ds ! nat k) (arr_iter keys) hs))"
    by (rule assign_hashes_cells) (simp add: lens, use ks in \<open>simp only: ld\<close>)
  moreover have "map2 (\<lambda>k h. case k of None \<Rightarrow> h | Some k \<Rightarrow> ?ds ! nat k) (arr_iter keys) hs =
      map2 (hash_cell hm) (col_cells (DictionaryArray t keys values)) hs" (is "?a = ?b")
  proof (rule nth_equalityI)
    fix i assume "i < length ?a"
    then have i: "i < length hs" using lens by simp
    have "hs ! i = 42" using seed [OF True] i by (metis nth_replicate)
    moreover have "case arr_iter keys ! i of None \<Rightarrow> True | Some k \<Rightarrow> 0 \<le> k \<and> nat k < ?n"
      using ks i lens by (simp add: list_all_length)
    ultimately show "?a ! i = ?b ! i"
      using i lens lv by (cases "arr_get keys i") (simp_all add: hash_cell_def)
  qed (use lens in simp)
  ultimately show ?thesis using True by (simp add: create_hashes_dictionary_def)
qed

definition is_dictionary :: "column \<Rightarrow> bool" where
  "is_dictionary c \<longleftrightarrow> (\<exists>t keys values. c = DictionaryArray t keys values)"

lemma hash_any_column:
  assumes "take_law tk" and "col_wf (length hs) c" and "first \<Longrightarrow> is_dictionary c \<Longrightarrow> hs = replicate (length hs) 42"
  shows "hash_column hm (create_hashes_dictionary (create_hashes hm tk (Suc d)) tk) c hs first =
    Some (Inr (map2 (hash_cell hm) (col_cells c) hs))"
proof (cases "is_dictionary c")
  case True
  then obtain t keys "values" where c: "c = DictionaryArray t keys values" by (auto simp: is_dictionary_def)
  then have "t \<noteq> IdxOther" using assms(2) by simp
  with hash_dictionary [OF assms(1), of hs t keys "values" first hm d] assms(2,3) c True show ?thesis by simp
next
  case False
  then have "flat_wf (length hs) c" using assms(2) by (cases c) (auto simp: is_dictionary_def)
  then show ?thesis by (rule hash_flat_column)
qed

lemma create_internal_rows:
  assumes law: "take_law tk"
  shows "list_all (col_wf (length hs)) cols \<Longrightarrow>
    (i = 0 \<Longrightarrow> cols \<noteq> [] \<Longrightarrow> is_dictionary (hd cols) \<Longrightarrow> hs = replicate (length hs) 42) \<Longrightarrow>
    create_hashes_internal hm (create_hashes_dictionary (create_hashes hm tk (Suc d)) tk) i cols hs =
      Some (Inr (fold (\<lambda>c. map2 (hash_cell hm) (col_cells c)) cols hs))"
proof (induction cols arbitrary: i hs)
  case (Cons c cols)
  let ?hs = "map2 (hash_cell hm) (col_cells c) hs"
  have wf: "col_wf (length hs) c" and wfs: "list_all (col_wf (length hs)) cols" using Cons.prems(1) by simp_all
  have l: "length ?hs = length hs" using length_col_cells [OF wf] by simp
  have "hash_column hm (create_hashes_dictionary (create_hashes hm tk (Suc d)) tk) c hs (i = 0) = Some (Inr ?hs)"
    by (rule hash_any_column [OF law wf]) (use Cons.prems(2) in simp)
  moreover have "create_hashes_internal hm (create_hashes_dictionary (create_hashes hm tk (Suc d)) tk) (i + 1) cols ?hs =
      Some (Inr (fold (\<lambda>c. map2 (hash_cell hm) (col_cells c)) cols ?hs))"
    by (rule Cons.IH) (use wfs l in simp_all)
  ultimately show ?case by simp
qed simp

lemma fold_rows:
  "list_all (col_wf (length hs)) cols \<Longrightarrow>
     fold (\<lambda>c. map2 (hash_cell hm) (col_cells c)) cols hs = map (\<lambda>i. row_hash hm cols i (hs ! i)) [0..<length hs]"
proof (induction cols arbitrary: hs)
  case Nil
  then show ?case by (simp add: row_hash_def map_nth)
next
  case (Cons c cols)
  let ?hs = "map2 (hash_cell hm) (col_cells c) hs"
  have "length (col_cells c) = length hs" using Cons.prems by (simp add: length_col_cells)
  then have l: "length ?hs = length hs" and n: "\<And>i. i < length hs \<Longrightarrow> ?hs ! i = hash_cell hm (col_cells c ! i) (hs ! i)"
    by simp_all
  have "list_all (col_wf (length ?hs)) cols" using Cons.prems l by simp
  from Cons.IH [OF this] have "fold (\<lambda>c. map2 (hash_cell hm) (col_cells c)) (c # cols) hs =
      map (\<lambda>i. row_hash hm cols i (?hs ! i)) [0..<length hs]" by (simp only: fold_simps l)
  also have "\<dots> = map (\<lambda>i. row_hash hm (c # cols) i (hs ! i)) [0..<length hs]"
    by (rule map_cong [OF refl]) (use n in \<open>simp add: row_hash_def\<close>)
  finally show ?case .
qed

subsection \<open>Distinct inputs\<close>

text \<open>Every step of Murmur3 can be undone: rotations, odd factors, and a word xored with its own shift.\<close>

lemma inj_times_unit: "c * d = (1 :: 'a::len word) \<Longrightarrow> inj (\<lambda>x. x * c)"
  by (rule injI) (metis mult.assoc mult.right_neutral)

lemma bit_rotate_left:
  assumes "0 < n" and "n < 32" and "k < 32"
  shows "bit (rotate_left x n) k = bit x ((k + 32 - n) mod 32)"
proof (cases "n \<le> k")
  case True
  then have "(k + 32 - n) mod 32 = k - n" using assms by (simp add: mod_if)
  moreover have "\<not> bit x (32 - n + k)" using True bit_imp_le_length [of x "32 - n + k"] by auto
  ultimately show ?thesis using True assms by (simp add: rotate_left_def bit_or_iff bit_shl bit_shr)
next
  case False
  then show ?thesis using assms by (simp add: rotate_left_def bit_or_iff bit_shl bit_shr add.commute)
qed

lemma inj_rotate_left:
  assumes "0 < n" and "n < 32"
  shows "inj (\<lambda>x. rotate_left x n)"
proof (rule injI)
  fix x y assume eq: "rotate_left x n = rotate_left y n"
  show "x = y"
  proof (rule bit_word_eqI)
    fix k assume k: "k < LENGTH(32)"
    let ?j = "(k + n) mod 32"
    have j: "?j < 32" and "(?j + 32 - n) mod 32 = k" using k assms by (auto simp: mod_if)
    with bit_rotate_left [OF assms j] eq show "bit x k = bit y k" by metis
  qed
qed

lemma drop_bit_self_zero:
  fixes d :: "'a::len word"
  assumes "0 < k" and "drop_bit k d = d"
  shows "d = 0"
proof -
  have "drop_bit (m * k) d = d" for m
    by (induction m) (simp_all add: assms(2) flip: drop_bit_drop_bit)
  from this [of "LENGTH('a)"] assms(1) show ?thesis
    by (metis drop_bit_word_beyond mult.commute mult_le_cancel1 nat_mult_1_right Suc_leI One_nat_def)
qed

lemma inj_xor_shr:
  assumes "0 < k"
  shows "inj (\<lambda>x :: 'a::len word. x XOR shr x k)"
proof (rule injI)
  fix x y :: "'a word" assume "x XOR shr x k = y XOR shr y k"
  then have "drop_bit k (x XOR y) = x XOR y"
    by (simp add: shr_def drop_bit_xor) (metis xor.assoc xor.commute xor.left_neutral xor_self_eq)
  then have "x XOR y = 0" by (rule drop_bit_self_zero [OF assms])
  then show "x = y" by (metis xor.assoc xor.left_neutral xor.right_neutral xor_self_eq)
qed

lemma inj_xor_const: "inj (\<lambda>x :: 'a::len word. x XOR c)" and inj_const_xor: "inj (\<lambda>x :: 'a::len word. c XOR x)"
  by (rule injI, metis xor.assoc xor.right_neutral xor.left_neutral xor_self_eq)+

lemma inj_mix_k1: "inj mix_k1"
proof -
  have "inj (\<lambda>x :: u32. x * 0xcc9e2d51)" by (rule inj_times_unit [of _ "0xdee13bb1"]) simp
  moreover have "inj (\<lambda>x :: u32. rotate_left x 15)" by (rule inj_rotate_left) simp_all
  moreover have "inj (\<lambda>x :: u32. x * 0x1b873593)" by (rule inj_times_unit [of _ "0x56ed309b"]) simp
  ultimately show ?thesis unfolding inj_def mix_k1_def Let_def by blast
qed

lemma inj_mix_h1: "inj (\<lambda>h. mix_h1 h k)" and inj_mix_h1_k1: "inj (mix_h1 h)"
proof -
  have a: "inj (\<lambda>x :: u32. rotate_left x 13)" by (rule inj_rotate_left) simp_all
  have "inj (\<lambda>x :: u32. x * 5)" by (rule inj_times_unit [of _ "0xcccccccd"]) simp
  then have b: "inj (\<lambda>x :: u32. x * 5 + 0xe6546b64)" unfolding inj_def add_right_cancel .
  show "inj (\<lambda>h. mix_h1 h k)" using a b inj_xor_const [of k] unfolding inj_def mix_h1_def Let_def by blast
  show "inj (mix_h1 h)" using a b inj_const_xor [of h] unfolding inj_def mix_h1_def Let_def by blast
qed

lemma inj_fmix: "inj (\<lambda>h. fmix h n)"
proof -
  have a: "inj (\<lambda>x :: u32. x * 0x85ebca6b)" by (rule inj_times_unit [of _ "0xa5cb9243"]) simp
  have b: "inj (\<lambda>x :: u32. x * 0xc2b2ae35)" by (rule inj_times_unit [of _ "0x7ed1b41d"]) simp
  have c: "inj (\<lambda>x :: u32. x XOR shr x 16)" by (rule inj_xor_shr) simp
  have d: "inj (\<lambda>x :: u32. x XOR shr x 13)" by (rule inj_xor_shr) simp
  show ?thesis
    unfolding fmix_def Let_def
    by (rule injI) (drule injD [OF c], drule injD [OF b], drule injD [OF d], drule injD [OF a], drule injD [OF c],
        erule injD [OF inj_xor_const])
qed

lemma hash_loops_inj:
  "hash_bytes_by_int data g = hash_bytes_by_int data h \<Longrightarrow> g = h"
proof (induction data g arbitrary: h rule: hash_bytes_by_int.induct)
  case (1 a b c d data g)
  then have "mix_h1 g (mix_k1 (le_word [a, b, c, d])) = mix_h1 h (mix_k1 (le_word [a, b, c, d]))" by simp
  then show ?case by (rule injD [OF inj_mix_h1])
qed simp_all

lemma hash_tail_inj: "hash_tail data g = hash_tail data h \<Longrightarrow> g = h"
proof (induction data arbitrary: g h)
  case (Cons b data)
  then have "mix_h1 g (mix_k1 (scast b)) = mix_h1 h (mix_k1 (scast b))" by simp
  then show ?case by (rule injD [OF inj_mix_h1])
qed simp

lemma murmur3_inj_seed: "inj (spark_compatible_murmur3_hash data)"
proof (rule injI)
  fix s t assume "spark_compatible_murmur3_hash data s = spark_compatible_murmur3_hash data t"
  from hash_tail_inj [OF injD [OF inj_fmix this [unfolded spark_compatible_murmur3_hash_def Let_def]]]
  show "s = t" by (auto dest: hash_loops_inj split: if_splits)
qed

lemma murmur3_inj_int: "inj (\<lambda>x :: u32. spark_compatible_murmur3_hash (le_bytes x) seed)"
proof (rule injI)
  fix x y :: u32
  have hash4: "spark_compatible_murmur3_hash (le_bytes z) seed = fmix (mix_h1 seed (mix_k1 (le_word (le_bytes z)))) 4" for z :: u32
  proof -
    have "\<exists>a b c d. xs = [a, b, c, d]" if "length xs = 4" for xs :: "u8 list"
      using that by (auto simp: eval_nat_numeral length_Suc_conv)
    from this [of "le_bytes z"] obtain a b c d where "le_bytes z = [a, b, c, d]" by auto
    then show ?thesis by (simp add: spark_compatible_murmur3_hash_def)
  qed
  assume "spark_compatible_murmur3_hash (le_bytes x) seed = spark_compatible_murmur3_hash (le_bytes y) seed"
  then have "fmix (mix_h1 seed (mix_k1 (le_word (le_bytes x)))) 4 = fmix (mix_h1 seed (mix_k1 (le_word (le_bytes y)))) 4"
    unfolding hash4 .
  then have "le_word (le_bytes x) = (le_word (le_bytes y) :: u32)"
    by (rule injD [OF inj_mix_k1, OF injD [OF inj_mix_h1_k1, OF injD [OF inj_fmix]]])
  then show "x = y" by (simp add: le_word_le_bytes)
qed

text \<open>Values from the unit tests of the source.\<close>

lemma murmur3_test_values:
  "spark_compatible_murmur3_hash (le_bytes (1 :: u32)) 42 = 0xdea578e3"
  "spark_compatible_murmur3_hash (le_bytes (1 :: u64)) 42 = 0x99f0149d"
  "spark_compatible_murmur3_hash [0x61, 0x62, 0x63, 0x64, 0x65] 42 = 814637928"
  by code_simp+

text \<open>A \<open>take\<close> that keeps the law: it gathers the bytes of the cells.\<close>

definition take_bytes :: "column \<Rightarrow> int arr \<Rightarrow> hash_error + column" where
  "take_bytes values keys =
     (let cells = col_cells (DictionaryArray IdxInt32 keys values) in
      Inr (BinaryArray \<lparr>arr_values = map (\<lambda>c. case c of None \<Rightarrow> [] | Some b \<Rightarrow> b) cells,
        arr_validity = Some (map (\<lambda>c. c \<noteq> None) cells)\<rparr>))"

lemma take_bytes_law: "take_law take_bytes"
  unfolding take_law_def
proof (intro allI impI)
  fix n t keys "values" assume wf: "col_wf n (DictionaryArray t keys values)"
  define cs where "cs = col_cells (DictionaryArray t keys values)"
  let ?a = "\<lparr>arr_values = map (\<lambda>c. case c of None \<Rightarrow> [] | Some b \<Rightarrow> b) cs, arr_validity = Some (map (\<lambda>c. c \<noteq> None) cs)\<rparr>"
  have "arr_iter ?a = cs" by (rule nth_equalityI) (auto simp: arr_get_def)
  moreover have "arr_wf n ?a" using length_col_cells [OF wf] by (simp add: arr_wf_def cs_def)
  ultimately show "\<exists>c. take_bytes values keys = Inr c \<and> flat_wf n c \<and> col_cells c = col_cells (DictionaryArray t keys values)"
    by (intro exI [of _ "BinaryArray ?a"]) (simp add: take_bytes_def cs_def)
qed

subsection \<open>Properties\<close>

text \<open>
  C33. Column-wise hashing is row-wise hashing: for any hash method, whatever mixture of types, nulls and
  dictionary encodings the columns have, entry \<open>i\<close> of the result is the hash of the cells of row \<open>i\<close> in column order,
  a null leaving the hash as it was. When the first column is a dictionary, the buffer must hold Spark's seed 42.
\<close>

theorem create_hashes_rows:
  assumes "take_law tk" and "list_all (col_wf (length hs)) cols"
    and "cols \<noteq> [] \<Longrightarrow> is_dictionary (hd cols) \<Longrightarrow> hs = replicate (length hs) 42"
  shows "create_hashes hm tk (Suc (Suc d)) cols hs = Some (Inr (map (\<lambda>i. row_hash hm cols i (hs ! i)) [0..<length hs]))"
  using create_internal_rows [OF assms(1,2), of 0 hm d] assms(3) fold_rows [OF assms(2), of hm] by simp

theorem create_hashes_rows_witness:
  "create_murmur3_hashes take_bytes 2
      [DictionaryArray IdxInt32 \<lparr>arr_values = [1, 0], arr_validity = None\<rparr>
         (StringArray \<lparr>arr_values = [[0x61], [0x62]], arr_validity = None\<rparr>),
       Int64Array \<lparr>arr_values = [7, 0], arr_validity = Some [True, False]\<rparr>] [42, 42] =
    Some (Inr [spark_compatible_murmur3_hash (le_bytes (7 :: u64)) (spark_compatible_murmur3_hash [0x62] 42),
      spark_compatible_murmur3_hash [0x61] 42])"
proof -
  let ?cols = "[DictionaryArray IdxInt32 \<lparr>arr_values = [1, 0], arr_validity = None\<rparr>
         (StringArray \<lparr>arr_values = [[0x61], [0x62]], arr_validity = None\<rparr>),
       Int64Array \<lparr>arr_values = [7, 0], arr_validity = Some [True, False]\<rparr>]"
  have wf: "list_all (col_wf (length [42, 42 :: u32])) ?cols" by (simp add: arr_wf_def arr_iter_def arr_get_def)
  have "create_hashes spark_compatible_murmur3_hash take_bytes (Suc (Suc 0)) ?cols [42, 42] =
      Some (Inr (map (\<lambda>i. row_hash spark_compatible_murmur3_hash ?cols i ([42, 42] ! i)) [0..<length [42, 42 :: u32]]))"
    by (rule create_hashes_rows [OF take_bytes_law wf]) simp
  then show ?thesis
    by (simp add: create_murmur3_hashes_def numeral_2_eq_2 upt_rec row_hash_def hash_cell_def arr_iter_def arr_get_def)
qed

text \<open>
  Murmur3 loses nothing on a 32-bit value or on the hash it continues: for a given seed, distinct integers
  have distinct hashes, and for given bytes, distinct seeds do. So two rows that agree in all columns but one
  integer column, with the columns behind it equal, never collide.
\<close>

theorem murmur3_injective:
  "inj (\<lambda>x :: u32. spark_compatible_murmur3_hash (le_bytes x) seed) \<and> inj (spark_compatible_murmur3_hash data)"
  using murmur3_inj_int murmur3_inj_seed by blast

text \<open>
  With a seed other than 42 a dictionary-encoded first column is not hashed like the plain column of the
  same values: the hashes of the distinct values always start from 42.
\<close>

theorem dictionary_ignores_seed:
  "create_murmur3_hashes take_bytes 2
      [DictionaryArray IdxInt32 \<lparr>arr_values = [0], arr_validity = None\<rparr> (Int32Array \<lparr>arr_values = [1], arr_validity = None\<rparr>)] [0]
    \<noteq> create_murmur3_hashes take_bytes 2 [Int32Array \<lparr>arr_values = [1], arr_validity = None\<rparr>] [0]"
proof -
  have "spark_compatible_murmur3_hash (le_bytes (1 :: u32)) 42 \<noteq> spark_compatible_murmur3_hash (le_bytes (1 :: u32)) 0"
    using injD [OF murmur3_inj_seed, of "le_bytes (1 :: u32)" 42 0] by auto
  then show ?thesis
    by (simp add: create_murmur3_hashes_def numeral_2_eq_2 create_hashes_dictionary_def returns_def hash_array_primitive_def
        null_count_def arr_iter_def arr_get_def index_def)
qed

end
