(* ===== verification/Shuffle_Writer.thy ===== *)
theory Shuffle_Writer
  imports Shuffle_Codec Spark_Hash
begin

text \<open>
  The shuffle writer of \<open>native/core/src/execution/shuffle/shuffle_writer.rs\<close> and
  \<open>comet_partitioning.rs\<close>: computing the partition of every row, grouping the rows of a batch by partition,
  buffering and spilling them, and writing the data file and its index.

  A record batch is the list of its rows. The Arrow kernels, the evaluation of expressions and the memory
  reservation are parameters; the laws the proofs use of them are named in \<open>Shuffle_Writer_Spec\<close>. Metrics and
  tracing are left out, files are lists of bytes and the operating system does not fail.
\<close>

subsection \<open>Partitioning schemes\<close>

text \<open>The expressions of a scheme are kept as their effect on a batch: the columns to hash, or the
  comparable rows of the row converter.\<close>

datatype ('r, 'k) comet_partitioning =
    SinglePartition
  | Hash "'r list \<Rightarrow> shuffle_error + column list" nat
  | RangePartitioning "'r list \<Rightarrow> shuffle_error + 'k list" nat "'k list"

fun partition_count :: "('r, 'k) comet_partitioning \<Rightarrow> nat" where
  "partition_count SinglePartition = 1"
| "partition_count (Hash _ n) = n"
| "partition_count (RangePartitioning _ n _) = n"

text \<open>The remainder of Rust has the sign of the dividend; it panics for a zero divisor and on overflow.\<close>

definition i32_rem :: "int \<Rightarrow> int \<Rightarrow> int option" where
  "i32_rem a b = do {
     ensure (b \<noteq> 0);
     ensure (\<not> (a = - (2 ^ 31) \<and> b = - 1));
     Some (a - b * tdiv a b)
   }"

definition pmod :: "u32 \<Rightarrow> nat \<Rightarrow> nat option" where
  "pmod hash n = do {
     let hash = sint hash;
     let n = sint (of_nat n :: u32);
     r \<leftarrow> i32_rem hash n;
     result \<leftarrow> (if r < 0 then do { ensure (fits_int True 4 (r + n)); i32_rem (r + n) n } else Some r);
     Some (unat (word_of_int result :: u64))
   }"

text \<open>The external parts: the Arrow kernels \<open>take\<close>, \<open>interleave_record_batch\<close> and \<open>concat_batches\<close>, the
  block encoder, and the memory reservation with the bytes a batch and its row indices add to it.\<close>

record ('r, 'm) shuffle_env =
  env_encode :: "compression_codec \<Rightarrow> 'r list \<Rightarrow> u8 list res"
  env_take :: "column \<Rightarrow> int arr \<Rightarrow> hash_error + column"
  env_interleave :: "'r list list \<Rightarrow> (nat \<times> nat) list \<Rightarrow> shuffle_error + 'r list"
  env_concat :: "'r list list \<Rightarrow> shuffle_error + 'r list"
  env_growth :: "'r list \<Rightarrow> (u32 \<times> u32) list list \<Rightarrow> (u32 \<times> u32) list list \<Rightarrow> nat"
  env_try_grow :: "'m \<Rightarrow> nat \<Rightarrow> 'm option"
  env_free :: "'m \<Rightarrow> 'm"

subsection \<open>Grouping the rows of a batch by partition\<close>

record scratch_space =
  ss_hashes_buf :: "u32 list"
  ss_partition_ids :: "u32 list"
  ss_partition_row_indices :: "u32 list"
  ss_partition_starts :: "u32 list"

fun count_partitions :: "u32 list \<Rightarrow> u32 list \<Rightarrow> u32 list option" where
  "count_partitions [] counters = Some counters"
| "count_partitions (p # ids) counters = do {
     c \<leftarrow> index counters (unat p);
     ensure (c + 1 \<noteq> 0);
     counters \<leftarrow> update counters (unat p) (c + 1);
     count_partitions ids counters
   }"

fun accumulate_counters :: "u32 \<Rightarrow> u32 list \<Rightarrow> u32 list option" where
  "accumulate_counters accum [] = Some []"
| "accumulate_counters accum (v # vs) = do {
     ensure (unat v + unat accum < 2 ^ 32);
     vs \<leftarrow> accumulate_counters (v + accum) vs;
     Some ((v + accum) # vs)
   }"

fun place_rows :: "(nat \<times> u32) list \<Rightarrow> u32 list \<Rightarrow> u32 list \<Rightarrow> (u32 list \<times> u32 list) option" where
  "place_rows [] ends rows = Some (ends, rows)"
| "place_rows ((i, p) # rest) ends rows = do {
     e \<leftarrow> index ends (unat p);
     ensure (e \<noteq> 0);
     ends \<leftarrow> update ends (unat p) (e - 1);
     rows \<leftarrow> update rows (unat (e - 1)) (of_nat i);
     place_rows rest ends rows
   }"

definition map_partition_ids_to_starts_and_indices :: "scratch_space \<Rightarrow> nat \<Rightarrow> nat \<Rightarrow> scratch_space option" where
  "map_partition_ids_to_starts_and_indices scratch num_output_partitions num_rows = do {
     partition_ids \<leftarrow> slice_range (ss_partition_ids scratch) 0 num_rows;
     let counters = vec_resize (num_output_partitions + 1) 0 (ss_partition_starts scratch);
     let counters = map (\<lambda>_. 0) counters;
     counters \<leftarrow> count_partitions partition_ids counters;
     ends \<leftarrow> accumulate_counters 0 counters;
     let rows = vec_resize num_rows 0 (ss_partition_row_indices scratch);
     (starts, rows) \<leftarrow> place_rows (rev (zip [0..<length partition_ids] partition_ids)) ends rows;
     Some (scratch\<lparr>ss_partition_starts := starts, ss_partition_row_indices := rows\<rparr>)
   }"

subsection \<open>\<open>PartitionedBatchIterator\<close>\<close>

record 'r partitioned_batch_iterator =
  pbi_record_batches :: "'r list list"
  pbi_batch_size :: nat
  pbi_indices :: "(nat \<times> nat) list"
  pbi_pos :: nat

definition pbi_new :: "(u32 \<times> u32) list \<Rightarrow> 'r list list \<Rightarrow> nat \<Rightarrow> 'r partitioned_batch_iterator" where
  "pbi_new indices buffered_batches batch_size =
     (if indices = [] then \<lparr>pbi_record_batches = [], pbi_batch_size = batch_size, pbi_indices = [], pbi_pos = 0\<rparr>
      else \<lparr>pbi_record_batches = buffered_batches, pbi_batch_size = batch_size,
            pbi_indices = map (\<lambda>(i_batch, i_row). (unat i_batch, unat i_row)) indices, pbi_pos = 0\<rparr>)"

text \<open>An iterator that fails yields its error and stays where it is.\<close>

definition pbi_next :: "('r, 'm) shuffle_env \<Rightarrow> 'r partitioned_batch_iterator \<Rightarrow>
    ((shuffle_error + 'r list) \<times> 'r partitioned_batch_iterator) option" where
  "pbi_next env it =
     (if pbi_pos it \<ge> length (pbi_indices it) then None
      else
        let indices_end = min (pbi_pos it + pbi_batch_size it) (length (pbi_indices it));
            indices = take (indices_end - pbi_pos it) (drop (pbi_pos it) (pbi_indices it))
        in (case env_interleave env (pbi_record_batches it) indices of
              Inr batch \<Rightarrow> Some (Inr batch, it\<lparr>pbi_pos := indices_end\<rparr>)
            | Inl e \<Rightarrow> Some (Inl e, it)))"

text \<open>\<open>for batch in iter { writer.write(&batch?)?; }\<close>, with the bytes written. A batch size of zero makes it
  loop for ever.\<close>

partial_function (option) write_iter :: "('r, 'm) shuffle_env \<Rightarrow> 'r partitioned_batch_iterator \<Rightarrow> buf_batch_writer \<Rightarrow>
    (nat \<times> buf_batch_writer) res" where
  "write_iter env it b =
     (case pbi_next env it of
        None \<Rightarrow> Some (Inr (0, b))
      | Some (Inl e, it) \<Rightarrow> Some (Inl e)
      | Some (Inr batch, it) \<Rightarrow> do {
          r \<leftarrow> bbw_write (env_encode env) batch b;
          (case r of
             Inl e \<Rightarrow> Some (Inl e)
           | Inr (n, b) \<Rightarrow> do { r \<leftarrow> write_iter env it b; Some (map_sum id (map_prod ((+) n) id) r) })
        })"

record 'r partitioned_batches_producer =
  pbp_buffered_batches :: "'r list list"
  pbp_partition_indices :: "(u32 \<times> u32) list list"
  pbp_batch_size :: nat

definition produce :: "'r partitioned_batches_producer \<Rightarrow> nat \<Rightarrow> 'r partitioned_batch_iterator option" where
  "produce p partition_id = do {
     indices \<leftarrow> index (pbp_partition_indices p) partition_id;
     Some (pbi_new indices (pbp_buffered_batches p) (pbp_batch_size p))
   }"

subsection \<open>\<open>PartitionWriter\<close>\<close>

record partition_writer =
  pw_spill_file :: "u8 list option"
  pw_block_writer :: shuffle_block_writer

definition pw_try_new :: "shuffle_block_writer \<Rightarrow> partition_writer" where
  "pw_try_new w = \<lparr>pw_spill_file = None, pw_block_writer = w\<rparr>"

definition ensure_spill_file_created :: "partition_writer \<Rightarrow> partition_writer" where
  "ensure_spill_file_created pw = (if pw_spill_file pw = None then pw\<lparr>pw_spill_file := Some []\<rparr> else pw)"

definition pw_spill :: "('r, 'm) shuffle_env \<Rightarrow> 'r partitioned_batch_iterator \<Rightarrow> partition_writer \<Rightarrow> (nat \<times> partition_writer) res" where
  "pw_spill env it pw =
     (case pbi_next env it of
        None \<Rightarrow> Some (Inr (0, pw))
      | Some (batch, it) \<Rightarrow> do {
          let pw = ensure_spill_file_created pw;
          file \<leftarrow> pw_spill_file pw;
          and_then (Some batch) (\<lambda>batch.
          and_then (bbw_write (env_encode env) batch (bbw_new (pw_block_writer pw) file)) (\<lambda>(n, b).
          and_then (write_iter env it b) (\<lambda>(m, b).
            Some (Inr (n + m, pw\<lparr>pw_spill_file := Some (bbw_writer (bbw_flush b))\<rparr>)))))
        })"

subsection \<open>\<open>MultiPartitionShuffleRepartitioner\<close>\<close>

record ('r, 'k, 'm) multi_partitioner =
  mp_buffered_batches :: "'r list list"
  mp_partition_indices :: "(u32 \<times> u32) list list"
  mp_partition_writers :: "partition_writer list"
  mp_block_writer :: shuffle_block_writer
  mp_partitioning :: "('r, 'k) comet_partitioning"
  mp_scratch :: scratch_space
  mp_batch_size :: nat
  mp_reservation :: 'm

definition mp_try_new :: "('r, 'k) comet_partitioning \<Rightarrow> nat \<Rightarrow> nat \<Rightarrow> compression_codec \<Rightarrow> 'm \<Rightarrow>
    ('r, 'k, 'm) multi_partitioner option" where
  "mp_try_new partitioning batch_size num_fields codec reservation = do {
     let num_output_partitions = partition_count partitioning;
     ensure (num_output_partitions \<noteq> 1);
     let w = sbw_try_new num_fields codec;
     Some \<lparr>mp_buffered_batches = [], mp_partition_indices = replicate num_output_partitions [],
       mp_partition_writers = replicate num_output_partitions (pw_try_new w), mp_block_writer = w,
       mp_partitioning = partitioning,
       mp_scratch = \<lparr>
         ss_hashes_buf = (case partitioning of Hash _ _ \<Rightarrow> replicate batch_size 0 | _ \<Rightarrow> []),
         ss_partition_ids = replicate batch_size 0,
         ss_partition_row_indices = replicate batch_size 0,
         ss_partition_starts = replicate (num_output_partitions + 1) 0\<rparr>,
       mp_batch_size = batch_size, mp_reservation = reservation\<rparr>
   }"

definition partitioned_batches :: "('r, 'k, 'm) multi_partitioner \<Rightarrow> 'r partitioned_batches_producer \<times> ('r, 'k, 'm) multi_partitioner" where
  "partitioned_batches s =
     (\<lparr>pbp_buffered_batches = mp_buffered_batches s, pbp_partition_indices = mp_partition_indices s,
       pbp_batch_size = mp_batch_size s\<rparr>,
      s\<lparr>mp_buffered_batches := [], mp_partition_indices := replicate (length (mp_partition_indices s)) []\<rparr>)"

fun spill_partitions :: "('r, 'm) shuffle_env \<Rightarrow> 'r partitioned_batches_producer \<Rightarrow> nat \<Rightarrow> partition_writer list \<Rightarrow>
    partition_writer list res" where
  "spill_partitions env p partition_id [] = Some (Inr [])"
| "spill_partitions env p partition_id (pw # pws) = do {
     it \<leftarrow> produce p partition_id;
     and_then (pw_spill env it pw) (\<lambda>(n, pw).
     and_then (spill_partitions env p (Suc partition_id) pws) (\<lambda>pws. Some (Inr (pw # pws))))
   }"

definition spill :: "('r, 'm) shuffle_env \<Rightarrow> ('r, 'k, 'm) multi_partitioner \<Rightarrow> ('r, 'k, 'm) multi_partitioner res" where
  "spill env s =
     (if mp_buffered_batches s = [] then Some (Inr s)
      else
        let (p, s) = partitioned_batches s in
        and_then (spill_partitions env p 0 (mp_partition_writers s)) (\<lambda>pws.
          Some (Inr (s\<lparr>mp_partition_writers := pws, mp_reservation := env_free env (mp_reservation s)\<rparr>))))"

fun push_windows :: "u32 \<Rightarrow> u32 list \<Rightarrow> nat \<Rightarrow> u32 list \<Rightarrow> (u32 \<times> u32) list list \<Rightarrow> (u32 \<times> u32) list list option" where
  "push_windows b rows partition_id (start # stop # starts) partition_indices =
     (if start < stop then do {
        row_indices \<leftarrow> slice_range rows (unat start) (unat stop);
        indices \<leftarrow> index partition_indices partition_id;
        partition_indices \<leftarrow> update partition_indices partition_id (indices @ map (Pair b) row_indices);
        push_windows b rows (Suc partition_id) (stop # starts) partition_indices
      }
      else push_windows b rows (Suc partition_id) (stop # starts) partition_indices)"
| "push_windows b rows partition_id _ partition_indices = Some partition_indices"

definition buffer_partitioned_batch_may_spill :: "('r, 'm) shuffle_env \<Rightarrow> 'r list \<Rightarrow> u32 list \<Rightarrow> u32 list \<Rightarrow>
    ('r, 'k, 'm) multi_partitioner \<Rightarrow> ('r, 'k, 'm) multi_partitioner res" where
  "buffer_partitioned_batch_may_spill env input rows starts s = do {
     let buffered_partition_idx = (of_nat (length (mp_buffered_batches s)) :: u32);
     let before = mp_partition_indices s;
     after \<leftarrow> push_windows buffered_partition_idx rows 0 starts before;
     let s = s\<lparr>mp_buffered_batches := mp_buffered_batches s @ [input], mp_partition_indices := after\<rparr>;
     (case env_try_grow env (mp_reservation s) (env_growth env input before after) of
        Some m \<Rightarrow> Some (Inr (s\<lparr>mp_reservation := m\<rparr>))
      | None \<Rightarrow> spill env s)
   }"

fun hash_failed :: "hash_error \<Rightarrow> shuffle_error" where
  "hash_failed (Internal m) = DfInternal m"
| "hash_failed TryFromInt = DfExecution ''out of range integral type conversion attempted''"

text \<open>The two ways of computing the partition ids of a batch, into the scratch space. The recursion of
  \<open>create_murmur3_hashes\<close> into the values of a dictionary is at most two levels deep. On bounds that are not
  sorted the binary search of \<open>partition_point\<close> is not specified; on sorted bounds it counts the leading ones.\<close>

definition hash_partition_ids :: "('r, 'm) shuffle_env \<Rightarrow> ('r list \<Rightarrow> shuffle_error + column list) \<Rightarrow> nat \<Rightarrow> 'r list \<Rightarrow>
    scratch_space \<Rightarrow> (nat \<times> scratch_space) res" where
  "hash_partition_ids env exprs n input scratch =
     and_then (Some (exprs input)) (\<lambda>arrays. do {
       a \<leftarrow> index arrays 0;
       let num_rows = column_len a;
       hashes_buf \<leftarrow> slice_range (ss_hashes_buf scratch) 0 num_rows;
       rest \<leftarrow> slice_from (ss_hashes_buf scratch) num_rows;
       let hashes_buf = map (\<lambda>_. 42) hashes_buf;
       partition_ids \<leftarrow> slice_range (ss_partition_ids scratch) 0 num_rows;
       rest_ids \<leftarrow> slice_from (ss_partition_ids scratch) num_rows;
       r \<leftarrow> create_murmur3_hashes (env_take env) 2 arrays hashes_buf;
       and_then (Some (map_sum hash_failed id r)) (\<lambda>hashes. do {
         ids \<leftarrow> those (map (\<lambda>hash. do { p \<leftarrow> pmod hash n; Some (of_nat p) }) hashes);
         Some (Inr (num_rows, scratch\<lparr>ss_hashes_buf := hashes @ rest, ss_partition_ids := ids @ rest_ids\<rparr>))
       })
     })"

definition partition_point :: "('a \<Rightarrow> bool) \<Rightarrow> 'a list \<Rightarrow> nat" where
  "partition_point pred xs = length (takeWhile pred xs)"

definition range_partition_ids :: "('r list \<Rightarrow> shuffle_error + 'k list) \<Rightarrow> 'k::linorder list \<Rightarrow> 'r list \<Rightarrow>
    scratch_space \<Rightarrow> (nat \<times> scratch_space) res" where
  "range_partition_ids convert bounds input scratch =
     and_then (Some (convert input)) (\<lambda>row_batch. do {
       let num_rows = length row_batch;
       partition_ids \<leftarrow> slice_range (ss_partition_ids scratch) 0 num_rows;
       rest_ids \<leftarrow> slice_from (ss_partition_ids scratch) num_rows;
       let ids = map (\<lambda>row. of_nat (partition_point (\<lambda>bound. bound \<le> row) bounds)) row_batch;
       Some (Inr (num_rows, scratch\<lparr>ss_partition_ids := ids @ rest_ids\<rparr>))
     })"

definition partition_and_buffer :: "('r, 'm) shuffle_env \<Rightarrow> 'r list \<Rightarrow> nat \<Rightarrow> (nat \<times> scratch_space) res \<Rightarrow>
    ('r, 'k, 'm) multi_partitioner \<Rightarrow> ('r, 'k, 'm) multi_partitioner res" where
  "partition_and_buffer env input n ids s =
     and_then ids (\<lambda>(num_rows, scratch). do {
       scratch \<leftarrow> map_partition_ids_to_starts_and_indices scratch n num_rows;
       and_then (buffer_partitioned_batch_may_spill env input
           (ss_partition_row_indices scratch) (ss_partition_starts scratch) s) (\<lambda>s.
         Some (Inr (s\<lparr>mp_scratch := scratch\<rparr>)))
     })"

definition partitioning_batch :: "('r, 'm) shuffle_env \<Rightarrow> 'r list \<Rightarrow> ('r, 'k::linorder, 'm) multi_partitioner \<Rightarrow>
    ('r, 'k, 'm) multi_partitioner res" where
  "partitioning_batch env input s =
     (if length input = 0 then Some (Inr s)
      else if length input > mp_batch_size s then
        Some (Inl (DfInternal ''Input batch size exceeds configured batch size. Call `insert_batch` instead.''))
      else (case mp_partitioning s of
          Hash exprs n \<Rightarrow> partition_and_buffer env input n (hash_partition_ids env exprs n input (mp_scratch s)) s
        | RangePartitioning convert n bounds \<Rightarrow>
            partition_and_buffer env input n (range_partition_ids convert bounds input (mp_scratch s)) s
        | SinglePartition \<Rightarrow> Some (Inl (DfNotImplemented ''Unsupported shuffle partitioning scheme''))))"

partial_function (option) insert_slices :: "('r, 'm) shuffle_env \<Rightarrow> 'r list \<Rightarrow> nat \<Rightarrow> ('r, 'k::linorder, 'm) multi_partitioner \<Rightarrow>
    ('r, 'k, 'm) multi_partitioner res" where
  "insert_slices env batch start s =
     (if start < length batch then do {
        let stop = min (start + mp_batch_size s) (length batch);
        r \<leftarrow> partitioning_batch env (take (stop - start) (drop start batch)) s;
        (case r of Inl e \<Rightarrow> Some (Inl e) | Inr s \<Rightarrow> insert_slices env batch stop s)
      }
      else Some (Inr s))"

definition mp_insert_batch :: "('r, 'm) shuffle_env \<Rightarrow> 'r list \<Rightarrow> ('r, 'k::linorder, 'm) multi_partitioner \<Rightarrow>
    ('r, 'k, 'm) multi_partitioner res" where
  "mp_insert_batch env batch s = insert_slices env batch 0 s"

definition shuffle_write_partition :: "('r, 'm) shuffle_env \<Rightarrow> 'r partitioned_batch_iterator \<Rightarrow> shuffle_block_writer \<Rightarrow>
    u8 list \<Rightarrow> u8 list res" where
  "shuffle_write_partition env it w output_data =
     and_then (write_iter env it (bbw_new w output_data)) (\<lambda>(n, b). Some (Inr (bbw_writer (bbw_flush b))))"

fun write_partitions :: "('r, 'm) shuffle_env \<Rightarrow> 'r partitioned_batches_producer \<Rightarrow> ('r, 'k, 'm) multi_partitioner \<Rightarrow>
    nat list \<Rightarrow> u8 list \<Rightarrow> (nat list \<times> u8 list) res" where
  "write_partitions env p s [] output_data = Some (Inr ([], output_data))"
| "write_partitions env p s (i # js) output_data = do {
     let offset = length output_data;
     pw \<leftarrow> index (mp_partition_writers s) i;
     let output_data = (case pw_spill_file pw of None \<Rightarrow> output_data | Some spill_data \<Rightarrow> output_data @ spill_data);
     it \<leftarrow> produce p i;
     and_then (shuffle_write_partition env it (mp_block_writer s) output_data) (\<lambda>output_data.
     and_then (write_partitions env p s js output_data) (\<lambda>(offsets, output_data).
       Some (Inr (offset # offsets, output_data))))
   }"

definition index_file :: "nat list \<Rightarrow> u8 list" where
  "index_file offsets = concat (map (\<lambda>offset. le_bytes (of_nat offset :: u64)) offsets)"

text \<open>The result is the data file and the index file.\<close>

definition mp_shuffle_write :: "('r, 'm) shuffle_env \<Rightarrow> ('r, 'k, 'm) multi_partitioner \<Rightarrow> (u8 list \<times> u8 list) res" where
  "mp_shuffle_write env s =
     (let (p, s) = partitioned_batches s;
          num_output_partitions = length (mp_partition_indices s)
      in and_then (write_partitions env p s [0..<num_output_partitions] []) (\<lambda>(offsets, output_data).
        Some (Inr (output_data, index_file (offsets @ [length output_data])))))"

subsection \<open>\<open>SinglePartitionShufflePartitioner\<close>\<close>

record 'r single_partitioner =
  sp_output_data_writer :: buf_batch_writer
  sp_buffered_batches :: "'r list list"
  sp_num_buffered_rows :: nat
  sp_batch_size :: nat

definition sp_try_new :: "nat \<Rightarrow> nat \<Rightarrow> compression_codec \<Rightarrow> 'r single_partitioner" where
  "sp_try_new batch_size num_fields codec =
     \<lparr>sp_output_data_writer = bbw_new (sbw_try_new num_fields codec) [], sp_buffered_batches = [],
      sp_num_buffered_rows = 0, sp_batch_size = batch_size\<rparr>"

definition add_buffered_batch :: "'r list \<Rightarrow> 'r single_partitioner \<Rightarrow> 'r single_partitioner" where
  "add_buffered_batch batch s =
     s\<lparr>sp_num_buffered_rows := sp_num_buffered_rows s + length batch, sp_buffered_batches := sp_buffered_batches s @ [batch]\<rparr>"

definition concat_buffered_batches :: "('r, 'm) shuffle_env \<Rightarrow> 'r single_partitioner \<Rightarrow>
    ('r list option \<times> 'r single_partitioner) res" where
  "concat_buffered_batches env s =
     (case sp_buffered_batches s of
        [] \<Rightarrow> Some (Inr (None, s))
      | [batch] \<Rightarrow> Some (Inr (Some batch, s\<lparr>sp_buffered_batches := [], sp_num_buffered_rows := 0\<rparr>))
      | _ \<Rightarrow> and_then (Some (env_concat env (sp_buffered_batches s))) (\<lambda>concatenated.
          Some (Inr (Some concatenated, s\<lparr>sp_buffered_batches := [], sp_num_buffered_rows := 0\<rparr>))))"

definition sp_write :: "('r, 'm) shuffle_env \<Rightarrow> 'r list \<Rightarrow> 'r single_partitioner \<Rightarrow> 'r single_partitioner res" where
  "sp_write env batch s =
     and_then (bbw_write (env_encode env) batch (sp_output_data_writer s)) (\<lambda>(n, b).
       Some (Inr (s\<lparr>sp_output_data_writer := b\<rparr>)))"

definition sp_write_buffered :: "('r, 'm) shuffle_env \<Rightarrow> 'r single_partitioner \<Rightarrow> 'r single_partitioner res" where
  "sp_write_buffered env s =
     and_then (concat_buffered_batches env s) (\<lambda>(concatenated_batch, s).
       case concatenated_batch of None \<Rightarrow> Some (Inr s) | Some batch \<Rightarrow> sp_write env batch s)"

definition sp_insert_batch :: "('r, 'm) shuffle_env \<Rightarrow> 'r list \<Rightarrow> 'r single_partitioner \<Rightarrow> 'r single_partitioner res" where
  "sp_insert_batch env batch s =
     (let num_rows = length batch in
      if num_rows > 0 then
        (if num_rows \<ge> sp_batch_size s \<or> num_rows + sp_num_buffered_rows s > sp_batch_size s then
           and_then (sp_write_buffered env s) (\<lambda>s.
             if num_rows \<ge> sp_batch_size s then sp_write env batch s
             else Some (Inr (add_buffered_batch batch s)))
         else Some (Inr (add_buffered_batch batch s)))
      else Some (Inr s))"

definition sp_shuffle_write :: "('r, 'm) shuffle_env \<Rightarrow> 'r single_partitioner \<Rightarrow> (u8 list \<times> u8 list) res" where
  "sp_shuffle_write env s =
     and_then (sp_write_buffered env s) (\<lambda>s.
       let data = bbw_writer (bbw_flush (sp_output_data_writer s))
       in Some (Inr (data, index_file [0, length data])))"

subsection \<open>\<open>external_shuffle\<close>\<close>

text \<open>The loop over the input, which may end with an error of its producer.\<close>

fun insert_all :: "('r list \<Rightarrow> 's \<Rightarrow> 's res) \<Rightarrow> (shuffle_error + 'r list) list \<Rightarrow> 's \<Rightarrow> 's res" where
  "insert_all insert_batch [] s = Some (Inr s)"
| "insert_all insert_batch (batch # input) s =
     and_then (Some batch) (\<lambda>batch. and_then (insert_batch batch s) (insert_all insert_batch input))"

definition external_shuffle :: "('r, 'm) shuffle_env \<Rightarrow> (shuffle_error + 'r list) list \<Rightarrow> nat \<Rightarrow> ('r, 'k::linorder) comet_partitioning \<Rightarrow>
    nat \<Rightarrow> compression_codec \<Rightarrow> 'm \<Rightarrow> (u8 list \<times> u8 list) res" where
  "external_shuffle env input num_fields partitioning batch_size codec reservation =
     (if partition_count partitioning = 1 then
        and_then (insert_all (sp_insert_batch env) input (sp_try_new batch_size num_fields codec)) (sp_shuffle_write env)
      else
        and_then (returns (mp_try_new partitioning batch_size num_fields codec reservation)) (\<lambda>s.
        and_then (insert_all (mp_insert_batch env) input s) (mp_shuffle_write env)))"

end
