(* ===== verification/Shuffle_Writer_Spec.thy ===== *)
theory Shuffle_Writer_Spec
  imports Shuffle_Writer
begin

text \<open>
  What the shuffle writer promises: the index splits the data file so that reading partition \<open>p\<close> back gives
  exactly the input rows of partition \<open>p\<close>, in input order, whatever the memory pool makes it spill. The
  pieces are the positive remainder, the counting sort that groups a batch, the iterator over buffered rows,
  and an invariant of the two partitioners, which share the interface \<open>shuffle_partitioner\<close>.
\<close>

subsection \<open>The partition of a hash\<close>

lemma tdiv_pos: "0 < b \<Longrightarrow> tdiv a b = (if 0 \<le> a then a div b else - (- a div b))"
  by (simp add: tdiv_def)

lemma rem_pos: "0 < b \<Longrightarrow> a - b * tdiv a b = (if 0 \<le> a then a mod b else - (- a mod b))"
proof (cases "0 \<le> a")
  case False
  assume "0 < b"
  moreover have "b * (- a div b) + - a mod b = - a" by (rule mult_div_mod_eq)
  then have "a + b * (- a div b) = - (- a mod b)" by linarith
  ultimately show ?thesis using False by (simp add: tdiv_pos)
qed (simp add: tdiv_pos minus_mult_div_eq_mod)

lemma i32_rem_pos: "0 < b \<Longrightarrow> i32_rem a b = Some (if 0 \<le> a then a mod b else - (- a mod b))"
  by (simp add: i32_rem_def ensure_def rem_pos)

lemma pmod_step:
  assumes n: "0 < m" "m < 2 ^ 31" and r: "i32_rem (sint h) m = Some r" "sint (of_nat n :: u32) = m" "- m < r" "r < m"
  shows "pmod h n = Some (nat (if r < 0 then r + m else r))"
proof -
  have u: "unat (word_of_int x :: u64) = nat x" if "0 \<le> x" "x < m" for x
    using that n(2) by (simp add: unsigned_of_int take_bit_int_eq_self)
  have p: "pmod h n = do {
      result \<leftarrow> (if r < 0 then do { ensure (fits_int True 4 (r + m)); i32_rem (r + m) m } else Some r);
      Some (unat (word_of_int result :: u64)) }"
    unfolding pmod_def r(2) Let_def r(1) bind.simps(2) ..
  show ?thesis
  proof (cases "r < 0")
    case True
    have "i32_rem (r + m) m = Some ((r + m) mod m)" using r(3) i32_rem_pos [OF n(1), of "r + m"] by simp
    also have "(r + m) mod m = r + m" using r(3) True by (intro mod_pos_pos_trivial) simp_all
    finally have "i32_rem (r + m) m = Some (r + m)" .
    moreover have "ensure (fits_int True 4 (r + m)) = Some ()" using r(3) n True by (simp add: fits_int_def ensure_def)
    ultimately show ?thesis using True r(3) unfolding p by (simp add: u del: of_int_add)
  next
    case False
    then show ?thesis unfolding p using r(4) by (simp add: u)
  qed
qed

lemma pmod_spec:
  assumes "0 < n" and "n < 2 ^ 31"
  shows "pmod h n = Some (nat (sint h mod int n))"
proof -
  have n: "sint (of_nat n :: u32) = int n" using assms(2) by (intro sint_of_nat) simp
  define a where "a = sint h"
  define r where "r = (if 0 \<le> a then a mod int n else - (- a mod int n))"
  have b: "0 \<le> a mod int n" "a mod int n < int n" "0 \<le> - a mod int n" "- a mod int n < int n" using assms(1) by simp_all
  have "i32_rem (sint h) (int n) = Some r" using assms(1) by (simp add: i32_rem_pos r_def a_def)
  moreover have "- int n < r" "r < int n" using b unfolding r_def by (auto simp del: pos_mod_sign pos_mod_bound Euclidean_Rings.pos_mod_sign Euclidean_Rings.pos_mod_bound split: if_split)
  ultimately have "pmod h n = Some (nat (if r < 0 then r + int n else r))"
    using assms n by (intro pmod_step) simp_all
  moreover have "(if r < 0 then r + int n else r) = a mod int n"
    using b zmod_zminus1_eq_if [of a "int n"] unfolding r_def by (auto split: if_splits)
  ultimately show ?thesis by (simp add: a_def)
qed

subsection \<open>The counting sort\<close>

text \<open>\<open>members p ids m\<close>: the positions below \<open>m\<close> of the rows of partition \<open>p\<close>, in order; \<open>before p ids\<close>: the
  number of rows in the partitions before \<open>p\<close>.\<close>

definition members :: "nat list \<Rightarrow> nat \<Rightarrow> nat \<Rightarrow> nat list" where
  "members ids m p = filter (\<lambda>i. ids ! i = p) [0..<m]"

definition before :: "nat list \<Rightarrow> nat \<Rightarrow> nat" where
  "before ids p = length (filter (\<lambda>q. q < p) ids)"

lemma members_Suc: "members ids (Suc m) p = members ids m p @ (if ids ! m = p then [m] else [])"
  by (simp add: members_def)

lemma length_members_mono: "m \<le> m' \<Longrightarrow> length (members ids m p) \<le> length (members ids m' p)"
  by (induction rule: dec_induct) (simp_all add: members_Suc)

lemma members_nth:
  assumes "m < m'" and "ids ! m = p"
  shows "members ids m' p ! length (members ids m p) = m"
  using Suc_leI [OF assms(1)]
proof (induction rule: dec_induct)
  case base
  then show ?case using assms by (simp add: members_Suc)
next
  case (step k)
  then have "length (members ids m p) < length (members ids k p)"
    using length_members_mono [of "Suc m" k ids p] assms by (simp add: members_Suc)
  with step show ?case by (simp add: members_Suc nth_append)
qed

lemma length_members: "length (members ids (length ids) p) = length (filter (\<lambda>q. q = p) ids)"
  by (simp add: members_def length_filter_conv_card)
     (rule arg_cong [where f = card], auto)

lemma before_Suc: "before ids (Suc p) = before ids p + length (members ids (length ids) p)"
  unfolding length_members before_def by (induction ids) auto

lemma before_0 [simp]: "before ids 0 = 0"
  by (simp add: before_def)

lemma before_mono: "p < q \<Longrightarrow> before ids p + length (members ids (length ids) p) \<le> before ids q"
proof (induction q)
  case (Suc q)
  then show ?case by (cases "p = q") (auto simp: before_Suc)
qed simp

lemma before_le: "before ids p \<le> length ids"
  by (simp add: before_def)

text \<open>Counting.\<close>

lemma count_partitions_spec:
  assumes "list_all (\<lambda>p. unat p < length cs) ids" and "\<And>q. q < length cs \<Longrightarrow> unat (cs ! q) + length ids < 2 ^ 32"
  shows "\<exists>cs'. count_partitions ids cs = Some cs' \<and> length cs' = length cs \<and>
    (\<forall>q < length cs. unat (cs' ! q) = unat (cs ! q) + length (filter (\<lambda>p. p = q) (map unat ids)))"
  using assms
proof (induction ids arbitrary: cs)
  case Nil
  then show ?case by simp
next
  case (Cons p ids)
  let ?c = "cs ! unat p"
  have p: "unat p < length cs" using Cons.prems(1) by simp
  have lt: "unat ?c + 1 < 2 ^ 32" using Cons.prems(2) [OF p] by simp
  have c: "unat (?c + 1) = unat ?c + 1" using lt by (simp add: unat_word_ariths)
  then have nz: "?c + 1 \<noteq> 0" using unat_eq_zero by fastforce
  let ?cs = "cs[unat p := ?c + 1]"
  have u: "unat (?cs ! q) = unat (cs ! q) + (if q = unat p then 1 else 0)" if "q < length cs" for q
    using that c by simp
  have "\<exists>cs'. count_partitions ids ?cs = Some cs' \<and> length cs' = length ?cs \<and>
      (\<forall>q < length ?cs. unat (cs' ! q) = unat (?cs ! q) + length (filter (\<lambda>p. p = q) (map unat ids)))"
  proof (rule Cons.IH)
    show "list_all (\<lambda>p. unat p < length ?cs) ids" using Cons.prems(1) by simp
    show "unat (?cs ! q) + length ids < 2 ^ 32" if "q < length ?cs" for q
      using that Cons.prems(2) [of q] u [of q] by auto
  qed
  then obtain cs' where cs': "count_partitions ids ?cs = Some cs'" "length cs' = length cs"
      "\<forall>q < length cs. unat (cs' ! q) = unat (?cs ! q) + length (filter (\<lambda>p. p = q) (map unat ids))" by auto
  from cs'(1) have "count_partitions (p # ids) cs = Some cs'" using p nz by (simp add: rust_simps ensure_def)
  moreover have "unat (cs' ! q) = unat (cs ! q) + length (filter (\<lambda>p. p = q) (map unat (p # ids)))" if "q < length cs" for q
    using cs'(3) that u [OF that] by auto
  ultimately show ?case using cs'(2) by blast
qed

text \<open>Accumulating: the result at \<open>q\<close> is the sum of the counters up to \<open>q\<close>.\<close>

lemma accumulate_spec:
  assumes "unat a + sum_list (map unat vs) < 2 ^ 32"
  shows "\<exists>es. accumulate_counters a vs = Some es \<and> length es = length vs \<and>
    (\<forall>q < length vs. unat (es ! q) = unat a + sum_list (map unat (take (Suc q) vs)))"
  using assms
proof (induction vs arbitrary: a)
  case Nil
  then show ?case by simp
next
  case (Cons v vs)
  have s: "unat (v + a) = unat v + unat a" using Cons.prems by (simp add: unat_word_ariths)
  with Cons.prems Cons.IH [of "v + a"] obtain es where es: "accumulate_counters (v + a) vs = Some es"
      "length es = length vs" "\<forall>q < length vs. unat (es ! q) = unat (v + a) + sum_list (map unat (take (Suc q) vs))" by auto
  have "accumulate_counters a (v # vs) = Some ((v + a) # es)" using es(1) Cons.prems by (simp add: ensure_def)
  moreover have "unat (((v + a) # es) ! q) = unat a + sum_list (map unat (take (Suc q) (v # vs)))" if "q < length (v # vs)" for q
    using that es(3) s by (cases q) auto
  ultimately show ?case using es(2) by auto
qed

text \<open>Placing the rows, from the last to the first. Positions above the remaining prefix are final.\<close>

definition placed :: "nat list \<Rightarrow> nat \<Rightarrow> nat \<Rightarrow> u32 list \<Rightarrow> u32 list \<Rightarrow> bool" where
  "placed ids n j ends rows \<longleftrightarrow> length ends = n + 1 \<and> length rows = length ids \<and>
     (\<forall>p \<le> n. unat (ends ! p) = before ids p + length (members ids j p)) \<and>
     (\<forall>p < n. \<forall>k. length (members ids j p) \<le> k \<longrightarrow> k < length (members ids (length ids) p) \<longrightarrow>
        rows ! (before ids p + k) = of_nat (members ids (length ids) p ! k))"

lemma slot_lt:
  assumes "k < length (members ids (length ids) p)"
  shows "before ids p + k < length ids"
  using assms before_le [of ids "Suc p"] by (simp add: before_Suc)

lemma slot_inj:
  assumes "k < length (members ids (length ids) p)" and "k' < length (members ids (length ids) p')"
    and "before ids p + k = before ids p' + k'"
  shows "p = p' \<and> k = k'"
  using assms before_mono [of p p' ids] before_mono [of p' p ids] by (cases p p' rule: linorder_cases) auto

lemma place_rows_spec:
  assumes "placed (map unat ids) n j ends rows" and "j \<le> length ids" and "list_all (\<lambda>p. unat p < n) ids"
  shows "\<exists>ends' rows'. place_rows (rev (zip [0..<j] (take j ids))) ends rows = Some (ends', rows') \<and>
    placed (map unat ids) n 0 ends' rows'"
  using assms(1,2)
proof (induction j arbitrary: ends rows)
  case 0
  then show ?case by simp
next
  case (Suc j)
  let ?ids = "map unat ids"
  let ?p = "unat (ids ! j)" and ?k = "length (members ?ids j (unat (ids ! j)))"
  have j: "j < length ids" using Suc.prems(2) by simp
  have p: "?p < n" using assms(3) j by (simp add: list_all_length)
  have e: "unat (ends ! ?p) = before ?ids ?p + ?k + 1"
    using Suc.prems(1) p j by (simp add: placed_def members_Suc)
  have k: "?k < length (members ?ids (length ?ids) ?p)"
    using length_members_mono [of "Suc j" "length ids" ?ids ?p] j by (simp add: members_Suc)
  let ?e = "ends ! ?p - 1"
  have nz: "ends ! ?p \<noteq> 0" using e by auto
  have u: "unat ?e = before ?ids ?p + ?k" using e nz by (simp add: unat_minus_one)
  have len: "length ends = n + 1" "length rows = length ids" using Suc.prems(1) by (simp_all add: placed_def)
  have lt: "before ?ids ?p + ?k < length ids" using slot_lt [OF k] by simp
  let ?ends = "ends[?p := ?e]" and ?rows = "rows[before ?ids ?p + ?k := of_nat j]"
  have "placed ?ids n j ?ends ?rows"
    unfolding placed_def
  proof (intro conjI allI impI)
    show "unat (?ends ! q) = before ?ids q + length (members ?ids j q)" if "q \<le> n" for q
      using Suc.prems(1) that u j len by (cases "q = ?p") (auto simp: placed_def members_Suc)
    show "?rows ! (before ?ids q + k') = of_nat (members ?ids (length ?ids) q ! k')"
      if "q < n" "length (members ?ids j q) \<le> k'" "k' < length (members ?ids (length ?ids) q)" for q k'
    proof (cases "q = ?p \<and> k' = ?k")
      case True
      then show ?thesis using lt len members_nth [of j "length ?ids" ?ids ?p] j by simp
    next
      case False
      then have ne: "before ?ids q + k' \<noteq> before ?ids ?p + ?k" using slot_inj [OF that(3) k] by blast
      have "length (members ?ids (Suc j) q) \<le> k'" using that(2) False j by (auto simp: members_Suc)
      then show ?thesis using Suc.prems(1) that ne by (simp add: placed_def)
    qed
  qed (use len in simp_all)
  from Suc.IH [OF this] j obtain ends' rows' where
    r: "place_rows (rev (zip [0..<j] (take j ids))) ?ends ?rows = Some (ends', rows')" "placed ?ids n 0 ends' rows'" by auto
  have "rev (zip [0..<Suc j] (take (Suc j) ids)) = (j, ids ! j) # rev (zip [0..<j] (take j ids))"
    using j by (simp add: take_Suc_conv_app_nth)
  moreover have "place_rows ((j, ids ! j) # rev (zip [0..<j] (take j ids))) ends rows = Some (ends', rows')"
    using r(1) len p nz lt by (simp add: rust_simps ensure_def u)
  ultimately show ?case using r(2) by metis
qed

lemma sum_counters:
  assumes "\<forall>q < length cs. unat (cs ! q) = length (filter (\<lambda>p. p = q) ids)" and "k \<le> length cs"
  shows "sum_list (map unat (take k cs)) = before ids k"
  using assms(2)
proof (induction k)
  case (Suc k)
  with assms(1) show ?case by (simp add: take_Suc_conv_app_nth before_Suc length_members)
qed simp

text \<open>The scratch space after grouping: the start of each partition, and its rows in order.\<close>

definition grouped :: "u32 list \<Rightarrow> nat \<Rightarrow> u32 list \<Rightarrow> u32 list \<Rightarrow> bool" where
  "grouped ids n starts rows \<longleftrightarrow> length starts = n + 1 \<and>
     (\<forall>p \<le> n. unat (starts ! p) = before (map unat ids) p) \<and>
     (\<forall>p < n. slice_range rows (before (map unat ids) p) (before (map unat ids) (Suc p)) =
        Some (map of_nat (members (map unat ids) (length ids) p)))"

lemma placed_grouped:
  assumes "placed (map unat ids) n 0 starts rows"
  shows "grouped ids n starts rows"
proof -
  let ?ids = "map unat ids"
  have "slice_range rows (before ?ids p) (before ?ids (Suc p)) = Some (map of_nat (members ?ids (length ids) p))" if "p < n" for p
  proof -
    let ?g = "members ?ids (length ids) p"
    have len: "length rows = length ids" and le: "before ?ids p + length ?g \<le> length ids"
      using assms before_le [of ?ids "Suc p"] by (simp_all add: placed_def before_Suc)
    have "take (length ?g) (drop (before ?ids p) rows) = map of_nat ?g"
      by (rule nth_equalityI) (use assms that len le in \<open>auto simp: placed_def members_def\<close>)
    then show ?thesis using len le by (simp add: slice_range_def before_Suc)
  qed
  with assms show ?thesis by (simp add: grouped_def placed_def members_def)
qed

lemma map_ids_spec:
  assumes ids: "take m (ss_partition_ids s) = ids" "m \<le> length (ss_partition_ids s)" "m < 2 ^ 32"
    and lt: "list_all (\<lambda>p. unat p < n) ids"
  shows "\<exists>s'. map_partition_ids_to_starts_and_indices s n m = Some s' \<and>
    grouped ids n (ss_partition_starts s') (ss_partition_row_indices s') \<and>
    ss_partition_ids s' = ss_partition_ids s \<and> ss_hashes_buf s' = ss_hashes_buf s"
proof -
  let ?ids = "map unat ids"
  have len: "length ids = m" using ids by auto
  let ?z = "map (\<lambda>_. 0 :: u32) (vec_resize (n + 1) 0 (ss_partition_starts s))"
  have z: "length ?z = n + 1" "\<And>q. q < n + 1 \<Longrightarrow> ?z ! q = 0" by simp_all
  have "list_all (\<lambda>p. unat p < length ?z) ids" using lt by (auto simp: list_all_iff)
  from count_partitions_spec [OF this] z ids(3) len obtain cs where
    cs: "count_partitions ids ?z = Some cs" "length cs = n + 1" "\<forall>q < n + 1. unat (cs ! q) = length (filter (\<lambda>p. p = q) ?ids)"
    by auto
  have sums: "sum_list (map unat (take k cs)) = before ?ids k" if "k \<le> n + 1" for k
    using sum_counters [of cs ?ids k] cs that by simp
  have "sum_list (map unat cs) < 2 ^ 32" using sums [of "n + 1"] cs(2) before_le [of ?ids "n + 1"] len ids(3) by simp
  with accumulate_spec [of 0 cs] cs(2) obtain es where es: "accumulate_counters 0 cs = Some es" "length es = n + 1"
      "\<forall>q < n + 1. unat (es ! q) = sum_list (map unat (take (Suc q) cs))" by auto
  have "placed ?ids n m es (vec_resize m 0 (ss_partition_row_indices s))"
    using es sums len by (auto simp: placed_def before_Suc less_Suc_eq_le)
  from place_rows_spec [OF this _ lt] len obtain starts rows where
    r: "place_rows (rev (zip [0..<m] ids)) es (vec_resize m 0 (ss_partition_row_indices s)) = Some (starts, rows)"
      "placed ?ids n 0 starts rows" by auto
  have "map_partition_ids_to_starts_and_indices s n m =
      Some (s\<lparr>ss_partition_starts := starts, ss_partition_row_indices := rows\<rparr>)"
    using ids(1,2) cs(1) es(1) r(1) len by (simp add: map_partition_ids_to_starts_and_indices_def slice_range_def)
  with placed_grouped [OF r(2)] show ?thesis by simp
qed

lemma push_windows_spec:
  assumes g: "grouped ids n starts rows" and "q \<le> n" and "length pis = n"
  shows "push_windows b rows q (drop q starts) pis =
    Some (map (\<lambda>p. if p < q then pis ! p else pis ! p @ map (\<lambda>i. (b, of_nat i)) (members (map unat ids) (length ids) p)) [0..<n])"
  using assms(2,3)
proof (induction "n - q" arbitrary: q pis)
  case 0
  then have "drop q starts = [starts ! n]" using g by (simp add: grouped_def Cons_nth_drop_Suc [symmetric])
  moreover have "map (\<lambda>p. if p < q then pis ! p else f p) [0..<n] = pis" for f
    by (rule nth_equalityI) (use 0 in simp_all)
  ultimately show ?case by simp
next
  case (Suc d)
  then have q: "q < n" by simp
  let ?ids = "map unat ids"
  let ?new = "map (\<lambda>i. (b, of_nat i)) (members ?ids (length ids) q)"
  have len: "length starts = n + 1" and st: "unat (starts ! q) = before ?ids q" "unat (starts ! Suc q) = before ?ids (Suc q)"
    and sl: "slice_range rows (before ?ids q) (before ?ids (Suc q)) = Some (map of_nat (members ?ids (length ids) q))"
    using g q by (simp_all add: grouped_def)
  have d: "drop q starts = starts ! q # starts ! Suc q # drop (Suc (Suc q)) starts"
    "drop (Suc q) starts = starts ! Suc q # drop (Suc (Suc q)) starts"
    using q len by (simp_all add: Cons_nth_drop_Suc)
  let ?pis = "pis[q := pis ! q @ ?new]"
  have "push_windows b rows q (drop q starts) pis = push_windows b rows (Suc q) (drop (Suc q) starts) ?pis"
  proof (cases "starts ! q < starts ! Suc q")
    case True
    then show ?thesis using q Suc.prems unfolding d by (simp add: st sl rust_simps comp_def)
  next
    case False
    then have "members ?ids (length ids) q = []"
      using st by (simp add: word_less_nat_alt before_Suc)
    then show ?thesis using False unfolding d by simp
  qed
  also have "\<dots> = Some (map (\<lambda>p. if p < Suc q then ?pis ! p else ?pis ! p @ map (\<lambda>i. (b, of_nat i)) (members ?ids (length ids) p)) [0..<n])"
    using Suc by (intro Suc.hyps) simp_all
  finally show ?case using Suc.prems q by (auto simp: nth_list_update less_Suc_eq intro!: map_cong)
qed

subsection \<open>The iterator over the rows of a partition\<close>

function chunks :: "nat \<Rightarrow> 'a list \<Rightarrow> 'a list list" where
  "chunks k xs = (if k = 0 \<or> xs = [] then [] else take k xs # chunks k (drop k xs))"
  by pat_completeness auto
termination by (relation "measure (\<lambda>(k, xs). length xs)") auto

declare chunks.simps [simp del]

lemma concat_chunks: "0 < k \<Longrightarrow> concat (chunks k xs) = xs"
  by (induction k xs rule: chunks.induct) (subst chunks.simps, auto)

lemma chunks_bounds: "rows \<in> set (chunks k xs) \<Longrightarrow> rows \<noteq> [] \<and> length rows \<le> k"
  by (induction k xs rule: chunks.induct) (subst (asm) (2) chunks.simps, auto split: if_splits)

lemma chunks_map: "chunks k (map f xs) = map (map f) (chunks k xs)"
  by (induction k xs rule: chunks.induct) (subst (1 2) chunks.simps, auto simp: take_map drop_map)

text \<open>What is relied on of the Arrow kernels and of the encoder, for batches of at most \<open>B\<close> rows.\<close>

definition interleave_law :: "('r, 'm) shuffle_env \<Rightarrow> bool" where
  "interleave_law env \<longleftrightarrow> (\<forall>batches indices.
     list_all (\<lambda>(i, j). i < length batches \<and> j < length (batches ! i)) indices \<longrightarrow>
     env_interleave env batches indices = Inr (map (\<lambda>(i, j). batches ! i ! j) indices))"

definition concat_law :: "('r, 'm) shuffle_env \<Rightarrow> bool" where
  "concat_law env \<longleftrightarrow> (\<forall>batches. env_concat env batches = Inr (concat batches))"

definition encodes :: "('r, 'm) shuffle_env \<Rightarrow> compression_codec \<Rightarrow> nat \<Rightarrow> bool" where
  "encodes env c B \<longleftrightarrow> (\<forall>rows. rows \<noteq> [] \<longrightarrow> length rows \<le> B \<longrightarrow> can_encode (env_encode env) c rows)"

definition env_ok :: "('r, 'm) shuffle_env \<Rightarrow> compression_codec \<Rightarrow> nat \<Rightarrow> bool" where
  "env_ok env c B \<longleftrightarrow> interleave_law env \<and> concat_law env \<and> take_law (env_take env) \<and> encodes env c B"

text \<open>The rows a list of positions into the buffered batches stands for.\<close>

definition gather :: "'r list list \<Rightarrow> (u32 \<times> u32) list \<Rightarrow> 'r list" where
  "gather batches indices = map (\<lambda>(i, j). batches ! unat i ! unat j) indices"

definition positions_ok :: "'r list list \<Rightarrow> (u32 \<times> u32) list \<Rightarrow> bool" where
  "positions_ok batches indices \<longleftrightarrow> list_all (\<lambda>(i, j). unat i < length batches \<and> unat j < length (batches ! unat i)) indices"

lemma write_iter_chunks:
  assumes "interleave_law env" and "0 < pbi_batch_size it"
    and "list_all (\<lambda>(i, j). i < length (pbi_record_batches it) \<and> j < length (pbi_record_batches it ! i)) (pbi_indices it)"
  shows "write_iter env it b = bbw_write_all (env_encode env)
    (map (map (\<lambda>(i, j). pbi_record_batches it ! i ! j)) (chunks (pbi_batch_size it) (drop (pbi_pos it) (pbi_indices it)))) b"
  using assms(2,3)
proof (induction "length (pbi_indices it) - pbi_pos it" arbitrary: it b rule: less_induct)
  case less
  let ?k = "pbi_batch_size it" and ?xs = "drop (pbi_pos it) (pbi_indices it)"
  let ?f = "map (\<lambda>(i, j). pbi_record_batches it ! i ! j)"
  show ?case
  proof (cases "pbi_pos it < length (pbi_indices it)")
    case False
    then show ?thesis by (subst write_iter.simps, subst chunks.simps) (simp add: pbi_next_def)
  next
    case True
    define stop where "stop = min (pbi_pos it + ?k) (length (pbi_indices it))"
    have d: "take (stop - pbi_pos it) ?xs = take ?k ?xs" "drop stop (pbi_indices it) = drop ?k ?xs"
      by (simp_all add: stop_def min_def add.commute)
    have "list_all (\<lambda>(i, j). i < length (pbi_record_batches it) \<and> j < length (pbi_record_batches it ! i)) (take ?k ?xs)"
      using less.prems(2) by (auto simp: list_all_iff dest!: in_set_takeD in_set_dropD)
    with assms(1) have "env_interleave env (pbi_record_batches it) (take ?k ?xs) = Inr (?f (take ?k ?xs))"
      by (simp add: interleave_law_def)
    then have n: "pbi_next env it = Some (Inr (?f (take ?k ?xs)), it\<lparr>pbi_pos := stop\<rparr>)"
      using True by (simp add: pbi_next_def Let_def d(1) flip: stop_def)
    have lt: "length (pbi_indices it) - stop < length (pbi_indices it) - pbi_pos it" using True less.prems(1) by (simp add: stop_def)
    have IH: "write_iter env (it\<lparr>pbi_pos := stop\<rparr>) b' = bbw_write_all (env_encode env) (map ?f (chunks ?k (drop ?k ?xs))) b'" for b'
      using less.hyps [of "it\<lparr>pbi_pos := stop\<rparr>" b'] lt less.prems by (simp only: d(2) [symmetric]) simp
    have "chunks ?k ?xs = take ?k ?xs # chunks ?k (drop ?k ?xs)" using True less.prems(1) by (subst chunks.simps) simp
    then show ?thesis
      by (subst write_iter.simps)
         (auto simp: n IH and_then_def bind_eq_None_conv split: option.splits sum.splits bind_splits)
  qed
qed

subsection \<open>Spilling and writing a partition\<close>

definition pw_bytes :: "partition_writer \<Rightarrow> u8 list" where
  "pw_bytes pw = (case pw_spill_file pw of None \<Rightarrow> [] | Some f \<Rightarrow> f)"

lemma pw_bytes_simps [simp]:
  "pw_bytes (pw\<lparr>pw_spill_file := Some f\<rparr>) = f"
  "pw_block_writer (ensure_spill_file_created pw) = pw_block_writer pw"
  by (simp_all add: pw_bytes_def ensure_spill_file_created_def)

lemma encodes_chunks:
  assumes "encodes env c B" and "k \<le> B"
  shows "list_all (\<lambda>rows. rows = [] \<or> can_encode (env_encode env) c rows) (chunks k xs)"
    and "list_all (can_encode (env_encode env) c) (chunks k xs)"
proof -
  show "list_all (can_encode (env_encode env) c) (chunks k xs)"
    unfolding list_all_iff using assms by (auto simp: encodes_def dest!: chunks_bounds)
  then show "list_all (\<lambda>rows. rows = [] \<or> can_encode (env_encode env) c rows) (chunks k xs)"
    by (rule list.pred_mono_strong) simp
qed

lemma write_chunks:
  assumes "encodes env c B" and "k \<le> B"
  obtains m b where "bbw_write_all (env_encode env) (chunks k xs) (bbw_new (sbw_try_new nf c) out) = Some (Inr (m, b))"
    and "bbw_bytes b = out @ blocks (env_encode env) nf c (chunks k xs)"
proof -
  have "bbw_block_writer (bbw_new (sbw_try_new nf c) out) = sbw_try_new nf c" by simp
  from bbw_write_all_blocks [OF encodes_chunks(1) [OF assms] this] that show ?thesis by (metis bbw_new_simps(1))
qed

lemma write_iter_new:
  assumes "interleave_law env" and "0 < k" and "positions_ok batches indices"
  shows "write_iter env (pbi_new indices batches k) b = bbw_write_all (env_encode env) (chunks k (gather batches indices)) b"
proof -
  have "gather batches indices = map (\<lambda>(i, j). batches ! i ! j) (map (\<lambda>(i, j). (unat i, unat j)) indices)"
    by (simp add: gather_def split_def comp_def)
  moreover have "chunks k (gather batches []) = []" by (subst chunks.simps) (simp add: gather_def)
  ultimately show ?thesis using assms
    by (cases "indices = []") (simp_all add: write_iter_chunks pbi_new_def positions_ok_def chunks_map chunks.simps [of k "[]"]
        list_all_iff split_def)
qed

lemma pw_spill_unfold:
  "pw_spill env it pw =
     (if pbi_next env it = None then Some (Inr (0, pw))
      else and_then (write_iter env it (bbw_new (pw_block_writer pw) (pw_bytes pw))) (\<lambda>(n, b).
        Some (Inr (n, (ensure_spill_file_created pw)\<lparr>pw_spill_file := Some (bbw_writer (bbw_flush b))\<rparr>))))"
  by (subst write_iter.simps)
     (auto simp: pw_spill_def ensure_spill_file_created_def pw_bytes_def and_then_def Let_def
       split: option.splits sum.splits bind_splits)

lemma shuffle_write_partition_spec:
  assumes "interleave_law env" and "encodes env c B" and "0 < k" and "k \<le> B" and "positions_ok batches indices"
  shows "shuffle_write_partition env (pbi_new indices batches k) (sbw_try_new nf c) out =
    Some (Inr (out @ blocks (env_encode env) nf c (chunks k (gather batches indices))))"
proof -
  obtain m b where "bbw_write_all (env_encode env) (chunks k (gather batches indices)) (bbw_new (sbw_try_new nf c) out) = Some (Inr (m, b))"
      "bbw_bytes b = out @ blocks (env_encode env) nf c (chunks k (gather batches indices))"
    by (rule write_chunks [OF assms(2,4)])
  then show ?thesis by (simp add: shuffle_write_partition_def write_iter_new [OF assms(1,3,5)])
qed

lemma pw_spill_spec:
  assumes "interleave_law env" and "encodes env c B" and "0 < k" and "k \<le> B" and "positions_ok batches indices"
    and "pw_block_writer pw = sbw_try_new nf c"
  shows "\<exists>m pw'. pw_spill env (pbi_new indices batches k) pw = Some (Inr (m, pw')) \<and> pw_block_writer pw' = sbw_try_new nf c \<and>
    pw_bytes pw' = pw_bytes pw @ blocks (env_encode env) nf c (chunks k (gather batches indices))"
proof (cases "pbi_next env (pbi_new indices batches k) = None")
  case True
  then have "indices = []" by (auto simp: pbi_next_def pbi_new_def Let_def split: if_splits sum.splits)
  then have "chunks k (gather batches indices) = []" by (subst chunks.simps) (simp add: gather_def)
  with True assms(6) show ?thesis by (simp add: pw_spill_unfold)
next
  case False
  obtain m b where "bbw_write_all (env_encode env) (chunks k (gather batches indices)) (bbw_new (sbw_try_new nf c) (pw_bytes pw)) = Some (Inr (m, b))"
      "bbw_bytes b = pw_bytes pw @ blocks (env_encode env) nf c (chunks k (gather batches indices))"
    by (rule write_chunks [OF assms(2,4)])
  with False assms(6) show ?thesis
    by (auto simp: pw_spill_unfold write_iter_new [OF assms(1,3,5)])
qed

lemma spill_partitions_spec:
  assumes "interleave_law env" and "encodes env c B" and "0 < pbp_batch_size p" and "pbp_batch_size p \<le> B"
  shows "list_all (\<lambda>pw. pw_block_writer pw = sbw_try_new nf c) pws \<Longrightarrow>
    list_all (positions_ok (pbp_buffered_batches p)) (drop q (pbp_partition_indices p)) \<Longrightarrow>
    length (pbp_partition_indices p) = q + length pws \<Longrightarrow>
    \<exists>pws'. spill_partitions env p q pws = Some (Inr pws') \<and> length pws' = length pws \<and>
      list_all (\<lambda>pw. pw_block_writer pw = sbw_try_new nf c) pws' \<and>
      (\<forall>i < length pws. pw_bytes (pws' ! i) = pw_bytes (pws ! i) @
         blocks (env_encode env) nf c (chunks (pbp_batch_size p) (gather (pbp_buffered_batches p) (pbp_partition_indices p ! (q + i)))))"
proof (induction pws arbitrary: q)
  case Nil
  then show ?case by simp
next
  case (Cons pw pws)
  let ?k = "pbp_batch_size p" and ?bs = "pbp_buffered_batches p" and ?ix = "pbp_partition_indices p"
  have d: "drop q ?ix = ?ix ! q # drop (Suc q) ?ix" using Cons.prems(3) by (simp add: Cons_nth_drop_Suc)
  with Cons.prems have ok: "positions_ok ?bs (?ix ! q)" "pw_block_writer pw = sbw_try_new nf c" by simp_all
  obtain m pw' where 1: "pw_spill env (pbi_new (?ix ! q) ?bs ?k) pw = Some (Inr (m, pw'))" "pw_block_writer pw' = sbw_try_new nf c"
      "pw_bytes pw' = pw_bytes pw @ blocks (env_encode env) nf c (chunks ?k (gather ?bs (?ix ! q)))"
    using pw_spill_spec [OF assms ok(1), of pw nf] ok(2) by blast
  obtain pws' where 2: "spill_partitions env p (Suc q) pws = Some (Inr pws')" "length pws' = length pws"
      "list_all (\<lambda>pw. pw_block_writer pw = sbw_try_new nf c) pws'"
      "\<forall>i < length pws. pw_bytes (pws' ! i) = pw_bytes (pws ! i) @ blocks (env_encode env) nf c (chunks ?k (gather ?bs (?ix ! (Suc q + i))))"
    using Cons.IH [of "Suc q"] Cons.prems d by auto
  have "spill_partitions env p q (pw # pws) = Some (Inr (pw' # pws'))"
    using 1(1) 2(1) Cons.prems(3) by (simp add: produce_def rust_simps)
  moreover have "pw_bytes ((pw' # pws') ! i) = pw_bytes ((pw # pws) ! i) @ blocks (env_encode env) nf c (chunks ?k (gather ?bs (?ix ! (q + i))))"
    if "i < length (pw # pws)" for i
    using that 1(3) 2(4) by (cases i) auto
  ultimately show ?case using 1(2) 2(2,3) by auto
qed

subsection \<open>The invariant of the multi-partition writer\<close>

text \<open>The computation of the partition ids, by scheme, and what it has to give: the number of the partition of
  every row, written to the front of the scratch space.\<close>

definition scratch_ok :: "('r, 'k) comet_partitioning \<Rightarrow> nat \<Rightarrow> scratch_space \<Rightarrow> bool" where
  "scratch_ok part k scratch \<longleftrightarrow> length (ss_partition_ids scratch) = k \<and>
     (case part of Hash _ _ \<Rightarrow> length (ss_hashes_buf scratch) = k | _ \<Rightarrow> True)"

definition partition_ids_of :: "('r, 'm) shuffle_env \<Rightarrow> ('r, 'k::linorder) comet_partitioning \<Rightarrow> 'r list \<Rightarrow> scratch_space \<Rightarrow>
    (nat \<times> scratch_space) res" where
  "partition_ids_of env part input scratch = (case part of
       Hash exprs n \<Rightarrow> hash_partition_ids env exprs n input scratch
     | RangePartitioning convert n bounds \<Rightarrow> range_partition_ids convert bounds input scratch
     | SinglePartition \<Rightarrow> None)"

definition routes :: "('r, 'm) shuffle_env \<Rightarrow> ('r, 'k::linorder) comet_partitioning \<Rightarrow> nat \<Rightarrow> ('r \<Rightarrow> nat) \<Rightarrow> bool" where
  "routes env part k pid \<longleftrightarrow> part \<noteq> SinglePartition \<and> partition_count part < 2 ^ 32 \<and>
     (\<forall>r. pid r < partition_count part) \<and>
     (\<forall>input scratch. input \<noteq> [] \<longrightarrow> length input \<le> k \<longrightarrow> scratch_ok part k scratch \<longrightarrow>
        (\<exists>scratch'. partition_ids_of env part input scratch = Some (Inr (length input, scratch')) \<and>
           take (length input) (ss_partition_ids scratch') = map (\<lambda>r. of_nat (pid r)) input \<and> scratch_ok part k scratch'))"

text \<open>The part of the state that is the same for every batch, and the rows it stands for: what was spilled of a
  partition followed by what is buffered of it are its rows, in input order.\<close>

definition mp_ok :: "('r, 'm) shuffle_env \<Rightarrow> nat \<Rightarrow> compression_codec \<Rightarrow> nat \<Rightarrow> ('r \<Rightarrow> nat) \<Rightarrow> nat \<Rightarrow>
    ('r, 'k::linorder, 'm) multi_partitioner \<Rightarrow> bool" where
  "mp_ok env nf c B pid n s \<longleftrightarrow> env_ok env c B \<and> 0 < mp_batch_size s \<and> mp_batch_size s \<le> B \<and>
     partition_count (mp_partitioning s) = n \<and> routes env (mp_partitioning s) (mp_batch_size s) pid \<and>
     mp_block_writer s = sbw_try_new nf c \<and> length (mp_partition_writers s) = n \<and> length (mp_partition_indices s) = n \<and>
     list_all (\<lambda>pw. pw_block_writer pw = sbw_try_new nf c) (mp_partition_writers s) \<and>
     scratch_ok (mp_partitioning s) (mp_batch_size s) (mp_scratch s)"

definition spilled :: "('r, 'm) shuffle_env \<Rightarrow> nat \<Rightarrow> compression_codec \<Rightarrow> u8 list \<Rightarrow> 'r list \<Rightarrow> bool" where
  "spilled env nf c bytes rows \<longleftrightarrow>
     (\<exists>bs. bytes = blocks (env_encode env) nf c bs \<and> list_all (can_encode (env_encode env) c) bs \<and> concat bs = rows)"

definition mp_holds :: "('r, 'm) shuffle_env \<Rightarrow> nat \<Rightarrow> compression_codec \<Rightarrow> ('r \<Rightarrow> nat) \<Rightarrow> nat \<Rightarrow>
    ('r, 'k, 'm) multi_partitioner \<Rightarrow> 'r list \<Rightarrow> bool" where
  "mp_holds env nf c pid n s R \<longleftrightarrow> length (mp_buffered_batches s) \<le> length R \<and>
     (\<forall>p < n. positions_ok (mp_buffered_batches s) (mp_partition_indices s ! p) \<and>
        (\<exists>old. spilled env nf c (pw_bytes (mp_partition_writers s ! p)) old \<and>
           old @ gather (mp_buffered_batches s) (mp_partition_indices s ! p) = filter (\<lambda>r. pid r = p) R))"

definition mp_inv :: "('r, 'm) shuffle_env \<Rightarrow> nat \<Rightarrow> compression_codec \<Rightarrow> nat \<Rightarrow> ('r \<Rightarrow> nat) \<Rightarrow> nat \<Rightarrow>
    ('r, 'k::linorder, 'm) multi_partitioner \<Rightarrow> 'r list \<Rightarrow> bool" where
  "mp_inv env nf c B pid n s R \<longleftrightarrow> mp_ok env nf c B pid n s \<and> mp_holds env nf c pid n s R"

lemma spilled_append:
  assumes "spilled env nf c bytes rows" and "encodes env c B" and "0 < k" and "k \<le> B"
  shows "spilled env nf c (bytes @ blocks (env_encode env) nf c (chunks k xs)) (rows @ xs)"
proof -
  from assms(1) obtain bs where bs: "bytes = blocks (env_encode env) nf c bs" "list_all (can_encode (env_encode env) c) bs"
    "concat bs = rows" unfolding spilled_def by blast
  show ?thesis unfolding spilled_def
    by (rule exI [of _ "bs @ chunks k xs"]) (use bs encodes_chunks(2) [OF assms(2,4)] concat_chunks [OF assms(3)] in simp)
qed

lemma gather_Nil [simp]: "gather batches [] = []" and gather_append: "gather batches (ix @ jx) = gather batches ix @ gather batches jx"
  by (simp_all add: gather_def)

lemma spill_keeps:
  assumes "mp_inv env nf c B pid n s R"
  shows "\<exists>s'. spill env s = Some (Inr s') \<and> mp_inv env nf c B pid n s' R"
proof (cases "mp_buffered_batches s = []")
  case True
  with assms show ?thesis by (simp add: spill_def)
next
  case False
  have ok: "mp_ok env nf c B pid n s" and h: "mp_holds env nf c pid n s R" using assms by (simp_all add: mp_inv_def)
  let ?p = "fst (partitioned_batches s)" and ?s = "snd (partitioned_batches s)"
  have p: "pbp_batch_size ?p = mp_batch_size s" "pbp_buffered_batches ?p = mp_buffered_batches s"
    "pbp_partition_indices ?p = mp_partition_indices s" by (simp_all add: partitioned_batches_def)
  have e: "interleave_law env" "encodes env c B" "0 < pbp_batch_size ?p" "pbp_batch_size ?p \<le> B"
    using ok by (simp_all add: mp_ok_def env_ok_def p)
  have "list_all (positions_ok (pbp_buffered_batches ?p)) (drop 0 (pbp_partition_indices ?p))"
    using h ok by (simp add: p mp_holds_def mp_ok_def list_all_length)
  then obtain pws where pws: "spill_partitions env ?p 0 (mp_partition_writers s) = Some (Inr pws)" "length pws = n"
      "list_all (\<lambda>pw. pw_block_writer pw = sbw_try_new nf c) pws"
      "\<forall>i < n. pw_bytes (pws ! i) = pw_bytes (mp_partition_writers s ! i) @
         blocks (env_encode env) nf c (chunks (mp_batch_size s) (gather (mp_buffered_batches s) (mp_partition_indices s ! i)))"
    using spill_partitions_spec [OF e, of nf "mp_partition_writers s" 0] ok by (auto simp: mp_ok_def p)
  let ?t = "?s\<lparr>mp_partition_writers := pws, mp_reservation := env_free env (mp_reservation ?s)\<rparr>"
  have "spill env s = Some (Inr ?t)" using False pws(1) by (simp add: spill_def partitioned_batches_def)
  moreover have "mp_ok env nf c B pid n ?t" using ok pws by (simp add: mp_ok_def partitioned_batches_def)
  moreover have "mp_holds env nf c pid n ?t R"
    unfolding mp_holds_def
  proof (intro conjI allI impI)
    fix q assume q: "q < n"
    from h q obtain old where old: "spilled env nf c (pw_bytes (mp_partition_writers s ! q)) old"
      "old @ gather (mp_buffered_batches s) (mp_partition_indices s ! q) = filter (\<lambda>r. pid r = q) R"
      unfolding mp_holds_def by blast
    from spilled_append [OF old(1) e(2,3,4), of "gather (mp_buffered_batches s) (mp_partition_indices s ! q)"] old(2) q pws(4) ok
    show "\<exists>old. spilled env nf c (pw_bytes (mp_partition_writers ?t ! q)) old \<and>
        old @ gather (mp_buffered_batches ?t) (mp_partition_indices ?t ! q) = filter (\<lambda>r. pid r = q) R"
      by (auto simp: p partitioned_batches_def mp_ok_def)
    show "positions_ok (mp_buffered_batches ?t) (mp_partition_indices ?t ! q)"
      using ok q by (simp add: partitioned_batches_def mp_ok_def positions_ok_def)
  qed (simp add: partitioned_batches_def)
  ultimately show ?thesis by (simp add: mp_inv_def)
qed

lemma filter_members: "map (\<lambda>i. xs ! i) (filter (\<lambda>i. P (xs ! i)) [0..<length xs]) = filter P xs"
  by (simp add: map_nth comp_def flip: filter_map [of P "(!) xs", unfolded comp_def])

lemma members_lt: "i \<in> set (members ids m p) \<Longrightarrow> i < m"
  by (simp add: members_def)

lemma gather_new:
  assumes "length batches < 2 ^ 32" and "length input < 2 ^ 32" and "\<And>r. pid r < 2 ^ 32" and "p < 2 ^ 32"
  shows "gather (batches @ [input]) (map (\<lambda>i. (of_nat (length batches), of_nat i))
      (members (map unat (map (\<lambda>r. of_nat (pid r) :: u32) input)) (length input) p)) = filter (\<lambda>r. pid r = p) input"
proof -
  let ?m = "members (map unat (map (\<lambda>r. of_nat (pid r) :: u32) input)) (length input) p"
  have m: "?m = filter (\<lambda>i. pid (input ! i) = p) [0..<length input]"
    unfolding members_def by (rule filter_cong) (use assms(3) in \<open>simp_all add: unat_of_nat_eq\<close>)
  have u: "unat (of_nat (length batches) :: u32) = length batches" using assms(1) by (simp add: unat_of_nat_eq)
  have "gather (batches @ [input]) (map (\<lambda>i. (of_nat (length batches), of_nat i)) ?m) = map (\<lambda>i. input ! i) ?m"
    using assms(2) by (auto simp: gather_def u unat_of_nat_eq dest!: members_lt)
  also have "\<dots> = filter (\<lambda>r. pid r = p) input" unfolding m by (rule filter_members)
  finally show ?thesis .
qed

lemma positions_new:
  assumes "length batches < 2 ^ 32" and "length input < 2 ^ 32" and "positions_ok batches ix"
  shows "positions_ok (batches @ [input]) (ix @ map (\<lambda>i. (of_nat (length batches), of_nat i)) (members ids (length input) p))"
proof -
  have u: "unat (of_nat (length batches) :: u32) = length batches" using assms(1) by (simp add: unat_of_nat_eq)
  have "list_all (\<lambda>i. unat (of_nat i :: u32) < length input) (members ids (length input) p)"
    using assms(2) by (auto simp: list_all_iff unat_of_nat_eq dest!: members_lt)
  then show ?thesis using assms(3) by (auto simp: positions_ok_def u list_all_iff nth_append)
qed

lemma gather_old: "positions_ok batches ix \<Longrightarrow> gather (batches @ [input]) ix = gather batches ix"
  by (auto simp: positions_ok_def gather_def list_all_iff nth_append)

lemma buffer_keeps:
  assumes inv: "mp_inv env nf c B pid n s R" and room: "length (R @ input) < 2 ^ 32" and "input \<noteq> []"
    and g: "grouped (map (\<lambda>r. of_nat (pid r)) input) n starts rows"
  shows "\<exists>s'. buffer_partitioned_batch_may_spill env input rows starts s = Some (Inr s') \<and> mp_inv env nf c B pid n s' (R @ input)"
proof -
  let ?bs = "mp_buffered_batches s" and ?ix = "mp_partition_indices s"
  have ok: "mp_ok env nf c B pid n s" and h: "mp_holds env nf c pid n s R" using inv by (simp_all add: mp_inv_def)
  have len: "length ?ix = n" "length ?bs < 2 ^ 32" "length input < 2 ^ 32" "length ?bs + 1 \<le> length (R @ input)"
    using ok h room assms(3) by (cases input; simp add: mp_ok_def mp_holds_def)+
  have pid: "pid r < 2 ^ 32" "n < 2 ^ 32" for r using ok unfolding mp_ok_def routes_def by (metis order_less_trans)+
  let ?new = "\<lambda>p. map (\<lambda>i. (of_nat (length ?bs), of_nat i))
    (members (map unat (map (\<lambda>r. of_nat (pid r) :: u32) input)) (length input) p)"
  let ?after = "map (\<lambda>p. ?ix ! p @ ?new p) [0..<n]"
  have push: "push_windows (of_nat (length ?bs)) rows 0 starts ?ix = Some ?after"
    using push_windows_spec [OF g, of 0 ?ix "of_nat (length ?bs)"] len(1) by simp
  let ?s = "s\<lparr>mp_buffered_batches := ?bs @ [input], mp_partition_indices := ?after\<rparr>"
  have "mp_holds env nf c pid n ?s (R @ input)"
    unfolding mp_holds_def
  proof (intro conjI allI impI)
    fix p assume p: "p < n"
    from h p obtain old where old: "positions_ok ?bs (?ix ! p)" "spilled env nf c (pw_bytes (mp_partition_writers s ! p)) old"
      "old @ gather ?bs (?ix ! p) = filter (\<lambda>r. pid r = p) R" unfolding mp_holds_def by blast
    show "positions_ok (mp_buffered_batches ?s) (mp_partition_indices ?s ! p)"
      using positions_new [OF len(2,3) old(1)] p by simp
    have "gather (?bs @ [input]) (?ix ! p @ ?new p) = gather ?bs (?ix ! p) @ filter (\<lambda>r. pid r = p) input"
      unfolding gather_append gather_old [OF old(1)] using gather_new [OF len(2,3) pid(1), of p] p pid(2) by simp
    with old p show "\<exists>old. spilled env nf c (pw_bytes (mp_partition_writers ?s ! p)) old \<and>
        old @ gather (mp_buffered_batches ?s) (mp_partition_indices ?s ! p) = filter (\<lambda>r. pid r = p) (R @ input)"
      by (intro exI [of _ old]) (simp flip: append_assoc)
  qed (use len(4) in simp)
  moreover have "mp_ok env nf c B pid n ?s" using ok by (simp add: mp_ok_def)
  ultimately have inv': "mp_inv env nf c B pid n (?s\<lparr>mp_reservation := m\<rparr>) (R @ input)" for m
    by (simp add: mp_inv_def mp_ok_def mp_holds_def)
  have same: "?s\<lparr>mp_reservation := mp_reservation s\<rparr> = ?s" by simp
  show ?thesis
    using spill_keeps [OF inv' [of "mp_reservation s"]] inv'
    by (cases "env_try_grow env (mp_reservation s) (env_growth env input ?ix ?after)")
       (simp_all add: buffer_partitioned_batch_may_spill_def Let_def push same)
qed

lemma mp_inv_scratch:
  "mp_inv env nf c B pid n s R \<Longrightarrow> scratch_ok (mp_partitioning s) (mp_batch_size s) scratch \<Longrightarrow>
     mp_inv env nf c B pid n (s\<lparr>mp_scratch := scratch\<rparr>) R"
  by (simp add: mp_inv_def mp_ok_def mp_holds_def)

text \<open>The operations that buffer and spill leave the configuration as it was.\<close>

lemma spill_config: "spill env s = Some (Inr s') \<Longrightarrow> mp_partitioning s' = mp_partitioning s \<and> mp_batch_size s' = mp_batch_size s"
  by (auto simp: spill_def partitioned_batches_def and_then_def split: if_splits option.splits sum.splits)

lemma buffer_config:
  assumes "buffer_partitioned_batch_may_spill env input rows starts s = Some (Inr s')"
  shows "mp_partitioning s' = mp_partitioning s \<and> mp_batch_size s' = mp_batch_size s"
  using assms
  by (auto simp: buffer_partitioned_batch_may_spill_def Let_def split: bind_splits option.splits dest!: spill_config)

lemma partitioning_batch_keeps:
  assumes inv: "mp_inv env nf c B pid n s R" and room: "length (R @ input) < 2 ^ 32" and k: "length input \<le> mp_batch_size s"
  shows "\<exists>s'. partitioning_batch env input s = Some (Inr s') \<and> mp_inv env nf c B pid n s' (R @ input) \<and>
    mp_batch_size s' = mp_batch_size s"
proof (cases "input = []")
  case True
  with inv show ?thesis by (simp add: partitioning_batch_def)
next
  case False
  let ?part = "mp_partitioning s" and ?k = "mp_batch_size s"
  have r: "routes env ?part ?k pid" "scratch_ok ?part ?k (mp_scratch s)" "partition_count ?part = n"
    using inv by (simp_all add: mp_inv_def mp_ok_def)
  then have r4: "?part \<noteq> SinglePartition" by (simp add: routes_def)
  from r(1,2) False k obtain scratch where ids: "partition_ids_of env ?part input (mp_scratch s) = Some (Inr (length input, scratch))"
      "take (length input) (ss_partition_ids scratch) = map (\<lambda>r. of_nat (pid r)) input" "scratch_ok ?part ?k scratch"
    unfolding routes_def by blast
  have pid: "pid r < n" "n < 2 ^ 32" for r using r(1,3) unfolding routes_def by blast+
  then have "unat (of_nat (pid r) :: u32) = pid r" for r using order_less_trans [OF pid] by (simp add: unat_of_nat_eq)
  then have lt: "list_all (\<lambda>p. unat p < n) (map (\<lambda>r. of_nat (pid r) :: u32) input)"
    using pid(1) by (simp add: list_all_iff)
  from ids(3) k room map_ids_spec [OF ids(2) _ _ lt] obtain scratch' where
    m: "map_partition_ids_to_starts_and_indices scratch n (length input) = Some scratch'"
      "grouped (map (\<lambda>r. of_nat (pid r)) input) n (ss_partition_starts scratch') (ss_partition_row_indices scratch')"
      "ss_partition_ids scratch' = ss_partition_ids scratch" "ss_hashes_buf scratch' = ss_hashes_buf scratch"
    by (auto simp: scratch_ok_def)
  from buffer_keeps [OF inv room False m(2)] obtain s' where
    s': "buffer_partitioned_batch_may_spill env input (ss_partition_row_indices scratch') (ss_partition_starts scratch') s = Some (Inr s')"
      "mp_inv env nf c B pid n s' (R @ input)" by blast
  have "partitioning_batch env input s = partition_and_buffer env input n (partition_ids_of env ?part input (mp_scratch s)) s"
    using False k r(3) r4 by (cases ?part) (simp_all add: partitioning_batch_def partition_ids_of_def)
  then have "partitioning_batch env input s = Some (Inr (s'\<lparr>mp_scratch := scratch'\<rparr>))"
    by (simp add: partition_and_buffer_def ids(1) m(1) s'(1))
  moreover have "scratch_ok (mp_partitioning s') (mp_batch_size s') scratch'"
    using ids(3) m(3,4) buffer_config [OF s'(1)] by (cases "mp_partitioning s") (simp_all add: scratch_ok_def)
  ultimately show ?thesis using mp_inv_scratch [OF s'(2)] buffer_config [OF s'(1)] by simp
qed

text \<open>The loop over the slices of a batch ends, and every slice is kept.\<close>

lemma insert_slices_keeps:
  assumes "mp_inv env nf c B pid n s (R @ take start batch)" and "length (R @ batch) < 2 ^ 32" and "start \<le> length batch"
  shows "\<exists>s'. insert_slices env batch start s = Some (Inr s') \<and> mp_inv env nf c B pid n s' (R @ batch)"
  using assms(1,3)
proof (induction "length batch - start" arbitrary: start s rule: less_induct)
  case less
  show ?case
  proof (cases "start < length batch")
    case False
    with less.prems show ?thesis by (subst insert_slices.simps) simp
  next
    case True
    let ?k = "mp_batch_size s"
    define stop where "stop = min (start + ?k) (length batch)"
    have k: "0 < ?k" using less.prems(1) by (simp add: mp_inv_def mp_ok_def)
    then have b: "start < stop" "stop \<le> length batch" "stop - start \<le> ?k" using True by (simp_all add: stop_def)
    let ?input = "take (stop - start) (drop start batch)"
    have t: "take start batch @ ?input = take stop batch" using b by (simp add: take_add [symmetric])
    have "length ((R @ take start batch) @ ?input) < 2 ^ 32" "length ?input \<le> ?k" using assms(2) b by simp_all
    from partitioning_batch_keeps [OF less.prems(1) this] t obtain s' where
      s': "partitioning_batch env ?input s = Some (Inr s')" "mp_inv env nf c B pid n s' (R @ take stop batch)" by auto
    have "length batch - stop < length batch - start" using b by simp
    from less.hyps [OF this s'(2) b(2)] obtain s'' where
      "insert_slices env batch stop s' = Some (Inr s'')" "mp_inv env nf c B pid n s'' (R @ batch)" by blast
    with s'(1) True show ?thesis by (subst insert_slices.simps) (simp add: Let_def flip: stop_def)
  qed
qed

lemma mp_insert_keeps:
  assumes "mp_inv env nf c B pid n s R" and "length (R @ batch) < 2 ^ 32"
  shows "\<exists>s'. mp_insert_batch env batch s = Some (Inr s') \<and> mp_inv env nf c B pid n s' (R @ batch)"
  unfolding mp_insert_batch_def using assms by (intro insert_slices_keeps) simp_all

subsection \<open>The data file and its index\<close>

text \<open>What a reader of partition \<open>p\<close> does with the index: two offsets, and the bytes between them.\<close>

definition index_entry :: "u8 list \<Rightarrow> nat \<Rightarrow> nat" where
  "index_entry index_bytes p = unat (le_word (take 8 (drop (8 * p) index_bytes)) :: u64)"

definition partition_segment :: "u8 list \<Rightarrow> u8 list \<Rightarrow> nat \<Rightarrow> u8 list" where
  "partition_segment data index_bytes p =
     (let start = index_entry index_bytes p; stop = index_entry index_bytes (Suc p) in take (stop - start) (drop start data))"

fun starts_of :: "nat \<Rightarrow> 'a list list \<Rightarrow> nat list" where
  "starts_of a [] = [a]"
| "starts_of a (x # xs) = a # starts_of (a + length x) xs"

lemma starts_of_simps [simp]: "length (starts_of a xs) = Suc (length xs)"
  "q \<le> length xs \<Longrightarrow> starts_of a xs ! q = a + length (concat (take q xs))"
proof -
  show "length (starts_of a xs) = Suc (length xs)" by (induction xs arbitrary: a) simp_all
  show "q \<le> length xs \<Longrightarrow> starts_of a xs ! q = a + length (concat (take q xs))"
    by (induction xs arbitrary: a q) (auto simp: nth_Cons' take_Cons')
qed

lemma index_entry_nth:
  "q < length offsets \<Longrightarrow> offsets ! q < 2 ^ 64 \<Longrightarrow> index_entry (index_file offsets) q = offsets ! q"
proof (induction offsets arbitrary: q)
  case (Cons a offsets)
  then show ?case
    by (cases q) (simp_all add: index_entry_def index_file_def unat_of_nat_eq)
qed simp

lemma segment_nth:
  assumes "p < length segs" and "length (concat segs) < 2 ^ 64"
  shows "partition_segment (concat segs) (index_file (starts_of 0 segs)) p = segs ! p"
proof -
  have le: "length (concat (take q segs)) \<le> length (concat segs)" for q
    by (metis append_take_drop_id concat_append length_append le_add1)
  have ix: "index_entry (index_file (starts_of 0 segs)) q = length (concat (take q segs))" if "q \<le> length segs" for q
    using that le [of q] assms(2) index_entry_nth [of q "starts_of 0 segs"] by simp
  have "concat segs = concat (take p segs) @ segs ! p @ concat (drop (Suc p) segs)"
    using id_take_nth_drop [OF assms(1)] by (metis concat.simps(2) concat_append)
  moreover have "concat (take (Suc p) segs) = concat (take p segs) @ segs ! p"
    using assms(1) by (simp add: take_Suc_conv_app_nth)
  ultimately show ?thesis using assms(1) ix [of p] ix [of "Suc p"] by (simp add: partition_segment_def)
qed

lemma write_partitions_spec:
  assumes e: "interleave_law env" "encodes env c B" "0 < pbp_batch_size p" "pbp_batch_size p \<le> B"
    and w: "mp_block_writer s = sbw_try_new nf c" and ok: "list_all (positions_ok (pbp_buffered_batches p)) (pbp_partition_indices p)"
  shows "list_all (\<lambda>i. i < length (mp_partition_writers s) \<and> i < length (pbp_partition_indices p)) js \<Longrightarrow>
    (let segs = map (\<lambda>i. pw_bytes (mp_partition_writers s ! i) @ blocks (env_encode env) nf c
          (chunks (pbp_batch_size p) (gather (pbp_buffered_batches p) (pbp_partition_indices p ! i)))) js
     in \<exists>offsets. write_partitions env p s js out = Some (Inr (offsets, out @ concat segs)) \<and>
          offsets @ [length (out @ concat segs)] = starts_of (length out) segs)"
proof (induction js arbitrary: out)
  case Nil
  then show ?case by simp
next
  case (Cons i js)
  let ?seg = "\<lambda>i. pw_bytes (mp_partition_writers s ! i) @ blocks (env_encode env) nf c
          (chunks (pbp_batch_size p) (gather (pbp_buffered_batches p) (pbp_partition_indices p ! i)))"
  have i: "i < length (mp_partition_writers s)" "i < length (pbp_partition_indices p)" using Cons.prems by simp_all
  with ok have "positions_ok (pbp_buffered_batches p) (pbp_partition_indices p ! i)" by (simp add: list_all_length)
  note sw = shuffle_write_partition_spec [OF e this]
  have sp: "(case pw_spill_file pw of None \<Rightarrow> out | Some spill_data \<Rightarrow> out @ spill_data) = out @ pw_bytes pw" for pw
    by (simp add: pw_bytes_def split: option.split)
  obtain offsets where "write_partitions env p s js (out @ ?seg i) = Some (Inr (offsets, (out @ ?seg i) @ concat (map ?seg js)))"
      "offsets @ [length ((out @ ?seg i) @ concat (map ?seg js))] = starts_of (length (out @ ?seg i)) (map ?seg js)"
    using Cons.IH [of "out @ ?seg i"] Cons.prems by (auto simp: Let_def)
  then show ?case
    using i by (simp add: produce_def rust_simps Let_def sp sw w)
qed

text \<open>The rows the reader gets from partition \<open>p\<close>.\<close>

definition delivers_partitions :: "('r, 'm) shuffle_env \<Rightarrow> nat \<Rightarrow> compression_codec \<Rightarrow> ('r \<Rightarrow> nat) \<Rightarrow> nat \<Rightarrow> 'r list \<Rightarrow> u8 list \<Rightarrow> u8 list \<Rightarrow> bool" where
  "delivers_partitions env nf c pid n R data index_bytes \<longleftrightarrow> length index_bytes = 8 * (n + 1) \<and>
     (length data < 2 ^ 63 \<longrightarrow> (\<forall>p < n. \<forall>dec cap. codec_law nf c (env_encode env) dec \<longrightarrow>
        (\<exists>batches. drain dec (it_new (partition_segment data index_bytes p) cap) = Some (Inr batches) \<and>
           concat batches = filter (\<lambda>r. pid r = p) R)))"

lemma concat_nonempty: "concat (filter (\<lambda>xs. xs \<noteq> []) xss) = concat xss"
  by (induction xss) auto

lemma length_index_file [simp]: "length (index_file offsets) = 8 * length offsets"
  by (induction offsets) (simp_all add: index_file_def)

lemma spilled_delivers:
  assumes "length segs = n" and "\<And>p. p < n \<Longrightarrow> spilled env nf c (segs ! p) (filter (\<lambda>r. pid r = p) R)" and "nf < 2 ^ 31"
  shows "delivers_partitions env nf c pid n R (concat segs) (index_file (starts_of 0 segs))"
  unfolding delivers_partitions_def
proof (intro conjI impI allI)
  fix p :: nat and dec :: "frame_format \<Rightarrow> u8 list \<Rightarrow> (nat \<times> 'a list) res" and cap :: nat
  assume "length (concat segs) < 2 ^ 63" and p: "p < n" and law: "codec_law nf c (env_encode env) dec"
  then have seg: "partition_segment (concat segs) (index_file (starts_of 0 segs)) p = segs ! p"
    using assms(1) by (intro segment_nth) simp_all
  from assms(2) [OF p] obtain bs where bs: "segs ! p = blocks (env_encode env) nf c bs"
      "list_all (can_encode (env_encode env) c) bs" "concat bs = filter (\<lambda>r. pid r = p) R" unfolding spilled_def by blast
  have "drain dec (it_new (segs ! p) cap) = Some (Inr (filter (\<lambda>rows. rows \<noteq> []) bs))"
  proof (rule drain_blocks [OF law assms(3)])
    show "list_all (\<lambda>rows. rows = [] \<or> can_encode (env_encode env) c rows) bs"
      using bs(2) by (rule list.pred_mono_strong) simp
  qed (simp_all add: it_new_def bs(1))
  then show "\<exists>batches. drain dec (it_new (partition_segment (concat segs) (index_file (starts_of 0 segs)) p) cap) = Some (Inr batches) \<and>
      concat batches = filter (\<lambda>r. pid r = p) R"
    by (simp add: seg concat_nonempty bs(3))
qed (use assms(1) in simp)

lemma mp_shuffle_write_delivers:
  assumes "mp_inv env nf c B pid n s R" and "nf < 2 ^ 31"
  shows "\<exists>data index_bytes. mp_shuffle_write env s = Some (Inr (data, index_bytes)) \<and>
    delivers_partitions env nf c pid n R data index_bytes"
proof -
  have ok: "mp_ok env nf c B pid n s" and h: "mp_holds env nf c pid n s R" using assms(1) by (simp_all add: mp_inv_def)
  let ?p = "fst (partitioned_batches s)" and ?s = "snd (partitioned_batches s)"
  have p: "pbp_batch_size ?p = mp_batch_size s" "pbp_buffered_batches ?p = mp_buffered_batches s"
    "pbp_partition_indices ?p = mp_partition_indices s" "mp_partition_writers ?s = mp_partition_writers s"
    "length (mp_partition_indices ?s) = length (mp_partition_indices s)" "mp_block_writer ?s = mp_block_writer s"
    by (simp_all add: partitioned_batches_def)
  have e: "interleave_law env" "encodes env c B" "0 < mp_batch_size s" "mp_batch_size s \<le> B"
    and len: "length (mp_partition_writers s) = n" "length (mp_partition_indices s) = n" "mp_block_writer s = sbw_try_new nf c"
    using ok by (simp_all add: mp_ok_def env_ok_def)
  let ?seg = "\<lambda>i. pw_bytes (mp_partition_writers s ! i) @ blocks (env_encode env) nf c
      (chunks (mp_batch_size s) (gather (mp_buffered_batches s) (mp_partition_indices s ! i)))"
  let ?segs = "map ?seg [0..<n]"
  have "list_all (positions_ok (mp_buffered_batches s)) (mp_partition_indices s)"
    using h len by (simp add: mp_holds_def list_all_length)
  with write_partitions_spec [of env c B ?p ?s nf "[0..<n]" "[]"] e len obtain offsets where
    "write_partitions env ?p ?s [0..<n] [] = Some (Inr (offsets, concat ?segs))"
    "offsets @ [length (concat ?segs)] = starts_of 0 ?segs"
    by (auto simp: p Let_def list_all_iff)
  then have "mp_shuffle_write env s = Some (Inr (concat ?segs, index_file (starts_of 0 ?segs)))"
    by (simp add: mp_shuffle_write_def split_def p len)
  moreover have "delivers_partitions env nf c pid n R (concat ?segs) (index_file (starts_of 0 ?segs))"
  proof (rule spilled_delivers)
    fix q assume q: "q < n"
    with h obtain old where old: "spilled env nf c (pw_bytes (mp_partition_writers s ! q)) old"
      "old @ gather (mp_buffered_batches s) (mp_partition_indices s ! q) = filter (\<lambda>r. pid r = q) R"
      unfolding mp_holds_def by blast
    from spilled_append [OF old(1) e(2,3,4), of "gather (mp_buffered_batches s) (mp_partition_indices s ! q)"] old(2) q
    show "spilled env nf c (?segs ! q) (filter (\<lambda>r. pid r = q) R)" by simp
  qed (use assms(2) in simp_all)
  ultimately show ?thesis by blast
qed

subsection \<open>The partition of a row\<close>

text \<open>The documented behaviour of the partition expressions: row by row they give the same cells whatever
  batch the row is in, so that a row has a hash of its own; the row converter keeps one key per row.\<close>

definition hash_law :: "('r list \<Rightarrow> shuffle_error + column list) \<Rightarrow> ('r \<Rightarrow> u32) \<Rightarrow> bool" where
  "hash_law exprs key \<longleftrightarrow> (\<forall>rows. rows \<noteq> [] \<longrightarrow> (\<exists>cols. exprs rows = Inr cols \<and> cols \<noteq> [] \<and>
     list_all (col_wf (length rows)) cols \<and>
     (\<forall>i < length rows. row_hash spark_compatible_murmur3_hash cols i 42 = key (rows ! i))))"

definition hash_partition :: "('r \<Rightarrow> u32) \<Rightarrow> nat \<Rightarrow> 'r \<Rightarrow> nat" where
  "hash_partition key n r = nat (sint (key r) mod int n)"

definition range_partition :: "('r \<Rightarrow> 'k::linorder) \<Rightarrow> 'k list \<Rightarrow> 'r \<Rightarrow> nat" where
  "range_partition key bounds r = length (filter (\<lambda>bound. bound \<le> key r) bounds)"

lemma column_len_wf: "col_wf n c \<Longrightarrow> column_len c = n"
  by (cases c) (simp_all add: arr_wf_def)

lemma murmur3_seeded:
  assumes "take_law tk" and "list_all (col_wf m) cols"
  shows "create_murmur3_hashes tk 2 cols (replicate m 42) =
    Some (Inr (map (\<lambda>i. row_hash spark_compatible_murmur3_hash cols i 42) [0..<m]))"
  using create_internal_rows [OF assms(1), of "replicate m 42" cols 0 spark_compatible_murmur3_hash 0]
    fold_rows [of "replicate m 42" cols spark_compatible_murmur3_hash] assms(2)
  by (simp add: create_murmur3_hashes_def numeral_2_eq_2)

lemma those_map: "(\<And>x. x \<in> set xs \<Longrightarrow> f x = Some (g x)) \<Longrightarrow> those (map f xs) = Some (map g xs)"
  by (induction xs) simp_all

lemma hash_partition_lt: "0 < n \<Longrightarrow> hash_partition key n r < n"
  by (simp add: hash_partition_def nat_less_iff)

lemma hash_routes:
  fixes exprs :: "'r list \<Rightarrow> shuffle_error + column list"
  assumes law: "hash_law exprs key" and tk: "take_law (env_take env)" and n: "0 < n" "n < 2 ^ 31"
  shows "routes env (Hash exprs n :: ('r, 'k::linorder) comet_partitioning) k (hash_partition key n)"
  unfolding routes_def
proof (intro conjI allI impI)
  fix input :: "'r list" and scratch
  assume ne: "input \<noteq> []" and len: "length input \<le> k" and sc: "scratch_ok (Hash exprs n :: ('r, 'k) comet_partitioning) k scratch"
  let ?m = "length input"
  from law ne obtain cols where cols: "exprs input = Inr cols" "cols \<noteq> []" "list_all (col_wf ?m) cols"
      "\<forall>i < ?m. row_hash spark_compatible_murmur3_hash cols i 42 = key (input ! i)"
    unfolding hash_law_def by blast
  have c0: "index cols 0 = Some (hd cols)" "column_len (hd cols) = ?m"
    using cols(2,3) by (cases cols; simp add: index_def column_len_wf)+
  have lens: "length (ss_hashes_buf scratch) = k" "length (ss_partition_ids scratch) = k"
    using sc by (simp_all add: scratch_ok_def)
  have h: "create_murmur3_hashes (env_take env) 2 cols (replicate ?m 42) = Some (Inr (map key input))"
  proof -
    have "map (\<lambda>i. row_hash spark_compatible_murmur3_hash cols i 42) [0..<?m] = map key input"
      by (rule nth_equalityI) (use cols(4) in simp_all)
    with murmur3_seeded [OF tk cols(3)] show ?thesis by simp
  qed
  have ids: "those (map (\<lambda>hash. pmod hash n \<bind> (\<lambda>p. Some (of_nat p :: u32))) (map key input)) =
      Some (map (\<lambda>h. of_nat (nat (sint h mod int n))) (map key input))"
    by (rule those_map) (simp add: pmod_spec [OF n])
  have "map (\<lambda>_. 42 :: u32) (take ?m (ss_hashes_buf scratch)) = replicate ?m 42" using len lens by (simp add: map_replicate_const)
  moreover have "slice_range (ss_hashes_buf scratch) 0 ?m = Some (take ?m (ss_hashes_buf scratch))"
    "slice_from (ss_hashes_buf scratch) ?m = Some (drop ?m (ss_hashes_buf scratch))"
    "slice_range (ss_partition_ids scratch) 0 ?m = Some (take ?m (ss_partition_ids scratch))"
    "slice_from (ss_partition_ids scratch) ?m = Some (drop ?m (ss_partition_ids scratch))"
    using len lens by (simp_all add: rust_simps)
  ultimately have "hash_partition_ids env exprs n input scratch =
      Some (Inr (?m, scratch\<lparr>ss_hashes_buf := map key input @ drop ?m (ss_hashes_buf scratch),
        ss_partition_ids := map (\<lambda>h. of_nat (nat (sint h mod int n))) (map key input) @ drop ?m (ss_partition_ids scratch)\<rparr>))"
    unfolding hash_partition_ids_def cols(1) and_then_simps c0 Let_def bind.simps(2)
    by (simp only: bind.simps(2) h map_sum.simps id_apply and_then_simps ids)
  with len lens show "\<exists>scratch'. partition_ids_of env (Hash exprs n :: ('r, 'k) comet_partitioning) input scratch = Some (Inr (?m, scratch')) \<and>
      take ?m (ss_partition_ids scratch') = map (\<lambda>r. of_nat (hash_partition key n r)) input \<and>
      scratch_ok (Hash exprs n :: ('r, 'k) comet_partitioning) k scratch'"
    by (simp add: partition_ids_of_def scratch_ok_def hash_partition_def comp_def)
qed (use n hash_partition_lt [of n key] in simp_all)

lemma partition_point_sorted:
  assumes "sorted bounds"
  shows "partition_point (\<lambda>bound. bound \<le> x) bounds = length (filter (\<lambda>bound. bound \<le> x) bounds)"
  using assms unfolding partition_point_def
proof (induction bounds)
  case (Cons b bounds)
  then have "filter (\<lambda>bound. bound \<le> x) bounds = []" if "\<not> b \<le> x" using that by (auto simp: filter_empty_conv)
  with Cons show ?case by auto
qed simp

lemma range_partition_lt: "length bounds < n \<Longrightarrow> range_partition key bounds r < n"
  unfolding range_partition_def by (rule le_less_trans [OF length_filter_le])

lemma range_routes:
  fixes convert :: "'r list \<Rightarrow> shuffle_error + 'k::linorder list"
  assumes law: "\<forall>rows. convert rows = Inr (map key rows)" and "sorted bounds" and n: "length bounds < n" "n < 2 ^ 32"
  shows "routes env (RangePartitioning convert n bounds) k (range_partition key bounds)"
  unfolding routes_def
proof (intro conjI allI impI)
  fix input :: "'r list" and scratch
  assume "input \<noteq> []" and len: "length input \<le> k" and sc: "scratch_ok (RangePartitioning convert n bounds) k scratch"
  then show "\<exists>scratch'. partition_ids_of env (RangePartitioning convert n bounds) input scratch = Some (Inr (length input, scratch')) \<and>
      take (length input) (ss_partition_ids scratch') = map (\<lambda>r. of_nat (range_partition key bounds r)) input \<and>
      scratch_ok (RangePartitioning convert n bounds) k scratch'"
    using law partition_point_sorted [OF assms(2)]
    by (simp add: partition_ids_of_def range_partition_ids_def scratch_ok_def rust_simps range_partition_def comp_def Let_def)
qed (use n range_partition_lt [OF n(1)] in simp_all)

subsection \<open>The single-partition writer\<close>

definition sp_inv :: "('r, 'm) shuffle_env \<Rightarrow> nat \<Rightarrow> compression_codec \<Rightarrow> nat \<Rightarrow> 'r single_partitioner \<Rightarrow> 'r list \<Rightarrow> bool" where
  "sp_inv env nf c B s R \<longleftrightarrow> env_ok env c B \<and> sp_batch_size s \<le> B \<and>
     bbw_block_writer (sp_output_data_writer s) = sbw_try_new nf c \<and>
     sp_num_buffered_rows s = length (concat (sp_buffered_batches s)) \<and> sp_num_buffered_rows s \<le> sp_batch_size s \<and>
     (\<exists>old. spilled env nf c (bbw_bytes (sp_output_data_writer s)) old \<and> old @ concat (sp_buffered_batches s) = R)"

lemma spilled_snoc:
  assumes "spilled env nf c bytes rows" and "encodes env c B" and "length batch \<le> B"
  shows "spilled env nf c (bytes @ blocks (env_encode env) nf c [batch]) (rows @ batch)"
proof (cases "batch = []")
  case False
  from assms(1) obtain bs where bs: "bytes = blocks (env_encode env) nf c bs" "list_all (can_encode (env_encode env) c) bs"
    "concat bs = rows" unfolding spilled_def by blast
  have "can_encode (env_encode env) c batch" using assms(2,3) False by (simp add: encodes_def)
  with bs show ?thesis unfolding spilled_def by (intro exI [of _ "bs @ [batch]"]) simp
qed (use assms(1) in simp)

text \<open>Writing one batch behind the others, with nothing buffered.\<close>

lemma sp_write_keeps:
  assumes "sp_inv env nf c B s R" and "sp_buffered_batches s = []" and "length batch \<le> B"
  shows "\<exists>s'. sp_write env batch s = Some (Inr s') \<and> sp_inv env nf c B s' (R @ batch) \<and> sp_buffered_batches s' = [] \<and>
    sp_batch_size s' = sp_batch_size s"
proof -
  have e: "encodes env c B" and w: "bbw_block_writer (sp_output_data_writer s) = sbw_try_new nf c"
    and old: "spilled env nf c (bbw_bytes (sp_output_data_writer s)) R"
    using assms(1,2) by (auto simp: sp_inv_def env_ok_def)
  have "batch = [] \<or> can_encode (env_encode env) c batch" using e assms(3) by (auto simp: encodes_def)
  then obtain m b where b: "bbw_write (env_encode env) batch (sp_output_data_writer s) = Some (Inr (m, b))"
      "bbw_bytes b = bbw_bytes (sp_output_data_writer s) @ blocks (env_encode env) nf c [batch]" "bbw_block_writer b = sbw_try_new nf c"
    using bbw_write_blocks [OF _ w] by metis
  from b(1) have "sp_write env batch s = Some (Inr (s\<lparr>sp_output_data_writer := b\<rparr>))" by (simp add: sp_write_def)
  moreover have "sp_inv env nf c B (s\<lparr>sp_output_data_writer := b\<rparr>) (R @ batch)"
    using assms(1,2) b(2,3) spilled_snoc [OF old e assms(3)] unfolding sp_inv_def by auto
  ultimately show ?thesis using assms(2) by simp
qed

lemma sp_write_buffered_keeps:
  assumes inv: "sp_inv env nf c B s R"
  shows "\<exists>s'. sp_write_buffered env s = Some (Inr s') \<and> sp_inv env nf c B s' R \<and> sp_buffered_batches s' = [] \<and>
    sp_batch_size s' = sp_batch_size s"
proof (cases "sp_buffered_batches s = []")
  case True
  with inv show ?thesis by (simp add: sp_write_buffered_def concat_buffered_batches_def)
next
  case False
  let ?s = "s\<lparr>sp_buffered_batches := [], sp_num_buffered_rows := 0\<rparr>" and ?batch = "concat (sp_buffered_batches s)"
  from inv obtain old where old: "spilled env nf c (bbw_bytes (sp_output_data_writer s)) old" "old @ ?batch = R"
    unfolding sp_inv_def by blast
  have "concat_law env" using inv by (simp add: sp_inv_def env_ok_def)
  with False have "concat_buffered_batches env s = Some (Inr (Some ?batch, ?s))"
    by (auto simp: concat_buffered_batches_def concat_law_def split: list.split)
  then have w: "sp_write_buffered env s = sp_write env ?batch ?s" by (simp add: sp_write_buffered_def)
  have "sp_inv env nf c B ?s old" using inv old(1) by (simp add: sp_inv_def)
  moreover have "length ?batch \<le> B" using inv by (simp add: sp_inv_def)
  ultimately show ?thesis using sp_write_keeps [of env nf c B ?s old ?batch] w old(2) by simp
qed

lemma sp_add_keeps:
  assumes "sp_inv env nf c B s R" and "length batch + sp_num_buffered_rows s \<le> sp_batch_size s"
  shows "sp_inv env nf c B (add_buffered_batch batch s) (R @ batch)"
  using assms by (auto simp: sp_inv_def add_buffered_batch_def)

lemma sp_insert_keeps:
  assumes inv: "sp_inv env nf c B s R" and len: "length batch \<le> B"
  shows "\<exists>s'. sp_insert_batch env batch s = Some (Inr s') \<and> sp_inv env nf c B s' (R @ batch)"
proof -
  let ?k = "sp_batch_size s" and ?n = "length batch"
  consider "?n = 0" | "0 < ?n" "?n \<ge> ?k" | "0 < ?n" "?n < ?k" "?n + sp_num_buffered_rows s > ?k"
    | "0 < ?n" "?n < ?k" "?n + sp_num_buffered_rows s \<le> ?k" by linarith
  then show ?thesis
  proof cases
    case 1
    with inv show ?thesis by (simp add: sp_insert_batch_def)
  next
    case 2
    from sp_write_buffered_keeps [OF inv] obtain s1 where s1: "sp_write_buffered env s = Some (Inr s1)"
      "sp_inv env nf c B s1 R" "sp_buffered_batches s1 = []" "sp_batch_size s1 = ?k" by blast
    from sp_write_keeps [OF s1(2,3) len] obtain s2 where
      s2: "sp_write env batch s1 = Some (Inr s2)" "sp_inv env nf c B s2 (R @ batch)" by blast
    have "sp_insert_batch env batch s = Some (Inr s2)"
      unfolding sp_insert_batch_def Let_def s1(1) and_then_simps s1(4) s2(1) using 2 by simp
    with s2(2) show ?thesis by blast
  next
    case 3
    from sp_write_buffered_keeps [OF inv] obtain s1 where s1: "sp_write_buffered env s = Some (Inr s1)"
      "sp_inv env nf c B s1 R" "sp_buffered_batches s1 = []" "sp_batch_size s1 = ?k" by blast
    then have "sp_num_buffered_rows s1 = 0" by (simp add: sp_inv_def)
    with sp_add_keeps [OF s1(2), of batch] 3 s1(4) have "sp_inv env nf c B (add_buffered_batch batch s1) (R @ batch)" by simp
    moreover have "sp_insert_batch env batch s = Some (Inr (add_buffered_batch batch s1))"
      unfolding sp_insert_batch_def Let_def s1(1) and_then_simps s1(4) using 3 by simp
    ultimately show ?thesis by blast
  next
    case 4
    with sp_add_keeps [OF inv] show ?thesis by (simp add: sp_insert_batch_def)
  qed
qed

lemma sp_shuffle_write_delivers:
  assumes "sp_inv env nf c B s R" and "nf < 2 ^ 31"
  shows "\<exists>data index_bytes. sp_shuffle_write env s = Some (Inr (data, index_bytes)) \<and>
    delivers_partitions env nf c (\<lambda>_. 0) 1 R data index_bytes"
proof -
  from sp_write_buffered_keeps [OF assms(1)] obtain s1 where s1: "sp_write_buffered env s = Some (Inr s1)"
    "sp_inv env nf c B s1 R" "sp_buffered_batches s1 = []" by blast
  let ?data = "bbw_bytes (sp_output_data_writer s1)"
  from s1(2,3) have "spilled env nf c ?data R" by (auto simp: sp_inv_def)
  then have "delivers_partitions env nf c (\<lambda>_. 0) 1 R (concat [?data]) (index_file (starts_of 0 [?data]))"
    using assms(2) by (intro spilled_delivers) simp_all
  then show ?thesis by (simp add: sp_shuffle_write_def s1(1) Let_def)
qed

subsection \<open>The interface \<open>ShufflePartitioner\<close>\<close>

text \<open>The trait both writers implement. \<open>inv s R\<close>: the state stands for the rows \<open>R\<close> inserted so far.\<close>

locale shuffle_partitioner =
  fixes insert_batch :: "'r list \<Rightarrow> 's \<Rightarrow> 's res"
    and shuffle_write :: "'s \<Rightarrow> (u8 list \<times> u8 list) res"
    and inv :: "'s \<Rightarrow> 'r list \<Rightarrow> bool"
    and fits :: "'r list \<Rightarrow> bool"
    and room :: "'r list \<Rightarrow> bool"
    and written :: "'r list \<Rightarrow> u8 list \<Rightarrow> u8 list \<Rightarrow> bool"
  assumes insert_keeps: "inv s R \<Longrightarrow> fits batch \<Longrightarrow> room (R @ batch) \<Longrightarrow>
      \<exists>s'. insert_batch batch s = Some (Inr s') \<and> inv s' (R @ batch)"
    and write_delivers: "inv s R \<Longrightarrow> \<exists>data index_bytes. shuffle_write s = Some (Inr (data, index_bytes)) \<and> written R data index_bytes"
    and room_prefix: "room (xs @ ys) \<Longrightarrow> room xs"
begin

lemma insert_all_keeps:
  "inv s R \<Longrightarrow> list_all fits batches \<Longrightarrow> room (R @ concat batches) \<Longrightarrow>
     \<exists>s'. insert_all insert_batch (map Inr batches) s = Some (Inr s') \<and> inv s' (R @ concat batches)"
proof (induction batches arbitrary: s R)
  case (Cons b bs)
  have "room (R @ b)" using Cons.prems(3) room_prefix [of "R @ b" "concat bs"] by simp
  with insert_keeps [OF Cons.prems(1)] Cons.prems(2) obtain s1 where "insert_batch b s = Some (Inr s1)" "inv s1 (R @ b)" by auto
  with Cons.IH [of s1 "R @ b"] Cons.prems show ?case by simp
qed simp

lemma delivers_all:
  assumes "inv s []" and "list_all fits batches" and "room (concat batches)"
  shows "\<exists>data index_bytes. and_then (insert_all insert_batch (map Inr batches) s) shuffle_write = Some (Inr (data, index_bytes)) \<and>
    written (concat batches) data index_bytes"
  using insert_all_keeps [OF assms(1,2)] assms(3) write_delivers by fastforce

lemma input_error:
  assumes "inv s R" and "list_all fits batches" and "room (R @ concat batches)"
  shows "insert_all insert_batch (map Inr batches @ Inl e # rest) s = Some (Inl e)"
  using assms
proof (induction batches arbitrary: s R)
  case (Cons b bs)
  have "room (R @ b)" using Cons.prems(3) room_prefix [of "R @ b" "concat bs"] by simp
  with insert_keeps [OF Cons.prems(1)] Cons.prems(2) obtain s1 where "insert_batch b s = Some (Inr s1)" "inv s1 (R @ b)" by auto
  with Cons.IH [of s1 "R @ b"] Cons.prems show ?case by simp
qed simp

end

interpretation multi: shuffle_partitioner "mp_insert_batch env" "mp_shuffle_write env"
    "\<lambda>s R. nf < 2 ^ 31 \<and> mp_inv env nf c B pid n s R" "\<lambda>_. True" "\<lambda>R. length R < 2 ^ 32" "delivers_partitions env nf c pid n"
  for env :: "('r, 'm) shuffle_env" and nf c B pid n
  by unfold_locales (simp add: mp_insert_keeps, blast intro: mp_shuffle_write_delivers, simp)

interpretation single: shuffle_partitioner "sp_insert_batch env" "sp_shuffle_write env"
    "\<lambda>s R. nf < 2 ^ 31 \<and> sp_inv env nf c B s R" "\<lambda>batch. length batch \<le> B" "\<lambda>_. True" "delivers_partitions env nf c (\<lambda>_. 0) 1"
  for env :: "('r, 'm) shuffle_env" and nf c B
  by unfold_locales (simp add: sp_insert_keeps, blast intro: sp_shuffle_write_delivers, simp)

lemma sp_new_inv:
  assumes "env_ok env c B" and "k \<le> B"
  shows "sp_inv env nf c B (sp_try_new k nf c) []"
proof -
  have "spilled env nf c [] []" unfolding spilled_def by (intro exI [of _ "[]"]) simp
  with assms show ?thesis by (auto simp: sp_inv_def sp_try_new_def)
qed

lemma mp_new_inv:
  assumes "env_ok env c B" and "0 < k" and "k \<le> B" and "routes env part k pid" and "partition_count part \<noteq> 1"
  shows "\<exists>s. mp_try_new part k nf c m = Some s \<and> mp_inv env nf c B pid (partition_count part) s []"
proof -
  have "spilled env nf c [] []" unfolding spilled_def by (intro exI [of _ "[]"]) simp
  with assms show ?thesis
    by (cases part) (auto simp: mp_try_new_def ensure_def mp_inv_def mp_ok_def mp_holds_def pw_try_new_def pw_bytes_def
        scratch_ok_def positions_ok_def list_all_iff Let_def)
qed

text \<open>Either writer, as \<open>external_shuffle\<close> chooses it.\<close>

lemma external_shuffle_delivers:
  assumes env: "env_ok env c B" "nf < 2 ^ 31" and k: "0 < k" "k \<le> B"
    and part: "routes env part k pid" "0 < partition_count part"
    and input: "list_all (\<lambda>batch. length batch \<le> B) batches" "length (concat batches) < 2 ^ 32"
  shows "\<exists>data index_bytes. external_shuffle env (map Inr batches) nf part k c m = Some (Inr (data, index_bytes)) \<and>
    delivers_partitions env nf c pid (partition_count part) (concat batches) data index_bytes"
proof (cases "partition_count part = 1")
  case True
  then have pid: "pid = (\<lambda>_. 0)" using part(1) by (auto simp: routes_def)
  from single.delivers_all [of nf env c B "sp_try_new k nf c" batches] sp_new_inv [OF env(1) k(2)] env(2) input(1)
  show ?thesis using True by (simp add: external_shuffle_def pid)
next
  case False
  from mp_new_inv [OF env(1) k part(1) False, of nf m] obtain s where
    s: "mp_try_new part k nf c m = Some s" "mp_inv env nf c B pid (partition_count part) s []" by blast
  have "list_all (\<lambda>_. True) batches" by (simp add: list_all_iff)
  from multi.delivers_all [of nf env c B pid "partition_count part" s batches] s(2) this env(2) input(2)
  show ?thesis using False s(1) by (simp add: external_shuffle_def returns_def)
qed

subsection \<open>An instance\<close>

text \<open>Rows of one byte, encoded as themselves, hashed as 32-bit integers; a pool that never grants memory, so
  that every batch is spilled.\<close>

definition byte_env :: "(u8, unit) shuffle_env" where
  "byte_env = \<lparr>env_encode = (\<lambda>c rows. Some (Inr rows)), env_take = take_bytes,
     env_interleave = (\<lambda>batches indices. Inr (map (\<lambda>(i, j). batches ! i ! j) indices)),
     env_concat = (\<lambda>batches. Inr (concat batches)), env_growth = (\<lambda>input old new. length input),
     env_try_grow = (\<lambda>m n. None), env_free = id\<rparr>"

definition byte_exprs :: "u8 list \<Rightarrow> shuffle_error + column list" where
  "byte_exprs rows = Inr [Int32Array \<lparr>arr_values = map ucast rows, arr_validity = None\<rparr>]"

definition byte_key :: "u8 \<Rightarrow> u32" where
  "byte_key r = spark_compatible_murmur3_hash (le_bytes (ucast r :: u32)) 42"

lemma byte_env_ok: "env_ok byte_env c 1000"
  using take_bytes_law
  by (simp add: env_ok_def byte_env_def interleave_law_def concat_law_def encodes_def can_encode_def)

lemma byte_hash_law: "hash_law byte_exprs byte_key"
  unfolding hash_law_def
proof (intro allI impI)
  fix rows :: "u8 list"
  let ?col = "Int32Array \<lparr>arr_values = map ucast rows, arr_validity = None\<rparr>"
  have "row_hash spark_compatible_murmur3_hash [?col] i 42 = byte_key (rows ! i)" if "i < length rows" for i
    using that by (simp add: row_hash_def hash_cell_def arr_get_def byte_key_def)
  then show "\<exists>cols. byte_exprs rows = Inr cols \<and> cols \<noteq> [] \<and> list_all (col_wf (length rows)) cols \<and>
      (\<forall>i < length rows. row_hash spark_compatible_murmur3_hash cols i 42 = byte_key (rows ! i))"
    by (intro exI [of _ "[?col]"]) (simp add: byte_exprs_def arr_wf_def)
qed

subsection \<open>Properties\<close>

text \<open>
  C1. A hash shuffle loses, duplicates and reorders nothing. Whatever batches come in, however the memory pool
  makes the writer spill and however the rows are cut into blocks, \<open>external_shuffle\<close> succeeds with an index of
  \<open>n + 1\<close> entries, and the iterator that reads the bytes between entries \<open>p\<close> and \<open>p + 1\<close> gives exactly the input
  rows whose Murmur3 hash, seeded with 42, is \<open>p\<close> modulo \<open>n\<close>, in input order. One partition takes the other writer.
\<close>

theorem hash_shuffle_partitions:
  assumes "env_ok env c B" and "hash_law exprs key" and "0 < n" and "n < 2 ^ 31" and "0 < k" and "k \<le> B" and "nf < 2 ^ 31"
    and "list_all (\<lambda>batch. length batch \<le> B) batches" and "length (concat batches) < 2 ^ 32"
  shows "\<exists>data index_bytes.
    external_shuffle env (map Inr batches) nf (Hash exprs n :: ('r, 'k::linorder) comet_partitioning) k c m = Some (Inr (data, index_bytes)) \<and>
    delivers_partitions env nf c (hash_partition key n) n (concat batches) data index_bytes"
proof -
  have "routes env (Hash exprs n :: ('r, 'k) comet_partitioning) k (hash_partition key n)"
    using assms by (intro hash_routes) (simp_all add: env_ok_def)
  from external_shuffle_delivers [OF assms(1,7,5,6) this _ assms(8,9)] assms(3) show ?thesis by simp
qed

theorem hash_shuffle_partitions_witness:
  "\<exists>data index_bytes.
    external_shuffle byte_env (map Inr [[1, 2, 3], [], [4, 5]]) 1 (Hash byte_exprs 3 :: (u8, nat) comet_partitioning) 2 Lz4Frame () =
      Some (Inr (data, index_bytes)) \<and>
    delivers_partitions byte_env 1 Lz4Frame (hash_partition byte_key 3) 3 [1, 2, 3, 4, 5] data index_bytes \<and>
    codec_law 1 Lz4Frame (env_encode byte_env) (\<lambda>format body. Some (Inr (1, body)))"
  using hash_shuffle_partitions [OF byte_env_ok byte_hash_law, of 3 2 1 "[[1, 2, 3], [], [4, 5]]", where c = Lz4Frame and 'k = nat and m = "()"]
  by (simp add: codec_law_def byte_env_def)

text \<open>
  C11. A range shuffle sorts rows into partitions: with sorted bounds, fewer than there are partitions, partition
  \<open>p\<close> reads back as the rows with exactly \<open>p\<close> bounds not above their key, in input order, and the key of a row in
  an earlier partition is below that of a row in a later one.
\<close>

theorem range_shuffle_partitions:
  fixes key :: "'r \<Rightarrow> 'k::linorder"
  assumes "env_ok env c B" and "\<forall>rows. convert rows = Inr (map key rows)" and "sorted bounds" and "length bounds < n" and "n < 2 ^ 32"
    and "0 < k" and "k \<le> B" and "nf < 2 ^ 31"
    and "list_all (\<lambda>batch. length batch \<le> B) batches" and "length (concat batches) < 2 ^ 32"
  shows "(\<exists>data index_bytes.
      external_shuffle env (map Inr batches) nf (RangePartitioning convert n bounds) k c m = Some (Inr (data, index_bytes)) \<and>
      delivers_partitions env nf c (range_partition key bounds) n (concat batches) data index_bytes) \<and>
    (\<forall>r r'. range_partition key bounds r < range_partition key bounds r' \<longrightarrow> key r < key r')"
proof
  have "0 < partition_count (RangePartitioning convert n bounds)" using assms(4) by simp
  from external_shuffle_delivers [OF assms(1,8,6,7) range_routes [OF assms(2,3,4,5)] this assms(9,10)]
  show "\<exists>data index_bytes.
      external_shuffle env (map Inr batches) nf (RangePartitioning convert n bounds) k c m = Some (Inr (data, index_bytes)) \<and>
      delivers_partitions env nf c (range_partition key bounds) n (concat batches) data index_bytes" by simp
  have "range_partition key bounds r' \<le> range_partition key bounds r" if "key r' \<le> key r" for r r'
  proof -
    have "filter (\<lambda>b. b \<le> key r') bounds = filter (\<lambda>b. b \<le> key r') (filter (\<lambda>b. b \<le> key r) bounds)"
      using that by (auto intro!: filter_cong)
    then show ?thesis unfolding range_partition_def by (metis length_filter_le)
  qed
  then show "\<forall>r r'. range_partition key bounds r < range_partition key bounds r' \<longrightarrow> key r < key r'"
    by (meson leD leI)
qed

theorem range_shuffle_partitions_witness:
  "\<exists>data index_bytes.
    external_shuffle byte_env (map Inr [[1, 2, 3], [7, 5]]) 1 (RangePartitioning (\<lambda>rows. Inr (map unat rows)) 3 [2, 5]) 2 CodecNone () =
      Some (Inr (data, index_bytes)) \<and>
    delivers_partitions byte_env 1 CodecNone (range_partition unat [2, 5]) 3 [1, 2, 3, 7, 5] data index_bytes"
  using range_shuffle_partitions [OF byte_env_ok, of "\<lambda>rows. Inr (map unat rows)" unat "[2, 5]" 3 2 1 "[[1, 2, 3], [7, 5]]",
      where c = CodecNone and m = "()"] by simp



end
