(* ===== verification/Bit_Writer.thy ===== *)
theory Bit_Writer
  imports Bit_Reader_Spec
begin

text \<open>
  \<open>BitWriter\<close> of \<open>native/core/src/common/bit.rs\<close>. The contract mirrors that of the reader:
  \<open>bw_pos\<close> is the number of bits before the cursor, \<open>bw_bit\<close> the bits written, \<open>bw_inv\<close>
  the invariant, and \<open>bw_wrote\<close> says that a call appended bits and kept the earlier ones. The
  round trips with the reader close the theory.
\<close>

record bit_writer =
  bw_buffer :: "u8 list"
  bw_max_bytes :: nat
  bw_buffered_values :: u64
  bw_byte_offset :: nat
  bw_bit_offset :: nat
  bw_start :: nat

text \<open>A \<open>ParquetError::General\<close>: the format string and its arguments.\<close>

datatype parquet_error = General string "nat list"

subsection \<open>The methods\<close>

definition bw_new :: "nat \<Rightarrow> bit_writer" where
  "bw_new max_bytes = \<lparr>bw_buffer = replicate max_bytes 0, bw_max_bytes = max_bytes,
     bw_buffered_values = 0, bw_byte_offset = 0, bw_bit_offset = 0, bw_start = 0\<rparr>"

definition bw_new_from_buf :: "u8 list \<Rightarrow> nat \<Rightarrow> bit_writer option" where
  "bw_new_from_buf buffer start = do {
     ensure (start < length buffer);
     let len = length buffer;
     Some \<lparr>bw_buffer = buffer, bw_max_bytes = len, bw_buffered_values = 0,
       bw_byte_offset = start, bw_bit_offset = 0, bw_start = start\<rparr>
   }"

definition bw_extend :: "bit_writer \<Rightarrow> nat \<Rightarrow> bit_writer" where
  "bw_extend w increment =
     (let w = w\<lparr>bw_max_bytes := bw_max_bytes w + increment\<rparr>
      in w\<lparr>bw_buffer := bw_buffer w @ replicate increment 0\<rparr>)"

definition bw_capacity :: "bit_writer \<Rightarrow> nat" where
  "bw_capacity w = bw_max_bytes w"

definition bw_flush :: "bit_writer \<Rightarrow> bit_writer option" where
  "bw_flush w = do {
     let num_bytes = div_ceil (bw_bit_offset w) 8;
     ensure (bw_byte_offset w + num_bytes \<le> bw_max_bytes w);
     buffer \<leftarrow> memcpy_value_at (le_bytes (bw_buffered_values w)) num_bytes (bw_buffer w) (bw_byte_offset w);
     Some (w\<lparr>bw_buffer := buffer, bw_buffered_values := 0, bw_bit_offset := 0,
       bw_byte_offset := bw_byte_offset w + num_bytes\<rparr>)
   }"

definition bw_consume :: "bit_writer \<Rightarrow> u8 list option" where
  "bw_consume w = do {
     w \<leftarrow> bw_flush w;
     Some (take (bw_byte_offset w) (bw_buffer w))
   }"

definition bw_get_buffer :: "bit_writer \<Rightarrow> u8 list option" where
  "bw_get_buffer w = slice_from (bw_buffer w) (bw_start w)"

definition bw_flush_buffer :: "bit_writer \<Rightarrow> (u8 list \<times> bit_writer) option" where
  "bw_flush_buffer w = do {
     w \<leftarrow> bw_flush w;
     buf \<leftarrow> bw_get_buffer w;
     s \<leftarrow> slice_range buf 0 (bw_byte_offset w);
     Some (s, w)
   }"

definition bw_clear :: "bit_writer \<Rightarrow> bit_writer" where
  "bw_clear w = w\<lparr>bw_buffered_values := 0, bw_byte_offset := bw_start w, bw_bit_offset := 0\<rparr>"

definition bw_skip :: "bit_writer \<Rightarrow> nat \<Rightarrow> ((parquet_error + nat) \<times> bit_writer) option" where
  "bw_skip w num_bytes = do {
     w \<leftarrow> bw_flush w;
     ensure (bw_byte_offset w \<le> bw_max_bytes w);
     if bw_byte_offset w + num_bytes > bw_max_bytes w
     then Some (Inl (General ''Not enough bytes left in BitWriter. Need {} but only have {}''
                      [bw_byte_offset w + num_bytes, bw_max_bytes w]), w)
     else do {
       let result = bw_byte_offset w;
       Some (Inr result, w\<lparr>bw_byte_offset := bw_byte_offset w + num_bytes\<rparr>)
     }
   }"

text \<open>The slice that \<open>get_next_byte_ptr\<close> lends is the range of the buffer it stands for.\<close>

definition get_next_byte_ptr ::
  "bit_writer \<Rightarrow> nat \<Rightarrow> ((parquet_error + nat \<times> nat) \<times> bit_writer) option" where
  "get_next_byte_ptr w num_bytes = do {
     (res, w) \<leftarrow> bw_skip w num_bytes;
     (case res of
        Inl e \<Rightarrow> Some (Inl e, w)
      | Inr offset \<Rightarrow> do {
          s \<leftarrow> slice_range (bw_buffer w) offset (offset + num_bytes);
          Some (Inr (offset, offset + num_bytes), w)
        })
   }"

definition bytes_written :: "bit_writer \<Rightarrow> nat option" where
  "bytes_written w = do {
     n \<leftarrow> usub (bw_byte_offset w) (bw_start w);
     Some (n + div_ceil (bw_bit_offset w) 8)
   }"

definition bw_buffer_len :: "bit_writer \<Rightarrow> nat" where
  "bw_buffer_len w = bw_max_bytes w"

definition write_at :: "bit_writer \<Rightarrow> nat \<Rightarrow> u8 \<Rightarrow> bit_writer option" where
  "write_at w offset v = do {
     buffer \<leftarrow> update (bw_buffer w) offset v;
     Some (w\<lparr>bw_buffer := buffer\<rparr>)
   }"

text \<open>\<open>u64::checked_shr(..).unwrap_or(0)\<close>.\<close>

definition checked_shr_or_0 :: "u64 \<Rightarrow> nat \<Rightarrow> u64" where
  "checked_shr_or_0 v n = (case checked_shr v n of Some x \<Rightarrow> x | None \<Rightarrow> 0)"

definition put_value :: "bit_writer \<Rightarrow> u64 \<Rightarrow> nat \<Rightarrow> (bool \<times> bit_writer) option" where
  "put_value w v num_bits = do {
     ensure (num_bits \<le> 64);
     ensure (checked_shr_or_0 v num_bits = 0);
     let num_bytes = bw_byte_offset w * 8 + bw_bit_offset w + num_bits;
     if num_bytes > bw_max_bytes w * 8 then Some (False, w)
     else do {
       d \<leftarrow> checked_shl v (bw_bit_offset w);
       let w = w\<lparr>bw_buffered_values := bw_buffered_values w OR d\<rparr>;
       let w = w\<lparr>bw_bit_offset := bw_bit_offset w + num_bits\<rparr>;
       w \<leftarrow> (if bw_bit_offset w \<ge> 64 then do {
              buffer \<leftarrow> memcpy_value_at (le_bytes (bw_buffered_values w)) 8 (bw_buffer w) (bw_byte_offset w);
              let w = w\<lparr>bw_buffer := buffer\<rparr>;
              let w = w\<lparr>bw_byte_offset := bw_byte_offset w + 8, bw_bit_offset := bw_bit_offset w - 64,
                bw_buffered_values := 0\<rparr>;
              sh \<leftarrow> usub num_bits (bw_bit_offset w);
              Some (w\<lparr>bw_buffered_values := checked_shr_or_0 v sh\<rparr>)
            } else Some w);
       ensure (bw_bit_offset w < 64);
       Some (True, w)
     }
   }"

text \<open>\<open>put_aligned\<close> and \<open>put_aligned_offset\<close> write \<open>val.as_bytes()\<close> through a slice of the buffer.\<close>

definition put_aligned :: "bit_writer \<Rightarrow> 'a::len word \<Rightarrow> nat \<Rightarrow> (bool \<times> bit_writer) option" where
  "put_aligned w val num_bytes = do {
     (result, w) \<leftarrow> get_next_byte_ptr w num_bytes;
     (case result of
        Inl _ \<Rightarrow> Some (False, w)
      | Inr (i, j) \<Rightarrow> do {
          ptr \<leftarrow> slice_range (bw_buffer w) i j;
          written \<leftarrow> memcpy_value (le_bytes val) num_bytes ptr;
          Some (True, w\<lparr>bw_buffer := take i (bw_buffer w) @ written @ drop j (bw_buffer w)\<rparr>)
        })
   }"

definition put_aligned_offset ::
  "bit_writer \<Rightarrow> 'a::len word \<Rightarrow> nat \<Rightarrow> nat \<Rightarrow> (bool \<times> bit_writer) option" where
  "put_aligned_offset w val num_bytes offset =
     (if num_bytes + offset > bw_max_bytes w then Some (False, w)
      else do {
        ptr \<leftarrow> slice_range (bw_buffer w) offset (offset + num_bytes);
        written \<leftarrow> memcpy_value (le_bytes val) num_bytes ptr;
        Some (True, w\<lparr>bw_buffer := take offset (bw_buffer w) @ written @
          drop (offset + num_bytes) (bw_buffer w)\<rparr>)
      })"

function put_vlq_loop :: "bit_writer \<Rightarrow> u64 \<Rightarrow> bool \<Rightarrow> (bool \<times> bit_writer) option" where
  "put_vlq_loop w v result =
     (if v AND 0xFFFFFFFFFFFFFF80 \<noteq> 0 then do {
        (ok, w) \<leftarrow> put_aligned w (ucast ((v AND 0x7F) OR 0x80) :: u8) 1;
        put_vlq_loop w (shr v 7) (result \<and> ok)
      } else do {
        (ok, w) \<leftarrow> put_aligned w (ucast (v AND 0x7F) :: u8) 1;
        Some (result \<and> ok, w)
      })"
  by pat_completeness auto
termination
proof (relation "measure (\<lambda>(w, v, result). unat v)")
  fix v :: u64 and w w' :: bit_writer and result ok :: bool and x y
  assume "v AND 0xFFFFFFFFFFFFFF80 \<noteq> 0"
  then have "0 < unat v" by (auto simp: unat_gt_0)
  then show "((w', shr v 7, result \<and> ok), w, v, result) \<in> measure (\<lambda>(w, v, result). unat v)"
    by (simp add: unat_shr)
qed simp

declare put_vlq_loop.simps [simp del]

definition put_vlq_int :: "bit_writer \<Rightarrow> u64 \<Rightarrow> (bool \<times> bit_writer) option" where
  "put_vlq_int w v = put_vlq_loop w v True"

text \<open>An \<open>i64\<close> as its 64-bit pattern; \<open>v >> 63\<close> is the arithmetic shift.\<close>

definition put_zigzag_vlq_int :: "bit_writer \<Rightarrow> u64 \<Rightarrow> (bool \<times> bit_writer) option" where
  "put_zigzag_vlq_int w v =
     (let u = shl v 1 XOR signed_drop_bit 63 v in put_vlq_int w u)"

subsection \<open>The contract\<close>

definition bw_pos :: "bit_writer \<Rightarrow> nat" where
  "bw_pos w = 8 * bw_byte_offset w + bw_bit_offset w"

definition bw_bit :: "bit_writer \<Rightarrow> nat \<Rightarrow> bool" where
  "bw_bit w k \<longleftrightarrow> (if k < 8 * bw_byte_offset w then byte_bit (bw_buffer w) k
     else bit (bw_buffered_values w) (k - 8 * bw_byte_offset w))"

definition bw_inv :: "bit_writer \<Rightarrow> bool" where
  "bw_inv w \<longleftrightarrow> length (bw_buffer w) = bw_max_bytes w \<and> bw_bit_offset w < 64 \<and>
     bw_pos w \<le> 8 * bw_max_bytes w \<and> bw_start w \<le> bw_byte_offset w \<and>
     take_bit (bw_bit_offset w) (bw_buffered_values w) = bw_buffered_values w"

definition bw_wrote :: "bit_writer \<Rightarrow> nat \<Rightarrow> (nat \<Rightarrow> bool) \<Rightarrow> bit_writer \<Rightarrow> bool" where
  "bw_wrote w n f w' \<longleftrightarrow> bw_inv w' \<and> bw_pos w' = bw_pos w + n \<and>
     (\<forall>k. k < bw_pos w \<longrightarrow> bw_bit w' k = bw_bit w k) \<and> (\<forall>k<n. bw_bit w' (bw_pos w + k) = f k) \<and>
     bw_max_bytes w' = bw_max_bytes w \<and> bw_start w' = bw_start w"

lemmas bw_defs = bw_pos_def bw_inv_def

lemma bw_wroteD:
  assumes "bw_wrote w n f w'"
  shows "bw_inv w'" and "bw_pos w' = bw_pos w + n" and "\<And>k. k < bw_pos w \<Longrightarrow> bw_bit w' k = bw_bit w k"
    and "\<And>k. k < n \<Longrightarrow> bw_bit w' (bw_pos w + k) = f k" and "bw_max_bytes w' = bw_max_bytes w"
    and "bw_start w' = bw_start w"
  using assms by (auto simp: bw_wrote_def)

lemma bw_wrote_refl: "bw_inv w \<Longrightarrow> bw_wrote w 0 f w"
  by (simp add: bw_wrote_def)

lemma bw_wrote_trans:
  assumes "bw_wrote w m f w'" and "bw_wrote w' n g w''"
    and "\<And>k. k < m \<Longrightarrow> h k = f k" and "\<And>k. k < n \<Longrightarrow> h (m + k) = g k"
  shows "bw_wrote w (m + n) h w''"
proof -
  note a = bw_wroteD [OF assms(1)] and b = bw_wroteD [OF assms(2)]
  have "bw_bit w'' (bw_pos w + k) = h k" if k: "k < m + n" for k
  proof (cases "k < m")
    case True
    then show ?thesis using a(2,4) b(3) assms(3) by simp
  next
    case False
    then obtain j where j: "k = m + j" by (metis le_Suc_ex not_less)
    with k b(4) [of j] assms(4) [of j] a(2) show ?thesis by (simp add: add.assoc)
  qed
  then show ?thesis using a b by (simp add: bw_wrote_def)
qed

lemma bw_new_spec: "bw_inv (bw_new n)" "bw_pos (bw_new n) = 0"
  by (simp_all add: bw_new_def bw_defs)

lemma bw_new_from_buf_spec:
  assumes "start < length buf"
  obtains w where "bw_new_from_buf buf start = Some w" and "bw_inv w" and "bw_pos w = 8 * start"
    and "bw_max_bytes w = length buf" and "\<And>k. k < 8 * start \<Longrightarrow> bw_bit w k = byte_bit buf k"
  using assms that by (auto simp: bw_new_from_buf_def bw_defs bw_bit_def)

lemma bw_extend_spec:
  assumes "bw_inv w"
  shows "bw_inv (bw_extend w n)" and "bw_pos (bw_extend w n) = bw_pos w"
    and "k < bw_pos w \<Longrightarrow> bw_bit (bw_extend w n) k = bw_bit w k"
    and "bw_max_bytes (bw_extend w n) = bw_max_bytes w + n"
  using assms by (auto simp: bw_extend_def bw_defs bw_bit_def byte_bit_append)

lemma bw_clear_spec: "bw_inv w \<Longrightarrow> bw_inv (bw_clear w) \<and> bw_pos (bw_clear w) = 8 * bw_start w"
  by (auto simp: bw_clear_def bw_defs)

lemma bw_high_bits:
  assumes "bw_inv w" and "bw_bit_offset w \<le> k"
  shows "\<not> bit (bw_buffered_values w) k"
proof -
  have "take_bit (bw_bit_offset w) (bw_buffered_values w) = bw_buffered_values w"
    using assms(1) by (simp add: bw_inv_def)
  then have "bit (bw_buffered_values w) k = bit (take_bit (bw_bit_offset w) (bw_buffered_values w)) k"
    by simp
  with assms(2) show ?thesis by (simp add: bit_take_bit_iff)
qed

lemma byte_bit_put_word:
  assumes "n \<le> 8" and "o1 + n \<le> length buf"
  shows "byte_bit (take o1 buf @ take n (le_bytes (v :: u64)) @ drop (o1 + n) buf) k \<longleftrightarrow>
    (if 8 * o1 \<le> k \<and> k < 8 * (o1 + n) then bit v (k - 8 * o1) else byte_bit buf k)"
proof -
  have len: "length (take n (le_bytes v)) = n" using assms(1) by simp
  from byte_bit_splice [of o1 "take n (le_bytes v)" buf k, unfolded len, OF assms(2)] show ?thesis
    by (auto simp: byte_bit_take byte_bit_le_bytes)
qed

lemma bw_flush_spec:
  assumes inv: "bw_inv w"
  obtains w' where "bw_flush w = Some w'"
    and "bw_wrote w (8 * div_ceil (bw_pos w) 8 - bw_pos w) (\<lambda>_. False) w'"
    and "bw_bit_offset w' = 0" and "bw_byte_offset w' = div_ceil (bw_pos w) 8"
proof -
  let ?o = "bw_byte_offset w" and ?c = "div_ceil (bw_bit_offset w) 8"
  let ?buf = "take ?o (bw_buffer w) @ take ?c (le_bytes (bw_buffered_values w)) @ drop (?o + ?c) (bw_buffer w)"
  define w' where "w' = w\<lparr>bw_buffer := ?buf, bw_buffered_values := 0, bw_bit_offset := 0,
    bw_byte_offset := ?o + ?c\<rparr>"
  have c: "bw_bit_offset w \<le> 8 * ?c" "?c \<le> 8" and o: "?o + ?c \<le> bw_max_bytes w"
    and len: "length (bw_buffer w) = bw_max_bytes w" and pos: "div_ceil (bw_pos w) 8 = ?o + ?c"
    using inv by (auto simp: bw_defs div_ceil_8 add.assoc)
  have bits: "byte_bit ?buf k \<longleftrightarrow>
    (if 8 * ?o \<le> k \<and> k < 8 * (?o + ?c) then bit (bw_buffered_values w) (k - 8 * ?o)
     else byte_bit (bw_buffer w) k)" for k
    using byte_bit_put_word [OF c(2), of ?o "bw_buffer w"] o len by simp
  have "bw_flush w = Some w'"
    using o len c by (simp add: bw_flush_def Let_def memcpy_value_at_eq w'_def)
  moreover have "bw_bit w' k = bw_bit w k" if "k < bw_pos w" for k
    using that c by (auto simp: bw_bit_def w'_def bits bw_pos_def)
  moreover have "\<not> bw_bit w' (bw_pos w + k)" for k
    using bw_high_bits [OF inv, of "bw_bit_offset w + k"] by (auto simp: bw_bit_def w'_def bits bw_pos_def)
  moreover have "bw_inv w'" using inv o len c by (simp add: bw_defs w'_def)
  moreover have "bw_pos w' = 8 * (?o + ?c)" and "bw_pos w \<le> 8 * (?o + ?c)"
    using c by (simp_all add: w'_def bw_pos_def)
  ultimately show ?thesis
    by (intro that [of w']) (simp_all add: pos bw_wrote_def, simp_all add: w'_def)
qed

lemma checked_shr_or_0_bit: "n \<le> 64 \<Longrightarrow> bit (checked_shr_or_0 v n) k \<longleftrightarrow> bit v (n + k)"
  by (auto simp: checked_shr_or_0_def checked_shr_def bit_shr dest: bit_imp_le_length)

lemma checked_shr_or_0_eq_0:
  assumes "n \<le> 64" and "take_bit n v = v"
  shows "checked_shr_or_0 v n = 0"
proof (rule bit_word_eqI)
  fix k
  have "bit v (n + k) = bit (take_bit n v) (n + k)" using assms(2) by simp
  then show "bit (checked_shr_or_0 v n) k = bit 0 k"
    using assms(1) by (simp add: checked_shr_or_0_bit bit_take_bit_iff)
qed

lemma take_bit_idI: "(\<And>k. n \<le> k \<Longrightarrow> \<not> bit v k) \<Longrightarrow> take_bit n (v :: 'a::len word) = v"
  by (rule bit_word_eqI) (auto simp: bit_take_bit_iff not_less [symmetric])

lemma put_value_spec:
  assumes inv: "bw_inv w" and n: "n \<le> 64" and v: "take_bit n v = v" and room: "bw_pos w + n \<le> 8 * bw_max_bytes w"
  obtains w' where "put_value w v n = Some (True, w')" and "bw_wrote w n (bit v) w'"
proof -
  let ?o = "bw_byte_offset w" and ?b = "bw_bit_offset w"
  let ?d = "bw_buffered_values w OR shl v ?b"
  have b: "?b < 64" and len: "length (bw_buffer w) = bw_max_bytes w" using inv by (auto simp: bw_inv_def)
  have guard: "\<not> bw_max_bytes w * 8 < ?o * 8 + ?b + n" using room by (simp add: bw_pos_def mult.commute)
  note pre = n checked_shr_or_0_eq_0 [OF n v] guard checked_shl_Some [of ?b v] b
  have hv: "\<not> bit v k" if "n \<le> k" for k
    using that v by (metis bit_take_bit_iff not_less)
  have hb: "\<not> bit (bw_buffered_values w) k" if "?b \<le> k" for k using bw_high_bits [OF inv that] .
  have d: "bit ?d k \<longleftrightarrow> (if k < ?b then bit (bw_buffered_values w) k else k < 64 \<and> bit v (k - ?b))" for k
    using hb [of k] by (auto simp: bit_simps)
  show ?thesis
  proof (cases "?b + n < 64")
    case True
    define w' where "w' = w\<lparr>bw_buffered_values := ?d, bw_bit_offset := ?b + n\<rparr>"
    have "put_value w v n = Some (True, w')"
      using pre True by (simp add: put_value_def Let_def w'_def)
    moreover have "take_bit (?b + n) ?d = ?d"
      by (rule take_bit_idI) (simp add: d hv)
    then have "bw_inv w'" using inv room True by (simp add: bw_defs w'_def)
    moreover have "bw_bit w' k = bw_bit w k" if "k < bw_pos w" for k
      using that by (auto simp: bw_bit_def w'_def d bw_pos_def)
    moreover have "bw_bit w' (bw_pos w + k) = bit v k" if "k < n" for k
      using that True by (simp add: bw_bit_def w'_def d bw_pos_def)
    ultimately show ?thesis
      by (intro that [of w']) (simp_all add: bw_wrote_def, simp_all add: w'_def bw_pos_def)
  next
    case False
    define buf where "buf = take ?o (bw_buffer w) @ take 8 (le_bytes ?d) @ drop (?o + 8) (bw_buffer w)"
    let ?r = "checked_shr_or_0 v (64 - ?b)"
    define w' where "w' = w\<lparr>bw_buffer := buf, bw_byte_offset := ?o + 8, bw_bit_offset := ?b + n - 64,
      bw_buffered_values := ?r\<rparr>"
    have o: "?o + 8 \<le> length (bw_buffer w)" using False room len by (simp add: bw_pos_def)
    have bits: "byte_bit buf k \<longleftrightarrow>
        (if 8 * ?o \<le> k \<and> k < 8 * (?o + 8) then bit ?d (k - 8 * ?o) else byte_bit (bw_buffer w) k)" for k
      unfolding buf_def by (rule byte_bit_put_word) (use o in simp_all)
    have r: "bit ?r k \<longleftrightarrow> bit v (64 - ?b + k)" for k
      by (rule checked_shr_or_0_bit) simp
    have sh: "usub n (?b + n - 64) = Some (64 - ?b)" using False b n by (simp add: usub_def)
    have "put_value w v n = Some (True, w')"
      using pre False o sh
      by (simp add: put_value_def Let_def w'_def memcpy_value_at_eq buf_def)
    moreover have "take_bit (?b + n - 64) ?r = ?r"
      using False b by (intro take_bit_idI) (auto simp: r intro!: hv)
    then have "bw_inv w'" using inv room False b n o by (simp add: bw_defs w'_def buf_def)
    moreover have "bw_bit w' k = bw_bit w k" if "k < bw_pos w" for k
      using that b by (auto simp: bw_bit_def w'_def bits d bw_pos_def)
    moreover have "bw_bit w' (bw_pos w + k) = bit v k" if "k < n" for k
    proof (cases "?b + k < 64")
      case True
      then show ?thesis by (simp add: bw_bit_def w'_def bits d bw_pos_def)
    next
      case False
      then have "64 - ?b + (?b + k - 64) = k" using b by simp
      with False show ?thesis by (simp add: bw_bit_def w'_def r bw_pos_def)
    qed
    moreover have "bw_pos w' = bw_pos w + n" using False by (simp add: w'_def bw_pos_def)
    ultimately show ?thesis
      by (intro that [of w']) (simp_all add: bw_wrote_def, simp_all add: w'_def)
  qed
qed

lemma put_value_full:
  assumes "n \<le> 64" and "take_bit n v = v" and "8 * bw_max_bytes w < bw_pos w + n"
  shows "put_value w v n = Some (False, w)"
  using assms by (simp add: put_value_def checked_shr_or_0_eq_0 bw_pos_def mult.commute)

subsection \<open>Byte-aligned writes\<close>

definition bw_aligned :: "bit_writer \<Rightarrow> nat" where
  "bw_aligned w = 8 * div_ceil (bw_pos w) 8"

lemma bw_pos_le_aligned: "bw_pos w \<le> bw_aligned w"
  by (simp add: bw_aligned_def div_ceil_mult_ge)

text \<open>The padding of a flush and the bytes after it: the bits that \<open>put_aligned\<close> appends.\<close>

definition padded :: "nat \<Rightarrow> (nat \<Rightarrow> bool) \<Rightarrow> nat \<Rightarrow> bool" where
  "padded pad f k \<longleftrightarrow> pad \<le> k \<and> f (k - pad)"

lemma bw_skip_spec:
  assumes inv: "bw_inv w" and room: "bw_aligned w + 8 * n \<le> 8 * bw_max_bytes w"
  obtains w1 where "bw_flush w = Some w1" and "bw_wrote w (bw_aligned w - bw_pos w) (\<lambda>_. False) w1"
    and "bw_bit_offset w1 = 0" and "8 * bw_byte_offset w1 = bw_aligned w"
    and "bw_skip w n = Some (Inr (bw_byte_offset w1), w1\<lparr>bw_byte_offset := bw_byte_offset w1 + n\<rparr>)"
proof -
  obtain w1 where f: "bw_flush w = Some w1"
    and wr: "bw_wrote w (bw_aligned w - bw_pos w) (\<lambda>_. False) w1"
    and b: "bw_bit_offset w1 = 0" and o: "8 * bw_byte_offset w1 = bw_aligned w"
    using bw_flush_spec [OF inv] by (auto simp: bw_aligned_def)
  moreover have "\<not> bw_byte_offset w1 + n > bw_max_bytes w1"
    using room o bw_wroteD(5) [OF wr] by linarith
  ultimately show ?thesis using that by (simp add: bw_skip_def Let_def)
qed

lemma bw_skip_full:
  assumes inv: "bw_inv w" and room: "8 * bw_max_bytes w < bw_aligned w + 8 * n"
  obtains w' where "bw_skip w n = Some (Inl (General ''Not enough bytes left in BitWriter. Need {} but only have {}''
      [bw_aligned w div 8 + n, bw_max_bytes w]), w')"
    and "bw_wrote w (bw_aligned w - bw_pos w) (\<lambda>_. False) w'"
proof -
  obtain w1 where f: "bw_flush w = Some w1"
    and wr: "bw_wrote w (bw_aligned w - bw_pos w) (\<lambda>_. False) w1"
    and b: "bw_bit_offset w1 = 0" and o: "bw_byte_offset w1 = bw_aligned w div 8"
    using bw_flush_spec [OF inv] by (auto simp: bw_aligned_def)
  have al: "8 * (bw_aligned w div 8) = bw_aligned w" by (simp add: bw_aligned_def)
  have "bw_byte_offset w1 \<le> bw_max_bytes w1"
    using bw_wroteD(1) [OF wr] by (simp add: bw_defs)
  moreover have "bw_byte_offset w1 + n > bw_max_bytes w1"
    using room o al bw_wroteD(5) [OF wr] by linarith
  ultimately show ?thesis using that f wr o bw_wroteD(5) [OF wr] by (simp add: bw_skip_def)
qed

lemma put_aligned_spec:
  fixes v :: "'a::len word"
  assumes inv: "bw_inv w" and a: "8 dvd LENGTH('a)" and n: "8 * n \<le> LENGTH('a)"
    and room: "bw_aligned w + 8 * n \<le> 8 * bw_max_bytes w"
  obtains w' where "put_aligned w v n = Some (True, w')"
    and "bw_wrote w (bw_aligned w - bw_pos w + 8 * n) (padded (bw_aligned w - bw_pos w) (bit v)) w'"
    and "bw_bit_offset w' = 0"
proof -
  obtain w1 where wr: "bw_wrote w (bw_aligned w - bw_pos w) (\<lambda>_. False) w1"
    and b: "bw_bit_offset w1 = 0" and o: "8 * bw_byte_offset w1 = bw_aligned w"
    and sk: "bw_skip w n = Some (Inr (bw_byte_offset w1), w1\<lparr>bw_byte_offset := bw_byte_offset w1 + n\<rparr>)"
    using bw_skip_spec [OF inv room] by metis
  let ?o = "bw_byte_offset w1"
  note w1 = bw_wroteD [OF wr]
  have len: "length (bw_buffer w1) = bw_max_bytes w1" using w1(1) by (simp add: bw_inv_def)
  have fit: "?o + n \<le> bw_max_bytes w1" using room o w1(5) by linarith
  have ln: "length (take n (le_bytes v)) = n" using n a by auto
  define buf where "buf = take ?o (bw_buffer w1) @ take n (le_bytes v) @ drop (?o + n) (bw_buffer w1)"
  define w' where "w' = w1\<lparr>bw_byte_offset := ?o + n, bw_buffer := buf\<rparr>"
  have bits: "byte_bit buf k \<longleftrightarrow>
      (if 8 * ?o \<le> k \<and> k < 8 * (?o + n) then bit v (k - 8 * ?o) else byte_bit (bw_buffer w1) k)" for k
    using byte_bit_splice [of ?o "take n (le_bytes v)" "bw_buffer w1" k, unfolded ln] fit len a
    unfolding buf_def by (auto simp: byte_bit_take byte_bit_le_bytes)
  have "put_aligned w v n = Some (True, w')"
    using sk fit len ln
    by (simp add: put_aligned_def get_next_byte_ptr_def slice_range_Some memcpy_value_def memcpy_def w'_def buf_def)
  moreover have zero: "take_bit 0 (bw_buffered_values w1) = bw_buffered_values w1"
    using w1(1) b by (simp add: bw_inv_def)
  have "bw_wrote w1 (8 * n) (bit v) w'"
    unfolding bw_wrote_def
  proof (intro conjI allI impI)
    show "bw_inv w'" using w1(1) fit len ln b zero by (simp add: bw_defs w'_def buf_def)
    show "bw_bit w' k = bw_bit w1 k" if "k < bw_pos w1" for k
      using that b by (auto simp: bw_bit_def w'_def bits bw_pos_def)
    show "bw_bit w' (bw_pos w1 + k) = bit v k" if "k < 8 * n" for k
      using that b by (auto simp: bw_bit_def w'_def bits bw_pos_def)
  qed (simp_all add: w'_def bw_pos_def)
  then have "bw_wrote w (bw_aligned w - bw_pos w + 8 * n) (padded (bw_aligned w - bw_pos w) (bit v)) w'"
    by (rule bw_wrote_trans [OF wr]) (auto simp: padded_def)
  moreover have "bw_bit_offset w' = 0" using b by (simp add: w'_def)
  ultimately show ?thesis by (rule that)
qed

lemma put_aligned_full:
  assumes inv: "bw_inv w" and room: "8 * bw_max_bytes w < bw_aligned w + 8 * n"
  obtains w' where "put_aligned w v n = Some (False, w')"
    and "bw_wrote w (bw_aligned w - bw_pos w) (\<lambda>_. False) w'"
proof -
  from bw_skip_full [OF assms] obtain w' e where "bw_skip w n = Some (Inl e, w')"
    and "bw_wrote w (bw_aligned w - bw_pos w) (\<lambda>_. False) w'" by metis
  then show ?thesis using that by (simp add: put_aligned_def get_next_byte_ptr_def)
qed

subsection \<open>Variable-length integers\<close>

lemma bw_aligned_after:
  assumes "bw_bit_offset w = 0"
  shows "bw_aligned w = bw_pos w"
  using assms by (simp add: bw_aligned_def bw_pos_def div_ceil_8)

lemma byte_bit_Cons_shift: "byte_bit (b # bs) (8 + k) = byte_bit bs k"
  by (simp add: byte_bit_Cons)

lemma put_vlq_loop_spec:
  assumes "bw_inv w" and "bw_aligned w + 8 * length (vlq_bytes v) \<le> 8 * bw_max_bytes w"
  shows "\<exists>w'. put_vlq_loop w v ok = Some (ok, w') \<and> bw_bit_offset w' = 0 \<and>
    bw_wrote w (bw_aligned w - bw_pos w + 8 * length (vlq_bytes v))
      (padded (bw_aligned w - bw_pos w) (byte_bit (vlq_bytes v))) w'"
  using assms
proof (induction v arbitrary: w ok rule: vlq_bytes.induct)
  case (1 v)
  let ?pad = "bw_aligned w - bw_pos w"
  have "1 \<le> length (vlq_bytes v)" using vlq_bytes_nonempty [of v] by (cases "vlq_bytes v") auto
  then have room: "bw_aligned w + 8 * 1 \<le> 8 * bw_max_bytes w" using "1.prems"(2) by linarith
  have put: "\<exists>w'. put_aligned w b 1 = Some (True, w') \<and> bw_bit_offset w' = 0 \<and>
      bw_wrote w (?pad + 8) (padded ?pad (bit b)) w'" for b :: u8
    by (rule put_aligned_spec [OF "1.prems"(1) _ _ room, of b]) auto
  show ?case
  proof (cases "v AND 0xFFFFFFFFFFFFFF80 = 0")
    case True
    have "byte_bit [b] = bit b" for b :: u8
      by (rule ext) (auto simp: byte_bit_Cons byte_bit_def [of "[]"] dest: bit_imp_le_length)
    with True put [of "ucast (v AND 0x7F)"] show ?thesis
      by (auto simp: put_vlq_loop.simps [of w] vlq_bytes.simps [of v])
  next
    case False
    let ?b = "ucast ((v AND 0x7F) OR 0x80) :: u8" and ?w = "shr v 7"
    have bytes: "vlq_bytes v = ?b # vlq_bytes ?w"
      using False by (simp add: vlq_bytes.simps [of v])
    obtain w1 where p1: "put_aligned w ?b 1 = Some (True, w1)" and b1: "bw_bit_offset w1 = 0"
      and wr: "bw_wrote w (?pad + 8) (padded ?pad (bit ?b)) w1" using put by blast
    note d1 = bw_wroteD [OF wr] and al = bw_aligned_after [OF b1]
    have pos1: "bw_pos w1 = bw_aligned w + 8" using d1(2) bw_pos_le_aligned [of w] by simp
    have "bw_aligned w1 + 8 * length (vlq_bytes ?w) \<le> 8 * bw_max_bytes w1"
      using "1.prems"(2) bytes by (simp add: al pos1 d1(5))
    from "1.IH" [OF False d1(1) this, of ok] obtain w' where
      p2: "put_vlq_loop w1 ?w ok = Some (ok, w')" and b2: "bw_bit_offset w' = 0"
      and wr2: "bw_wrote w1 (8 * length (vlq_bytes ?w)) (padded 0 (byte_bit (vlq_bytes ?w))) w'"
      by (auto simp: al)
    have "bw_wrote w (?pad + 8 + 8 * length (vlq_bytes ?w)) (padded ?pad (byte_bit (vlq_bytes v))) w'"
      by (rule bw_wrote_trans [OF wr wr2])
        (auto simp: padded_def bytes byte_bit_Cons byte_bit_Cons_shift add.assoc)
    with p1 p2 b2 False show ?thesis
      by (auto simp: put_vlq_loop.simps [of w] bytes add.assoc)
  qed
qed

lemma put_vlq_int_spec:
  assumes "bw_inv w" and "bw_aligned w + 8 * length (vlq_bytes v) \<le> 8 * bw_max_bytes w"
  obtains w' where "put_vlq_int w v = Some (True, w')" and "bw_bit_offset w' = 0"
    and "bw_wrote w (bw_aligned w - bw_pos w + 8 * length (vlq_bytes v))
      (padded (bw_aligned w - bw_pos w) (byte_bit (vlq_bytes v))) w'"
  using put_vlq_loop_spec [OF assms, of True] that by (auto simp: put_vlq_int_def)

subsection \<open>Zigzag\<close>

definition zigzag :: "u64 \<Rightarrow> u64" where
  "zigzag v = shl v 1 XOR signed_drop_bit 63 v"

definition unzigzag :: "u64 \<Rightarrow> u64" where
  "unzigzag u = shr u 1 XOR - (u AND 1)"

lemma bit_minus_and_1: "bit (- (u AND 1) :: u64) k \<longleftrightarrow> k < 64 \<and> bit u 0"
proof (cases "bit u 0")
  case True
  then have "u AND 1 = 1" by (simp add: and_one_eq mod_2_eq_odd bit_0)
  with True show ?thesis by (simp add: bit_minus_1_iff possible_bit_word)
next
  case False
  then have "u AND 1 = 0" by (simp add: and_one_eq mod_2_eq_odd bit_0)
  with False show ?thesis by simp
qed

lemma unzigzag_zigzag: "unzigzag (zigzag v) = v"
proof (rule bit_word_eqI)
  fix k assume "k < LENGTH(64)"
  moreover have "\<not> bit v (64 + k)" by (auto dest: bit_imp_le_length)
  moreover have "k < 63 \<or> k = 63" using \<open>k < LENGTH(64)\<close> by auto
  ultimately show "bit (unzigzag (zigzag v)) k = bit v k"
    by (auto simp: unzigzag_def zigzag_def bit_xor_iff bit_minus_and_1 bit_shr bit_shl
        bit_signed_drop_bit_iff)
qed

subsection \<open>Round trips through a consumed buffer\<close>

lemma bw_consume_spec:
  assumes inv: "bw_inv w"
  obtains bs where "bw_consume w = Some bs" and "8 * length bs = bw_aligned w"
    and "\<And>k. k < bw_pos w \<Longrightarrow> byte_bit bs k = bw_bit w k"
proof -
  obtain w1 where f: "bw_flush w = Some w1" and wr: "bw_wrote w (bw_aligned w - bw_pos w) (\<lambda>_. False) w1"
    and b: "bw_bit_offset w1 = 0" and o: "bw_byte_offset w1 = div_ceil (bw_pos w) 8"
    using bw_flush_spec [OF inv] unfolding bw_aligned_def by metis
  note d = bw_wroteD [OF wr]
  have o8: "8 * bw_byte_offset w1 = bw_aligned w" by (simp add: o bw_aligned_def)
  have "bw_byte_offset w1 \<le> length (bw_buffer w1)" using d(1) by (simp add: bw_defs)
  moreover have "byte_bit (take (bw_byte_offset w1) (bw_buffer w1)) k = bw_bit w k" if "k < bw_pos w" for k
    using that d(3) [OF that] o8 bw_pos_le_aligned [of w] by (simp add: bw_bit_def byte_bit_take)
  ultimately show ?thesis
    using that [of "take (bw_byte_offset w1) (bw_buffer w1)"] f o8 by (simp add: bw_consume_def)
qed

text \<open>A reader over the consumed buffer sees the bits that were written.\<close>

lemma consume_read:
  assumes inv: "bw_inv w"
  obtains bs r where "bw_consume w = Some bs" and "br_new_all bs = Some r" and "br_inv r"
    and "br_pos r = 0" and "bw_pos w \<le> br_end r" and "\<And>k. k < bw_pos w \<Longrightarrow> br_bits r k = bw_bit w k"
proof -
  obtain bs where bs: "bw_consume w = Some bs" "8 * length bs = bw_aligned w"
    and bits: "\<And>k. k < bw_pos w \<Longrightarrow> byte_bit bs k = bw_bit w k"
    using bw_consume_spec [OF inv] by blast
  obtain r where "br_new bs (length bs) = Some r" and "br_inv r" and "br_pos r = 0"
    and "br_end r = 8 * length bs" and "br_bits r = byte_bit (take (length bs) bs)"
    using br_new_spec [of "length bs" bs] by blast
  then show ?thesis
    using that [of bs r] bs bits bw_pos_le_aligned [of w] by (simp add: br_new_all_def)
qed

text \<open>Clients that write and read a sequence of values of given widths.\<close>

fun put_values :: "bit_writer \<Rightarrow> (u64 \<times> nat) list \<Rightarrow> (bool \<times> bit_writer) option" where
  "put_values w [] = Some (True, w)"
| "put_values w ((v, n) # vs) = do {
     (ok, w) \<leftarrow> put_value w v n;
     (oks, w) \<leftarrow> put_values w vs;
     Some (ok \<and> oks, w)
   }"

fun get_values :: "bit_reader \<Rightarrow> nat list \<Rightarrow> (u64 option list \<times> bit_reader) option" where
  "get_values r [] = Some ([], r)"
| "get_values r (n # ns) = do {
     (v, r) \<leftarrow> get_value r n;
     (vs, r) \<leftarrow> get_values r ns;
     Some (v # vs, r)
   }"

text \<open>\<open>values_at f p vs\<close>: the values stand one after the other in the bit stream.\<close>

fun values_at :: "(nat \<Rightarrow> bool) \<Rightarrow> nat \<Rightarrow> (u64 \<times> nat) list \<Rightarrow> bool" where
  "values_at f p [] = True"
| "values_at f p ((v, n) # vs) \<longleftrightarrow> bits_word f p n = v \<and> values_at f (p + n) vs"

lemma values_at_cong:
  "(\<And>k. p \<le> k \<Longrightarrow> k < p + sum_list (map snd vs) \<Longrightarrow> f k = g k) \<Longrightarrow> values_at f p vs = values_at g p vs"
proof (induction vs arbitrary: p)
  case (Cons x vs)
  obtain v n where x: "x = (v, n)" by (cases x)
  have "(bits_word f p n :: u64) = bits_word g p n"
    by (rule bits_word_cong) (use Cons.prems x in auto)
  moreover have "values_at f (p + n) vs = values_at g (p + n) vs"
    by (rule Cons.IH) (use Cons.prems x in auto)
  ultimately show ?case by (simp add: x)
qed simp

lemma put_values_spec:
  assumes "bw_inv w" and "\<And>v n. (v, n) \<in> set vs \<Longrightarrow> n \<le> 64 \<and> take_bit n v = v"
    and "bw_pos w + sum_list (map snd vs) \<le> 8 * bw_max_bytes w"
  shows "\<exists>w'. put_values w vs = Some (True, w') \<and> bw_inv w' \<and>
    bw_pos w' = bw_pos w + sum_list (map snd vs) \<and> (\<forall>k < bw_pos w. bw_bit w' k = bw_bit w k) \<and>
    values_at (bw_bit w') (bw_pos w) vs"
  using assms
proof (induction vs arbitrary: w)
  case (Cons x vs)
  obtain v n where x: "x = (v, n)" by (cases x)
  have vn: "n \<le> 64" "take_bit n v = v" using Cons.prems(2) x by auto
  have room: "bw_pos w + n \<le> 8 * bw_max_bytes w" using Cons.prems(3) x by simp
  obtain w1 where p: "put_value w v n = Some (True, w1)" and wr: "bw_wrote w n (bit v) w1"
    using put_value_spec [OF Cons.prems(1) vn room] by blast
  note d = bw_wroteD [OF wr]
  from Cons.IH [OF d(1)] Cons.prems(2,3) x d(2,5) obtain w' where
    IH: "put_values w1 vs = Some (True, w')" "bw_inv w'" "bw_pos w' = bw_pos w1 + sum_list (map snd vs)"
      "\<forall>k < bw_pos w1. bw_bit w' k = bw_bit w1 k" "values_at (bw_bit w') (bw_pos w1) vs" by auto
  have "v = bits_word (bw_bit w') (bw_pos w) n"
  proof (rule bits_word_eqI)
    show "bit v k = bw_bit w' (bw_pos w + k)" if "k < n" for k using that IH(4) d(2,4) by simp
    show "\<not> bit v k" if "n \<le> k" for k using that vn(2) by (metis bit_take_bit_iff not_less)
  qed (use vn in simp)
  with IH p d x show ?case by simp
qed simp

lemma get_values_spec:
  assumes "br_inv r" and "list_all (\<lambda>(v, n). n < 64) vs"
    and "br_pos r + sum_list (map snd vs) \<le> br_end r" and "values_at (br_bits r) (br_pos r) vs"
  shows "\<exists>r'. get_values r (map snd vs) = Some (map (\<lambda>(v, n). Some v) vs, r') \<and> br_step r (sum_list (map snd vs)) r'"
  using assms
proof (induction vs arbitrary: r)
  case (Cons x vs)
  obtain v n where x: "x = (v, n)" by (cases x)
  have n: "n < 64" using Cons.prems(2) x by auto
  obtain r1 where g: "get_value r n = Some (Some (bits_word (br_bits r) (br_pos r) n :: u64), r1)"
    and st: "br_step r n r1"
    by (rule get_value_spec [of r n, where 'a = 64]) (use Cons.prems n x in auto)
  note d = br_stepD [OF st]
  from Cons.IH [OF d(1)] Cons.prems(2,3,4) x d obtain r' where
    "get_values r1 (map snd vs) = Some (map (\<lambda>(v, n). Some v) vs, r')" and "br_step r1 (sum_list (map snd vs)) r'"
    by auto
  then show ?case using g x Cons.prems(4) br_step_trans [OF st] by auto
qed (auto simp: br_step_refl)

text \<open>Writing a variable-length integer and reading it back behind whatever was written before.\<close>

lemma vlq_written_read:
  assumes inv: "bw_inv w" and room: "bw_aligned w + 80 \<le> 8 * bw_max_bytes w"
  obtains w' bs r r' r'' where "put_vlq_int w v = Some (True, w')" and "bw_pos w' \<le> bw_aligned w + 80"
    and "bw_consume w' = Some bs" and "br_new_all bs = Some r" and "skip_bits r (bw_pos w) = Some (bw_pos w, r')"
    and "get_vlq_int r' = Some (Some v, r'')"
proof -
  let ?n = "length (vlq_bytes v)" and ?pad = "bw_aligned w - bw_pos w"
  have n: "?n \<le> 10" by (rule length_vlq_bytes_le_10)
  have le: "bw_pos w \<le> bw_aligned w" by (rule bw_pos_le_aligned)
  have "bw_aligned w + 8 * ?n \<le> 8 * bw_max_bytes w" using n room by linarith
  from put_vlq_int_spec [OF inv this] obtain w' where p: "put_vlq_int w v = Some (True, w')"
    and wr: "bw_wrote w (?pad + 8 * ?n) (padded ?pad (byte_bit (vlq_bytes v))) w'" by blast
  note d = bw_wroteD [OF wr]
  have pos: "bw_pos w' = bw_aligned w + 8 * ?n" using d(2) le by simp
  obtain bs r where r: "bw_consume w' = Some bs" "br_new_all bs = Some r" "br_inv r" "br_pos r = 0"
    "bw_pos w' \<le> br_end r" "\<And>k. k < bw_pos w' \<Longrightarrow> br_bits r k = bw_bit w' k"
    using consume_read [OF d(1)] by blast
  have "min (br_end r - br_pos r) (bw_pos w) = bw_pos w" using r(4,5) pos le by simp
  with skip_bits_spec [OF r(3), of "bw_pos w"] obtain r' where sk: "skip_bits r (bw_pos w) = Some (bw_pos w, r')"
    and st: "br_step r (bw_pos w) r'" by metis
  note s = br_stepD [OF st]
  have al: "br_aligned r' = bw_aligned w" using s(2) r(4) by (simp add: br_aligned_def bw_aligned_def)
  have "br_bits r (bw_aligned w + k) = byte_bit (vlq_bytes v) k" if "k < 8 * ?n" for k
    using that r(6) [of "bw_aligned w + k"] d(4) [of "?pad + k"] pos le by (auto simp: padded_def)
  then have "stream_has (br_bits r') (br_aligned r') (vlq_bytes v)" by (simp add: stream_has_def al s(3))
  moreover have "br_aligned r' + 8 * ?n \<le> br_end r'" using pos r(5) by (simp add: al s(4))
  ultimately obtain r'' where "get_vlq_int r' = Some (Some v, r'')"
    using get_vlq_int_spec [OF s(1)] by blast
  moreover have "bw_pos w' \<le> bw_aligned w + 80" using pos n by simp
  ultimately show ?thesis using that p r(1,2) sk by blast
qed

subsection \<open>Properties\<close>

text \<open>
  \<open>put_value\<close> on both branches: with room left it appends the low \<open>n\<close> bits of the value and keeps the
  invariant and every earlier bit; without room it returns false and the writer is unchanged.
\<close>

theorem put_value_appends:
  assumes "bw_inv w" and "n \<le> 64" and "take_bit n v = v"
  shows "if bw_pos w + n \<le> 8 * bw_max_bytes w
    then \<exists>w'. put_value w v n = Some (True, w') \<and> bw_wrote w n (bit v) w'
    else put_value w v n = Some (False, w)"
  using put_value_spec [OF assms] put_value_full [OF assms(2,3)] by (metis not_le)

theorem put_value_appends_witness:
  "\<exists>w'. put_value (bw_new 2) 0x1FF 9 = Some (True, w') \<and> bw_wrote (bw_new 2) 9 (bit (0x1FF :: u64)) w'"
proof -
  have "take_bit 9 (0x1FF :: u64) = 0x1FF" by code_simp
  moreover have "bw_pos (bw_new 2) + 9 \<le> 8 * bw_max_bytes (bw_new 2)" by code_simp
  ultimately show ?thesis using put_value_appends [OF bw_new_spec(1), of 9 "0x1FF" 2] by auto
qed

text \<open>
  C18. Values of any widths below 64 bits that were written with \<open>put_value\<close> and consumed come back in order
  from a reader over the bytes.
\<close>

theorem put_get_round_trip:
  assumes "list_all (\<lambda>(v, n). n < 64 \<and> take_bit n v = v) vs" and "sum_list (map snd vs) \<le> 8 * max_bytes"
  shows "\<exists>w bs r r'. put_values (bw_new max_bytes) vs = Some (True, w) \<and> bw_consume w = Some bs \<and>
    br_new_all bs = Some r \<and> get_values r (map snd vs) = Some (map (\<lambda>(v, n). Some v) vs, r')"
proof -
  let ?n = "sum_list (map snd vs)"
  have new: "bw_inv (bw_new max_bytes)" "bw_pos (bw_new max_bytes) = 0" "bw_max_bytes (bw_new max_bytes) = max_bytes"
    using bw_new_spec [of max_bytes] by (simp_all add: bw_new_def)
  have vn: "n \<le> 64 \<and> take_bit n v = v" if "(v, n) \<in> set vs" for v n
    using assms(1) that by (auto simp: list_all_iff)
  have room: "bw_pos (bw_new max_bytes) + ?n \<le> 8 * bw_max_bytes (bw_new max_bytes)" using assms(2) new by simp
  from put_values_spec [OF new(1) vn room] new(2) obtain w where w: "put_values (bw_new max_bytes) vs = Some (True, w)"
    "bw_inv w" "bw_pos w = ?n" "values_at (bw_bit w) 0 vs" by auto
  obtain bs r where r: "bw_consume w = Some bs" "br_new_all bs = Some r" "br_inv r" "br_pos r = 0" "?n \<le> br_end r"
    "\<And>k. k < ?n \<Longrightarrow> br_bits r k = bw_bit w k"
    using consume_read [OF w(2)] w(3) by metis
  have "values_at (br_bits r) 0 vs = values_at (bw_bit w) 0 vs" by (rule values_at_cong) (simp add: r(6))
  moreover have "list_all (\<lambda>(v, n). n < 64) vs" using assms(1) by (auto simp: list_all_iff)
  ultimately obtain r' where "get_values r (map snd vs) = Some (map (\<lambda>(v, n). Some v) vs, r')"
    using get_values_spec [OF r(3)] r(4,5) w(4) by auto
  with w(1) r(1,2) show ?thesis by blast
qed

theorem put_get_round_trip_witness:
  "\<exists>w bs r r'. put_values (bw_new 16) [(5, 3), (0xFFFFFFFFFFFF, 48), (0, 0), (1, 63)] = Some (True, w) \<and>
    bw_consume w = Some bs \<and> br_new_all bs = Some r \<and>
    get_values r [3, 48, 0, 63] = Some ([Some 5, Some 0xFFFFFFFFFFFF, Some 0, Some 1], r')"
proof -
  have "list_all (\<lambda>(v, n). n < 64 \<and> take_bit n v = v) [(5 :: u64, 3), (0xFFFFFFFFFFFF, 48), (0, 0), (1, 63)]"
    by code_simp
  from put_get_round_trip [OF this, of 16] show ?thesis by simp
qed

text \<open>
  C21. A variable-length integer that fits behind the next byte boundary of a writer is written in at most
  ten bytes, and \<open>get_vlq_int\<close> at that boundary of the consumed buffer reads it back.
\<close>

theorem vlq_round_trip:
  assumes "bw_inv w" and "bw_aligned w + 80 \<le> 8 * bw_max_bytes w"
  shows "\<exists>w' bs r r' r''. put_vlq_int w v = Some (True, w') \<and> bw_pos w' \<le> bw_aligned w + 80 \<and>
    bw_consume w' = Some bs \<and> br_new_all bs = Some r \<and> skip_bits r (bw_pos w) = Some (bw_pos w, r') \<and>
    get_vlq_int r' = Some (Some v, r'')"
  using vlq_written_read [OF assms] by metis

theorem vlq_round_trip_witness:
  "\<exists>w' bs r r' r''. put_vlq_int (bw_new 10) 0xFFFFFFFFFFFFFFFF = Some (True, w') \<and> bw_consume w' = Some bs \<and>
    br_new_all bs = Some r \<and> skip_bits r 0 = Some (0, r') \<and> get_vlq_int r' = Some (Some 0xFFFFFFFFFFFFFFFF, r'')"
proof -
  have "bw_aligned (bw_new 10) + 80 \<le> 8 * bw_max_bytes (bw_new 10)" by code_simp
  from vlq_round_trip [OF bw_new_spec(1) this, of "0xFFFFFFFFFFFFFFFF"] show ?thesis
    by (auto simp: bw_new_spec(2))
qed

text \<open>
  The same for the zigzag form of a signed integer.
\<close>

theorem zigzag_round_trip:
  assumes "bw_inv w" and "bw_aligned w + 80 \<le> 8 * bw_max_bytes w"
  shows "\<exists>w' bs r r' r''. put_zigzag_vlq_int w v = Some (True, w') \<and> bw_consume w' = Some bs \<and>
    br_new_all bs = Some r \<and> skip_bits r (bw_pos w) = Some (bw_pos w, r') \<and>
    get_zigzag_vlq_int r' = Some (Some v, r'')"
proof -
  from vlq_written_read [OF assms, of "zigzag v"] obtain w' bs r r' r'' where
    "put_vlq_int w (zigzag v) = Some (True, w')" "bw_consume w' = Some bs" "br_new_all bs = Some r"
    "skip_bits r (bw_pos w) = Some (bw_pos w, r')" "get_vlq_int r' = Some (Some (zigzag v), r'')" by metis
  with unzigzag_zigzag [of v] show ?thesis
    by (auto simp: put_zigzag_vlq_int_def get_zigzag_vlq_int_def zigzag_def unzigzag_def)
qed

theorem zigzag_round_trip_witness:
  "\<exists>w' bs r r' r''. put_zigzag_vlq_int (bw_new 12) (- 3) = Some (True, w') \<and> bw_consume w' = Some bs \<and>
    br_new_all bs = Some r \<and> skip_bits r 0 = Some (0, r') \<and> get_zigzag_vlq_int r' = Some (Some (- 3), r'')"
proof -
  have "bw_aligned (bw_new 12) + 80 \<le> 8 * bw_max_bytes (bw_new 12)" by code_simp
  from zigzag_round_trip [OF bw_new_spec(1) this, of "- 3"] show ?thesis
    by (auto simp: bw_new_spec(2))
qed

text \<open>
  \<open>flush_buffer\<close> panics on a writer that starts inside an existing buffer and has filled it: it slices
  the part behind \<open>start\<close> with the offset from the beginning of the buffer.
\<close>

theorem flush_buffer_from_buf_panics:
  "(do { w \<leftarrow> bw_new_from_buf [0, 0] 1; (ok, w) \<leftarrow> put_value w 7 8; bw_flush_buffer w }) = None"
  by code_simp

end
