(* ===== verification/Rdx_Sort.thy ===== *)
theory Rdx_Sort
  imports Comet_Prelude "HOL-Library.Multiset"
begin

text \<open>
  The radix sort of \<open>native/core/src/execution/sort.rs\<close>, which orders the packed row addresses of a
  shuffle by their partition id. The trait \<open>Rdx\<close> is a group of parameters, its contract the locale
  \<open>rdx\<close>; the theorem is that the buckets, round after round, compute the stable sort by the key that
  the digits spell.
\<close>

subsection \<open>The sort\<close>

fun helper_bucket :: "('a \<Rightarrow> nat \<Rightarrow> nat option) \<Rightarrow> 'a list list \<Rightarrow> 'a list \<Rightarrow> nat \<Rightarrow> nat \<Rightarrow> 'a list list option" where
  "helper_bucket get_bucket buckets [] cfg_nbuckets round = Some buckets"
| "helper_bucket get_bucket buckets (x # xs) cfg_nbuckets round = do {
     b \<leftarrow> get_bucket x round;
     ensure (b < cfg_nbuckets);
     bucket \<leftarrow> index buckets b;
     buckets \<leftarrow> update buckets b (bucket @ [x]);
     helper_bucket get_bucket buckets xs cfg_nbuckets round
   }"

text \<open>One round: \<open>for (i, bucket) in buckets_a.iter().enumerate()\<close>, from the emptied \<open>buckets_b\<close>.\<close>

fun rdx_scatter :: "('a \<Rightarrow> nat \<Rightarrow> nat option) \<Rightarrow> (nat \<Rightarrow> nat \<Rightarrow> bool) \<Rightarrow> nat \<Rightarrow> nat \<Rightarrow> nat \<Rightarrow> 'a list list \<Rightarrow>
    'a list list \<Rightarrow> 'a list list option" where
  "rdx_scatter get_bucket reverse cfg_nbuckets round i [] buckets_b = Some buckets_b"
| "rdx_scatter get_bucket reverse cfg_nbuckets round i (bucket # buckets_a) buckets_b = do {
     buckets_b \<leftarrow> helper_bucket get_bucket buckets_b
       (if reverse (round - 1) i then rev bucket else bucket) cfg_nbuckets round;
     rdx_scatter get_bucket reverse cfg_nbuckets round (i + 1) buckets_a buckets_b
   }"

text \<open>\<open>for round in 1..cfg_nrounds\<close>; clearing and swapping the two sets of buckets.\<close>

fun rdx_rounds :: "('a \<Rightarrow> nat \<Rightarrow> nat option) \<Rightarrow> (nat \<Rightarrow> nat \<Rightarrow> bool) \<Rightarrow> nat \<Rightarrow> nat list \<Rightarrow> 'a list list \<Rightarrow>
    'a list list option" where
  "rdx_rounds get_bucket reverse cfg_nbuckets [] buckets_a = Some buckets_a"
| "rdx_rounds get_bucket reverse cfg_nbuckets (round # rounds) buckets_a = do {
     buckets_b \<leftarrow> rdx_scatter get_bucket reverse cfg_nbuckets round 0 buckets_a (replicate cfg_nbuckets []);
     rdx_rounds get_bucket reverse cfg_nbuckets rounds buckets_b
   }"

text \<open>Copying the buckets back into the slice.\<close>

fun rdx_copy :: "(nat \<Rightarrow> nat \<Rightarrow> bool) \<Rightarrow> nat \<Rightarrow> nat \<Rightarrow> nat \<Rightarrow> 'a list list \<Rightarrow> 'a list \<Rightarrow> (nat \<times> 'a list) option" where
  "rdx_copy reverse cfg_nrounds i pos [] self = Some (pos, self)"
| "rdx_copy reverse cfg_nrounds i pos (bucket # buckets) self = do {
     ensure (pos + length bucket \<le> length self);
     let self = overwrite self pos (if reverse (cfg_nrounds - 1) i then rev bucket else bucket);
     rdx_copy reverse cfg_nrounds (i + 1) (pos + length bucket) buckets self
   }"

definition rdxsort :: "nat \<Rightarrow> nat \<Rightarrow> ('a \<Rightarrow> nat \<Rightarrow> nat option) \<Rightarrow> (nat \<Rightarrow> nat \<Rightarrow> bool) \<Rightarrow> 'a list \<Rightarrow> 'a list option" where
  "rdxsort cfg_nbuckets cfg_nrounds get_bucket reverse self =
     (if cfg_nrounds = 0 then Some self
      else do {
        buckets \<leftarrow> helper_bucket get_bucket (replicate cfg_nbuckets []) self cfg_nbuckets 0;
        buckets \<leftarrow> rdx_rounds get_bucket reverse cfg_nbuckets [1..<cfg_nrounds] buckets;
        (pos, out) \<leftarrow> rdx_copy reverse cfg_nrounds 0 0 buckets self;
        ensure (pos = length self);
        Some out
      })"

subsection \<open>The instance for packed row addresses\<close>

definition MASK_LONG_LOWER_40_BITS :: u64 where
  "MASK_LONG_LOWER_40_BITS = push_bit 40 1 - 1"

definition MASK_LONG_UPPER_24_BITS :: u64 where
  "MASK_LONG_UPPER_24_BITS = NOT MASK_LONG_LOWER_40_BITS"

definition i64_nbuckets :: nat where
  "i64_nbuckets = 16"

definition i64_nrounds :: nat where
  "i64_nrounds = 6"

definition i64_get_bucket :: "u64 \<Rightarrow> nat \<Rightarrow> nat option" where
  "i64_get_bucket x round = do {
     let partition_id = shr (x AND MASK_LONG_UPPER_24_BITS) 40;
     let shift = round * 4;
     d \<leftarrow> checked_shr partition_id shift;
     Some (unat (d AND 15))
   }"

definition i64_reverse :: "nat \<Rightarrow> nat \<Rightarrow> bool" where
  "i64_reverse round bucket = False"

definition rdxsort_i64 :: "u64 list \<Rightarrow> u64 list option" where
  "rdxsort_i64 = rdxsort i64_nbuckets i64_nrounds i64_get_bucket i64_reverse"

subsection \<open>Stable sorting by buckets\<close>

definition bucketed :: "('a \<Rightarrow> nat) \<Rightarrow> nat \<Rightarrow> 'a list \<Rightarrow> 'a list list" where
  "bucketed f n xs = map (\<lambda>b. filter (\<lambda>x. f x = b) xs) [0..<n]"

lemma sorted_concat_map:
  "sorted bs \<Longrightarrow> (\<And>b. b \<in> set bs \<Longrightarrow> \<forall>x \<in> set (g b). f x = b) \<Longrightarrow> sorted (map f (concat (map g bs)))"
proof (induction bs)
  case (Cons b bs)
  have "map f (g b) = map (\<lambda>_. b) (g b)" using Cons.prems(2) [of b] by simp
  then have "sorted (map f (g b))" by (simp add: map_replicate_const)
  moreover have "sorted (map f (concat (map g bs)))" using Cons by simp
  moreover have "f x \<le> f y" if "x \<in> set (g b)" "c \<in> set bs" "y \<in> set (g c)" for x y c
    using that Cons.prems(1) Cons.prems(2) [of b] Cons.prems(2) [of c] by simp
  ultimately show ?case by (auto simp: sorted_append)
qed simp

lemma filter_concat_bucketed:
  assumes "k < n"
  shows "filter (\<lambda>x. k = f x) (concat (bucketed f n xs)) = filter (\<lambda>x. k = f x) xs"
proof -
  have "filter (\<lambda>x. k = f x) (concat (map (\<lambda>b. filter (\<lambda>x. f x = b) xs) bs)) =
      concat (map (\<lambda>b. if b = k then filter (\<lambda>x. k = f x) xs else []) bs)" for bs
    by (induction bs) (auto intro: filter_cong filter_False)
  moreover have "concat (map (\<lambda>b. if b = k then ys else []) [0..<m]) = (if k < m then ys else [])" for m and ys :: "'a list"
    by (induction m) auto
  ultimately show ?thesis using assms by (simp add: bucketed_def)
qed

lemma mset_concat_bucketed:
  "(\<And>x. x \<in> set xs \<Longrightarrow> f x < n) \<Longrightarrow> mset (concat (bucketed f n xs)) = mset xs"
proof (induction xs)
  case (Cons x xs)
  have "mset (concat (map (\<lambda>b. filter (\<lambda>y. f y = b) (x # xs)) [0..<m])) =
      (if f x < m then {#x#} else {#}) + mset (concat (map (\<lambda>b. filter (\<lambda>y. f y = b) xs) [0..<m]))" for m
    by (induction m) auto
  with Cons show ?case by (simp add: bucketed_def)
qed (simp add: bucketed_def)

lemma concat_bucketed:
  assumes "\<And>x. x \<in> set xs \<Longrightarrow> f x < n"
  shows "concat (bucketed f n xs) = sort_key f xs"
proof (rule properties_for_sort_key [symmetric])
  show m: "mset (concat (bucketed f n xs)) = mset xs" by (rule mset_concat_bucketed) (rule assms)
  show "filter (\<lambda>x. f k = f x) (concat (bucketed f n xs)) = filter (\<lambda>x. f k = f x) xs"
    if "k \<in> set (concat (bucketed f n xs))" for k
    using that assms mset_eq_setD [OF m] by (intro filter_concat_bucketed) blast
  show "sorted (map f (concat (bucketed f n xs)))"
    unfolding bucketed_def by (rule sorted_concat_map) auto
qed

text \<open>Sorted by the more significant key and, inside each of its values, by the other.\<close>

lemma sorted_lexI:
  assumes "sorted (map f ys)" and "\<And>c. sorted (map g (filter (\<lambda>x. f x = c) ys))"
    and "\<And>x. x \<in> set ys \<Longrightarrow> g x < (m :: nat)"
  shows "sorted (map (\<lambda>x. f x * m + g x) ys)"
  using assms
proof (induction ys)
  case (Cons y ys)
  have "sorted (map g (filter (\<lambda>x. f x = c) ys))" for c using Cons.prems(2) [of c] by (auto split: if_splits)
  then have rest: "sorted (map (\<lambda>x. f x * m + g x) ys)" using Cons by simp
  have "f y * m + g y \<le> f z * m + g z" if z: "z \<in> set ys" for z
  proof (cases "f y = f z")
    case True
    with z Cons.prems(2) [of "f y"] show ?thesis by simp
  next
    case False
    then have "f y + 1 \<le> f z" using Cons.prems(1) z by (simp add: le_neq_implies_less Suc_leI)
    then have "(f y + 1) * m \<le> f z * m" by (rule mult_le_mono1)
    moreover have "g y < m" using Cons.prems(3) by simp
    ultimately show ?thesis by simp
  qed
  with rest show ?case by simp
qed simp

text \<open>Sorting by a less significant key first and by a more significant one after it.\<close>

lemma sort_key_lex:
  assumes g: "\<And>x. x \<in> set xs \<Longrightarrow> g x < (m :: nat)"
  shows "sort_key f (sort_key g xs) = sort_key (\<lambda>x. f x * m + g x) xs"
proof (rule properties_for_sort_key [symmetric])
  let ?h = "\<lambda>x. f x * m + g x" and ?ys = "sort_key f (sort_key g xs)"
  have "?h x div m = f x" and "?h x mod m = g x" if "x \<in> set xs" for x
    using g [OF that] by simp_all
  then have eq: "?h x = ?h y \<longleftrightarrow> f x = f y \<and> g x = g y" if "x \<in> set xs" "y \<in> set xs" for x y
    using that by metis
  show "mset ?ys = mset xs" by simp
  show "filter (\<lambda>x. ?h k = ?h x) ?ys = filter (\<lambda>x. ?h k = ?h x) xs" if "k \<in> set ?ys" for k
  proof -
    have k: "k \<in> set xs" using that by simp
    have split: "filter (\<lambda>x. ?h k = ?h x) zs = filter (\<lambda>x. g k = g x) (filter (\<lambda>x. f k = f x) zs)"
      if "set zs \<subseteq> set xs" for zs
      unfolding filter_filter by (rule filter_cong [OF refl]) (use eq [OF k] that in blast)
    have "filter (\<lambda>x. f k = f x) ?ys = filter (\<lambda>x. f k = f x) (sort_key g xs)"
      using sort_key_stable [of f "f k" "sort_key g xs"] by (simp add: eq_commute)
    then have "filter (\<lambda>x. ?h k = ?h x) ?ys = filter (\<lambda>x. g k = g x) (filter (\<lambda>x. f k = f x) (sort_key g xs))"
      by (simp add: split)
    also have "\<dots> = filter (\<lambda>x. f k = f x) (filter (\<lambda>x. g k = g x) (sort_key g xs))"
      by (simp only: filter_filter conj_commute)
    also have "filter (\<lambda>x. g k = g x) (sort_key g xs) = filter (\<lambda>x. g k = g x) xs"
      using sort_key_stable [of g "g k" xs] by (simp add: eq_commute)
    also have "filter (\<lambda>x. f k = f x) (filter (\<lambda>x. g k = g x) xs) = filter (\<lambda>x. ?h k = ?h x) xs"
      by (simp only: split [OF subset_refl] filter_filter conj_commute)
    finally show ?thesis .
  qed
  show "sorted (map ?h ?ys)"
    by (rule sorted_lexI) (simp_all add: sort_key_stable g sorted_filter)
qed


subsection \<open>The contract of \<open>Rdx\<close> and the correctness of the sort\<close>

text \<open>The number that the first \<open>r\<close> digits spell, the least significant one first.\<close>

fun radix_key :: "nat \<Rightarrow> ('a \<Rightarrow> nat \<Rightarrow> nat) \<Rightarrow> nat \<Rightarrow> 'a \<Rightarrow> nat" where
  "radix_key n digit 0 x = 0"
| "radix_key n digit (Suc r) x = digit x r * n ^ r + radix_key n digit r x"

lemma radix_key_fun:
  "radix_key n digit 0 = (\<lambda>x. 0)"
  "radix_key n digit (Suc r) = (\<lambda>x. digit x r * n ^ r + radix_key n digit r x)"
  by (simp_all add: fun_eq_iff)

lemma radix_key_less: "(\<And>i. i < r \<Longrightarrow> digit x i < n) \<Longrightarrow> radix_key n digit r x < n ^ r"
proof (induction r)
  case (Suc r)
  then have "radix_key n digit r x < n ^ r" and "digit x r + 1 \<le> n" by (simp_all add: Suc_leI)
  moreover from this(2) have "(digit x r + 1) * n ^ r \<le> n * n ^ r" by (rule mult_le_mono1)
  ultimately show ?case by simp
qed simp

text \<open>What an implementation of \<open>Rdx\<close> promises: digits below the number of buckets, and no reversal.\<close>

locale rdx =
  fixes nbuckets nrounds :: nat and get_bucket :: "'a \<Rightarrow> nat \<Rightarrow> nat option"
    and reverse :: "nat \<Rightarrow> nat \<Rightarrow> bool" and digit :: "'a \<Rightarrow> nat \<Rightarrow> nat"
  assumes get_bucket_law: "r < nrounds \<Longrightarrow> get_bucket x r = Some (digit x r)"
    and digit_less: "r < nrounds \<Longrightarrow> digit x r < nbuckets"
    and reverse_law: "\<not> reverse r b"
begin

lemma helper_bucket_spec:
  assumes "r < nrounds" and "length bs = nbuckets"
  shows "helper_bucket get_bucket bs xs nbuckets r =
    Some (map (\<lambda>b. bs ! b @ filter (\<lambda>x. digit x r = b) xs) [0..<nbuckets])"
  using assms(2)
proof (induction xs arbitrary: bs)
  case Nil
  then show ?case by (auto simp: list_eq_iff_nth_eq)
next
  case (Cons x xs)
  let ?bs = "bs[digit x r := bs ! digit x r @ [x]]"
  have d: "digit x r < length bs" using digit_less [OF assms(1)] Cons.prems by simp
  then have "helper_bucket get_bucket bs (x # xs) nbuckets r = helper_bucket get_bucket ?bs xs nbuckets r"
    using Cons.prems by (simp add: get_bucket_law [OF assms(1)] index_def update_def)
  also have "\<dots> = Some (map (\<lambda>b. ?bs ! b @ filter (\<lambda>x. digit x r = b) xs) [0..<nbuckets])"
    using Cons by simp
  also have "map (\<lambda>b. ?bs ! b @ filter (\<lambda>x. digit x r = b) xs) [0..<nbuckets] =
      map (\<lambda>b. bs ! b @ filter (\<lambda>x. digit x r = b) (x # xs)) [0..<nbuckets]"
    using d Cons.prems by (auto simp: nth_list_update)
  finally show ?case .
qed

lemma scatter_spec:
  assumes "r < nrounds" and "length bs = nbuckets"
  shows "rdx_scatter get_bucket reverse nbuckets r i as bs =
    Some (map (\<lambda>b. bs ! b @ filter (\<lambda>x. digit x r = b) (concat as)) [0..<nbuckets])"
  using assms(2)
proof (induction as arbitrary: i bs)
  case Nil
  then show ?case by (auto simp: list_eq_iff_nth_eq)
qed (simp add: reverse_law helper_bucket_spec [OF assms(1)])

lemma scatter_empty:
  "r < nrounds \<Longrightarrow> rdx_scatter get_bucket reverse nbuckets r 0 as (replicate nbuckets []) =
     Some (bucketed (\<lambda>x. digit x r) nbuckets (concat as))"
  by (auto simp: scatter_spec bucketed_def)

lemma bucket_round:
  assumes "r < nrounds"
  shows "concat (bucketed (\<lambda>x. digit x r) nbuckets (sort_key (radix_key nbuckets digit r) xs)) =
    sort_key (radix_key nbuckets digit (Suc r)) xs"
proof -
  have "radix_key nbuckets digit r x < nbuckets ^ r" for x
    using assms by (intro radix_key_less digit_less) simp
  then show ?thesis
    by (simp add: concat_bucketed digit_less [OF assms] sort_key_lex radix_key_fun(2))
qed

lemma rounds_spec:
  assumes "r \<le> nrounds" and "concat as = sort_key (radix_key nbuckets digit r) xs"
  shows "\<exists>bs. rdx_rounds get_bucket reverse nbuckets [r..<nrounds] as = Some bs \<and>
    concat bs = sort_key (radix_key nbuckets digit nrounds) xs"
  using assms
proof (induction "nrounds - r" arbitrary: r as)
  case (Suc k)
  then have r: "r < nrounds" by simp
  let ?bs = "bucketed (\<lambda>x. digit x r) nbuckets (concat as)"
  have "concat ?bs = sort_key (radix_key nbuckets digit (Suc r)) xs"
    using Suc.prems(2) by (simp only: bucket_round [OF r])
  with Suc.hyps(1) [of "Suc r" ?bs] Suc.hyps(2) r show ?case
    by (simp add: scatter_empty upt_conv_Cons)
qed simp

lemma copy_spec:
  "pos + length (concat bs) \<le> length self \<Longrightarrow>
     rdx_copy reverse n i pos bs self = Some (pos + length (concat bs), overwrite self pos (concat bs))"
proof (induction bs arbitrary: i pos self)
  case (Cons b bs)
  then show ?case
    by (simp add: reverse_law length_overwrite overwrite_overwrite add.assoc)
qed (simp add: overwrite_Nil)

lemma sorts:
  "rdxsort nbuckets nrounds get_bucket reverse xs = Some (sort_key (radix_key nbuckets digit nrounds) xs)"
proof (cases "nrounds = 0")
  case True
  then show ?thesis by (simp add: rdxsort_def radix_key_fun(1) sort_key_const)
next
  case False
  then have r: "0 < nrounds" by simp
  have "helper_bucket get_bucket (replicate nbuckets []) xs nbuckets 0 = Some (bucketed (\<lambda>x. digit x 0) nbuckets xs)"
    by (auto simp: helper_bucket_spec [OF r] bucketed_def)
  moreover have "concat (bucketed (\<lambda>x. digit x 0) nbuckets xs) = sort_key (radix_key nbuckets digit 1) xs"
    using bucket_round [OF r, of xs] by (simp add: radix_key_fun(1) sort_key_const)
  with rounds_spec [of 1] r obtain bs where
    "rdx_rounds get_bucket reverse nbuckets [1..<nrounds] (bucketed (\<lambda>x. digit x 0) nbuckets xs) = Some bs"
    "concat bs = sort_key (radix_key nbuckets digit nrounds) xs" by (metis Suc_leI One_nat_def)
  ultimately show ?thesis using False
    by (simp add: rdxsort_def copy_spec overwrite_def)
qed

end

subsection \<open>Packed row addresses\<close>

text \<open>The partition id of a packed row address: its upper 24 bits.\<close>

definition partition_id :: "u64 \<Rightarrow> nat" where
  "partition_id x = unat x div 2 ^ 40"

definition i64_digit :: "u64 \<Rightarrow> nat \<Rightarrow> nat" where
  "i64_digit x r = (partition_id x div 16 ^ r) mod 16"

lemma partition_id_bits: "partition_id x = unat (shr (x AND MASK_LONG_UPPER_24_BITS) 40)"
proof -
  have m: "MASK_LONG_LOWER_40_BITS = mask 40"
    by (simp add: MASK_LONG_LOWER_40_BITS_def mask_eq_exp_minus_1 push_bit_of_1)
  have "shr (x AND MASK_LONG_UPPER_24_BITS) 40 = drop_bit 40 x"
    unfolding MASK_LONG_UPPER_24_BITS_def m
    by (rule bit_word_eqI) (auto simp: bit_simps shr_def simp del: mask_numeral dest: bit_imp_le_length)
  then show ?thesis by (simp only: partition_id_def unat_drop_bit_eq drop_bit_eq_div [where 'a = nat])
qed

lemma i64_get_bucket_digit: "r < i64_nrounds \<Longrightarrow> i64_get_bucket x r = Some (i64_digit x r)"
proof -
  assume "r < i64_nrounds"
  then have "r * 4 < 64" by (simp add: i64_nrounds_def)
  moreover have "unat (shr p (r * 4) AND 15) = unat p div 16 ^ r mod 16" for p :: u64
  proof -
    have "shr p (r * 4) AND 15 = take_bit 4 (drop_bit (r * 4) p)" by (simp add: shr_def take_bit_eq_mask mask_eq_exp_minus_1)
    moreover have "(2 :: nat) ^ (r * 4) = 16 ^ r" by (simp add: mult.commute [of r] power_mult)
    ultimately show ?thesis 
      by (simp add: unsigned_take_bit_eq unat_drop_bit_eq take_bit_eq_mod [where 'a = nat] drop_bit_eq_div [where 'a = nat])
  qed
  ultimately show ?thesis
    by (simp add: i64_get_bucket_def checked_shr_def i64_digit_def partition_id_bits Let_def)
qed

interpretation packed: rdx i64_nbuckets i64_nrounds i64_get_bucket i64_reverse i64_digit
  by unfold_locales (simp_all add: i64_get_bucket_digit i64_digit_def i64_nbuckets_def i64_reverse_def)

lemma radix_key_digits: "radix_key 16 i64_digit r x = partition_id x mod 16 ^ r"
proof (induction r)
  case (Suc r)
  have "partition_id x mod (16 ^ r * 16) = 16 ^ r * (partition_id x div 16 ^ r mod 16) + partition_id x mod 16 ^ r"
    by (rule mod_mult2_eq)
  with Suc show ?case by (simp add: i64_digit_def mult.commute)
qed simp

lemma radix_key_partition_id: "radix_key i64_nbuckets i64_digit i64_nrounds = partition_id"
proof
  fix x :: u64
  have "unat x < 2 ^ 64" using unsigned_less [of x] by simp
  then have "partition_id x < 16 ^ 6" by (simp add: partition_id_def div_less_iff_less_mult)
  then show "radix_key i64_nbuckets i64_digit i64_nrounds x = partition_id x"
    by (simp add: radix_key_digits i64_nbuckets_def i64_nrounds_def)
qed

subsection \<open>Properties\<close>

text \<open>
  C27. The radix sort never hits one of its assertions and returns the stable sort of the packed row
  addresses by partition id: the rows of each partition are together, the partitions in ascending order, and
  inside a partition the rows keep their order.
\<close>

theorem rdxsort_i64_sorts: "rdxsort_i64 xs = Some (sort_key partition_id xs)"
  using packed.sorts [of xs] by (simp add: rdxsort_i64_def radix_key_partition_id)

end
