(* ===== verification/Memory_Pools.thy ===== *)
theory Memory_Pools
  imports Comet_Prelude
begin

text \<open>
  The memory pools of \<open>native/core/src/execution/memory_pools\<close> and the adapter
  \<open>CometTaskMemoryManager.java\<close> they call through JNI. Spark's own \<open>TaskMemoryManager\<close> is a parameter:
  a state and two functions, of which only the documented law is used that it grants between nothing and
  what was asked for. A panic is \<open>None\<close>; an \<open>Err\<close> is \<open>Inl\<close>. The thread is attached to the JVM.
\<close>

type_synonym i64 = "64 word"

datatype comet_error = JniError | Config string

datatype datafusion_error = ResourcesExhausted string "int list" | Execution comet_error

subsection \<open>\<open>CometTaskMemoryManager\<close>\<close>

type_synonym 's acquire_fn = "'s \<Rightarrow> i64 \<Rightarrow> (comet_error + i64) \<times> 's"

type_synonym 's release_fn = "'s \<Rightarrow> i64 \<Rightarrow> (comet_error + unit) \<times> 's"

record 's task_memory_manager =
  tm_used :: i64
  tm_internal :: 's

definition acquireMemory :: "'s acquire_fn \<Rightarrow> 's task_memory_manager \<Rightarrow> i64 \<Rightarrow> (comet_error + i64) \<times> 's task_memory_manager" where
  "acquireMemory acq m sz =
     (case acq (tm_internal m) sz of
        (Inl e, s) \<Rightarrow> (Inl e, m\<lparr>tm_internal := s\<rparr>)
      | (Inr acquired, s) \<Rightarrow> (Inr acquired, m\<lparr>tm_internal := s, tm_used := tm_used m + acquired\<rparr>))"

definition releaseMemory :: "'s release_fn \<Rightarrow> 's task_memory_manager \<Rightarrow> i64 \<Rightarrow> (comet_error + unit) \<times> 's task_memory_manager" where
  "releaseMemory rel m sz =
     (let m = m\<lparr>tm_used := tm_used m + - sz\<rparr> in
      case rel (tm_internal m) sz of (res, s) \<Rightarrow> (res, m\<lparr>tm_internal := s\<rparr>))"

subsection \<open>\<open>CometFairMemoryPool\<close>\<close>

record fair_pool =
  fp_pool_size :: nat
  fp_used :: nat
  fp_num :: nat

definition fair_new :: "nat \<Rightarrow> fair_pool" where
  "fair_new pool_size = \<lparr>fp_pool_size = pool_size, fp_used = 0, fp_num = 0\<rparr>"

definition fair_register :: "fair_pool \<Rightarrow> fair_pool option" where
  "fair_register p = do {
     ensure (fp_num p + 1 < 2 ^ 64);
     Some (p\<lparr>fp_num := fp_num p + 1\<rparr>)
   }"

definition fair_unregister :: "fair_pool \<Rightarrow> fair_pool option" where
  "fair_unregister p = do {
     n \<leftarrow> usub (fp_num p) 1;
     Some (p\<lparr>fp_num := n\<rparr>)
   }"

text \<open>\<open>sz\<close> is what \<open>reservation.size()\<close> returns.\<close>

definition fair_try_grow :: "'s acquire_fn \<Rightarrow> 's release_fn \<Rightarrow> fair_pool \<Rightarrow> 's task_memory_manager \<Rightarrow> nat \<Rightarrow> nat \<Rightarrow>
    ((datafusion_error + unit) \<times> fair_pool \<times> 's task_memory_manager) option" where
  "fair_try_grow acq rel p m sz additional =
     (if additional > 0 then do {
        let num = fp_num p;
        ensure (num \<noteq> 0);
        let limit = fp_pool_size p div num;
        ensure (sz + additional < 2 ^ 64);
        if limit < sz + additional then
          Some (Inl (ResourcesExhausted
            ''Failed to acquire bytes where bytes already reserved and the fair limit is bytes, registered''
            [int additional, int sz, int limit, int num]), p, m)
        else
          (case acquireMemory acq m (of_nat additional) of
             (Inl e, m) \<Rightarrow> Some (Inl (Execution e), p, m)
           | (Inr acquired, m) \<Rightarrow>
               if sint acquired < sint (of_nat additional :: i64) then
                 (case releaseMemory rel m (of_nat (unat acquired)) of
                    (Inl e, m) \<Rightarrow> Some (Inl (Execution e), p, m)
                  | (Inr _, m) \<Rightarrow> Some (Inl (ResourcesExhausted
                      ''Failed to acquire bytes, only got bytes. Reserved: bytes''
                      [int additional, sint acquired, int (fp_used p)]), p, m))
               else do {
                 ensure (fp_used p + additional < 2 ^ 64);
                 Some (Inr (), p\<lparr>fp_used := fp_used p + additional\<rparr>, m)
               })
      } else Some (Inr (), p, m))"

definition fair_grow :: "'s acquire_fn \<Rightarrow> 's release_fn \<Rightarrow> fair_pool \<Rightarrow> 's task_memory_manager \<Rightarrow> nat \<Rightarrow> nat \<Rightarrow>
    (fair_pool \<times> 's task_memory_manager) option" where
  "fair_grow acq rel p m sz additional = do {
     (res, p, m) \<leftarrow> fair_try_grow acq rel p m sz additional;
     (case res of Inl _ \<Rightarrow> None | Inr _ \<Rightarrow> Some (p, m))
   }"

definition fair_shrink :: "'s release_fn \<Rightarrow> fair_pool \<Rightarrow> 's task_memory_manager \<Rightarrow> nat \<Rightarrow> nat \<Rightarrow>
    (fair_pool \<times> 's task_memory_manager) option" where
  "fair_shrink rel p m sz subtractive =
     (if subtractive > 0 then do {
        ensure (\<not> sz < subtractive);
        (case releaseMemory rel m (of_nat subtractive) of
           (Inl e, m) \<Rightarrow> None
         | (Inr _, m) \<Rightarrow> do {
             used \<leftarrow> usub (fp_used p) subtractive;
             Some (p\<lparr>fp_used := used\<rparr>, m)
           })
      } else Some (p, m))"

definition fair_reserved :: "fair_pool \<Rightarrow> nat" where
  "fair_reserved p = fp_used p"

subsection \<open>\<open>CometUnifiedMemoryPool\<close>\<close>

record unified_pool =
  up_used :: nat
  up_task_attempt_id :: i64

definition unified_new :: "i64 \<Rightarrow> unified_pool" where
  "unified_new task_attempt_id = \<lparr>up_used = 0, up_task_attempt_id = task_attempt_id\<rparr>"

definition unified_reserved :: "unified_pool \<Rightarrow> nat" where
  "unified_reserved p = up_used p"

definition unified_try_grow :: "'s acquire_fn \<Rightarrow> 's release_fn \<Rightarrow> unified_pool \<Rightarrow> 's task_memory_manager \<Rightarrow> nat \<Rightarrow> nat \<Rightarrow>
    ((datafusion_error + unit) \<times> unified_pool \<times> 's task_memory_manager) option" where
  "unified_try_grow acq rel p m sz additional =
     (if additional > 0 then
        (case acquireMemory acq m (of_nat additional) of
           (Inl e, m) \<Rightarrow> Some (Inl (Execution e), p, m)
         | (Inr acquired, m) \<Rightarrow>
             if sint acquired < sint (of_nat additional :: i64) then
               (case releaseMemory rel m (of_nat (unat acquired)) of
                  (Inl e, m) \<Rightarrow> Some (Inl (Execution e), p, m)
                | (Inr _, m) \<Rightarrow> Some (Inl (ResourcesExhausted
                    ''Task failed to acquire bytes, only got. Reserved''
                    [sint (up_task_attempt_id p), int additional, sint acquired, int (unified_reserved p)]), p, m))
             else if up_used p + unat acquired < 2 ^ 64 then
               Some (Inr (), p\<lparr>up_used := up_used p + unat acquired\<rparr>, m)
             else Some (Inl (ResourcesExhausted
                 ''Task failed to acquire bytes due to overflow. Reserved''
                 [sint (up_task_attempt_id p), int additional, int (up_used p)]), p, m))
      else Some (Inr (), p, m))"

definition unified_grow :: "'s acquire_fn \<Rightarrow> 's release_fn \<Rightarrow> unified_pool \<Rightarrow> 's task_memory_manager \<Rightarrow> nat \<Rightarrow> nat \<Rightarrow>
    (unified_pool \<times> 's task_memory_manager) option" where
  "unified_grow acq rel p m sz additional = do {
     (res, p, m) \<leftarrow> unified_try_grow acq rel p m sz additional;
     (case res of Inl _ \<Rightarrow> None | Inr _ \<Rightarrow> Some (p, m))
   }"

definition unified_shrink :: "'s release_fn \<Rightarrow> unified_pool \<Rightarrow> 's task_memory_manager \<Rightarrow> nat \<Rightarrow> nat \<Rightarrow>
    (unified_pool \<times> 's task_memory_manager) option" where
  "unified_shrink rel p m sz subtractive =
     (case releaseMemory rel m (of_nat subtractive) of
        (Inl e, m) \<Rightarrow> None
      | (Inr _, m) \<Rightarrow> do {
          used \<leftarrow> usub (up_used p) subtractive;
          Some (p\<lparr>up_used := used\<rparr>, m)
        })"

text \<open>\<open>drop\<close> only warns: the flag says whether bytes were still reserved.\<close>

definition unified_drop :: "unified_pool \<Rightarrow> bool" where
  "unified_drop p \<longleftrightarrow> up_used p \<noteq> 0"

subsection \<open>Accounting\<close>

text \<open>A caller's sequence of requests: the size of the reservation and the number of bytes. A refused request is not repeated.\<close>

datatype pool_op = Try_grow nat nat | Shrink nat nat

fun pool_run :: "('p \<Rightarrow> 'm \<Rightarrow> nat \<Rightarrow> nat \<Rightarrow> ('e \<times> 'p \<times> 'm) option) \<Rightarrow> ('p \<Rightarrow> 'm \<Rightarrow> nat \<Rightarrow> nat \<Rightarrow> ('p \<times> 'm) option) \<Rightarrow>
    'p \<Rightarrow> 'm \<Rightarrow> pool_op list \<Rightarrow> ('p \<times> 'm) option" where
  "pool_run grow shrink p m [] = Some (p, m)"
| "pool_run grow shrink p m (Try_grow sz n # ops) = do {
     (res, p, m) \<leftarrow> grow p m sz n;
     pool_run grow shrink p m ops
   }"
| "pool_run grow shrink p m (Shrink sz n # ops) = do {
     (p, m) \<leftarrow> shrink p m sz n;
     pool_run grow shrink p m ops
   }"

fun requested :: "pool_op \<Rightarrow> nat" where
  "requested (Try_grow sz n) = n"
| "requested (Shrink sz n) = 0"

text \<open>What Spark documents of \<open>acquireExecutionMemory\<close>: it returns the number of bytes granted, at most those required.\<close>

definition grants :: "'s acquire_fn \<Rightarrow> bool" where
  "grants acq \<longleftrightarrow> (\<forall>s n g s'. 0 \<le> sint n \<longrightarrow> acq s n = (Inr g, s') \<longrightarrow> 0 \<le> sint g \<and> sint g \<le> sint n)"

text \<open>
  The interface that an operator sees: a pool whose \<open>reserved\<close> moves by exactly the granted and released
  bytes, and whose account with the task memory manager moves with it, on errors as well.
\<close>

locale memory_pool =
  fixes try_grow :: "'s acquire_fn \<Rightarrow> 's release_fn \<Rightarrow> 'p \<Rightarrow> 's task_memory_manager \<Rightarrow> nat \<Rightarrow> nat \<Rightarrow>
      ((datafusion_error + unit) \<times> 'p \<times> 's task_memory_manager) option"
    and shrink :: "'s release_fn \<Rightarrow> 'p \<Rightarrow> 's task_memory_manager \<Rightarrow> nat \<Rightarrow> nat \<Rightarrow> ('p \<times> 's task_memory_manager) option"
    and reserved :: "'p \<Rightarrow> nat"
  assumes grow_ok: "grants acq \<Longrightarrow> n < 2 ^ 63 \<Longrightarrow> try_grow acq rel p m sz n = Some (Inr u, p', m') \<Longrightarrow>
      reserved p' = reserved p + n \<and> tm_used m' = tm_used m + of_nat n"
    and grow_err: "grants acq \<Longrightarrow> n < 2 ^ 63 \<Longrightarrow> reserved p + n < 2 ^ 64 \<Longrightarrow>
      try_grow acq rel p m sz n = Some (Inl e, p', m') \<Longrightarrow> p' = p \<and> tm_used m' = tm_used m"
    and shrink_ok: "shrink rel p m sz n = Some (p', m') \<Longrightarrow>
      reserved p = reserved p' + n \<and> tm_used m' = tm_used m - of_nat n"
begin

text \<open>The pool and the task memory manager agree on the bytes in use.\<close>

definition balanced :: "'p \<Rightarrow> 's task_memory_manager \<Rightarrow> bool" where
  "balanced p m \<longleftrightarrow> tm_used m = of_nat (reserved p)"

lemma balanced_grow:
  assumes "grants acq" and "n < 2 ^ 63" and "reserved p + n < 2 ^ 64"
    and "try_grow acq rel p m sz n = Some (res, p', m')" and "balanced p m"
  shows "balanced p' m' \<and> reserved p' \<le> reserved p + n"
proof (cases res)
  case (Inl e)
  from grow_err [OF assms(1-3), of rel m sz e p' m'] Inl assms(4,5) show ?thesis by (simp add: balanced_def)
next
  case (Inr u)
  from grow_ok [OF assms(1,2), of rel p m sz u p' m'] Inr assms(4,5) show ?thesis by (simp add: balanced_def)
qed

lemma balanced_shrink:
  assumes "shrink rel p m sz n = Some (p', m')" and "balanced p m"
  shows "balanced p' m' \<and> reserved p' \<le> reserved p"
  using shrink_ok [OF assms(1)] assms(2) by (simp add: balanced_def)

lemma run_balanced:
  assumes "grants acq" and "list_all (\<lambda>op. requested op < 2 ^ 63) ops"
    and "pool_run (try_grow acq rel) (shrink rel) p m ops = Some (p', m')"
    and "reserved p + sum_list (map requested ops) < 2 ^ 64" and "balanced p m"
  shows "balanced p' m'"
  using assms(2-5)
proof (induction ops arbitrary: p m)
  case (Cons op ops)
  show ?case
  proof (cases op)
    case (Try_grow sz n)
    with Cons.prems(2) obtain res q k where g: "try_grow acq rel p m sz n = Some (res, q, k)"
      and r: "pool_run (try_grow acq rel) (shrink rel) q k ops = Some (p', m')"
      by (auto simp: Option.bind_eq_Some_conv)
    have "n < 2 ^ 63" and "reserved p + n < 2 ^ 64" using Cons.prems(1,3) Try_grow by simp_all
    from balanced_grow [OF assms(1) this g Cons.prems(4)] have b: "balanced q k" "reserved q \<le> reserved p + n" by simp_all
    show ?thesis by (rule Cons.IH [OF _ r _ b(1)]) (use Cons.prems(1,3) Try_grow b(2) in simp_all)
  next
    case (Shrink sz n)
    with Cons.prems(2) obtain q k where g: "shrink rel p m sz n = Some (q, k)"
      and r: "pool_run (try_grow acq rel) (shrink rel) q k ops = Some (p', m')"
      by (auto simp: Option.bind_eq_Some_conv)
    from balanced_shrink [OF g Cons.prems(4)] have b: "balanced q k" "reserved q \<le> reserved p" by simp_all
    show ?thesis by (rule Cons.IH [OF _ r _ b(1)]) (use Cons.prems(1,3) Shrink b(2) in simp_all)
  qed
qed simp

end

lemma grant_exact:
  assumes "grants acq" and "n < 2 ^ 63" and "acq s (of_nat n) = (Inr g, s')" and "\<not> sint g < sint (of_nat n :: i64)"
  shows "unat g = n" and "g = of_nat n"
proof -
  have n: "sint (of_nat n :: i64) = int n"
    using assms(2) by (simp add: signed_of_nat signed_take_bit_int_eq_self)
  then have "sint g = sint (of_nat n :: i64)" using assms by (force simp: grants_def)
  then show "g = of_nat n" by (rule signed_word_eqI)
  moreover have "n < 2 ^ 64" by (rule less_trans [OF assms(2)]) simp
  ultimately show "unat g = n" by (simp add: unat_of_nat take_bit_nat_eq_self)
qed

lemma manager_used:
  "acquireMemory acq m n = (Inl e, m') \<Longrightarrow> tm_used m' = tm_used m"
  "acquireMemory acq m n = (Inr g, m') \<Longrightarrow> tm_used m' = tm_used m + g \<and> (\<exists>s s'. acq s n = (Inr g, s'))"
  "releaseMemory rel m n = (res, m') \<Longrightarrow> tm_used m' = tm_used m - n"
  by (auto simp: acquireMemory_def releaseMemory_def Let_def split: prod.splits sum.splits)

lemmas pool_cases = Option.bind_eq_Some_conv Let_def usub_def ensure_def

text \<open>Both pools keep the contract.\<close>

interpretation fair: memory_pool fair_try_grow fair_shrink fair_reserved
proof unfold_locales
  fix acq :: "'a acquire_fn" and rel p m sz n u p' m'
  assume "grants acq" "n < 2 ^ 63" "fair_try_grow acq rel p m sz n = Some (Inr u, p', m')"
  then show "fair_reserved p' = fair_reserved p + n \<and> tm_used m' = tm_used m + of_nat n"
    by (auto simp: fair_try_grow_def fair_reserved_def pool_cases split: if_splits prod.splits sum.splits
        dest!: manager_used(2) dest: grant_exact(2))
next
  fix acq :: "'a acquire_fn" and rel p m sz n e p' m'
  assume "fair_try_grow acq rel p m sz n = Some (Inl e, p', m')"
  then show "p' = p \<and> tm_used m' = tm_used m"
    by (auto simp: fair_try_grow_def pool_cases split: if_splits prod.splits sum.splits
        dest!: manager_used)
next
  fix rel :: "'a release_fn" and p m sz n p' m'
  assume "fair_shrink rel p m sz n = Some (p', m')"
  then show "fair_reserved p = fair_reserved p' + n \<and> tm_used m' = tm_used m - of_nat n"
    by (auto simp: fair_shrink_def fair_reserved_def pool_cases split: if_splits prod.splits sum.splits
        dest!: manager_used(3))
qed

interpretation unified: memory_pool unified_try_grow unified_shrink unified_reserved
proof unfold_locales
  fix acq :: "'a acquire_fn" and rel p m sz n u p' m'
  assume "grants acq" "n < 2 ^ 63" "unified_try_grow acq rel p m sz n = Some (Inr u, p', m')"
  then show "unified_reserved p' = unified_reserved p + n \<and> tm_used m' = tm_used m + of_nat n"
    by (auto simp: unified_try_grow_def unified_reserved_def pool_cases split: if_splits prod.splits sum.splits
        dest!: manager_used(2) dest: grant_exact)
next
  fix acq :: "'a acquire_fn" and rel p m sz n e p' m'
  assume "grants acq" "n < 2 ^ 63" "unified_reserved p + n < 2 ^ 64"
    "unified_try_grow acq rel p m sz n = Some (Inl e, p', m')"
  then show "p' = p \<and> tm_used m' = tm_used m"
    by (auto simp: unified_try_grow_def unified_reserved_def pool_cases split: if_splits prod.splits sum.splits
        dest!: manager_used dest: grant_exact(1))
next
  fix rel :: "'a release_fn" and p m sz n p' m'
  assume "unified_shrink rel p m sz n = Some (p', m')"
  then show "unified_reserved p = unified_reserved p' + n \<and> tm_used m' = tm_used m - of_nat n"
    by (auto simp: unified_shrink_def unified_reserved_def pool_cases split: if_splits prod.splits sum.splits
        dest!: manager_used(3))
qed

subsection \<open>Fair shares\<close>

text \<open>
  The reservations of a fixed set of registered consumers. A caller passes the size of its reservation, which
  the pool's answer then changes.
\<close>

inductive fair_client :: "'s acquire_fn \<Rightarrow> 's release_fn \<Rightarrow> fair_pool \<times> 's task_memory_manager \<times> nat list \<Rightarrow>
    fair_pool \<times> 's task_memory_manager \<times> nat list \<Rightarrow> bool" for acq rel where
  fc_granted: "i < length sizes \<Longrightarrow> fair_try_grow acq rel p m (sizes ! i) n = Some (Inr u, p', m') \<Longrightarrow>
    fair_client acq rel (p, m, sizes) (p', m', sizes[i := sizes ! i + n])"
| fc_refused: "i < length sizes \<Longrightarrow> fair_try_grow acq rel p m (sizes ! i) n = Some (Inl e, p', m') \<Longrightarrow>
    fair_client acq rel (p, m, sizes) (p', m', sizes)"
| fc_shrink: "i < length sizes \<Longrightarrow> fair_shrink rel p m (sizes ! i) n = Some (p', m') \<Longrightarrow>
    fair_client acq rel (p, m, sizes) (p', m', sizes[i := sizes ! i - n])"

definition fair_inv :: "fair_pool \<Rightarrow> nat list \<Rightarrow> bool" where
  "fair_inv p sizes \<longleftrightarrow> length sizes = fp_num p \<and> fp_used p = sum_list sizes \<and>
     list_all (\<lambda>s. s \<le> fp_pool_size p div fp_num p) sizes"

lemma fair_try_grow_cases:
  assumes "fair_try_grow acq rel p m sz n = Some (res, p', m')"
  shows "p' = p \<and> (\<exists>e. res = Inl e) \<or> res = Inr () \<and> p' = p\<lparr>fp_used := fp_used p + n\<rparr> \<and> (n > 0 \<longrightarrow> sz + n \<le> fp_pool_size p div fp_num p)"
  using assms by (auto simp: fair_try_grow_def pool_cases split: if_splits prod.splits sum.splits)

lemma sum_list_update_add: "i < length xs \<Longrightarrow> sum_list (xs[i := xs ! i + n]) = sum_list xs + (n :: nat)"
  by (simp add: sum_list_update elem_le_sum_list)

lemma sum_list_update_diff:
  "i < length xs \<Longrightarrow> n \<le> xs ! i \<Longrightarrow> sum_list (xs[i := xs ! i - n]) = sum_list xs - (n :: nat)"
  using elem_le_sum_list [of i xs] by (simp add: sum_list_update)

lemma fair_inv_step:
  assumes "fair_client acq rel (p, m, sizes) (p', m', sizes')" and "fair_inv p sizes"
  shows "fair_inv p' sizes' \<and> fp_pool_size p' = fp_pool_size p \<and> fp_num p' = fp_num p"
  using assms(1)
proof cases
  case (fc_granted i n u)
  have le: "sizes ! i \<le> fp_pool_size p div fp_num p" using assms(2) fc_granted(2) by (auto simp: fair_inv_def list_all_length)
  from fair_try_grow_cases [OF fc_granted(3)] have p': "p' = p\<lparr>fp_used := fp_used p + n\<rparr>"
    and "sizes ! i + n \<le> fp_pool_size p div fp_num p" using le by auto
  with assms(2) fc_granted(1,2) show ?thesis
    by (auto simp: fair_inv_def sum_list_update_add list_all_length nth_list_update)
next
  case (fc_refused i n e)
  with fair_try_grow_cases [OF fc_refused(3)] assms(2) show ?thesis by auto
next
  case (fc_shrink i n)
  then have "n \<le> sizes ! i" and "p' = p\<lparr>fp_used := fp_used p - n\<rparr>"
    by (auto simp: fair_shrink_def pool_cases split: if_splits prod.splits sum.splits)
  with assms(2) fc_shrink(1,2) show ?thesis
    by (auto simp: fair_inv_def sum_list_update_diff list_all_length nth_list_update intro: le_trans diff_le_self)
qed

lemma fair_inv_steps:
  assumes "(fair_client acq rel)\<^sup>*\<^sup>* (p, m, sizes) (p', m', sizes')" and "fair_inv p sizes"
  shows "fair_inv p' sizes' \<and> fp_pool_size p' = fp_pool_size p \<and> fp_num p' = fp_num p"
  using assms(1)
proof (induction rule: rtranclp_induct2 [of "fair_client acq rel", split_format (complete), consumes 1, case_names refl step])
  case refl
  show ?case using assms(2) by simp
qed (use fair_inv_step in fastforce)

lemma fair_inv_total: "fair_inv p sizes \<Longrightarrow> fp_used p \<le> fp_pool_size p"
proof -
  assume inv: "fair_inv p sizes"
  have "list_all (\<lambda>s. s \<le> c) xs \<Longrightarrow> sum_list xs \<le> length xs * c" for c and xs :: "nat list"
    by (induction xs) auto
  from this [of "fp_pool_size p div fp_num p" sizes] inv
  have "fp_used p \<le> fp_num p * (fp_pool_size p div fp_num p)" by (simp add: fair_inv_def)
  also have "\<dots> \<le> fp_pool_size p" by simp
  finally show ?thesis .
qed

subsection \<open>Configuration\<close>

datatype memory_pool_type =
    GreedyUnified | FairUnified | Greedy | FairSpill | GreedyTaskShared | FairSpillTaskShared
  | GreedyGlobal | FairSpillGlobal | Unbounded

definition is_task_shared :: "memory_pool_type \<Rightarrow> bool" where
  "is_task_shared t \<longleftrightarrow> t = GreedyTaskShared \<or> t = FairSpillTaskShared"

record memory_pool_config =
  pool_type :: memory_pool_type
  pool_size :: nat

definition MemoryPoolConfig_new :: "memory_pool_type \<Rightarrow> nat \<Rightarrow> memory_pool_config" where
  "MemoryPoolConfig_new t sz = \<lparr>pool_type = t, pool_size = sz\<rparr>"

text \<open>\<open>as usize\<close> of an \<open>i64\<close> keeps the bits.\<close>

definition parse_memory_pool_config :: "bool \<Rightarrow> string \<Rightarrow> i64 \<Rightarrow> i64 \<Rightarrow> comet_error + memory_pool_config" where
  "parse_memory_pool_config off_heap_mode memory_pool_type memory_limit memory_limit_per_task =
     (let pool_size = unat memory_limit in
      if off_heap_mode then
        (if memory_pool_type = ''default'' \<or> memory_pool_type = ''fair_unified''
         then Inr (MemoryPoolConfig_new FairUnified pool_size)
         else if memory_pool_type = ''greedy_unified'' then Inr (MemoryPoolConfig_new GreedyUnified 0)
         else Inl (Config (''Unsupported memory pool type for off-heap mode: '' @ memory_pool_type)))
      else
        (let pool_size_per_task = unat memory_limit_per_task in
         if memory_pool_type = ''fair_spill_task_shared''
         then Inr (MemoryPoolConfig_new FairSpillTaskShared pool_size_per_task)
         else if memory_pool_type = ''default'' \<or> memory_pool_type = ''greedy_task_shared''
         then Inr (MemoryPoolConfig_new GreedyTaskShared pool_size_per_task)
         else if memory_pool_type = ''fair_spill_global'' then Inr (MemoryPoolConfig_new FairSpillGlobal pool_size)
         else if memory_pool_type = ''greedy_global'' then Inr (MemoryPoolConfig_new GreedyGlobal pool_size)
         else if memory_pool_type = ''fair_spill'' then Inr (MemoryPoolConfig_new FairSpill pool_size_per_task)
         else if memory_pool_type = ''greedy'' then Inr (MemoryPoolConfig_new Greedy pool_size_per_task)
         else if memory_pool_type = ''unbounded'' then Inr (MemoryPoolConfig_new Unbounded 0)
         else Inl (Config (''Unsupported memory pool type for on-heap mode: '' @ memory_pool_type))))"

subsection \<open>Creating and releasing pools\<close>

text \<open>
  The pools that are built; those of DataFusion by the arguments of their constructors. An \<open>Arc\<close> is the
  number of the allocation it points to, so that shared pools can be told from equal ones.
\<close>

datatype inner_pool = Unified unified_pool | Fair fair_pool | GreedyMemoryPool nat | FairSpillPool nat

datatype built_pool = TrackConsumersPool inner_pool nat | UnboundedMemoryPool

type_synonym arc_pool = "nat \<times> built_pool"

record per_task_memory_pool =
  pt_memory_pool :: arc_pool
  pt_num_plans :: nat

record pool_globals =
  pg_next :: nat
  pg_greedy :: "arc_pool option"
  pg_fair :: "arc_pool option"
  pg_tasks :: "i64 \<rightharpoonup> per_task_memory_pool"

definition NUM_TRACKED_CONSUMERS :: nat where
  "NUM_TRACKED_CONSUMERS = 10"

definition PerTaskMemoryPool_new :: "arc_pool \<Rightarrow> per_task_memory_pool" where
  "PerTaskMemoryPool_new pool = \<lparr>pt_memory_pool = pool, pt_num_plans = 0\<rparr>"

definition arc_new :: "pool_globals \<Rightarrow> built_pool \<Rightarrow> arc_pool \<times> pool_globals" where
  "arc_new g pool = ((pg_next g, pool), g\<lparr>pg_next := pg_next g + 1\<rparr>)"

definition create_memory_pool :: "pool_globals \<Rightarrow> memory_pool_config \<Rightarrow> i64 \<Rightarrow> arc_pool \<times> pool_globals" where
  "create_memory_pool g cfg task_attempt_id =
     (let track = (\<lambda>pool. TrackConsumersPool pool NUM_TRACKED_CONSUMERS) in
      case pool_type cfg of
        GreedyUnified \<Rightarrow> arc_new g (track (Unified (unified_new task_attempt_id)))
      | FairUnified \<Rightarrow> arc_new g (track (Fair (fair_new (pool_size cfg))))
      | Greedy \<Rightarrow> arc_new g (track (GreedyMemoryPool (pool_size cfg)))
      | FairSpill \<Rightarrow> arc_new g (track (FairSpillPool (pool_size cfg)))
      | GreedyGlobal \<Rightarrow>
          (case pg_greedy g of
             Some pool \<Rightarrow> (pool, g)
           | None \<Rightarrow>
               let (pool, g) = arc_new g (track (GreedyMemoryPool (pool_size cfg)))
               in (pool, g\<lparr>pg_greedy := Some pool\<rparr>))
      | FairSpillGlobal \<Rightarrow>
          (case pg_fair g of
             Some pool \<Rightarrow> (pool, g)
           | None \<Rightarrow>
               let (pool, g) = arc_new g (track (FairSpillPool (pool_size cfg)))
               in (pool, g\<lparr>pg_fair := Some pool\<rparr>))
      | Unbounded \<Rightarrow> arc_new g UnboundedMemoryPool
      | _ \<Rightarrow>
          let (entry, g) =
            (case pg_tasks g task_attempt_id of
               Some entry \<Rightarrow> (entry, g)
             | None \<Rightarrow>
                 let (pool, g) = arc_new g
                   (if pool_type cfg = GreedyTaskShared then track (GreedyMemoryPool (pool_size cfg))
                    else track (FairSpillPool (pool_size cfg)))
                 in (PerTaskMemoryPool_new pool, g))
          in (pt_memory_pool entry,
              g\<lparr>pg_tasks := (pg_tasks g)(task_attempt_id \<mapsto> entry\<lparr>pt_num_plans := pt_num_plans entry + 1\<rparr>)\<rparr>))"

definition handle_task_shared_pool_release :: "pool_globals \<Rightarrow> memory_pool_type \<Rightarrow> i64 \<Rightarrow> pool_globals option" where
  "handle_task_shared_pool_release g t task_attempt_id =
     (if \<not> is_task_shared t then Some g
      else
        (case pg_tasks g task_attempt_id of
           None \<Rightarrow> Some g
         | Some entry \<Rightarrow> do {
             n \<leftarrow> usub (pt_num_plans entry) 1;
             if n = 0 then Some (g\<lparr>pg_tasks := (pg_tasks g)(task_attempt_id := None)\<rparr>)
             else Some (g\<lparr>pg_tasks := (pg_tasks g)(task_attempt_id \<mapsto> entry\<lparr>pt_num_plans := n\<rparr>)\<rparr>)
           }))"

subsection \<open>The reference count of a task's pool\<close>

text \<open>
  Native plans come and go: a plan is the pool type of its configuration, its task and the pool it was given.
\<close>

type_synonym native_plan = "memory_pool_type \<times> i64 \<times> arc_pool"

definition no_pools :: pool_globals where
  "no_pools = \<lparr>pg_next = 0, pg_greedy = None, pg_fair = None, pg_tasks = Map.empty\<rparr>"

inductive plan_step :: "pool_globals \<times> native_plan list \<Rightarrow> pool_globals \<times> native_plan list \<Rightarrow> bool" where
  plan_created: "create_memory_pool g cfg t = (pool, g') \<Longrightarrow>
    plan_step (g, plans) (g', (pool_type cfg, t, pool) # plans)"
| plan_released: "(ty, t, pool) \<in> set plans \<Longrightarrow> handle_task_shared_pool_release g ty t = Some g' \<Longrightarrow>
    plan_step (g, plans) (g', remove1 (ty, t, pool) plans)"

definition task_plans :: "native_plan list \<Rightarrow> i64 \<Rightarrow> native_plan list" where
  "task_plans plans t = filter (\<lambda>(ty, t', pool). is_task_shared ty \<and> t' = t) plans"

text \<open>The entry of a task is there exactly while it has plans, counts them, and is the pool they all use.\<close>

fun entry_ok :: "per_task_memory_pool option \<Rightarrow> native_plan list \<Rightarrow> bool" where
  "entry_ok None ps \<longleftrightarrow> ps = []"
| "entry_ok (Some e) ps \<longleftrightarrow> pt_num_plans e = length ps \<and> ps \<noteq> [] \<and>
     list_all (\<lambda>(ty, t, pool). pool = pt_memory_pool e) ps"

definition pools_inv :: "pool_globals \<Rightarrow> native_plan list \<Rightarrow> bool" where
  "pools_inv g plans \<longleftrightarrow> (\<forall>t. entry_ok (pg_tasks g t) (task_plans plans t))"

lemma task_plans_simps:
  "task_plans [] t = []"
  "task_plans ((ty, t', pool) # plans) t =
     (if is_task_shared ty \<and> t' = t then (ty, t', pool) # task_plans plans t else task_plans plans t)"
  "task_plans (remove1 (ty, t', pool) plans) t = remove1 (ty, t', pool) (task_plans plans t)"
  by (simp_all add: task_plans_def filter_remove1)

lemma task_plans_remove_other:
  "\<not> (is_task_shared ty \<and> t' = t) \<Longrightarrow> task_plans (remove1 (ty, t', pool) plans) t = task_plans plans t"
  unfolding task_plans_simps by (rule remove1_idem) (auto simp: task_plans_def)

lemma create_not_shared:
  "\<not> is_task_shared (pool_type cfg) \<Longrightarrow> create_memory_pool g cfg t = (pool, g') \<Longrightarrow> pg_tasks g' = pg_tasks g"
  by (auto simp: create_memory_pool_def arc_new_def is_task_shared_def Let_def
      split: memory_pool_type.splits option.splits)

lemma create_shared:
  assumes "is_task_shared (pool_type cfg)" and "create_memory_pool g cfg t = (pool, g')"
  shows "\<exists>e. pg_tasks g' = (pg_tasks g)(t \<mapsto> e) \<and> pt_memory_pool e = pool \<and>
    (case pg_tasks g t of None \<Rightarrow> pt_num_plans e = 1
     | Some d \<Rightarrow> pt_memory_pool d = pool \<and> pt_num_plans e = pt_num_plans d + 1)"
  using assms by (auto simp: create_memory_pool_def arc_new_def is_task_shared_def PerTaskMemoryPool_new_def Let_def
      split: memory_pool_type.splits option.splits)

lemma pools_inv_create:
  assumes "pools_inv g plans" and "create_memory_pool g cfg t = (pool, g')"
  shows "pools_inv g' ((pool_type cfg, t, pool) # plans)"
proof (cases "is_task_shared (pool_type cfg)")
  case False
  then show ?thesis using assms create_not_shared [OF False assms(2)] by (simp add: pools_inv_def task_plans_simps)
next
  case True
  obtain e where e: "pg_tasks g' = (pg_tasks g)(t \<mapsto> e)" "pt_memory_pool e = pool"
    "case pg_tasks g t of None \<Rightarrow> pt_num_plans e = 1
     | Some d \<Rightarrow> pt_memory_pool d = pool \<and> pt_num_plans e = pt_num_plans d + 1"
    using create_shared [OF True assms(2)] by blast
  have "entry_ok (pg_tasks g' s) (task_plans ((pool_type cfg, t, pool) # plans) s)" for s
  proof -
    have "entry_ok (pg_tasks g s) (task_plans plans s)" using assms(1) by (simp add: pools_inv_def)
    with e True show ?thesis by (cases "pg_tasks g s") (auto simp: task_plans_simps)
  qed
  then show ?thesis by (simp add: pools_inv_def)
qed

lemma pools_inv_release:
  assumes "pools_inv g plans" and "(ty, t, pool) \<in> set plans"
  shows "\<exists>g'. handle_task_shared_pool_release g ty t = Some g' \<and> pools_inv g' (remove1 (ty, t, pool) plans)"
proof (cases "is_task_shared ty")
  case False
  then show ?thesis using assms(1)
    by (simp add: handle_task_shared_pool_release_def pools_inv_def task_plans_remove_other)
next
  case True
  then have mem: "(ty, t, pool) \<in> set (task_plans plans t)" using assms(2) by (simp add: task_plans_def)
  have "entry_ok (pg_tasks g t) (task_plans plans t)" using assms(1) by (simp add: pools_inv_def)
  with mem obtain e where e: "pg_tasks g t = Some e" "pt_num_plans e = length (task_plans plans t)"
    "list_all (\<lambda>(ty, t', pool). pool = pt_memory_pool e) (task_plans plans t)"
    by (cases "pg_tasks g t") auto
  let ?n = "pt_num_plans e - 1" and ?left = "remove1 (ty, t, pool) (task_plans plans t)"
  define g' where "g' = (if ?n = 0 then g\<lparr>pg_tasks := (pg_tasks g)(t := None)\<rparr>
    else g\<lparr>pg_tasks := (pg_tasks g)(t \<mapsto> e\<lparr>pt_num_plans := ?n\<rparr>)\<rparr>)"
  have "1 \<le> pt_num_plans e" using e(2) mem by (cases "task_plans plans t") auto
  then have rel: "handle_task_shared_pool_release g ty t = Some g'"
    using True e(1) by (simp add: handle_task_shared_pool_release_def g'_def usub_Some)
  have "length ?left = ?n" using e(2) mem by (simp add: length_remove1)
  moreover have "list_all (\<lambda>(ty, t', pool). pool = pt_memory_pool e) ?left"
    using e(3) unfolding list_all_iff by (meson notin_set_remove1)
  ultimately have here: "entry_ok (pg_tasks g' t) ?left" by (auto simp: g'_def)
  have "entry_ok (pg_tasks g' s) (task_plans (remove1 (ty, t, pool) plans) s)" for s
  proof (cases "s = t")
    case True
    with here show ?thesis by (simp only: task_plans_simps)
  next
    case False
    then have "pg_tasks g' s = pg_tasks g s" by (simp add: g'_def)
    with False assms(1) show ?thesis by (simp add: task_plans_remove_other pools_inv_def)
  qed
  with rel show ?thesis by (auto simp: pools_inv_def)
qed

lemma pools_inv_steps:
  assumes "plan_step\<^sup>*\<^sup>* (no_pools, []) (g, plans)"
  shows "pools_inv g plans"
  using assms
proof (induction rule: rtranclp_induct2)
  case refl
  show ?case by (simp add: pools_inv_def no_pools_def task_plans_simps)
next
  case (step g plans g' plans')
  from step.hyps(2) show ?case
  proof cases
    case (plan_created cfg t pool)
    with pools_inv_create step.IH show ?thesis by blast
  next
    case (plan_released ty t pool)
    with pools_inv_release [OF step.IH] show ?thesis by fastforce
  qed
qed

subsection \<open>Properties\<close>

text \<open>
  C28. Accounting: after any sequence of requests and releases, on the fair pool or the unified pool, the bytes
  the pool calls reserved are the bytes that the task memory manager has charged to it. Refused requests and
  failing calls are part of the sequence.
\<close>

theorem pools_balanced:
  assumes "grants acq" and "list_all (\<lambda>op. requested op < 2 ^ 63) ops" and "sum_list (map requested ops) < 2 ^ 64"
    and "tm_used m = 0" and "fp_used p = 0"
  shows "(\<forall>p' m'. pool_run (fair_try_grow acq rel) (fair_shrink rel) p m ops = Some (p', m') \<longrightarrow>
      tm_used m' = of_nat (fair_reserved p')) \<and>
    (\<forall>u' m'. pool_run (unified_try_grow acq rel) (unified_shrink rel) (unified_new t) m ops = Some (u', m') \<longrightarrow>
      tm_used m' = of_nat (unified_reserved u'))"
  using fair.run_balanced [OF assms(1,2), of rel p m] unified.run_balanced [OF assms(1,2), of rel "unified_new t" m]
    assms(3-5) by (simp add: fair.balanced_def unified.balanced_def fair_reserved_def unified_reserved_def unified_new_def)

theorem pools_balanced_witness:
  "\<exists>u m. pool_run (unified_try_grow (\<lambda>s n. (Inr n, s)) (\<lambda>s n. (Inr (), s))) (unified_shrink (\<lambda>s n. (Inr (), s)))
      (unified_new 7) \<lparr>tm_used = 0, tm_internal = ()\<rparr> [Try_grow 0 100, Shrink 100 40] = Some (u, m) \<and>
    tm_used m = of_nat (unified_reserved u) \<and> unified_reserved u = 60"
proof -
  let ?acq = "\<lambda>(s :: unit) (n :: i64). (Inr n :: comet_error + i64, s)"
  let ?rel = "\<lambda>(s :: unit) (n :: i64). (Inr () :: comet_error + unit, s)"
  let ?m = "\<lparr>tm_used = 0, tm_internal = ()\<rparr>" and ?ops = "[Try_grow 0 100, Shrink 100 40]"
  have g: "grants ?acq" by (simp add: grants_def)
  have run: "pool_run (unified_try_grow ?acq ?rel) (unified_shrink ?rel) (unified_new 7) ?m ?ops =
      Some (\<lparr>up_used = 60, up_task_attempt_id = 7\<rparr>, \<lparr>tm_used = 60, tm_internal = ()\<rparr>)"
    by (simp add: unified_try_grow_def unified_shrink_def acquireMemory_def releaseMemory_def unified_new_def usub_def)
  have "tm_used \<lparr>tm_used = 60, tm_internal = ()\<rparr> = of_nat (unified_reserved \<lparr>up_used = 60, up_task_attempt_id = 7\<rparr>)"
    using pools_balanced [OF g, of ?ops ?m "fair_new 0" ?rel 7] run by (simp add: fair_new_def)
  with run show ?thesis by (auto simp: unified_reserved_def)
qed

text \<open>
  C29. Fair shares: while the set of registered consumers stays the same, no sequence of granted, refused and
  returned requests takes a consumer above its share of the pool, and the pool never hands out more than its size.
\<close>

theorem fair_pool_bounded:
  assumes "(fair_client acq rel)\<^sup>*\<^sup>* (p, m, replicate (fp_num p) 0) (p', m', sizes)" and "fp_used p = 0"
  shows "fair_reserved p' = sum_list sizes \<and> fair_reserved p' \<le> fp_pool_size p \<and>
    list_all (\<lambda>s. s \<le> fp_pool_size p div fp_num p) sizes"
proof -
  have "fair_inv p (replicate (fp_num p) 0)" using assms(2) by (simp add: fair_inv_def list_all_iff sum_list_replicate)
  from fair_inv_steps [OF assms(1) this] fair_inv_total [of p' sizes] show ?thesis
    by (auto simp: fair_inv_def fair_reserved_def)
qed

theorem fair_pool_bounded_witness:
  "\<exists>p' m'. fair_try_grow (\<lambda>s n. (Inr n, s)) (\<lambda>s n. (Inr (), s)) ((fair_new 100)\<lparr>fp_num := 2\<rparr>)
      \<lparr>tm_used = 0, tm_internal = ()\<rparr> 0 50 = Some (Inr (), p', m') \<and> fair_reserved p' = sum_list [50, 0] \<and> fair_reserved p' \<le> 100"
proof -
  let ?acq = "\<lambda>(s :: unit) (n :: i64). (Inr n :: comet_error + i64, s)"
  let ?rel = "\<lambda>(s :: unit) (n :: i64). (Inr () :: comet_error + unit, s)"
  let ?p = "(fair_new 100)\<lparr>fp_num := 2\<rparr>" and ?m = "\<lparr>tm_used = 0, tm_internal = ()\<rparr>"
  let ?p' = "\<lparr>fp_pool_size = 100, fp_used = 50, fp_num = 2\<rparr>" and ?m' = "\<lparr>tm_used = 50, tm_internal = ()\<rparr>"
  have r: "fair_try_grow ?acq ?rel ?p ?m 0 50 = Some (Inr (), ?p', ?m')"
    by (simp add: fair_try_grow_def acquireMemory_def fair_new_def)
  have "fair_client ?acq ?rel (?p, ?m, replicate 2 0) (?p', ?m', (replicate 2 0)[0 := replicate 2 0 ! 0 + 50])"
    by (rule fc_granted) (use r in \<open>simp_all\<close>)
  then have "(fair_client ?acq ?rel)\<^sup>*\<^sup>* (?p, ?m, replicate (fp_num ?p) 0) (?p', ?m', [50, 0])"
    by (simp add: r_into_rtranclp eval_nat_numeral)
  from fair_pool_bounded [OF this] r show ?thesis by (auto simp: fair_new_def)
qed


text \<open>
  C30. The pool of a task lives exactly as long as a plan uses it: in every state that creating and releasing
  plans can reach, a task has an entry if and only if it has live plans with a shared pool, the entry counts
  them, all of them hold this one pool, and releasing any of them does not panic.
\<close>

theorem task_pool_refcount:
  assumes "plan_step\<^sup>*\<^sup>* (no_pools, []) (g, plans)"
  shows "entry_ok (pg_tasks g t) (task_plans plans t) \<and>
    list_all (\<lambda>(ty, t, pool). handle_task_shared_pool_release g ty t \<noteq> None) plans"
proof -
  have "handle_task_shared_pool_release g ty t \<noteq> None" if "(ty, t, pool) \<in> set plans" for ty t pool
    using pools_inv_release [OF pools_inv_steps [OF assms] that] by auto
  with pools_inv_steps [OF assms] show ?thesis by (auto simp: pools_inv_def list_all_iff)
qed

theorem task_pool_refcount_witness:
  "\<exists>g plans. plan_step\<^sup>*\<^sup>* (no_pools, []) (g, plans) \<and> length plans = 2 \<and>
    entry_ok (pg_tasks g 5) (task_plans plans 5) \<and> map_option pt_num_plans (pg_tasks g 5) = Some 2"
proof -
  let ?cfg = "MemoryPoolConfig_new GreedyTaskShared 1000"
  obtain a g where a: "create_memory_pool no_pools ?cfg 5 = (a, g)" by (cases "create_memory_pool no_pools ?cfg 5")
  obtain b h where b: "create_memory_pool g ?cfg 5 = (b, h)" by (cases "create_memory_pool g ?cfg 5")
  let ?plans = "[(pool_type ?cfg, 5, b), (pool_type ?cfg, 5, a)]"
  have "plan_step\<^sup>*\<^sup>* (no_pools, []) (g, [(pool_type ?cfg, 5, a)])"
    using plan_created [OF a] by (rule r_into_rtranclp)
  then have st: "plan_step\<^sup>*\<^sup>* (no_pools, []) (h, ?plans)"
    using plan_created [OF b] by (rule rtranclp.rtrancl_into_rtrancl)
  have "entry_ok (pg_tasks h 5) (task_plans ?plans 5)" using task_pool_refcount [OF st] by simp
  moreover from this have "map_option pt_num_plans (pg_tasks h 5) = Some 2"
    by (cases "pg_tasks h 5") (simp_all add: task_plans_simps MemoryPoolConfig_new_def is_task_shared_def)
  ultimately show ?thesis using st by (intro exI [of _ h] exI [of _ ?plans]) simp
qed

end
