(* ===== verification/Bloom_Filter.thy ===== *)
theory Bloom_Filter
  imports Spark_Hash
begin

text \<open>
  The Bloom filter of \<open>native/spark-expr/src/bloom_filter\<close>: the bit array, the filter with its two hash
  loops, Spark's binary format, merging, and the accumulator that fills a filter from a column. A panic
  is \<open>None\<close>. Words are stored little-endian in memory.
\<close>

subsection \<open>\<open>SparkBitArray\<close>\<close>

record spark_bit_array =
  ba_data :: "u64 list"
  ba_bit_count :: nat

definition count_ones :: "u64 \<Rightarrow> nat" where
  "count_ones x = length (filter (bit x) [0..<64])"

definition ba_new :: "u64 list \<Rightarrow> spark_bit_array" where
  "ba_new buf = \<lparr>ba_data = buf, ba_bit_count = sum_list (map count_ones buf)\<rparr>"

definition ba_get :: "spark_bit_array \<Rightarrow> nat \<Rightarrow> bool option" where
  "ba_get a i = do {
     w \<leftarrow> index (ba_data a) (i div 64);
     Some (w AND shl 1 (i mod 64) \<noteq> 0)
   }"

definition ba_set :: "spark_bit_array \<Rightarrow> nat \<Rightarrow> (bool \<times> spark_bit_array) option" where
  "ba_set a i = do {
     b \<leftarrow> ba_get a i;
     if \<not> b then do {
       w \<leftarrow> index (ba_data a) (i div 64);
       data \<leftarrow> update (ba_data a) (i div 64) (w OR shl 1 (i mod 64));
       Some (True, a\<lparr>ba_data := data, ba_bit_count := ba_bit_count a + 1\<rparr>)
     } else Some (False, a)
   }"

definition word_size :: "spark_bit_array \<Rightarrow> nat" where
  "word_size a = length (ba_data a)"

definition bit_size :: "spark_bit_array \<Rightarrow> nat" where
  "bit_size a = word_size a * 64"

definition byte_size :: "spark_bit_array \<Rightarrow> nat" where
  "byte_size a = word_size a * 8"

definition cardinality :: "spark_bit_array \<Rightarrow> nat" where
  "cardinality a = ba_bit_count a"

definition ba_to_bytes :: "spark_bit_array \<Rightarrow> u8 list" where
  "ba_to_bytes a = concat (map le_bytes (ba_data a))"

text \<open>The zipped loop of \<open>merge_bits\<close> over the words and the chunks of eight bytes.\<close>

fun merge_words :: "u64 list \<Rightarrow> u8 list \<Rightarrow> u64 list" where
  "merge_words (w # ws) other = (w OR le_word (take 8 other)) # merge_words ws (drop 8 other)"
| "merge_words [] other = []"

definition merge_bits :: "spark_bit_array \<Rightarrow> u8 list \<Rightarrow> spark_bit_array option" where
  "merge_bits a other = do {
     ensure (byte_size a = length other);
     let data = merge_words (ba_data a) other;
     Some \<lparr>ba_data = data, ba_bit_count = sum_list (map count_ones data)\<rparr>
   }"

definition num_words :: "nat \<Rightarrow> nat" where
  "num_words num_bits = div_ceil num_bits 64"

subsection \<open>\<open>SparkBloomFilter\<close>\<close>

definition SPARK_BLOOM_FILTER_VERSION_1 :: u32 where
  "SPARK_BLOOM_FILTER_VERSION_1 = 1"

record spark_bloom_filter =
  bf_bits :: spark_bit_array
  bf_num_hash_functions :: u32

text \<open>From the number of hash functions and the number of bits; a negative number of bits is too large to allocate.\<close>

definition bloom_from_sizes :: "u32 \<Rightarrow> u32 \<Rightarrow> spark_bloom_filter option" where
  "bloom_from_sizes num_hash_functions num_bits = do {
     ensure (0 \<le> sint num_bits);
     let num_words = num_words (nat (sint num_bits));
     let bits = replicate num_words 0;
     Some \<lparr>bf_bits = ba_new bits, bf_num_hash_functions = num_hash_functions\<rparr>
   }"

text \<open>\<open>read_num_be_bytes!\<close> with the size of the type.\<close>

definition read_num_be_bytes :: "u8 list \<Rightarrow> 'a::len word option" where
  "read_num_be_bytes src = do {
     ensure (LENGTH('a) div 8 \<le> length src);
     Some (le_word (rev (take (LENGTH('a) div 8) src)))
   }"

fun read_be_words :: "nat \<Rightarrow> u8 list \<Rightarrow> nat \<Rightarrow> u64 list option" where
  "read_be_words 0 buf offset = Some []"
| "read_be_words (Suc n) buf offset = do {
     s \<leftarrow> slice_from buf offset;
     w \<leftarrow> read_num_be_bytes s;
     ws \<leftarrow> read_be_words n buf (offset + 8);
     Some (w # ws)
   }"

definition bloom_from_bytes :: "u8 list \<Rightarrow> spark_bloom_filter option" where
  "bloom_from_bytes buf = do {
     let offset = 0;
     s \<leftarrow> slice_from buf offset;
     version \<leftarrow> read_num_be_bytes s;
     let offset = offset + 4;
     ensure (version = SPARK_BLOOM_FILTER_VERSION_1);
     s \<leftarrow> slice_from buf offset;
     num_hash_functions \<leftarrow> read_num_be_bytes s;
     let offset = offset + 4;
     s \<leftarrow> slice_from buf offset;
     num_words \<leftarrow> (read_num_be_bytes s :: u32 option);
     let offset = offset + 4;
     ensure (0 \<le> sint num_words);
     bits \<leftarrow> read_be_words (nat (sint num_words)) buf offset;
     Some \<lparr>bf_bits = ba_new bits, bf_num_hash_functions = num_hash_functions\<rparr>
   }"

definition be_bytes :: "'a::len word \<Rightarrow> u8 list" where
  "be_bytes w = rev (le_bytes w)"

definition spark_serialization :: "spark_bloom_filter \<Rightarrow> u8 list" where
  "spark_serialization f =
     be_bytes (1 :: u32) @ be_bytes (bf_num_hash_functions f) @
     be_bytes (of_nat (word_size (bf_bits f)) :: u32) @
     concat (map be_bytes (ba_data (bf_bits f)))"

text \<open>
  The position that hash function \<open>i\<close> selects: \<open>h1 + i * h2\<close> as \<open>i32\<close>, complemented when negative, modulo the
  size as \<open>i32\<close>. The first operand of \<open>%\<close> is not negative.
\<close>

definition combined_index :: "u32 \<Rightarrow> u32 \<Rightarrow> u32 \<Rightarrow> nat \<Rightarrow> nat option" where
  "combined_index h1 h2 bsize i = do {
     let combined_hash = h1 + of_nat i * h2;
     let combined_hash = (if sint combined_hash < 0 then NOT combined_hash else combined_hash);
     ensure (bsize \<noteq> 0);
     Some (nat (sint combined_hash mod \<bar>sint bsize\<bar>))
   }"

text \<open>\<open>for i in 1..=self.num_hash_functions\<close>, over the numbers still to come.\<close>

fun put_loop :: "('b \<Rightarrow> nat \<Rightarrow> (bool \<times> 'b) option) \<Rightarrow> u32 \<Rightarrow> u32 \<Rightarrow> u32 \<Rightarrow> nat list \<Rightarrow> 'b \<Rightarrow> bool \<Rightarrow> (bool \<times> 'b) option" where
  "put_loop st h1 h2 bsize [] bits bit_changed = Some (bit_changed, bits)"
| "put_loop st h1 h2 bsize (i # is) bits bit_changed = do {
     idx \<leftarrow> combined_index h1 h2 bsize i;
     (c, bits) \<leftarrow> st bits idx;
     put_loop st h1 h2 bsize is bits (bit_changed \<or> c)
   }"

fun contain_loop :: "('b \<Rightarrow> nat \<Rightarrow> bool option) \<Rightarrow> u32 \<Rightarrow> u32 \<Rightarrow> u32 \<Rightarrow> nat list \<Rightarrow> 'b \<Rightarrow> bool option" where
  "contain_loop gt h1 h2 bsize [] bits = Some True"
| "contain_loop gt h1 h2 bsize (i # is) bits = do {
     idx \<leftarrow> combined_index h1 h2 bsize i;
     b \<leftarrow> gt bits idx;
     if \<not> b then Some False else contain_loop gt h1 h2 bsize is bits
   }"

definition hash_numbers :: "spark_bloom_filter \<Rightarrow> nat list" where
  "hash_numbers f = [1..<unat (bf_num_hash_functions f) + 1]"

definition put_binary :: "spark_bloom_filter \<Rightarrow> u8 list \<Rightarrow> (bool \<times> spark_bloom_filter) option" where
  "put_binary f item = do {
     let h1 = spark_compatible_murmur3_hash item 0;
     let h2 = spark_compatible_murmur3_hash item h1;
     let bsize = (of_nat (bit_size (bf_bits f)) :: u32);
     (bit_changed, bits) \<leftarrow> put_loop ba_set h1 h2 bsize (hash_numbers f) (bf_bits f) False;
     Some (bit_changed, f\<lparr>bf_bits := bits\<rparr>)
   }"

definition put_long :: "spark_bloom_filter \<Rightarrow> u64 \<Rightarrow> (bool \<times> spark_bloom_filter) option" where
  "put_long f item = do {
     let h1 = spark_compatible_murmur3_hash (le_bytes item) 0;
     let h2 = spark_compatible_murmur3_hash (le_bytes item) h1;
     let bsize = (of_nat (bit_size (bf_bits f)) :: u32);
     (bit_changed, bits) \<leftarrow> put_loop ba_set h1 h2 bsize (hash_numbers f) (bf_bits f) False;
     Some (bit_changed, f\<lparr>bf_bits := bits\<rparr>)
   }"

definition might_contain_long :: "spark_bloom_filter \<Rightarrow> u64 \<Rightarrow> bool option" where
  "might_contain_long f item =
     (let h1 = spark_compatible_murmur3_hash (le_bytes item) 0;
          h2 = spark_compatible_murmur3_hash (le_bytes item) h1;
          bsize = of_nat (bit_size (bf_bits f)) :: u32
      in contain_loop ba_get h1 h2 bsize (hash_numbers f) (bf_bits f))"

fun might_contain_longs :: "spark_bloom_filter \<Rightarrow> u64 option list \<Rightarrow> bool option list option" where
  "might_contain_longs f [] = Some []"
| "might_contain_longs f (v # items) = do {
     b \<leftarrow> (case v of None \<Rightarrow> Some None | Some x \<Rightarrow> do { b \<leftarrow> might_contain_long f x; Some (Some b) });
     bs \<leftarrow> might_contain_longs f items;
     Some (b # bs)
   }"

definition state_as_bytes :: "spark_bloom_filter \<Rightarrow> u8 list" where
  "state_as_bytes f = ba_to_bytes (bf_bits f)"

definition merge_filter :: "spark_bloom_filter \<Rightarrow> u8 list \<Rightarrow> spark_bloom_filter option" where
  "merge_filter f other = do {
     ensure (length other = byte_size (bf_bits f));
     bits \<leftarrow> merge_bits (bf_bits f) other;
     Some (f\<lparr>bf_bits := bits\<rparr>)
   }"

subsection \<open>The accumulator\<close>

datatype scalar_value =
    SInt8 "8 word option" | SInt16 "16 word option" | SInt32 "32 word option" | SInt64 "64 word option"
  | SUtf8 "u8 list option" | SOther

definition update_value :: "spark_bloom_filter \<Rightarrow> scalar_value \<Rightarrow> spark_bloom_filter option" where
  "update_value f v =
     (case v of
        SInt8 (Some x) \<Rightarrow> map_option snd (put_long f (scast x))
      | SInt16 (Some x) \<Rightarrow> map_option snd (put_long f (scast x))
      | SInt32 (Some x) \<Rightarrow> map_option snd (put_long f (scast x))
      | SInt64 (Some x) \<Rightarrow> map_option snd (put_long f x)
      | SUtf8 (Some x) \<Rightarrow> map_option snd (put_binary f x)
      | _ \<Rightarrow> None)"

fun update_values :: "spark_bloom_filter \<Rightarrow> scalar_value list \<Rightarrow> spark_bloom_filter option" where
  "update_values f [] = Some f"
| "update_values f (v # vs) = do { f \<leftarrow> update_value f v; update_values f vs }"

definition update_batch :: "spark_bloom_filter \<Rightarrow> scalar_value list list \<Rightarrow> spark_bloom_filter option" where
  "update_batch f arrays = (case arrays of [] \<Rightarrow> Some f | arr # _ \<Rightarrow> update_values f arr)"

definition bloom_evaluate :: "spark_bloom_filter \<Rightarrow> u8 list" where
  "bloom_evaluate f = spark_serialization f"

definition bloom_state :: "spark_bloom_filter \<Rightarrow> u8 list list" where
  "bloom_state f = [state_as_bytes f]"

text \<open>One state array of one binary value is expected.\<close>

definition merge_batch :: "spark_bloom_filter \<Rightarrow> u8 list list list \<Rightarrow> spark_bloom_filter option" where
  "merge_batch f states = do {
     ensure (length states = 1);
     s \<leftarrow> index states 0;
     ensure (length s = 1);
     merge_filter f (concat s)
   }"

subsection \<open>The interface of the bit array\<close>

locale bit_set =
  fixes bs_get :: "'b \<Rightarrow> nat \<Rightarrow> bool option" and bs_set :: "'b \<Rightarrow> nat \<Rightarrow> (bool \<times> 'b) option" and bs_size :: "'b \<Rightarrow> nat"
  assumes get_law: "i < bs_size b \<Longrightarrow> \<exists>v. bs_get b i = Some v"
    and set_law: "i < bs_size b \<Longrightarrow> \<exists>c b'. bs_set b i = Some (c, b') \<and> bs_size b' = bs_size b \<and>
      (\<forall>j < bs_size b. bs_get b' j = (if j = i then Some True else bs_get b j))"
begin

text \<open>All positions of the listed hash functions are set.\<close>

definition covers :: "u32 \<Rightarrow> u32 \<Rightarrow> nat list \<Rightarrow> 'b \<Rightarrow> bool" where
  "covers h1 h2 is b \<longleftrightarrow>
     (\<forall>i \<in> set is. \<exists>idx. combined_index h1 h2 (of_nat (bs_size b)) i = Some idx \<and> bs_get b idx = Some True)"

definition grown :: "'b \<Rightarrow> 'b \<Rightarrow> bool" where
  "grown b b' \<longleftrightarrow> bs_size b' = bs_size b \<and> (\<forall>j < bs_size b. bs_get b j = Some True \<longrightarrow> bs_get b' j = Some True)"

lemma grown_refl: "grown b b"
  by (simp add: grown_def)

lemma grown_trans: "grown a b \<Longrightarrow> grown b c \<Longrightarrow> grown a c"
  by (simp add: grown_def)

lemma index_in_range:
  assumes "0 < bs_size b" and "bs_size b < 2 ^ 31"
  obtains idx where "combined_index h1 h2 (of_nat (bs_size b)) i = Some idx" and "idx < bs_size b"
proof -
  have s: "sint (of_nat (bs_size b) :: u32) = int (bs_size b)"
    using assms(2) by (simp add: signed_of_nat signed_take_bit_int_eq_self)
  then have "of_nat (bs_size b) \<noteq> (0 :: u32)" using assms(1) by auto
  moreover have "nat (x mod int (bs_size b)) < bs_size b" for x using assms(1) by (simp add: nat_less_iff)
  ultimately show ?thesis using that s by (simp add: combined_index_def Let_def)
qed

lemma covers_grown:
  assumes "covers h1 h2 is b" and "grown b b'" and "0 < bs_size b" and "bs_size b < 2 ^ 31"
  shows "covers h1 h2 is b'"
  unfolding covers_def
proof
  fix i assume "i \<in> set is"
  then obtain idx where "combined_index h1 h2 (of_nat (bs_size b)) i = Some idx" "bs_get b idx = Some True"
    using assms(1) by (auto simp: covers_def)
  moreover from this(1) have "idx < bs_size b" by (metis index_in_range [OF assms(3,4)] option.inject)
  ultimately show "\<exists>idx. combined_index h1 h2 (of_nat (bs_size b')) i = Some idx \<and> bs_get b' idx = Some True"
    using assms(2) by (auto simp: grown_def)
qed

lemma put_loop_covers:
  assumes "0 < bs_size b" and "bs_size b < 2 ^ 31" and "n = of_nat (bs_size b)"
  shows "\<exists>c b'. put_loop bs_set h1 h2 n is b ch = Some (c, b') \<and> grown b b' \<and> covers h1 h2 is b'"
  using assms
proof (induction "is" arbitrary: b ch)
  case Nil
  then show ?case by (simp add: grown_refl covers_def)
next
  case (Cons i "is")
  obtain idx where idx: "combined_index h1 h2 (of_nat (bs_size b)) i = Some idx" "idx < bs_size b"
    by (rule index_in_range [OF Cons.prems(1,2)])
  from set_law [OF idx(2)] obtain c b1 where b1: "bs_set b idx = Some (c, b1)" "bs_size b1 = bs_size b"
    "\<forall>j < bs_size b. bs_get b1 j = (if j = idx then Some True else bs_get b j)" by blast
  then have g: "grown b b1" by (simp add: grown_def)
  from Cons.IH [of b1 "ch \<or> c"] Cons.prems b1(2) obtain c' b' where
    b': "put_loop bs_set h1 h2 n is b1 (ch \<or> c) = Some (c', b')" "grown b1 b'" "covers h1 h2 is b'" by auto
  have "bs_get b1 idx = Some True" using b1(3) idx(2) by simp
  then have "bs_get b' idx = Some True" and "bs_size b' = bs_size b" using b'(2) idx(2) b1(2) by (auto simp: grown_def)
  with b'(3) idx(1) have "covers h1 h2 (i # is) b'" by (simp add: covers_def)
  with b' b1(1) idx(1) Cons.prems(3) grown_trans [OF g] show ?case by auto
qed

lemma contain_loop_covers:
  assumes "0 < bs_size b" and "bs_size b < 2 ^ 31"
  shows "contain_loop bs_get h1 h2 (of_nat (bs_size b)) is b = Some (covers h1 h2 is b)"
proof (induction "is")
  case (Cons i "is")
  obtain idx where idx: "combined_index h1 h2 (of_nat (bs_size b)) i = Some idx" "idx < bs_size b"
    by (rule index_in_range [OF assms])
  from get_law [OF idx(2)] obtain v where "bs_get b idx = Some v" by blast
  with idx(1) Cons show ?case by (auto simp: covers_def)
qed (simp add: covers_def)

end

subsection \<open>The bit array keeps the contract\<close>

lemma bit_and_single: "(w AND shl 1 n \<noteq> 0) \<longleftrightarrow> bit w n" if "n < 64" for w :: u64
proof -
  have "bit (w AND shl 1 n) k \<longleftrightarrow> k = n \<and> bit w n" for k
    using that by (auto simp: bit_simps bit_shl bit_1_iff dest: bit_imp_le_length)
  then show ?thesis by (metis bit_0_eq bot_apply bot_bool_def bit_word_eqI)
qed

lemma ba_get_bit: "i < bit_size a \<Longrightarrow> ba_get a i = Some (bit (ba_data a ! (i div 64)) (i mod 64))"
  by (simp add: ba_get_def bit_size_def word_size_def index_Some bit_and_single less_mult_imp_div_less)

lemma ba_set_spec:
  assumes "i < bit_size a"
  shows "\<exists>c a'. ba_set a i = Some (c, a') \<and> bit_size a' = bit_size a \<and>
    (\<forall>j < bit_size a. ba_get a' j = (if j = i then Some True else ba_get a j))"
proof (cases "bit (ba_data a ! (i div 64)) (i mod 64)")
  case True
  then show ?thesis using assms by (auto simp: ba_set_def ba_get_bit)
next
  case False
  let ?w = "ba_data a ! (i div 64) OR shl 1 (i mod 64)"
  let ?a = "a\<lparr>ba_data := (ba_data a)[i div 64 := ?w], ba_bit_count := ba_bit_count a + 1\<rparr>"
  have i: "i div 64 < length (ba_data a)"
    using assms by (simp add: bit_size_def word_size_def less_mult_imp_div_less)
  then have eq: "ba_set a i = Some (True, ?a)"
    using False assms by (simp add: ba_set_def ba_get_bit index_Some update_Some)
  have sz: "bit_size ?a = bit_size a" by (simp add: bit_size_def word_size_def)
  have "bit ?w (j mod 64) \<longleftrightarrow> j mod 64 = i mod 64 \<or> bit (ba_data a ! (i div 64)) (j mod 64)" for j
    by (auto simp: bit_or_iff bit_shl bit_1_iff)
  moreover have "j = i \<longleftrightarrow> j div 64 = i div 64 \<and> j mod 64 = i mod 64" for j by (metis div_mult_mod_eq)
  ultimately have "ba_get ?a j = (if j = i then Some True else ba_get a j)" if "j < bit_size a" for j
    using that sz i by (auto simp: ba_get_bit nth_list_update)
  with eq sz show ?thesis by blast
qed

interpretation bits: bit_set ba_get ba_set bit_size
  by unfold_locales (simp add: ba_get_bit, rule ba_set_spec)

subsection \<open>The number of set bits\<close>

definition ba_inv :: "spark_bit_array \<Rightarrow> bool" where
  "ba_inv a \<longleftrightarrow> ba_bit_count a = sum_list (map count_ones (ba_data a))"

lemma count_ones_card: "count_ones x = card {k. k < 64 \<and> bit x k}"
proof -
  have "count_ones x = card (set (filter (bit x) [0..<64]))" unfolding count_ones_def by (rule distinct_card [symmetric]) simp
  also have "set (filter (bit x) [0..<64]) = {k. k < 64 \<and> bit x k}" by auto
  finally show ?thesis .
qed

lemma count_ones_set:
  assumes "k < 64" and "\<not> bit w k"
  shows "count_ones (w OR shl 1 k) = count_ones w + 1"
proof -
  have "{j. j < 64 \<and> bit (w OR shl 1 k) j} = insert k {j. j < 64 \<and> bit w j}"
    using assms by (auto simp: bit_or_iff bit_shl bit_1_iff)
  then show ?thesis using assms by (simp add: count_ones_card)
qed

lemma sum_list_update_count:
  "i < length ws \<Longrightarrow> sum_list (map count_ones (ws[i := w])) + count_ones (ws ! i) = sum_list (map count_ones ws) + count_ones w"
proof (induction ws arbitrary: i)
  case (Cons v ws)
  then show ?case by (cases i) (auto simp: algebra_simps)
qed simp

lemma ba_inv_new: "ba_inv (ba_new buf)"
  by (simp add: ba_inv_def ba_new_def)

lemma ba_inv_set:
  assumes "ba_inv a" and "ba_set a i = Some (c, a')"
  shows "ba_inv a' \<and> word_size a' = word_size a"
proof -
  have i: "i div 64 < length (ba_data a)"
    using assms(2) by (auto simp: ba_set_def ba_get_def index_def Option.bind_eq_Some_conv split: if_splits)
  then have get: "ba_get a i = Some (bit (ba_data a ! (i div 64)) (i mod 64))"
    by (simp add: ba_get_def index_Some bit_and_single)
  show ?thesis
  proof (cases "bit (ba_data a ! (i div 64)) (i mod 64)")
    case True
    with assms get show ?thesis by (simp add: ba_set_def)
  next
    case False
    let ?w = "ba_data a ! (i div 64) OR shl 1 (i mod 64)"
    have "count_ones ?w = count_ones (ba_data a ! (i div 64)) + 1" using False by (intro count_ones_set) simp_all
    with sum_list_update_count [OF i, of ?w]
    have "sum_list (map count_ones ((ba_data a)[i div 64 := ?w])) = sum_list (map count_ones (ba_data a)) + 1" by simp
    with assms get False i show ?thesis
      by (auto simp: ba_set_def ba_inv_def word_size_def index_Some update_Some)
  qed
qed

lemma ba_inv_put_loop:
  "ba_inv b \<Longrightarrow> put_loop ba_set h1 h2 n is b ch = Some (c, b') \<Longrightarrow> ba_inv b' \<and> word_size b' = word_size b"
proof (induction "is" arbitrary: b ch)
  case (Cons i "is")
  then obtain idx d b1 where "ba_set b idx = Some (d, b1)" "put_loop ba_set h1 h2 n is b1 (ch \<or> d) = Some (c, b')"
    by (auto simp: Option.bind_eq_Some_conv)
  with Cons.IH [of b1] ba_inv_set [OF Cons.prems(1)] show ?case by fastforce
qed simp

subsection \<open>Inserting, merging, storing\<close>

definition bloom_ok :: "spark_bloom_filter \<Rightarrow> bool" where
  "bloom_ok f \<longleftrightarrow> 0 < bit_size (bf_bits f) \<and> bit_size (bf_bits f) < 2 ^ 31 \<and> ba_inv (bf_bits f)"

text \<open>\<open>f'\<close> has the shape of \<open>f\<close> and all its bits.\<close>

definition bloom_le :: "spark_bloom_filter \<Rightarrow> spark_bloom_filter \<Rightarrow> bool" where
  "bloom_le f f' \<longleftrightarrow> bits.grown (bf_bits f) (bf_bits f') \<and> bf_num_hash_functions f' = bf_num_hash_functions f"

lemma bloom_le_refl: "bloom_le f f"
  by (simp add: bloom_le_def bits.grown_refl)

lemma bloom_le_trans: "bloom_le f g \<Longrightarrow> bloom_le g h \<Longrightarrow> bloom_le f h"
  using bits.grown_trans by (auto simp: bloom_le_def)

lemma might_contain_covers:
  assumes "0 < bit_size (bf_bits f)" and "bit_size (bf_bits f) < 2 ^ 31" and "h = spark_compatible_murmur3_hash (le_bytes x) 0"
  shows "might_contain_long f x =
    Some (bits.covers h (spark_compatible_murmur3_hash (le_bytes x) h) (hash_numbers f) (bf_bits f))"
  using bits.contain_loop_covers [OF assms(1,2)] assms(3) by (simp add: might_contain_long_def Let_def)

lemma might_contain_mono:
  assumes "bloom_ok f" and "bloom_le f f'" and "might_contain_long f x = Some True"
  shows "might_contain_long f' x = Some True"
proof -
  have sz: "bit_size (bf_bits f') = bit_size (bf_bits f)" using assms(2) by (simp add: bloom_le_def bits.grown_def)
  have "hash_numbers f' = hash_numbers f" using assms(2) by (simp add: bloom_le_def hash_numbers_def)
  with assms sz might_contain_covers [OF _ _ refl, of f x] might_contain_covers [OF _ _ refl, of f' x] show ?thesis
    by (auto simp: bloom_ok_def bloom_le_def intro: bits.covers_grown)
qed

lemma put_long_spec:
  assumes "bloom_ok f"
  shows "\<exists>c f'. put_long f x = Some (c, f') \<and> bloom_ok f' \<and> bloom_le f f' \<and> might_contain_long f' x = Some True"
proof -
  let ?h1 = "spark_compatible_murmur3_hash (le_bytes x) 0"
  let ?h2 = "spark_compatible_murmur3_hash (le_bytes x) ?h1"
  have ok: "0 < bit_size (bf_bits f)" "bit_size (bf_bits f) < 2 ^ 31" "ba_inv (bf_bits f)" using assms by (simp_all add: bloom_ok_def)
  from bits.put_loop_covers [OF ok(1,2) refl, of ?h1 ?h2 "hash_numbers f" False] obtain c b' where
    b': "put_loop ba_set ?h1 ?h2 (of_nat (bit_size (bf_bits f))) (hash_numbers f) (bf_bits f) False = Some (c, b')"
    "bits.grown (bf_bits f) b'" "bits.covers ?h1 ?h2 (hash_numbers f) b'" by blast
  let ?f = "f\<lparr>bf_bits := b'\<rparr>"
  have put: "put_long f x = Some (c, ?f)" using b'(1) by (simp add: put_long_def Let_def)
  have sz: "bit_size b' = bit_size (bf_bits f)" using b'(2) by (simp add: bits.grown_def)
  have "hash_numbers ?f = hash_numbers f" by (simp add: hash_numbers_def)
  then have "might_contain_long ?f x = Some True"
    using ok(1,2) b'(3) sz might_contain_covers [of ?f ?h1 x] by simp
  moreover have "bloom_ok ?f" using ok sz ba_inv_put_loop [OF ok(3) b'(1)] by (simp add: bloom_ok_def)
  moreover have "bloom_le f ?f" using b'(2) by (simp add: bloom_le_def)
  ultimately show ?thesis using put by blast
qed

lemma update_values_spec:
  assumes "bloom_ok f"
  shows "\<exists>f'. update_values f (map (\<lambda>x. SInt64 (Some x)) xs) = Some f' \<and> bloom_ok f' \<and> bloom_le f f' \<and>
    (\<forall>x \<in> set xs. might_contain_long f' x = Some True)"
  using assms
proof (induction xs arbitrary: f)
  case Nil
  then show ?case by (simp add: bloom_le_refl)
next
  case (Cons x xs)
  obtain c g where g: "put_long f x = Some (c, g)" "bloom_ok g" "bloom_le f g" "might_contain_long g x = Some True"
    using put_long_spec [OF Cons.prems] by blast
  from Cons.IH [OF g(2)] obtain f' where f': "update_values g (map (\<lambda>x. SInt64 (Some x)) xs) = Some f'"
    "bloom_ok f'" "bloom_le g f'" "\<forall>x \<in> set xs. might_contain_long f' x = Some True" by blast
  with g might_contain_mono [OF g(2) f'(3) g(4)] bloom_le_trans [OF g(3) f'(3)] show ?case
    by (auto simp: update_value_def)
qed

lemma merge_words_map2:
  "length vs = length ws \<Longrightarrow> merge_words ws (concat (map le_bytes vs)) = map2 (OR) ws vs"
  by (induction ws vs rule: list_induct2') (simp_all add: le_word_le_bytes)

lemma merge_filter_spec:
  assumes "bloom_ok f" and "bloom_ok g" and "bit_size (bf_bits g) = bit_size (bf_bits f)"
    and "bf_num_hash_functions g = bf_num_hash_functions f"
  shows "\<exists>h. merge_filter f (state_as_bytes g) = Some h \<and> bloom_ok h \<and> bloom_le f h \<and> bloom_le g h"
proof -
  let ?d = "map2 (OR) (ba_data (bf_bits f)) (ba_data (bf_bits g))"
  let ?h = "f\<lparr>bf_bits := ba_new ?d\<rparr>"
  have len: "length (ba_data (bf_bits g)) = length (ba_data (bf_bits f))"
    using assms(3) by (simp add: bit_size_def word_size_def)
  have bytes: "length (concat (map le_bytes ws)) = 8 * length ws" for ws :: "u64 list"
    by (induction ws) simp_all
  have "merge_filter f (state_as_bytes g) = Some ?h"
    using len by (simp add: merge_filter_def state_as_bytes_def ba_to_bytes_def bytes byte_size_def word_size_def
        merge_bits_def merge_words_map2 ba_new_def)
  moreover have sz: "bit_size (ba_new ?d) = bit_size (bf_bits f)" using len by (simp add: bit_size_def word_size_def ba_new_def)
  then have "bloom_ok ?h" using assms(1) by (simp add: bloom_ok_def ba_inv_new)
  moreover have "ba_get (ba_new ?d) j = Some True"
    if j: "j < bit_size (bf_bits f)" and "ba_get (bf_bits f) j = Some True \<or> ba_get (bf_bits g) j = Some True" for j
  proof -
    have "j div 64 < length (ba_data (bf_bits f))" using j by (simp add: bit_size_def word_size_def less_mult_imp_div_less)
    then have "?d ! (j div 64) = ba_data (bf_bits f) ! (j div 64) OR ba_data (bf_bits g) ! (j div 64)" using len by simp
    with that sz assms(3) show ?thesis by (auto simp: ba_get_bit bit_or_iff ba_new_def)
  qed
  then have "bloom_le f ?h" and "bloom_le g ?h" using sz assms(3,4) by (auto simp: bloom_le_def bits.grown_def)
  ultimately show ?thesis by blast
qed

lemma read_be_bytes: "8 dvd LENGTH('a::len) \<Longrightarrow> read_num_be_bytes (be_bytes (w :: 'a word) @ rest) = Some w"
  by (simp add: read_num_be_bytes_def be_bytes_def le_word_le_bytes)

lemma slice_from_append: "slice_from (xs @ ys) (length xs) = Some ys"
  by (simp add: slice_from_def)

lemma read_be_words_append:
  "offset = length pre \<Longrightarrow> read_be_words (length ws) (pre @ concat (map be_bytes ws)) offset = Some ws"
proof (induction ws arbitrary: pre offset)
  case (Cons w ws)
  have "read_be_words (length ws) ((pre @ be_bytes w) @ concat (map be_bytes ws)) (offset + 8) = Some ws"
    by (rule Cons.IH) (simp add: Cons.prems be_bytes_def)
  with Cons.prems show ?case by (simp add: slice_from_append read_be_bytes)
qed simp

lemma serialization_round_trip:
  assumes "ba_inv (bf_bits f)" and "word_size (bf_bits f) < 2 ^ 31"
  shows "bloom_from_bytes (spark_serialization f) = Some f"
proof -
  let ?n = "word_size (bf_bits f)" and ?ws = "ba_data (bf_bits f)"
  let ?a = "be_bytes (1 :: u32)" and ?b = "be_bytes (bf_num_hash_functions f)" and ?c = "be_bytes (of_nat ?n :: u32)"
  let ?d = "concat (map be_bytes ?ws)"
  have s: "sint (of_nat ?n :: u32) = int ?n" using assms(2) by (simp add: signed_of_nat signed_take_bit_int_eq_self)
  have len: "length ?a = 4" "length ?b = 4" "length ?c = 4" by (simp_all add: be_bytes_def)
  have "slice_from (?a @ ?b @ ?c @ ?d) 0 = Some (?a @ ?b @ ?c @ ?d)" by (simp add: slice_from_def)
  moreover have "slice_from (?a @ ?b @ ?c @ ?d) 4 = Some (?b @ ?c @ ?d)" using slice_from_append [of ?a "?b @ ?c @ ?d"] len by simp
  moreover have "slice_from (?a @ ?b @ ?c @ ?d) 8 = Some (?c @ ?d)" using slice_from_append [of "?a @ ?b" "?c @ ?d"] len by simp
  moreover have "read_be_words ?n (?a @ ?b @ ?c @ ?d) 12 = Some ?ws"
    using read_be_words_append [of 12 "?a @ ?b @ ?c" ?ws] len by (simp add: word_size_def)
  ultimately have "bloom_from_bytes (spark_serialization f) = Some \<lparr>bf_bits = ba_new ?ws, bf_num_hash_functions = bf_num_hash_functions f\<rparr>"
    by (simp add: bloom_from_bytes_def spark_serialization_def read_be_bytes SPARK_BLOOM_FILTER_VERSION_1_def s)
  with assms(1) show ?thesis by (simp add: ba_new_def ba_inv_def)
qed

lemma bloom_from_sizes_ok:
  assumes "0 < sint n" and "sint n < 2 ^ 30"
  obtains f where "bloom_from_sizes k n = Some f" and "bloom_ok f"
proof
  let ?f = "\<lparr>bf_bits = ba_new (replicate (num_words (nat (sint n))) 0), bf_num_hash_functions = k\<rparr>"
  show "bloom_from_sizes k n = Some ?f" using assms(1) by (simp add: bloom_from_sizes_def)
  have "0 < div_ceil (nat (sint n)) 64" and "div_ceil (nat (sint n)) 64 * 64 < nat (sint n) + 64"
    using assms(1) by (auto simp: div_ceil_def)
  moreover from this(2) have "div_ceil (nat (sint n)) 64 * 64 < 2 ^ 31" using assms by simp
  moreover have "bit_size (ba_new ws) = length ws * 64" for ws by (simp add: bit_size_def word_size_def ba_new_def)
  ultimately show "bloom_ok ?f" by (simp add: bloom_ok_def ba_inv_new num_words_def)
qed

lemma bloom_le_shape:
  "bloom_le f g \<Longrightarrow> bit_size (bf_bits g) = bit_size (bf_bits f) \<and> bf_num_hash_functions g = bf_num_hash_functions f"
  by (simp add: bloom_le_def bits.grown_def)

subsection \<open>Properties\<close>

text \<open>
  C32. No false negatives, end to end: two partial aggregates over the same configuration take the values \<open>xs\<close> and
  \<open>ys\<close>, the state of the second is merged into the first, the result is stored in Spark's format and read back.
  No step panics, and the filter that is read might contain every one of the values.
\<close>

theorem bloom_no_false_negatives:
  assumes "0 < sint num_bits" and "sint num_bits < 2 ^ 30"
  shows "\<exists>f0 f g h. bloom_from_sizes num_hash_functions num_bits = Some f0 \<and>
    update_batch f0 [map (\<lambda>x. SInt64 (Some x)) xs] = Some f \<and> update_batch f0 [map (\<lambda>x. SInt64 (Some x)) ys] = Some g \<and>
    merge_batch f [bloom_state g] = Some h \<and> bloom_from_bytes (bloom_evaluate h) = Some h \<and>
    (\<forall>x \<in> set xs \<union> set ys. might_contain_long h x = Some True)"
proof -
  obtain f0 where f0: "bloom_from_sizes num_hash_functions num_bits = Some f0" "bloom_ok f0"
    by (rule bloom_from_sizes_ok [OF assms])
  obtain f where f: "update_values f0 (map (\<lambda>x. SInt64 (Some x)) xs) = Some f" "bloom_ok f" "bloom_le f0 f"
    "\<forall>x \<in> set xs. might_contain_long f x = Some True" using update_values_spec [OF f0(2)] by blast
  obtain g where g: "update_values f0 (map (\<lambda>x. SInt64 (Some x)) ys) = Some g" "bloom_ok g" "bloom_le f0 g"
    "\<forall>x \<in> set ys. might_contain_long g x = Some True" using update_values_spec [OF f0(2)] by blast
  obtain h where h: "merge_filter f (state_as_bytes g) = Some h" "bloom_ok h" "bloom_le f h" "bloom_le g h"
    using merge_filter_spec [OF f(2) g(2)] bloom_le_shape [OF f(3)] bloom_le_shape [OF g(3)] by auto
  have "word_size (bf_bits h) < 2 ^ 31" using h(2) by (simp add: bloom_ok_def bit_size_def)
  then have "bloom_from_bytes (bloom_evaluate h) = Some h"
    using h(2) serialization_round_trip [of h] by (simp add: bloom_evaluate_def bloom_ok_def)
  moreover have "\<forall>x \<in> set xs \<union> set ys. might_contain_long h x = Some True"
    using f(4) g(4) might_contain_mono [OF f(2) h(3)] might_contain_mono [OF g(2) h(4)] by blast
  moreover have "merge_batch f [bloom_state g] = Some h" using h(1) by (simp add: merge_batch_def bloom_state_def index_def)
  ultimately show ?thesis using f0(1) f(1) g(1) by (auto simp: update_batch_def)
qed

theorem bloom_no_false_negatives_witness:
  "\<exists>f0 f g h. bloom_from_sizes 3 100 = Some f0 \<and> update_batch f0 [[SInt64 (Some 1), SInt64 (Some 2)]] = Some f \<and>
    update_batch f0 [[SInt64 (Some 42)]] = Some g \<and> merge_batch f [bloom_state g] = Some h \<and>
    bloom_from_bytes (bloom_evaluate h) = Some h \<and> might_contain_long h 42 = Some True"
proof -
  have "0 < sint (100 :: u32)" and "sint (100 :: u32) < 2 ^ 30" by simp_all
  from bloom_no_false_negatives [OF this, of 3 "[1, 2]" "[42]"] show ?thesis by auto
qed

text \<open>
  Storing a filter in Spark's format and reading it back gives the filter, its bit count included, as long
  as the count is the number of set bits, which every operation keeps.
\<close>

theorem bloom_serialization_round_trip:
  assumes "ba_inv (bf_bits f)" and "word_size (bf_bits f) < 2 ^ 31"
  shows "bloom_from_bytes (spark_serialization f) = Some f \<and>
    (\<forall>item c f'. put_binary f item = Some (c, f') \<longrightarrow> bloom_from_bytes (spark_serialization f') = Some f')"
proof -
  have "ba_inv (bf_bits f') \<and> word_size (bf_bits f') = word_size (bf_bits f)" if "put_binary f item = Some (c, f')" for item c f'
    using that ba_inv_put_loop [OF assms(1)] by (auto simp: put_binary_def Let_def Option.bind_eq_Some_conv)
  with serialization_round_trip assms show ?thesis by metis
qed

theorem bloom_serialization_round_trip_witness:
  "bloom_from_bytes (spark_serialization \<lparr>bf_bits = ba_new [5, 0], bf_num_hash_functions = 4\<rparr>) =
     Some \<lparr>bf_bits = ba_new [5, 0], bf_num_hash_functions = 4\<rparr>"
  using bloom_serialization_round_trip [of "\<lparr>bf_bits = ba_new [5, 0], bf_num_hash_functions = 4\<rparr>"]
  by (simp add: ba_inv_new word_size_def ba_new_def [of "[5, 0]"] ba_inv_def)

text \<open>
  The accumulator panics on a null value, where Spark's aggregate skips it.
\<close>

theorem update_batch_null_panics: "update_batch f [SInt64 None # vs] = None"
  by (simp add: update_batch_def update_value_def)

end
