(* ===== verification/Decimal_Aggregates.thy ===== *)
theory Decimal_Aggregates
  imports Spark_Hash
begin

text \<open>
  The decimal aggregates of \<open>native/spark-expr/src/agg_funcs/sum_decimal.rs\<close> and \<open>avg_decimal.rs\<close>, each as
  a single accumulator and as an accumulator of groups, with the helpers of \<open>utils.rs\<close>.

  An \<open>i128\<close> or \<open>i64\<close> is an integer whose range every operation checks: \<open>None\<close> is a panic, \<open>wrapping\<close> and
  \<open>overflowing\<close> operations wrap. A column is an array of values with a validity bitmap. The kernel \<open>sum\<close> of Arrow and
  \<open>EmitTo::take_needed\<close> of DataFusion are parameters. A decimal of precision \<open>p\<close> is in the range of \<open>p\<close> digits, which
  is what Arrow's tables of limits hold.
\<close>

subsection \<open>128-bit integers and decimals\<close>

abbreviation fits_i128 :: "int \<Rightarrow> bool" where
  "fits_i128 v \<equiv> fits_int True 16 v"

abbreviation fits_i64 :: "int \<Rightarrow> bool" where
  "fits_i64 v \<equiv> fits_int True 8 v"

definition wrap_i128 :: "int \<Rightarrow> int" where
  "wrap_i128 v = (v + 2 ^ 127) mod 2 ^ 128 - 2 ^ 127"

definition overflowing_add :: "int \<Rightarrow> int \<Rightarrow> int \<times> bool" where
  "overflowing_add a b = (wrap_i128 (a + b), \<not> fits_i128 (a + b))"

definition max_decimal :: "nat \<Rightarrow> int" where
  "max_decimal p = 10 ^ p - 1"

definition is_valid_decimal_precision :: "int \<Rightarrow> nat \<Rightarrow> bool" where
  "is_valid_decimal_precision value precision \<longleftrightarrow>
     precision \<le> 38 \<and> value \<ge> - max_decimal precision \<and> value \<le> max_decimal precision"

definition i128_add :: "int \<Rightarrow> int \<Rightarrow> int option" where
  "i128_add a b = do { ensure (fits_i128 (a + b)); Some (a + b) }"

definition i64_add :: "int \<Rightarrow> int \<Rightarrow> int option" where
  "i64_add a b = do { ensure (fits_i64 (a + b)); Some (a + b) }"

subsection \<open>\<open>SumDecimalAccumulator\<close>\<close>

record sum_decimal =
  sd_sum :: int
  sd_is_empty :: bool
  sd_is_not_null :: bool
  sd_precision :: nat

definition sd_new :: "nat \<Rightarrow> sum_decimal" where
  "sd_new precision = \<lparr>sd_sum = 0, sd_is_empty = True, sd_is_not_null = True, sd_precision = precision\<rparr>"

definition sd_update_single :: "int \<Rightarrow> sum_decimal \<Rightarrow> sum_decimal" where
  "sd_update_single v s =
     (let (new_sum, is_overflow) = overflowing_add (sd_sum s) v in
      if is_overflow \<or> \<not> is_valid_decimal_precision new_sum (sd_precision s) then s\<lparr>sd_is_not_null := False\<rparr>
      else s\<lparr>sd_sum := new_sum, sd_is_not_null := True\<rparr>)"

text \<open>The two loops over a column: without and with a test for null.\<close>

definition each_value :: "('v \<Rightarrow> 's \<Rightarrow> 's) \<Rightarrow> 'v arr \<Rightarrow> 's \<Rightarrow> 's option" where
  "each_value f data s =
     (if null_count data = 0 then Some (fold f (arr_values data) s)
      else fold (\<lambda>i r. do {
          s \<leftarrow> r;
          is_null \<leftarrow> arr_is_null data i;
          if is_null then Some s
          else do { v \<leftarrow> index (arr_values data) i; Some (f v s) }
        }) [0..<length (arr_values data)] (Some s))"

definition sd_update_batch :: "int arr \<Rightarrow> sum_decimal \<Rightarrow> sum_decimal option" where
  "sd_update_batch values s =
     (if \<not> sd_is_empty s \<and> \<not> sd_is_not_null s then Some s
      else
        let s = s\<lparr>sd_is_empty := sd_is_empty s \<and> length (arr_values values) = null_count values\<rparr>
        in each_value sd_update_single values s)"

definition sd_evaluate :: "sum_decimal \<Rightarrow> int option" where
  "sd_evaluate s =
     (if sd_is_empty s \<or> \<not> sd_is_not_null s \<or> \<not> is_valid_decimal_precision (sd_sum s) (sd_precision s) then None
      else Some (sd_sum s))"

definition sd_state :: "sum_decimal \<Rightarrow> int option \<times> bool" where
  "sd_state s = (if sd_is_not_null s then Some (sd_sum s) else None, sd_is_empty s)"

definition sd_merge_batch :: "int arr \<Rightarrow> bool arr \<Rightarrow> sum_decimal \<Rightarrow> sum_decimal option" where
  "sd_merge_batch that_sum that_is_empty s = do {
     ensure (length (arr_values that_sum) = 1);
     ensure (length (arr_values that_is_empty) = 1);
     e \<leftarrow> index (arr_values that_is_empty) 0;
     is_null \<leftarrow> arr_is_null that_sum 0;
     let this_overflow = (\<not> sd_is_empty s \<and> \<not> sd_is_not_null s);
     let that_overflow = (\<not> e \<and> is_null);
     let s = s\<lparr>sd_is_not_null := \<not> this_overflow \<and> \<not> that_overflow, sd_is_empty := sd_is_empty s \<and> e\<rparr>;
     if sd_is_not_null s then do {
       v \<leftarrow> index (arr_values that_sum) 0;
       sum \<leftarrow> i128_add (sd_sum s) v;
       Some (s\<lparr>sd_sum := sum\<rparr>)
     }
     else Some s
   }"

subsection \<open>\<open>SumDecimalGroupsAccumulator\<close>\<close>

record sum_groups =
  sg_is_not_null :: "bool list"
  sg_is_empty :: "bool list"
  sg_sum :: "int list"
  sg_precision :: nat

definition sg_new :: "nat \<Rightarrow> sum_groups" where
  "sg_new precision = \<lparr>sg_is_not_null = [], sg_is_empty = [], sg_sum = [], sg_precision = precision\<rparr>"

definition sg_is_overflow :: "sum_groups \<Rightarrow> nat \<Rightarrow> bool option" where
  "sg_is_overflow s g = do {
     e \<leftarrow> index (sg_is_empty s) g;
     n \<leftarrow> index (sg_is_not_null s) g;
     Some (\<not> e \<and> \<not> n)
   }"

definition sg_update_single :: "nat \<Rightarrow> int \<Rightarrow> sum_groups \<Rightarrow> sum_groups option" where
  "sg_update_single g value s = do {
     is_empty \<leftarrow> update (sg_is_empty s) g False;
     old \<leftarrow> index (sg_sum s) g;
     let (new_sum, is_overflow) = overflowing_add old value;
     sum \<leftarrow> update (sg_sum s) g new_sum;
     let s = s\<lparr>sg_is_empty := is_empty, sg_sum := sum\<rparr>;
     if is_overflow \<or> \<not> is_valid_decimal_precision new_sum (sg_precision s) then do {
       is_not_null \<leftarrow> update (sg_is_not_null s) g False;
       Some (s\<lparr>sg_is_not_null := is_not_null\<rparr>)
     }
     else Some s
   }"

definition ensure_bit_capacity :: "bool list \<Rightarrow> nat \<Rightarrow> bool list" where
  "ensure_bit_capacity builder capacity =
     (if length builder < capacity then builder @ replicate (capacity - length builder) True else builder)"

text \<open>The loops over group indices and values, shared by the two grouped accumulators.\<close>

fun each_group :: "(nat \<Rightarrow> 'v \<Rightarrow> 's \<Rightarrow> 's option) \<Rightarrow> (nat \<Rightarrow> bool option) \<Rightarrow> nat \<Rightarrow> (nat \<times> 'v) list \<Rightarrow> 's \<Rightarrow> 's option" where
  "each_group f is_null i [] s = Some s"
| "each_group f is_null i ((g, v) # gvs) s = do {
     b \<leftarrow> is_null i;
     s \<leftarrow> (if b then Some s else f g v s);
     each_group f is_null (Suc i) gvs s
   }"

definition null_test :: "'a arr \<Rightarrow> nat \<Rightarrow> bool option" where
  "null_test values i = (if null_count values = 0 then Some False else arr_is_null values i)"

definition sg_update_batch :: "int arr \<Rightarrow> nat list \<Rightarrow> bool arr option \<Rightarrow> nat \<Rightarrow> sum_groups \<Rightarrow> sum_groups option" where
  "sg_update_batch values group_indices opt_filter total_num_groups s = do {
     ensure (opt_filter = None);
     let s = s\<lparr>sg_sum := vec_resize total_num_groups 0 (sg_sum s),
               sg_is_empty := ensure_bit_capacity (sg_is_empty s) total_num_groups,
               sg_is_not_null := ensure_bit_capacity (sg_is_not_null s) total_num_groups\<rparr>;
     each_group sg_update_single (null_test values) 0 (zip group_indices (arr_values values)) s
   }"

datatype emit_to = EmitAll | EmitFirst nat

definition build_bool_state :: "bool list \<Rightarrow> emit_to \<Rightarrow> (bool list \<times> bool list) option" where
  "build_bool_state state emit = (case emit of
       EmitAll \<Rightarrow> Some (state, [])
     | EmitFirst n \<Rightarrow> do { ensure (n \<le> length state); Some (take n state, drop n state) })"

fun mark_invalid :: "nat \<Rightarrow> nat \<Rightarrow> int list \<Rightarrow> bool list \<Rightarrow> bool list option" where
  "mark_invalid precision i [] nulls = Some nulls"
| "mark_invalid precision i (v # vs) nulls =
     (if \<not> is_valid_decimal_precision v precision then do {
        nulls \<leftarrow> update nulls i False;
        mark_invalid precision (Suc i) vs nulls
      }
      else mark_invalid precision (Suc i) vs nulls)"

text \<open>An array of results: the value where the bit is set, and null elsewhere.\<close>

definition decimal_array :: "int list \<Rightarrow> bool list \<Rightarrow> int arr option" where
  "decimal_array values nulls = do {
     ensure (length values = length nulls);
     Some \<lparr>arr_values = values, arr_validity = Some nulls\<rparr>
   }"

definition sg_evaluate :: "(emit_to \<Rightarrow> int list \<Rightarrow> int list \<times> int list) \<Rightarrow> emit_to \<Rightarrow> sum_groups \<Rightarrow> (int arr \<times> sum_groups) option" where
  "sg_evaluate take_needed emit s = do {
     let (result, sum) = take_needed emit (sg_sum s);
     is_not_null \<leftarrow> mark_invalid (sg_precision s) 0 result (sg_is_not_null s);
     (nulls, is_not_null) \<leftarrow> build_bool_state is_not_null emit;
     (empty, is_empty) \<leftarrow> build_bool_state (sg_is_empty s) emit;
     array \<leftarrow> decimal_array result (map2 (\<lambda>e n. \<not> e \<and> n) empty nulls);
     Some (array, s\<lparr>sg_sum := sum, sg_is_not_null := is_not_null, sg_is_empty := is_empty\<rparr>)
   }"

definition sg_state :: "(emit_to \<Rightarrow> int list \<Rightarrow> int list \<times> int list) \<Rightarrow> emit_to \<Rightarrow> sum_groups \<Rightarrow> ((int arr \<times> bool arr) \<times> sum_groups) option" where
  "sg_state take_needed emit s = do {
     (nulls, is_not_null) \<leftarrow> build_bool_state (sg_is_not_null s) emit;
     let (result, sum) = take_needed emit (sg_sum s);
     array \<leftarrow> decimal_array result nulls;
     (empty, is_empty) \<leftarrow> build_bool_state (sg_is_empty s) emit;
     Some ((array, \<lparr>arr_values = empty, arr_validity = None\<rparr>),
       s\<lparr>sg_sum := sum, sg_is_not_null := is_not_null, sg_is_empty := is_empty\<rparr>)
   }"

fun sg_merge_loop :: "int arr \<Rightarrow> bool arr \<Rightarrow> nat \<Rightarrow> nat list \<Rightarrow> sum_groups \<Rightarrow> sum_groups option" where
  "sg_merge_loop that_sum that_is_empty i [] s = Some s"
| "sg_merge_loop that_sum that_is_empty i (g # gs) s = do {
     this_overflow \<leftarrow> sg_is_overflow s g;
     that_empty \<leftarrow> index (arr_values that_is_empty) i;
     is_null \<leftarrow> arr_is_null that_sum i;
     let that_overflow = (\<not> that_empty \<and> is_null);
     let is_overflow = (this_overflow \<or> that_overflow);
     is_not_null \<leftarrow> update (sg_is_not_null s) g (\<not> is_overflow);
     e \<leftarrow> index (sg_is_empty s) g;
     is_empty \<leftarrow> update (sg_is_empty s) g (e \<and> that_empty);
     let s = s\<lparr>sg_is_not_null := is_not_null, sg_is_empty := is_empty\<rparr>;
     s \<leftarrow> (if \<not> is_overflow then do {
         old \<leftarrow> index (sg_sum s) g;
         v \<leftarrow> index (arr_values that_sum) i;
         new \<leftarrow> i128_add old v;
         sum \<leftarrow> update (sg_sum s) g new;
         Some (s\<lparr>sg_sum := sum\<rparr>)
       }
       else Some s);
     sg_merge_loop that_sum that_is_empty (Suc i) gs s
   }"

definition sg_merge_batch :: "int arr \<Rightarrow> bool arr \<Rightarrow> nat list \<Rightarrow> bool arr option \<Rightarrow> nat \<Rightarrow> sum_groups \<Rightarrow> sum_groups option" where
  "sg_merge_batch that_sum that_is_empty group_indices opt_filter total_num_groups s = do {
     ensure (opt_filter = None);
     let s = s\<lparr>sg_sum := vec_resize total_num_groups 0 (sg_sum s),
               sg_is_empty := ensure_bit_capacity (sg_is_empty s) total_num_groups,
               sg_is_not_null := ensure_bit_capacity (sg_is_not_null s) total_num_groups\<rparr>;
     sg_merge_loop that_sum that_is_empty 0 group_indices s
   }"

subsection \<open>\<open>AvgDecimalAccumulator\<close>\<close>

text \<open>The quotient rounded half up. \<open>div_rem\<close> truncates and panics for a zero divisor.\<close>

definition avg :: "int \<Rightarrow> int \<Rightarrow> int \<Rightarrow> int \<Rightarrow> int \<Rightarrow> int option option" where
  "avg tot count target_min target_max scaler =
     (let value = tot * scaler in
      if fits_i128 value then do {
        ensure (count \<noteq> 0);
        ensure (fits_i128 (tdiv value count));
        let quot = tdiv value count;
        let rem = value - count * quot;
        let half = - (- count div 2);
        let half_neg = wrap_i128 (- half);
        let new_value = (if value \<ge> 0 then (if rem \<ge> half then wrap_i128 (quot + 1) else quot)
              else (if rem \<le> half_neg then wrap_i128 (quot - 1) else quot));
        Some (if new_value \<ge> target_min \<and> new_value \<le> target_max then Some new_value else None)
      }
      else Some None)"

definition saturating_i8 :: "int \<Rightarrow> int" where
  "saturating_i8 v = max (- 128) (min 127 v)"

text \<open>\<open>10_i128.pow(e as u32)\<close>: a negative exponent becomes a huge one and overflows.\<close>

definition i128_pow10 :: "int \<Rightarrow> int option" where
  "i128_pow10 e = do {
     ensure (0 \<le> e);
     ensure (fits_i128 (10 ^ nat e));
     Some (10 ^ nat e)
   }"

record avg_decimal =
  ad_sum :: "int option"
  ad_count :: int
  ad_is_empty :: bool
  ad_is_not_null :: bool
  ad_sum_scale :: int
  ad_sum_precision :: nat
  ad_target_precision :: nat
  ad_target_scale :: int

definition ad_new :: "int \<Rightarrow> nat \<Rightarrow> nat \<Rightarrow> int \<Rightarrow> avg_decimal" where
  "ad_new sum_scale sum_precision target_precision target_scale =
     \<lparr>ad_sum = None, ad_count = 0, ad_is_empty = True, ad_is_not_null = True, ad_sum_scale = sum_scale,
      ad_sum_precision = sum_precision, ad_target_precision = target_precision, ad_target_scale = target_scale\<rparr>"

definition ad_update_single :: "int \<Rightarrow> avg_decimal \<Rightarrow> avg_decimal" where
  "ad_update_single v s =
     (let (new_sum, is_overflow) = (case ad_sum s of Some x \<Rightarrow> overflowing_add x v | None \<Rightarrow> (v, False)) in
      if is_overflow \<or> \<not> is_valid_decimal_precision new_sum (ad_sum_precision s) then s\<lparr>ad_is_not_null := False\<rparr>
      else
        let s = s\<lparr>ad_sum := Some new_sum\<rparr> in
        if fits_i64 (ad_count s + 1) then s\<lparr>ad_count := ad_count s + 1, ad_is_not_null := True\<rparr>
        else s\<lparr>ad_is_not_null := False\<rparr>)"

definition ad_update_batch :: "int arr \<Rightarrow> avg_decimal \<Rightarrow> avg_decimal option" where
  "ad_update_batch values s =
     (if \<not> ad_is_empty s \<and> \<not> ad_is_not_null s then Some s
      else
        let s = s\<lparr>ad_is_empty := ad_is_empty s \<and> length (arr_values values) = null_count values\<rparr>
        in each_value ad_update_single values s)"

definition ad_state :: "avg_decimal \<Rightarrow> int option \<times> int" where
  "ad_state s = (ad_sum s, ad_count s)"

definition ad_merge_batch :: "(int arr \<Rightarrow> int option) \<Rightarrow> int arr \<Rightarrow> int arr \<Rightarrow> avg_decimal \<Rightarrow> avg_decimal option" where
  "ad_merge_batch sum_kernel sums counts s = do {
     count \<leftarrow> i64_add (ad_count s) (case sum_kernel counts of Some n \<Rightarrow> n | None \<Rightarrow> 0);
     let s = s\<lparr>ad_count := count\<rparr>;
     Some (case sum_kernel sums of
         None \<Rightarrow> s
       | Some x \<Rightarrow>
           let v = (case ad_sum s of Some v \<Rightarrow> v | None \<Rightarrow> 0);
               (result, overflowed) = overflowing_add v x
           in if overflowed then s\<lparr>ad_sum := None\<rparr> else s\<lparr>ad_sum := Some result\<rparr>)
   }"

definition ad_evaluate :: "avg_decimal \<Rightarrow> int option option" where
  "ad_evaluate s = do {
     scaler \<leftarrow> i128_pow10 (saturating_i8 (ad_target_scale s - ad_sum_scale s));
     ensure (ad_target_precision s \<le> 38);
     let target_max = max_decimal (ad_target_precision s);
     (case ad_sum s of
        None \<Rightarrow> Some None
      | Some v \<Rightarrow> avg v (ad_count s) (- target_max) target_max scaler)
   }"

subsection \<open>\<open>AvgDecimalGroupsAccumulator\<close>\<close>

record avg_groups =
  ag_is_not_null :: "bool list"
  ag_counts :: "int list"
  ag_sums :: "int list"
  ag_target_precision :: nat
  ag_target_scale :: int
  ag_sum_precision :: nat
  ag_sum_scale :: int

definition ag_new :: "nat \<Rightarrow> int \<Rightarrow> nat \<Rightarrow> int \<Rightarrow> avg_groups" where
  "ag_new target_precision target_scale sum_precision sum_scale =
     \<lparr>ag_is_not_null = [], ag_counts = [], ag_sums = [], ag_target_precision = target_precision,
      ag_target_scale = target_scale, ag_sum_precision = sum_precision, ag_sum_scale = sum_scale\<rparr>"

definition ag_update_single :: "nat \<Rightarrow> int \<Rightarrow> avg_groups \<Rightarrow> avg_groups option" where
  "ag_update_single g value s = do {
     old \<leftarrow> index (ag_sums s) g;
     let (new_sum, is_overflow) = overflowing_add old value;
     c \<leftarrow> index (ag_counts s) g;
     c \<leftarrow> i64_add c 1;
     counts \<leftarrow> update (ag_counts s) g c;
     sums \<leftarrow> update (ag_sums s) g new_sum;
     let s = s\<lparr>ag_counts := counts, ag_sums := sums\<rparr>;
     if is_overflow \<or> \<not> is_valid_decimal_precision new_sum (ag_sum_precision s) then do {
       is_not_null \<leftarrow> update (ag_is_not_null s) g False;
       Some (s\<lparr>ag_is_not_null := is_not_null\<rparr>)
     }
     else Some s
   }"

definition ag_update_batch :: "int arr \<Rightarrow> nat list \<Rightarrow> nat \<Rightarrow> avg_groups \<Rightarrow> avg_groups option" where
  "ag_update_batch values group_indices total_num_groups s = do {
     let s = s\<lparr>ag_counts := vec_resize total_num_groups 0 (ag_counts s),
               ag_sums := vec_resize total_num_groups 0 (ag_sums s),
               ag_is_not_null := ensure_bit_capacity (ag_is_not_null s) total_num_groups\<rparr>;
     each_group ag_update_single (null_test values) 0 (zip group_indices (arr_values values)) s
   }"

fun add_counts :: "(nat \<times> int) list \<Rightarrow> int list \<Rightarrow> int list option" where
  "add_counts [] counts = Some counts"
| "add_counts ((g, n) # gns) counts = do {
     c \<leftarrow> index counts g;
     c \<leftarrow> i64_add c n;
     counts \<leftarrow> update counts g c;
     add_counts gns counts
   }"

fun add_sums :: "(nat \<times> int) list \<Rightarrow> int list \<Rightarrow> int list option" where
  "add_sums [] sums = Some sums"
| "add_sums ((g, v) # gvs) sums = do {
     old \<leftarrow> index sums g;
     sums \<leftarrow> update sums g (wrap_i128 (old + v));
     add_sums gvs sums
   }"

fun clear_nulls :: "int arr \<Rightarrow> nat \<Rightarrow> nat list \<Rightarrow> bool list \<Rightarrow> bool list option" where
  "clear_nulls counts i [] nulls = Some nulls"
| "clear_nulls counts i (g # gs) nulls = do {
     b \<leftarrow> arr_is_null counts i;
     nulls \<leftarrow> (if b then update nulls g False else Some nulls);
     clear_nulls counts (Suc i) gs nulls
   }"

definition ag_merge_batch :: "int arr \<Rightarrow> int arr \<Rightarrow> nat list \<Rightarrow> nat \<Rightarrow> avg_groups \<Rightarrow> avg_groups option" where
  "ag_merge_batch partial_sums partial_counts group_indices total_num_groups s = do {
     counts \<leftarrow> add_counts (zip group_indices (arr_values partial_counts)) (vec_resize total_num_groups 0 (ag_counts s));
     sums \<leftarrow> add_sums (zip group_indices (arr_values partial_sums)) (vec_resize total_num_groups 0 (ag_sums s));
     let nulls = ensure_bit_capacity (ag_is_not_null s) total_num_groups;
     nulls \<leftarrow> (if null_count partial_counts \<noteq> 0 then clear_nulls partial_counts 0 group_indices nulls else Some nulls);
     Some (s\<lparr>ag_counts := counts, ag_sums := sums, ag_is_not_null := nulls\<rparr>)
   }"

fun avg_all :: "int \<Rightarrow> int \<Rightarrow> (bool \<times> int \<times> int) list \<Rightarrow> int option list option" where
  "avg_all target_max scaler [] = Some []"
| "avg_all target_max scaler ((is_not_null, tot, count) # gs) = do {
     r \<leftarrow> (if \<not> is_not_null \<or> count = 0 then Some None else avg tot count (- target_max) target_max scaler);
     rs \<leftarrow> avg_all target_max scaler gs;
     Some (r # rs)
   }"

definition ag_evaluate :: "(emit_to \<Rightarrow> int list \<Rightarrow> int list \<times> int list) \<Rightarrow> emit_to \<Rightarrow> avg_groups \<Rightarrow> (int option list \<times> avg_groups) option" where
  "ag_evaluate take_needed emit s = do {
     (nulls, is_not_null) \<leftarrow> build_bool_state (ag_is_not_null s) emit;
     let (counts, counts') = take_needed emit (ag_counts s);
     let (sums, sums') = take_needed emit (ag_sums s);
     scaler \<leftarrow> i128_pow10 (saturating_i8 (ag_target_scale s - ag_sum_scale s));
     ensure (ag_target_precision s \<le> 38);
     result \<leftarrow> avg_all (max_decimal (ag_target_precision s)) scaler (zip nulls (zip sums counts));
     Some (result, s\<lparr>ag_is_not_null := is_not_null, ag_counts := counts', ag_sums := sums'\<rparr>)
   }"

definition ag_state :: "(emit_to \<Rightarrow> int list \<Rightarrow> int list \<times> int list) \<Rightarrow> emit_to \<Rightarrow> avg_groups \<Rightarrow> ((int arr \<times> int arr) \<times> avg_groups) option" where
  "ag_state take_needed emit s = do {
     (nulls, is_not_null) \<leftarrow> build_bool_state (ag_is_not_null s) emit;
     let (counts, counts') = take_needed emit (ag_counts s);
     counts \<leftarrow> decimal_array counts nulls;
     let (sums, sums') = take_needed emit (ag_sums s);
     sums \<leftarrow> decimal_array sums nulls;
     Some ((sums, counts), s\<lparr>ag_is_not_null := is_not_null, ag_counts := counts', ag_sums := sums'\<rparr>)
   }"

end
