(* ===== verification/Spark_Math.thy ===== *)
theory Spark_Math
  imports Decimal_Aggregates
begin

text \<open>
  Arithmetic of \<open>native/spark-expr/src/math_funcs\<close>: checked integer arithmetic (\<open>checked_arithmetic.rs\<close>), decimal
  division (\<open>div.rs\<close>), \<open>round.rs\<close>, \<open>ceil.rs\<close>, \<open>floor.rs\<close>, \<open>negative.rs\<close>, and the internal expressions
  \<open>checkoverflow.rs\<close>, \<open>make_decimal.rs\<close>, \<open>unscaled_value.rs\<close>, \<open>normalize_nan.rs\<close>.

  A value of a column is an integer: an integer type or a decimal by its value, a float by its bits, a day-time
  interval as days times $2^{32}$ plus the unsigned low word of its milliseconds. \<open>None\<close> is a panic, \<open>Inl\<close> an error.
  What Arrow, DataFusion and the crate \<open>num\<close> provide is the record \<open>arrow_fns\<close>, an argument of the functions that
  use it.
\<close>

subsection \<open>Values\<close>

datatype data_type = Int8 | Int16 | Int32 | Int64 | Float16 | Float32 | Float64 | Decimal128 nat int
  | IntervalYearMonth | IntervalDayTime | IntervalMonthDayNano | OtherType string

datatype columnar_value = Array data_type "int arr" | Scalar data_type "int option"

datatype eval_mode = Legacy | Ansi | Try

datatype math_error = ArithmeticOverflow string | DivideByZero | Internal string | Execution string | ArrowError string

type_synonym 'a math_res = "(math_error + 'a) option"

text \<open>The functions of the libraries: the checked operations of \<open>ArrowNativeTypeOp\<close> (\<open>None\<close> for an error), the array of a
  scalar, the closures mapped over one or two arrays, the tests of the precision of a decimal and of a decimal type, negation, rounding of
  floats, and the divisions of \<open>num::integer\<close>.\<close>

record arrow_fns =
  add_checked :: "data_type \<Rightarrow> int \<Rightarrow> int \<Rightarrow> int option"
  sub_checked :: "data_type \<Rightarrow> int \<Rightarrow> int \<Rightarrow> int option"
  mul_checked :: "data_type \<Rightarrow> int \<Rightarrow> int \<Rightarrow> int option"
  div_checked :: "data_type \<Rightarrow> int \<Rightarrow> int \<Rightarrow> int option"
  is_zero :: "data_type \<Rightarrow> int \<Rightarrow> bool"
  to_array_of_size :: "int option \<Rightarrow> nat \<Rightarrow> int arr"
  arity_unary :: "(int \<Rightarrow> int option) \<Rightarrow> int arr \<Rightarrow> int arr option"
  arity_binary :: "(int \<Rightarrow> int \<Rightarrow> int option) \<Rightarrow> int arr \<Rightarrow> int arr \<Rightarrow> int arr math_res"
  validate_decimal_precision :: "int \<Rightarrow> nat \<Rightarrow> bool"
  validate_array_precision :: "int arr \<Rightarrow> nat \<Rightarrow> bool"
  null_if_overflow_precision :: "int arr \<Rightarrow> nat \<Rightarrow> int arr"
  legal_decimal_type :: "nat \<Rightarrow> int \<Rightarrow> bool"
  neg_wrapping :: "data_type \<Rightarrow> int arr \<Rightarrow> math_error + int arr"
  arithmetic_negate :: "data_type \<Rightarrow> int option \<Rightarrow> math_error + int option"
  float_round :: "data_type \<Rightarrow> int arr \<Rightarrow> int \<Rightarrow> math_error + int arr"
  num_div_floor :: "int \<Rightarrow> int \<Rightarrow> int"
  num_div_ceil :: "int \<Rightarrow> int \<Rightarrow> int"

text \<open>The array a builder finishes: a null has the default value.\<close>

definition finish_builder :: "int option list \<Rightarrow> int arr" where
  "finish_builder cells = \<lparr>arr_values = map (\<lambda>c. case c of None \<Rightarrow> 0 | Some v \<Rightarrow> v) cells,
     arr_validity = Some (map (\<lambda>c. c \<noteq> None) cells)\<rparr>"

definition get_precision_scale :: "data_type \<Rightarrow> (nat \<times> int) option" where
  "get_precision_scale dt = (case dt of Decimal128 p s \<Rightarrow> Some (p, s) | _ \<Rightarrow> None)"

text \<open>\<open>as u32\<close> of a signed value, wrapping to \<open>n\<close> bytes, and \<open>checked_pow\<close> of ten.\<close>

definition as_u32 :: "int \<Rightarrow> nat" where
  "as_u32 v = nat (v mod 2 ^ 32)"

definition wrap_int :: "nat \<Rightarrow> int \<Rightarrow> int" where
  "wrap_int n v = (v + 2 ^ (8 * n - 1)) mod 2 ^ (8 * n) - 2 ^ (8 * n - 1)"

definition checked_pow10 :: "nat \<Rightarrow> nat \<Rightarrow> int option" where
  "checked_pow10 n e = (if fits_int True n (10 ^ e) then Some (10 ^ e) else None)"

definition checked_i128 :: "int \<Rightarrow> int option" where
  "checked_i128 v = (if fits_i128 v then Some v else None)"

subsection \<open>\<open>checked_arithmetic.rs\<close>\<close>

text \<open>The loop of \<open>try_arithmetic_kernel\<close>, the same for the four operations.\<close>

fun arithmetic_loop :: "(int \<Rightarrow> int \<Rightarrow> int option) \<Rightarrow> (int \<Rightarrow> math_error) \<Rightarrow> bool \<Rightarrow> int arr \<Rightarrow> int arr \<Rightarrow> nat list \<Rightarrow>
    int option list math_res" where
  "arithmetic_loop f err ansi l r [] = Some (Inr [])"
| "arithmetic_loop f err ansi l r (i # is) = do {
     ln \<leftarrow> arr_is_null l i;
     rn \<leftarrow> (if ln then Some True else arr_is_null r i);
     if rn then and_then (arithmetic_loop f err ansi l r is) (\<lambda>cs. Some (Inr (None # cs)))
     else do {
       x \<leftarrow> index (arr_values l) i;
       y \<leftarrow> index (arr_values r) i;
       case f x y of
         Some v \<Rightarrow> and_then (arithmetic_loop f err ansi l r is) (\<lambda>cs. Some (Inr (Some v # cs)))
       | None \<Rightarrow>
           if ansi then Some (Inl (err y))
           else and_then (arithmetic_loop f err ansi l r is) (\<lambda>cs. Some (Inr (None # cs)))
     }
   }"

definition try_arithmetic_kernel :: "arrow_fns \<Rightarrow> data_type \<Rightarrow> int arr \<Rightarrow> int arr \<Rightarrow> string \<Rightarrow> bool \<Rightarrow> int arr math_res" where
  "try_arithmetic_kernel A ty l r op ansi =
     (let overflow = (\<lambda>_. ArithmeticOverflow ''integer'');
          run = (\<lambda>f err. and_then (arithmetic_loop f err ansi l r [0..<length (arr_values l)])
                   (\<lambda>cs. Some (Inr (finish_builder cs)))) in
      if op = ''checked_add'' then run (add_checked A ty) overflow
      else if op = ''checked_sub'' then run (sub_checked A ty) overflow
      else if op = ''checked_mul'' then run (mul_checked A ty) overflow
      else if op = ''checked_div'' then
        run (div_checked A ty) (\<lambda>y. if is_zero A ty y then DivideByZero else ArithmeticOverflow ''integer'')
      else Some (Inl (Internal ''Unsupported operation'')))"

text \<open>Two arguments as arrays of the same length.\<close>

definition both_arrays :: "arrow_fns \<Rightarrow> columnar_value \<Rightarrow> columnar_value \<Rightarrow> (data_type \<times> int arr) \<times> (data_type \<times> int arr)" where
  "both_arrays A l r =
     (case (l, r) of
        (Array lty l, Array rty r) \<Rightarrow> ((lty, l), (rty, r))
      | (Scalar lty l, Array rty r) \<Rightarrow> ((lty, to_array_of_size A l (length (arr_values r))), (rty, r))
      | (Array lty l, Scalar rty r) \<Rightarrow> ((lty, l), (rty, to_array_of_size A r (length (arr_values l))))
      | (Scalar lty l, Scalar rty r) \<Rightarrow> ((lty, to_array_of_size A l 1), (rty, to_array_of_size A r 1)))"

definition arithmetic_type :: "data_type \<Rightarrow> string \<Rightarrow> bool" where
  "arithmetic_type ty op \<longleftrightarrow>
     ty \<in> {Int8, Int16, Int32, Int64} \<or> ty \<in> {Float16, Float32, Float64} \<and> op = ''checked_div''"

definition checked_arithmetic_internal :: "arrow_fns \<Rightarrow> columnar_value list \<Rightarrow> data_type \<Rightarrow> string \<Rightarrow> eval_mode \<Rightarrow>
    columnar_value math_res" where
  "checked_arithmetic_internal A args ty op mode = do {
     left \<leftarrow> index args 0;
     right \<leftarrow> index args 1;
     if mode = Legacy then Some (Inl (Internal ''Unsupported mode''))
     else (let ((lty, l), (rty, r)) = both_arrays A left right in
           if arithmetic_type ty op then do {
             ensure (lty = ty \<and> rty = ty);
             and_then (try_arithmetic_kernel A ty l r op (mode = Ansi)) (\<lambda>a. Some (Inr (Array ty a)))
           }
           else Some (Inl (Internal ''Unsupported data type'')))
   }"

definition checked_add :: "arrow_fns \<Rightarrow> columnar_value list \<Rightarrow> data_type \<Rightarrow> eval_mode \<Rightarrow> columnar_value math_res" where
  "checked_add A args ty mode = checked_arithmetic_internal A args ty ''checked_add'' mode"

definition checked_sub :: "arrow_fns \<Rightarrow> columnar_value list \<Rightarrow> data_type \<Rightarrow> eval_mode \<Rightarrow> columnar_value math_res" where
  "checked_sub A args ty mode = checked_arithmetic_internal A args ty ''checked_sub'' mode"

definition checked_mul :: "arrow_fns \<Rightarrow> columnar_value list \<Rightarrow> data_type \<Rightarrow> eval_mode \<Rightarrow> columnar_value math_res" where
  "checked_mul A args ty mode = checked_arithmetic_internal A args ty ''checked_mul'' mode"

definition checked_div :: "arrow_fns \<Rightarrow> columnar_value list \<Rightarrow> data_type \<Rightarrow> eval_mode \<Rightarrow> columnar_value math_res" where
  "checked_div A args ty mode = checked_arithmetic_internal A args ty ''checked_div'' mode"

subsection \<open>\<open>div.rs\<close>\<close>

text \<open>The closure with \<open>BigInt\<close>, and the one with 128-bit integers.\<close>

definition big_div :: "bool \<Rightarrow> nat \<Rightarrow> nat \<Rightarrow> int \<Rightarrow> int \<Rightarrow> int option" where
  "big_div is_integral_div l_exp r_exp l r =
     (let l = l * 10 ^ l_exp; r = r * 10 ^ r_exp;
          q = (if r = 0 then 0 else tdiv l r);
          res = tdiv (if is_integral_div then q else if q < 0 then q - 5 else q + 5) 10
      in Some (if fits_i128 res then res else 2 ^ 127 - 1))"

definition i128_div :: "bool \<Rightarrow> int \<Rightarrow> int \<Rightarrow> int \<Rightarrow> int \<Rightarrow> int option" where
  "i128_div is_integral_div l_mul r_mul l r = do {
     l \<leftarrow> checked_i128 (l * l_mul);
     r \<leftarrow> checked_i128 (r * r_mul);
     q \<leftarrow> (if r = 0 then Some 0 else checked_i128 (tdiv l r));
     q \<leftarrow> (if is_integral_div then Some q else if q < 0 then checked_i128 (q - 5) else checked_i128 (q + 5));
     Some (tdiv q 10)
   }"

definition spark_decimal_div_internal :: "arrow_fns \<Rightarrow> columnar_value list \<Rightarrow> data_type \<Rightarrow> bool \<Rightarrow> columnar_value math_res" where
  "spark_decimal_div_internal A args ty is_integral_div = do {
     left \<leftarrow> index args 0;
     right \<leftarrow> index args 1;
     (p3, s3) \<leftarrow> get_precision_scale ty;
     let ((lty, l), (rty, r)) = both_arrays A left right;
     (p1, s1) \<leftarrow> get_precision_scale lty;
     (p2, s2) \<leftarrow> get_precision_scale rty;
     ensure (fits_int True 1 (s2 + s3) \<and> fits_int True 1 (s2 + s3 + 1));
     let l_exp = as_u32 (s2 + s3 + 1) - as_u32 s1;
     let r_exp = as_u32 s1 - as_u32 (s2 + s3 + 1);
     result \<leftarrow>
       (if p1 + l_exp > 38 \<or> p2 + r_exp > 38 then arity_binary A (big_div is_integral_div l_exp r_exp) l r
        else do {
          l_mul \<leftarrow> checked_pow10 16 l_exp;
          r_mul \<leftarrow> checked_pow10 16 r_exp;
          arity_binary A (i128_div is_integral_div l_mul r_mul) l r
        });
     and_then (Some result) (\<lambda>a. Some (Inr (Array (Decimal128 p3 s3) a)))
   }"

definition spark_decimal_div :: "arrow_fns \<Rightarrow> columnar_value list \<Rightarrow> data_type \<Rightarrow> columnar_value math_res" where
  "spark_decimal_div A args ty = spark_decimal_div_internal A args ty False"

definition spark_decimal_integral_div :: "arrow_fns \<Rightarrow> columnar_value list \<Rightarrow> data_type \<Rightarrow> columnar_value math_res" where
  "spark_decimal_integral_div A args ty = spark_decimal_div_internal A args ty True"

subsection \<open>\<open>round.rs\<close>\<close>

definition integer_round :: "nat \<Rightarrow> int \<Rightarrow> int \<Rightarrow> int \<Rightarrow> int" where
  "integer_round n x dv half =
     (let rem = x - dv * tdiv x dv in
      if rem \<le> - half then wrap_int n (x - rem - dv)
      else if rem \<ge> half then wrap_int n (x - rem + dv)
      else x - rem)"

definition round_integer_array :: "arrow_fns \<Rightarrow> data_type \<Rightarrow> nat \<Rightarrow> int arr \<Rightarrow> int \<Rightarrow> columnar_value math_res" where
  "round_integer_array A ty n a point = do {
     ensure (fits_i64 (- point));
     a \<leftarrow> (case checked_pow10 n (as_u32 (- point)) of
         Some dv \<Rightarrow> let half = tdiv dv 2 in arity_unary A (\<lambda>x. Some (integer_round n x dv half)) a
       | None \<Rightarrow> arity_unary A (\<lambda>_. Some 0) a);
     Some (Inr (Array ty a))
   }"

definition round_integer_scalar :: "data_type \<Rightarrow> nat \<Rightarrow> int option \<Rightarrow> int \<Rightarrow> columnar_value math_res" where
  "round_integer_scalar ty n v point = do {
     ensure (fits_i64 (- point));
     Some (Inr (case checked_pow10 n (as_u32 (- point)) of
         Some dv \<Rightarrow> let half = tdiv dv 2 in Scalar ty (map_option (\<lambda>x. integer_round n x dv half) v)
       | None \<Rightarrow> Scalar ty (Some 0)))
   }"

text \<open>The closure of \<open>decimal_round_f\<close> for a divisor and a multiplier, and the function that chooses it.\<close>

definition round_closure :: "int \<Rightarrow> int \<Rightarrow> int \<Rightarrow> int option" where
  "round_closure dv half x = do {
     y \<leftarrow> checked_i128 (x + sgn x * half);
     ensure (dv \<noteq> 0);
     checked_i128 (tdiv y dv)
   }"

definition decimal_round_f :: "int \<Rightarrow> int \<Rightarrow> (int \<Rightarrow> int option) option" where
  "decimal_round_f scale point =
     (if point < 0 then do {
        ensure (fits_i64 (- point));
        ensure (as_u32 (- point) + as_u32 scale < 2 ^ 32);
        Some (case checked_pow10 16 (as_u32 (- point) + as_u32 scale) of
            Some dv \<Rightarrow>
              let half = tdiv dv 2; mul = wrap_i128 (10 ^ as_u32 (- point)) in
              (\<lambda>x. do { q \<leftarrow> round_closure dv half x; checked_i128 (q * mul) })
          | None \<Rightarrow> (\<lambda>_. Some 0))
      }
      else
        let dv = wrap_i128 (10 ^ (as_u32 scale - min (as_u32 scale) (as_u32 point))); half = tdiv dv 2 in
        Some (round_closure dv half))"

definition make_decimal_scalar :: "int option \<Rightarrow> nat \<Rightarrow> int \<Rightarrow> (int \<Rightarrow> int option) \<Rightarrow> columnar_value math_res" where
  "make_decimal_scalar v p s f =
     (case v of None \<Rightarrow> Some (Inr (Scalar (Decimal128 p s) None))
      | Some x \<Rightarrow> do { y \<leftarrow> f x; Some (Inr (Scalar (Decimal128 p s) (Some y))) })"

definition make_decimal_array :: "arrow_fns \<Rightarrow> int arr \<Rightarrow> nat \<Rightarrow> int \<Rightarrow> (int \<Rightarrow> int option) \<Rightarrow> columnar_value math_res" where
  "make_decimal_array A a p s f = do { a \<leftarrow> arity_unary A f a; Some (Inr (Array (Decimal128 p s) a)) }"

text \<open>The width in bytes of the integer types.\<close>

definition int_width :: "data_type \<Rightarrow> nat option" where
  "int_width ty = (case ty of Int8 \<Rightarrow> Some 1 | Int16 \<Rightarrow> Some 2 | Int32 \<Rightarrow> Some 4 | Int64 \<Rightarrow> Some 8 | _ \<Rightarrow> None)"

definition spark_round :: "arrow_fns \<Rightarrow> columnar_value list \<Rightarrow> data_type \<Rightarrow> columnar_value math_res" where
  "spark_round A args ty = do {
     value \<leftarrow> index args 0;
     point \<leftarrow> index args 1;
     case point of
       Scalar Int64 (Some point) \<Rightarrow>
         (case value of
            Array vty a \<Rightarrow>
              (case (int_width vty, vty) of
                 (Some n, _) \<Rightarrow>
                   if point < 0 then round_integer_array A vty n a point
                   else Some (Inl (Execution ''Not supported datatype for ROUND''))
               | (_, Decimal128 _ scale) \<Rightarrow>
                   if scale \<ge> 0 then do {
                     f \<leftarrow> decimal_round_f scale point;
                     (p, s) \<leftarrow> get_precision_scale ty;
                     make_decimal_array A a p s f
                   }
                   else Some (Inl (Execution ''Not supported datatype for ROUND''))
               | _ \<Rightarrow>
                   if vty \<in> {Float32, Float64} then
                     and_then (Some (float_round A vty a point)) (\<lambda>a. Some (Inr (Array vty a)))
                   else Some (Inl (Execution ''Not supported datatype for ROUND'')))
          | Scalar vty v \<Rightarrow>
              (case (int_width vty, vty) of
                 (Some n, _) \<Rightarrow>
                   if point < 0 then round_integer_scalar vty n v point
                   else Some (Inl (Execution ''Not supported datatype for ROUND''))
               | (_, Decimal128 _ scale) \<Rightarrow>
                   if scale \<ge> 0 then do {
                     f \<leftarrow> decimal_round_f scale point;
                     (p, s) \<leftarrow> get_precision_scale ty;
                     make_decimal_scalar v p s f
                   }
                   else Some (Inl (Execution ''Not supported datatype for ROUND''))
               | _ \<Rightarrow>
                   if vty \<in> {Float32, Float64} then
                     and_then (Some (float_round A vty (to_array_of_size A v 1) point))
                       (\<lambda>a. do { isnull \<leftarrow> arr_is_null a 0; x \<leftarrow> index (arr_values a) 0;
                                 Some (Inr (Scalar vty (if isnull then None else Some x))) })
                   else Some (Inl (Execution ''Not supported datatype for ROUND''))))
     | _ \<Rightarrow> Some (Inl (Internal ''Invalid point argument for Round()''))
   }"

subsection \<open>\<open>ceil.rs\<close> and \<open>floor.rs\<close>\<close>

text \<open>A float by its bits: \<open>m\<close> fraction bits and \<open>e\<close> exponent bits. The significand and exponent of a finite
  value, rounded down or up to an integer, and converted to \<open>i64\<close> as Rust does: saturating, zero for NaN.\<close>

definition saturate_i64 :: "int \<Rightarrow> int" where
  "saturate_i64 v = max (- (2 ^ 63)) (min (2 ^ 63 - 1) v)"

definition float_to_i64 :: "nat \<Rightarrow> nat \<Rightarrow> (int \<Rightarrow> int \<Rightarrow> int) \<Rightarrow> int \<Rightarrow> int" where
  "float_to_i64 m e dv bits =
     (let fraction = bits mod 2 ^ m;
          ex = bits div 2 ^ m mod 2 ^ e;
          neg = bits div 2 ^ (m + e) mod 2 = 1;
          bias = 2 ^ (e - 1) - 1;
          sgnif = (if ex = 0 then fraction else 2 ^ m + fraction) * (if neg then - 1 else 1);
          shift = (if ex = 0 then 1 else ex) - bias - int m
      in if ex = 2 ^ e - 1 then (if fraction \<noteq> 0 then 0 else saturate_i64 (if neg then - (2 ^ 64) else 2 ^ 64))
         else saturate_i64 (if shift \<ge> 0 then sgnif * 2 ^ nat shift else dv sgnif (2 ^ nat (- shift))))"

definition floor_div :: "int \<Rightarrow> int \<Rightarrow> int" where
  "floor_div a b = a div b"

definition ceil_div :: "int \<Rightarrow> int \<Rightarrow> int" where
  "ceil_div a b = - (- a div b)"

definition decimal_ceil_f :: "arrow_fns \<Rightarrow> int \<Rightarrow> int \<Rightarrow> int option" where
  "decimal_ceil_f A scale x = (let dv = wrap_i128 (10 ^ as_u32 scale) in do { ensure (dv \<noteq> 0); Some (num_div_ceil A x dv) })"

definition decimal_floor_f :: "arrow_fns \<Rightarrow> int \<Rightarrow> int \<Rightarrow> int option" where
  "decimal_floor_f A scale x = (let dv = wrap_i128 (10 ^ as_u32 scale) in do { ensure (dv \<noteq> 0); Some (num_div_floor A x dv) })"

text \<open>The bodies of \<open>spark_ceil\<close> and \<open>spark_floor\<close> differ in the rounding of floats and of decimals.\<close>

definition round_to_integer :: "arrow_fns \<Rightarrow> (int \<Rightarrow> int \<Rightarrow> int) \<Rightarrow> (int \<Rightarrow> int \<Rightarrow> int option) \<Rightarrow> string \<Rightarrow>
    columnar_value list \<Rightarrow> data_type \<Rightarrow> columnar_value math_res" where
  "round_to_integer A fdiv f name args ty = do {
     value \<leftarrow> index args 0;
     case value of
       Array vty a \<Rightarrow>
         (case vty of
            Float32 \<Rightarrow> do { a \<leftarrow> arity_unary A (\<lambda>x. Some (float_to_i64 23 8 fdiv x)) a; Some (Inr (Array Int64 a)) }
          | Float64 \<Rightarrow> do { a \<leftarrow> arity_unary A (\<lambda>x. Some (float_to_i64 52 11 fdiv x)) a; Some (Inr (Array Int64 a)) }
          | Int64 \<Rightarrow> Some (Inr (Array Int64 a))
          | Decimal128 _ scale \<Rightarrow>
              if scale > 0 then do { (p, s) \<leftarrow> get_precision_scale ty; make_decimal_array A a p s (f scale) }
              else Some (Inl (Internal (''Unsupported data type for function '' @ name)))
          | _ \<Rightarrow> Some (Inl (Internal (''Unsupported data type for function '' @ name))))
     | Scalar vty v \<Rightarrow>
         (case vty of
            Float32 \<Rightarrow> Some (Inr (Scalar Int64 (map_option (float_to_i64 23 8 fdiv) v)))
          | Float64 \<Rightarrow> Some (Inr (Scalar Int64 (map_option (float_to_i64 52 11 fdiv) v)))
          | Int64 \<Rightarrow> Some (Inr (Scalar Int64 v))
          | Decimal128 _ scale \<Rightarrow>
              if scale > 0 then do { (p, s) \<leftarrow> get_precision_scale ty; make_decimal_scalar v p s (f scale) }
              else Some (Inl (Internal (''Unsupported data type for function '' @ name)))
          | _ \<Rightarrow> Some (Inl (Internal (''Unsupported data type for function '' @ name))))
   }"

definition spark_ceil :: "arrow_fns \<Rightarrow> columnar_value list \<Rightarrow> data_type \<Rightarrow> columnar_value math_res" where
  "spark_ceil A args ty = round_to_integer A ceil_div (decimal_ceil_f A) ''ceil'' args ty"

definition spark_floor :: "arrow_fns \<Rightarrow> columnar_value list \<Rightarrow> data_type \<Rightarrow> columnar_value math_res" where
  "spark_floor A args ty = round_to_integer A floor_div (decimal_floor_f A) ''floor'' args ty"

subsection \<open>\<open>negative.rs\<close>\<close>

text \<open>The macro \<open>check_overflow\<close>: the first value equal to the least one, null or not. The message of the narrow types
  holds the value.\<close>

definition check_min :: "int \<Rightarrow> string \<Rightarrow> int arr \<Rightarrow> (math_error + unit)" where
  "check_min min_val type_name a =
     (if list_ex (\<lambda>v. v = min_val) (arr_values a) then
        Inl (ArithmeticOverflow (if type_name = ''byte'' then ''-128 caused'' else if type_name = ''short'' then ''-32768 caused''
          else type_name))
      else Inr ())"

definition day_time_parts :: "int \<Rightarrow> int \<times> int" where
  "day_time_parts v = (v div 2 ^ 32, (v + 2 ^ 31) mod 2 ^ 32 - 2 ^ 31)"

definition day_time_min :: int where
  "day_time_min = - (2 ^ 31) * 2 ^ 32 + 2 ^ 31"

definition negate_array_check :: "data_type \<Rightarrow> int arr \<Rightarrow> math_error + unit" where
  "negate_array_check ty a =
     (case ty of
        Int8 \<Rightarrow> check_min (- (2 ^ 7)) ''byte'' a
      | Int16 \<Rightarrow> check_min (- (2 ^ 15)) ''short'' a
      | Int32 \<Rightarrow> check_min (- (2 ^ 31)) ''integer'' a
      | Int64 \<Rightarrow> check_min (- (2 ^ 63)) ''long'' a
      | IntervalYearMonth \<Rightarrow> check_min (- (2 ^ 31)) ''interval'' a
      | IntervalDayTime \<Rightarrow> check_min day_time_min ''interval'' a
      | _ \<Rightarrow> Inr ())"

definition negate_scalar_check :: "data_type \<Rightarrow> int option \<Rightarrow> math_error + unit" where
  "negate_scalar_check ty v =
     (case ty of
        Int8 \<Rightarrow> if v = Some (- (2 ^ 7)) then Inl (ArithmeticOverflow '' caused'') else Inr ()
      | Int16 \<Rightarrow> if v = Some (- (2 ^ 15)) then Inl (ArithmeticOverflow '' caused'') else Inr ()
      | Int32 \<Rightarrow> if v = Some (- (2 ^ 31)) then Inl (ArithmeticOverflow ''integer'') else Inr ()
      | Int64 \<Rightarrow> if v = Some (- (2 ^ 63)) then Inl (ArithmeticOverflow ''long'') else Inr ()
      | IntervalDayTime \<Rightarrow>
          (let (days, ms) = day_time_parts (case v of None \<Rightarrow> 0 | Some v \<Rightarrow> v) in
           if days = - (2 ^ 31) \<or> ms = - (2 ^ 31) then Inl (ArithmeticOverflow ''interval'') else Inr ())
      | IntervalYearMonth \<Rightarrow> if v = Some (- (2 ^ 31)) then Inl (ArithmeticOverflow ''interval'') else Inr ()
      | _ \<Rightarrow> Inr ())"

definition negative_evaluate :: "arrow_fns \<Rightarrow> bool \<Rightarrow> columnar_value \<Rightarrow> columnar_value math_res" where
  "negative_evaluate A fail_on_error arg =
     (case arg of
        Array ty a \<Rightarrow>
          and_then (Some (if fail_on_error then negate_array_check ty a else Inr ())) (\<lambda>_.
          and_then (Some (neg_wrapping A ty a)) (\<lambda>a. Some (Inr (Array ty a))))
      | Scalar ty v \<Rightarrow>
          and_then (Some (if fail_on_error then negate_scalar_check ty v else Inr ())) (\<lambda>_.
          and_then (Some (arithmetic_negate A ty v)) (\<lambda>v. Some (Inr (Scalar ty v)))))"

subsection \<open>The expressions under \<open>internal\<close>\<close>

definition check_overflow_evaluate :: "arrow_fns \<Rightarrow> data_type \<Rightarrow> bool \<Rightarrow> columnar_value \<Rightarrow> columnar_value math_res" where
  "check_overflow_evaluate A self_type fail_on_error arg =
     (case arg of
        Array (Decimal128 _ _) a \<Rightarrow>
          (case self_type of
             Decimal128 precision scale \<Rightarrow>
               if fail_on_error \<and> \<not> validate_array_precision A a precision then
                 Some (Inl (ArrowError ''decimal overflow''))
               else (let a = (if fail_on_error then a else null_if_overflow_precision A a precision) in
                     if legal_decimal_type A precision scale then Some (Inr (Array (Decimal128 precision scale) a))
                     else Some (Inl (ArrowError ''invalid precision or scale'')))
           | _ \<Rightarrow> Some (Inl (Execution ''CheckOverflow expects only Decimal128'')))
      | Scalar (Decimal128 precision scale) v \<Rightarrow> do {
          ensure (\<not> fail_on_error);
          Some (Inr (Scalar (Decimal128 precision scale)
            (case v of None \<Rightarrow> None | Some v \<Rightarrow> if validate_decimal_precision A v precision then Some v else None)))
        }
      | _ \<Rightarrow> Some (Inl (Execution ''CheckOverflow's child expression should be decimal array'')))"

definition long_to_decimal :: "arrow_fns \<Rightarrow> int option \<Rightarrow> nat \<Rightarrow> int option" where
  "long_to_decimal A v precision =
     (case v of Some v \<Rightarrow> if validate_decimal_precision A v precision then Some v else None | None \<Rightarrow> None)"

definition spark_make_decimal :: "arrow_fns \<Rightarrow> columnar_value list \<Rightarrow> data_type \<Rightarrow> columnar_value math_res" where
  "spark_make_decimal A args ty = do {
     (precision, scale) \<leftarrow> get_precision_scale ty;
     arg \<leftarrow> index args 0;
     case arg of
       Scalar vty n \<Rightarrow>
         if vty = Int64 then Some (Inr (Scalar (Decimal128 precision scale) (long_to_decimal A n precision)))
         else Some (Inl (Internal ''Expected Int64''))
     | Array vty a \<Rightarrow> do {
         ensure (vty = Int64);
         Some (Inr (Array (Decimal128 precision scale)
           (finish_builder (map (\<lambda>v. long_to_decimal A v precision) (arr_iter a)))))
       }
   }"

definition spark_unscaled_value :: "columnar_value list \<Rightarrow> columnar_value math_res" where
  "spark_unscaled_value args = do {
     arg \<leftarrow> index args 0;
     case arg of
       Scalar vty d \<Rightarrow>
         (case vty of
            Decimal128 _ _ \<Rightarrow> Some (Inr (Scalar Int64 (map_option (wrap_int 8) d)))
          | _ \<Rightarrow> Some (Inl (Internal ''Expected Decimal128'')))
     | Array vty a \<Rightarrow>
         (case vty of
            Decimal128 _ _ \<Rightarrow> Some (Inr (Array Int64 (finish_builder (map (map_option (wrap_int 8)) (arr_iter a)))))
          | _ \<Rightarrow> None)
   }"

text \<open>A float with \<open>m\<close> fraction bits and \<open>e\<close> exponent bits is NaN, or compares equal to the negative zero.\<close>

definition is_nan :: "nat \<Rightarrow> nat \<Rightarrow> int \<Rightarrow> bool" where
  "is_nan m e bits \<longleftrightarrow> bits div 2 ^ m mod 2 ^ e = 2 ^ e - 1 \<and> bits mod 2 ^ m \<noteq> 0"

definition is_neg_zero :: "nat \<Rightarrow> nat \<Rightarrow> int \<Rightarrow> bool" where
  "is_neg_zero m e bits \<longleftrightarrow> bits = 2 ^ (m + e) \<or> bits = 0"

definition normalize_float :: "nat \<Rightarrow> nat \<Rightarrow> int \<Rightarrow> int" where
  "normalize_float m e v =
     (if is_nan m e v then (2 ^ e - 1) * 2 ^ m + 2 ^ (m - 1) else if is_neg_zero m e v then 0 else v)"

definition normalize_nan_evaluate :: "data_type \<Rightarrow> data_type \<Rightarrow> int arr \<Rightarrow> columnar_value option" where
  "normalize_nan_evaluate self_type ty a = do {
     ensure (ty = self_type);
     case self_type of
       Float32 \<Rightarrow> Some (Array Float32 (finish_builder (map (map_option (normalize_float 23 8)) (arr_iter a))))
     | Float64 \<Rightarrow> Some (Array Float64 (finish_builder (map (map_option (normalize_float 52 11)) (arr_iter a))))
     | _ \<Rightarrow> None
   }"

end
