(* ===== verification/Spark_Hex.thy ===== *)
theory Spark_Hex
  imports Spark_Hash
begin

text \<open>
  The functions \<open>hex\<close> and \<open>unhex\<close> of \<open>native/spark-expr/src/math_funcs/hex.rs\<close> and \<open>unhex.rs\<close>. Strings are lists of
  bytes, the resulting string and binary columns lists of cells. \<open>unhex\<close> appends to a buffer that its caller reuses, so
  it returns whether it succeeded together with the buffer.
\<close>

datatype hex_error = HexInternal string | HexExecution string

datatype hex_arg = HexColumn column | HexUtf8 "u8 list option" | HexBoolean "bool option" | HexScalar

subsection \<open>\<open>hex.rs\<close>\<close>

definition hex_digit :: "bool \<Rightarrow> nat \<Rightarrow> u8" where
  "hex_digit lower_case d = (if d < 10 then of_nat (48 + d) else if lower_case then of_nat (87 + d) else of_nat (55 + d))"

text \<open>The formats \<open>X\<close> and \<open>02X\<close>; a negative number is written in two's complement.\<close>

fun nibbles :: "nat \<Rightarrow> nat list" where
  "nibbles n = (if n < 16 then [n] else nibbles (n div 16) @ [n mod 16])"

declare nibbles.simps [simp del]

definition hex_int64 :: "u64 \<Rightarrow> u8 list" where
  "hex_int64 num = map (hex_digit False) (nibbles (unat num))"

definition hex_encode :: "u8 list \<Rightarrow> bool \<Rightarrow> u8 list" where
  "hex_encode data lower_case =
     concat (map (\<lambda>b. [hex_digit lower_case (unat b div 16), hex_digit lower_case (unat b mod 16)]) data)"

definition hex_bytes :: "u8 list \<Rightarrow> u8 list" where
  "hex_bytes bytes = hex_encode bytes False"

fun hex_keys :: "u8 list option list \<Rightarrow> int option list \<Rightarrow> u8 list option list option" where
  "hex_keys vals [] = Some []"
| "hex_keys vals (k # ks) = do {
     c \<leftarrow> (case k of None \<Rightarrow> Some None | Some k \<Rightarrow> if 0 \<le> k then index vals (nat k) else None);
     cs \<leftarrow> hex_keys vals ks;
     Some (c # cs)
   }"

definition hex_dictionary_values :: "column \<Rightarrow> hex_error + u8 list option list" where
  "hex_dictionary_values vals =
     (case vals of
        Int64Array a \<Rightarrow> Inr (map (map_option hex_int64) (arr_iter a))
      | StringArray a \<Rightarrow> Inr (map (map_option hex_bytes) (arr_iter a))
      | BinaryArray a \<Rightarrow> Inr (map (map_option hex_bytes) (arr_iter a))
      | _ \<Rightarrow> Inl (HexExecution ''hex got an unexpected argument type''))"

definition spark_hex :: "hex_arg list \<Rightarrow> (hex_error + u8 list option list) option" where
  "spark_hex args =
     (if length args \<noteq> 1 then Some (Inl (HexInternal ''hex expects exactly one argument''))
      else case hd args of
        HexColumn c \<Rightarrow>
          (case c of
             Int64Array a \<Rightarrow> Some (Inr (map (map_option hex_int64) (arr_iter a)))
           | StringArray a \<Rightarrow> Some (Inr (map (map_option hex_bytes) (arr_iter a)))
           | LargeStringArray a \<Rightarrow> Some (Inr (map (map_option hex_bytes) (arr_iter a)))
           | BinaryArray a \<Rightarrow> Some (Inr (map (map_option hex_bytes) (arr_iter a)))
           | FixedSizeBinaryArray a \<Rightarrow> Some (Inr (map (map_option hex_bytes) (arr_iter a)))
           | DictionaryArray t keys vals \<Rightarrow> do {
               ensure (t = IdxInt32);
               and_then (Some (hex_dictionary_values vals)) (\<lambda>vs. returns (hex_keys vs (arr_iter keys)))
             }
           | _ \<Rightarrow> Some (Inl (HexExecution ''hex got an unexpected argument type'')))
      | _ \<Rightarrow> Some (Inl (HexExecution ''native hex does not support scalar values at this time'')))"

subsection \<open>\<open>unhex.rs\<close>\<close>

definition unhex_digit :: "u8 \<Rightarrow> hex_error + u8" where
  "unhex_digit c =
     (if 48 \<le> c \<and> c \<le> 57 then Inr (c - 48)
      else if 65 \<le> c \<and> c \<le> 70 then Inr (10 + c - 65)
      else if 97 \<le> c \<and> c \<le> 102 then Inr (10 + c - 97)
      else Inl (HexExecution ''Input to unhex_digit is not a valid hex digit''))"

fun unhex_loop :: "u8 list \<Rightarrow> u8 list \<Rightarrow> (bool \<times> u8 list) option" where
  "unhex_loop [] result = Some (True, result)"
| "unhex_loop [a] result = (case unhex_digit a of Inl _ \<Rightarrow> Some (False, result) | Inr _ \<Rightarrow> None)"
| "unhex_loop (a # b # bytes) result =
     (case unhex_digit a of
        Inl _ \<Rightarrow> Some (False, result)
      | Inr first \<Rightarrow>
          (case unhex_digit b of
             Inl _ \<Rightarrow> Some (False, result)
           | Inr second \<Rightarrow> unhex_loop bytes (result @ [push_bit 4 first OR second])))"

definition unhex :: "u8 list \<Rightarrow> u8 list \<Rightarrow> (bool \<times> u8 list) option" where
  "unhex bytes result =
     (if odd (length bytes) then
        (case unhex_digit (hd bytes) of
           Inl _ \<Rightarrow> Some (False, result)
         | Inr v \<Rightarrow> unhex_loop (tl bytes) (result @ [v]))
      else unhex_loop bytes result)"

text \<open>The loop over a column, with the buffer \<open>encoded\<close>.\<close>

fun unhex_items :: "bool \<Rightarrow> u8 list option list \<Rightarrow> u8 list \<Rightarrow> (hex_error + u8 list option list) option" where
  "unhex_items fail_on_error [] encoded = Some (Inr [])"
| "unhex_items fail_on_error (None # items) encoded =
     and_then (unhex_items fail_on_error items encoded) (\<lambda>cs. Some (Inr (None # cs)))"
| "unhex_items fail_on_error (Some s # items) encoded = do {
     (ok, encoded) \<leftarrow> unhex s encoded;
     if ok then and_then (unhex_items fail_on_error items []) (\<lambda>cs. Some (Inr (Some encoded # cs)))
     else if fail_on_error then Some (Inl (HexExecution ''Input to unhex is not a valid hex string''))
     else and_then (unhex_items fail_on_error items []) (\<lambda>cs. Some (Inr (None # cs)))
   }"

definition spark_unhex_inner :: "hex_arg \<Rightarrow> bool \<Rightarrow> (hex_error + u8 list option list) option" where
  "spark_unhex_inner arg fail_on_error =
     (case arg of
        HexColumn (StringArray a) \<Rightarrow> unhex_items fail_on_error (arr_iter a) []
      | HexColumn (LargeStringArray a) \<Rightarrow> unhex_items fail_on_error (arr_iter a) []
      | HexUtf8 (Some s) \<Rightarrow> do {
          (ok, encoded) \<leftarrow> unhex s [];
          if ok then Some (Inr [Some encoded])
          else if fail_on_error then Some (Inl (HexExecution ''Input to unhex is not a valid hex string''))
          else Some (Inr [None])
        }
      | HexUtf8 None \<Rightarrow> Some (Inr [None])
      | _ \<Rightarrow> Some (Inl (HexExecution ''The first argument must be a string scalar or array'')))"

definition spark_unhex :: "hex_arg list \<Rightarrow> (hex_error + u8 list option list) option" where
  "spark_unhex args =
     (if length args > 2 then Some (Inl (HexExecution ''unhex takes at most 2 arguments''))
      else do {
        val_to_unhex \<leftarrow> index args 0;
        and_then (if length args = 2 then
            (case args ! 1 of HexBoolean (Some b) \<Rightarrow> Some (Inr b)
             | _ \<Rightarrow> Some (Inl (HexExecution ''The second argument must be boolean scalar'')))
          else Some (Inr False)) (\<lambda>fail_on_error.
        case val_to_unhex of
          HexColumn (StringArray _) \<Rightarrow> spark_unhex_inner val_to_unhex fail_on_error
        | HexUtf8 _ \<Rightarrow> spark_unhex_inner val_to_unhex fail_on_error
        | HexColumn (LargeStringArray _) \<Rightarrow> spark_unhex_inner val_to_unhex fail_on_error
        | _ \<Rightarrow> Some (Inl (HexExecution ''The first argument must be a Utf8 or LargeUtf8'')))
      })"

subsection \<open>Round trip\<close>

lemma unhex_hex_digit: "d < 16 \<Longrightarrow> unhex_digit (hex_digit lower d) = Inr (of_nat d)"
proof -
  assume "d < 16"
  then have "d \<in> set [0..<16]" by simp
  moreover have "list_all (\<lambda>d. unhex_digit (hex_digit True d) = Inr (of_nat d) \<and> unhex_digit (hex_digit False d) = Inr (of_nat d)) [0..<16]"
    by code_simp
  ultimately show ?thesis by (cases lower) (auto simp: list_all_iff)
qed

lemma byte_of_nibbles:
  assumes "h < 16" and "l < 16"
  shows "unat (push_bit 4 (of_nat h) OR of_nat l :: u8) = 16 * h + l"
proof -
  have "list_all (\<lambda>h. list_all (\<lambda>l. unat (push_bit 4 (of_nat h) OR of_nat l :: u8) = 16 * h + l) [0..<16]) [0..<16]"
    by code_simp
  with assms show ?thesis by (simp add: list_all_iff)
qed

text \<open>Reading the digits of a list of nibbles.\<close>

definition be_value :: "nat \<Rightarrow> u8 list \<Rightarrow> nat" where
  "be_value v bs = foldl (\<lambda>v b. 256 * v + unat b) v bs"

definition nibble_value :: "nat \<Rightarrow> nat list \<Rightarrow> nat" where
  "nibble_value v ds = foldl (\<lambda>v d. 16 * v + d) v ds"

lemma unhex_loop_nibbles:
  assumes "list_all (\<lambda>d. d < 16) ds" and "even (length ds)"
  shows "\<exists>bs. unhex_loop (map (hex_digit lower) ds) r = Some (True, r @ bs) \<and> (\<forall>v. be_value v bs = nibble_value v ds)"
  using assms
proof (induction ds arbitrary: r rule: induct_list012)
  case 1
  show ?case by (simp add: be_value_def nibble_value_def)
next
  case (2 d)
  then show ?case by simp
next
  case (3 h l ds)
  let ?b = "push_bit 4 (of_nat h) OR of_nat l :: u8"
  have hl: "h < 16" "l < 16" "list_all (\<lambda>d. d < 16) ds" "even (length ds)" using 3 by simp_all
  obtain bs where bs: "unhex_loop (map (hex_digit lower) ds) (r @ [?b]) = Some (True, (r @ [?b]) @ bs)"
    "\<forall>v. be_value v bs = nibble_value v ds" using 3(1) [OF hl(3,4)] by blast
  have "\<forall>v. be_value v (?b # bs) = nibble_value v (h # l # ds)"
    using bs(2) byte_of_nibbles [OF hl(1,2)] by (simp add: be_value_def nibble_value_def algebra_simps)
  with bs(1) hl show ?case by (intro exI [of _ "?b # bs"]) (simp add: unhex_hex_digit)
qed

lemma unhex_nibbles:
  assumes "list_all (\<lambda>d. d < 16) ds"
  shows "\<exists>bs. unhex (map (hex_digit lower) ds) [] = Some (True, bs) \<and> be_value 0 bs = nibble_value 0 ds"
proof (cases "even (length ds)")
  case True
  from unhex_loop_nibbles [OF assms this, of lower "[]"] True show ?thesis by (auto simp: unhex_def)
next
  case False
  then obtain d ds' where ds: "ds = d # ds'" by (cases ds) auto
  have "list_all (\<lambda>d. d < 16) ds'" "even (length ds')" "d < 16" using assms False ds by simp_all
  with unhex_loop_nibbles [of ds' lower "[of_nat d]"] obtain bs where
    "unhex_loop (map (hex_digit lower) ds') [of_nat d] = Some (True, [of_nat d] @ bs)" "be_value d bs = nibble_value d ds'" by blast
  then show ?thesis using False \<open>d < 16\<close>
    by (auto simp: unhex_def ds unhex_hex_digit be_value_def nibble_value_def unat_of_nat_eq)
qed

lemma nibbles_value: "nibble_value 0 (nibbles n) = n \<and> list_all (\<lambda>d. d < 16) (nibbles n)"
proof (induction n rule: nibbles.induct)
  case (1 n)
  then show ?case by (cases "n < 16") (simp_all add: nibbles.simps [of n] nibble_value_def)
qed

lemma unhex_hex_int64: "\<exists>bs. unhex (hex_int64 num) [] = Some (True, bs) \<and> be_value 0 bs = unat num"
  using unhex_nibbles [of "nibbles (unat num)" False] nibbles_value [of "unat num"] by (simp add: hex_int64_def)

lemma byte_nibbles: "push_bit 4 (of_nat (unat b div 16)) OR of_nat (unat b mod 16) = (b :: u8)"
proof -
  have "unat b < 256" using unsigned_less [of b] by simp
  then have "unat (push_bit 4 (of_nat (unat b div 16)) OR of_nat (unat b mod 16) :: u8) = unat b"
    by (subst byte_of_nibbles) simp_all
  then show ?thesis by (simp only: word_unat_eq_iff)
qed

lemma unhex_loop_encode: "unhex_loop (hex_encode bytes lower) r = Some (True, r @ bytes)"
proof (induction bytes arbitrary: r)
  case Nil
  show ?case by (simp add: hex_encode_def)
next
  case (Cons b bytes)
  have "unat b < 256" using unsigned_less [of b] by simp
  then have "unhex_digit (hex_digit lower (unat b div 16)) = Inr (of_nat (unat b div 16))"
    "unhex_digit (hex_digit lower (unat b mod 16)) = Inr (of_nat (unat b mod 16))" by (simp_all add: unhex_hex_digit)
  with Cons show ?case by (simp add: hex_encode_def byte_nibbles)
qed

lemma unhex_hex_bytes: "unhex (hex_bytes bytes) [] = Some (True, bytes)"
proof -
  have "even (length (hex_encode bytes False))" by (induction bytes) (simp_all add: hex_encode_def)
  then show ?thesis by (simp add: unhex_def hex_bytes_def unhex_loop_encode)
qed

text \<open>
  C37. \<open>unhex\<close> undoes \<open>hex\<close>: for a column of strings or binary values, nulls included, unhexing the cells that \<open>hex\<close> returns
  gives the column back without an error; the digits of a 64-bit integer unhex to bytes that spell the number, most
  significant byte first, for negative numbers in two's complement.
\<close>

theorem hex_unhex_round_trip:
  "(\<exists>cells. spark_hex [HexColumn (BinaryArray a)] = Some (Inr cells) \<and>
      spark_hex [HexColumn (StringArray a)] = Some (Inr cells) \<and>
      unhex_items fail_on_error cells [] = Some (Inr (arr_iter a))) \<and>
   (\<exists>bs. unhex (hex_int64 num) [] = Some (True, bs) \<and> be_value 0 bs = unat num)"
proof -
  have "unhex_items fail_on_error (map (map_option hex_bytes) cs) [] = Some (Inr cs)" for cs
  proof (induction cs)
    case (Cons c cs)
    then show ?case by (cases c) (simp_all add: unhex_hex_bytes)
  qed simp
  then show ?thesis by (simp add: spark_hex_def unhex_hex_int64)
qed

end
