(* ===== verification/Spark_Cast.thy ===== *)
theory Spark_Cast
  imports Spark_Math Spark_Hex
begin

text \<open>
  The cast expression of \<open>native/spark-expr/src/conversion_funcs/cast.rs\<close>: the tables of supported casts, the choice of
  the routine for a pair of types, and the routines written in the repository. The casts that are left to Arrow, the time
  zones and the calendar of \<open>chrono\<close> are parameters.

  A string is a list of Unicode code points. A column is a list of cells; a float is given by its bits. The error of an
  overflow carries the value itself where the code formats it.
\<close>

subsection \<open>Types and options\<close>

type_synonym str = "nat list"

datatype cast_type = TNull | TBoolean | TInt8 | TInt16 | TInt32 | TInt64 | TUInt8 | TUInt16 | TUInt32 | TUInt64
  | TFloat32 | TFloat64 | TDecimal128 nat int | TDecimal256 nat int | TDate32 | TDate64 | TTimestamp time_unit "string option"
  | TUtf8 | TLargeUtf8 | TUtf8View | TBinary | TLargeBinary | TList cast_type | TStruct "(string \<times> cast_type) list"
  | TDictionary cast_type cast_type | TOther string

datatype binary_output_style = StyleUtf8 | StyleBasic | StyleBase64 | StyleHex | StyleHexDiscrete

record cast_options =
  co_eval_mode :: eval_mode
  co_timezone :: string
  co_allow_incompat :: bool
  co_allow_cast_unsigned_ints :: bool
  co_is_adapting_schema :: bool
  co_null_string :: str
  co_binary_output_style :: "binary_output_style option"

definition text_of :: "string \<Rightarrow> str" where
  "text_of s = map (\<lambda>c. of_char c) s"

definition cast_options_new :: "eval_mode \<Rightarrow> string \<Rightarrow> bool \<Rightarrow> cast_options" where
  "cast_options_new mode timezone allow_incompat =
     \<lparr>co_eval_mode = mode, co_timezone = timezone, co_allow_incompat = allow_incompat, co_allow_cast_unsigned_ints = False,
      co_is_adapting_schema = False, co_null_string = text_of ''null'', co_binary_output_style = None\<rparr>"

definition cast_options_without_timezone :: "eval_mode \<Rightarrow> bool \<Rightarrow> cast_options" where
  "cast_options_without_timezone mode allow_incompat =
     \<lparr>co_eval_mode = mode, co_timezone = [], co_allow_incompat = allow_incompat, co_allow_cast_unsigned_ints = False,
      co_is_adapting_schema = False, co_null_string = text_of ''null'', co_binary_output_style = None\<rparr>"

datatype cast_error = CastInvalidValue str string string | CastOverFlow int string string
  | NumericValueOutOfRange int nat int | CastInternal string | CastArrow string

type_synonym 'a cast_res = "(cast_error + 'a) option"

subsection \<open>Which casts are supported\<close>

definition is_int_type :: "cast_type \<Rightarrow> bool" where
  "is_int_type t \<longleftrightarrow> t \<in> {TInt8, TInt16, TInt32, TInt64}"

definition is_uint_type :: "cast_type \<Rightarrow> bool" where
  "is_uint_type t \<longleftrightarrow> t \<in> {TUInt8, TUInt16, TUInt32, TUInt64}"

definition can_cast_from_string :: "cast_type \<Rightarrow> cast_options \<Rightarrow> bool" where
  "can_cast_from_string to_type options =
     (case to_type of
        TBoolean \<Rightarrow> True | TInt8 \<Rightarrow> True | TInt16 \<Rightarrow> True | TInt32 \<Rightarrow> True | TInt64 \<Rightarrow> True | TBinary \<Rightarrow> True
      | TFloat32 \<Rightarrow> co_allow_incompat options | TFloat64 \<Rightarrow> co_allow_incompat options
      | TDecimal128 _ _ \<Rightarrow> co_allow_incompat options
      | TDate32 \<Rightarrow> co_allow_incompat options | TDate64 \<Rightarrow> co_allow_incompat options
      | TTimestamp _ tz \<Rightarrow>
          if co_eval_mode options = Ansi then False
          else (case tz of Some tz \<Rightarrow> if tz \<noteq> ''UTC'' then co_allow_incompat options else co_allow_incompat options
                | None \<Rightarrow> co_allow_incompat options)
      | _ \<Rightarrow> False)"

fun can_cast_to_string :: "cast_type \<Rightarrow> bool" where
  "can_cast_to_string TBoolean = True" | "can_cast_to_string TInt8 = True" | "can_cast_to_string TInt16 = True"
| "can_cast_to_string TInt32 = True" | "can_cast_to_string TInt64 = True" | "can_cast_to_string TDate32 = True"
| "can_cast_to_string TDate64 = True" | "can_cast_to_string (TTimestamp u tz) = True"
| "can_cast_to_string TFloat32 = True" | "can_cast_to_string TFloat64 = True" | "can_cast_to_string (TDecimal128 p s) = True"
| "can_cast_to_string TBinary = True"
| "can_cast_to_string (TStruct fs) = list_all (\<lambda>f. can_cast_to_string (snd f)) fs"
| "can_cast_to_string _ = False"

definition can_cast_from_timestamp_ntz :: "cast_type \<Rightarrow> cast_options \<Rightarrow> bool" where
  "can_cast_from_timestamp_ntz to_type options =
     (case to_type of TTimestamp _ _ \<Rightarrow> co_allow_incompat options | TDate32 \<Rightarrow> co_allow_incompat options
      | TDate64 \<Rightarrow> co_allow_incompat options | TUtf8 \<Rightarrow> co_allow_incompat options | _ \<Rightarrow> False)"

definition can_cast_from_timestamp :: "cast_type \<Rightarrow> bool" where
  "can_cast_from_timestamp to_type =
     (case to_type of TBoolean \<Rightarrow> False | TInt8 \<Rightarrow> False | TInt16 \<Rightarrow> False | TInt64 \<Rightarrow> True
      | TDate32 \<Rightarrow> True | TDate64 \<Rightarrow> True | TUtf8 \<Rightarrow> True | TDecimal128 _ _ \<Rightarrow> True | _ \<Rightarrow> False)"

definition can_cast_from_boolean :: "cast_type \<Rightarrow> bool" where
  "can_cast_from_boolean to_type \<longleftrightarrow> is_int_type to_type \<or> to_type \<in> {TFloat32, TFloat64}"

definition is_decimal128 :: "cast_type \<Rightarrow> bool" where
  "is_decimal128 t = (case t of TDecimal128 _ _ \<Rightarrow> True | _ \<Rightarrow> False)"

definition can_cast_from_byte :: "cast_type \<Rightarrow> bool" where
  "can_cast_from_byte to_type \<longleftrightarrow> to_type = TBoolean \<or> is_int_type to_type \<or> to_type \<in> {TFloat32, TFloat64} \<or> is_decimal128 to_type"

definition can_cast_from_short :: "cast_type \<Rightarrow> bool" where
  "can_cast_from_short to_type \<longleftrightarrow> to_type = TBoolean \<or> is_int_type to_type \<or> to_type \<in> {TFloat32, TFloat64} \<or> is_decimal128 to_type"

definition can_cast_from_int :: "cast_type \<Rightarrow> cast_options \<Rightarrow> bool" where
  "can_cast_from_int to_type options \<longleftrightarrow>
     (if to_type = TBoolean \<or> is_int_type to_type \<or> to_type \<in> {TFloat32, TFloat64, TUtf8} then True
      else if is_decimal128 to_type then co_allow_incompat options else False)"

definition can_cast_from_long :: "cast_type \<Rightarrow> cast_options \<Rightarrow> bool" where
  "can_cast_from_long to_type options \<longleftrightarrow>
     (if to_type = TBoolean \<or> is_int_type to_type \<or> to_type \<in> {TFloat32, TFloat64} then True
      else if is_decimal128 to_type then co_allow_incompat options else False)"

definition can_cast_from_float :: "cast_type \<Rightarrow> bool" where
  "can_cast_from_float to_type \<longleftrightarrow> to_type = TBoolean \<or> is_int_type to_type \<or> to_type = TFloat64 \<or> is_decimal128 to_type"

definition can_cast_from_double :: "cast_type \<Rightarrow> bool" where
  "can_cast_from_double to_type \<longleftrightarrow> to_type = TBoolean \<or> is_int_type to_type \<or> to_type = TFloat32 \<or> is_decimal128 to_type"

definition can_cast_from_decimal :: "nat \<Rightarrow> cast_type \<Rightarrow> cast_options \<Rightarrow> bool" where
  "can_cast_from_decimal p1 to_type options =
     (if is_int_type to_type \<or> to_type \<in> {TFloat32, TFloat64} then True
      else case to_type of TDecimal128 p2 _ \<Rightarrow> if p2 < p1 then co_allow_incompat options else True | _ \<Rightarrow> False)"

definition undictionary :: "cast_type \<Rightarrow> cast_type" where
  "undictionary t = (case t of TDictionary _ dt \<Rightarrow> dt | _ \<Rightarrow> t)"

text \<open>The recursion descends into the fields of two structs, possibly through a dictionary.\<close>

lemma size_undictionary: "size (undictionary t) \<le> size t"
  by (cases t) (simp_all add: undictionary_def)

lemma size_struct_field: "(n, t) \<in> set fs \<Longrightarrow> size t < size (TStruct fs)"
  by (induction fs) auto

lemma size_zip_field: "TStruct fs = undictionary t \<Longrightarrow> ((n, f), z) \<in> set (zip fs ts) \<Longrightarrow> size f < size t"
  using size_undictionary [of t] size_struct_field [of n f fs] by (auto dest: set_zip_leftD)

function cast_supported :: "cast_type \<Rightarrow> cast_type \<Rightarrow> cast_options \<Rightarrow> bool" where
  "cast_supported from to options =
     (let from_type = undictionary from; to_type = undictionary to in
      if from_type = to_type then True
      else case from_type of
        TBoolean \<Rightarrow> can_cast_from_boolean to_type
      | TInt8 \<Rightarrow> can_cast_from_byte to_type
      | TInt16 \<Rightarrow> can_cast_from_short to_type
      | TInt32 \<Rightarrow> can_cast_from_int to_type options
      | TInt64 \<Rightarrow> can_cast_from_long to_type options
      | TFloat32 \<Rightarrow> can_cast_from_float to_type
      | TFloat64 \<Rightarrow> can_cast_from_double to_type
      | TDecimal128 p s \<Rightarrow> can_cast_from_decimal p to_type options
      | TTimestamp _ None \<Rightarrow> can_cast_from_timestamp_ntz to_type options
      | TTimestamp _ (Some _) \<Rightarrow> can_cast_from_timestamp to_type
      | TUtf8 \<Rightarrow> can_cast_from_string to_type options
      | TLargeUtf8 \<Rightarrow> can_cast_from_string to_type options
      | _ \<Rightarrow>
          if is_uint_type from_type \<and> is_int_type to_type \<and> co_allow_cast_unsigned_ints options then True
          else if to_type \<in> {TUtf8, TLargeUtf8} then can_cast_to_string from_type
          else case (from_type, to_type) of
            (TStruct fs, TStruct ts) \<Rightarrow> list_all (\<lambda>(a, b). cast_supported (snd a) (snd b) options) (zip fs ts)
          | _ \<Rightarrow> False)"
  by pat_completeness auto

termination
proof (relation "measure (\<lambda>(f, t, opts). size f)")
  show "wf (measure (\<lambda>(f, t, opts). size f))" by simp
qed (auto dest: size_zip_field)

definition is_datafusion_spark_compatible :: "cast_type \<Rightarrow> cast_type \<Rightarrow> bool \<Rightarrow> bool" where
  "is_datafusion_spark_compatible from_type to_type allow_incompat =
     (if from_type = to_type then True
      else case from_type of
        TNull \<Rightarrow> (case to_type of TList _ \<Rightarrow> True | _ \<Rightarrow> False)
      | TBoolean \<Rightarrow> is_int_type to_type \<or> to_type \<in> {TFloat32, TFloat64, TUtf8}
      | TDecimal128 _ _ \<Rightarrow> is_int_type to_type \<or> to_type \<in> {TFloat32, TFloat64, TUtf8} \<or> is_decimal128 to_type \<or>
          (case to_type of TDecimal256 _ _ \<Rightarrow> True | _ \<Rightarrow> False)
      | TDecimal256 _ _ \<Rightarrow> is_int_type to_type \<or> to_type \<in> {TFloat32, TFloat64, TUtf8} \<or> is_decimal128 to_type \<or>
          (case to_type of TDecimal256 _ _ \<Rightarrow> True | _ \<Rightarrow> False)
      | TUtf8 \<Rightarrow> if allow_incompat then to_type \<in> {TBinary, TFloat32, TFloat64} \<or> is_decimal128 to_type else to_type = TBinary
      | TDate32 \<Rightarrow> to_type = TUtf8
      | TTimestamp _ _ \<Rightarrow> to_type \<in> {TInt64, TDate32, TUtf8} \<or> (case to_type of TTimestamp _ _ \<Rightarrow> True | _ \<Rightarrow> False)
      | TBinary \<Rightarrow> to_type = TUtf8
      | _ \<Rightarrow>
          if is_int_type from_type then
            to_type = TBoolean \<or> is_int_type to_type \<or> to_type \<in> {TFloat32, TFloat64, TUtf8} \<or> is_decimal128 to_type
          else if from_type \<in> {TFloat32, TFloat64} then
            to_type = TBoolean \<or> is_int_type to_type \<or> to_type \<in> {TFloat32, TFloat64}
          else False)"

subsection \<open>The routine for a pair of types\<close>

text \<open>The arms of the \<open>match\<close> in \<open>cast_array\<close>.\<close>

datatype cast_plan = PlanUtf8ToBoolean | PlanStringToTimestamp | PlanStringToDate | PlanIntToInt | PlanStringToInt
  | PlanFloatToString | PlanFloatToDecimal nat int | PlanToIntegral | PlanView | PlanStructToString | PlanStructToStruct
  | PlanNativeSafe | PlanBinaryToString | PlanNative | PlanUnsupported

definition narrowing :: "cast_type \<Rightarrow> cast_type \<Rightarrow> bool" where
  "narrowing from_type to_type \<longleftrightarrow>
     (from_type, to_type) \<in> {(TInt64, TInt32), (TInt64, TInt16), (TInt64, TInt8), (TInt32, TInt16), (TInt32, TInt8), (TInt16, TInt8)}"

definition choose_cast :: "(cast_type \<Rightarrow> cast_type \<Rightarrow> bool) \<Rightarrow> cast_type \<Rightarrow> cast_type \<Rightarrow> cast_options \<Rightarrow> cast_plan" where
  "choose_cast can_cast_types from_type to_type options =
     (let mode = co_eval_mode options;
          native = (if co_is_adapting_schema options \<or> is_datafusion_spark_compatible from_type to_type (co_allow_incompat options)
                    then PlanNative else PlanUnsupported) in
      if from_type \<in> {TUtf8, TLargeUtf8} \<and> to_type = TBoolean then PlanUtf8ToBoolean
      else if from_type = TUtf8 \<and> (case to_type of TTimestamp _ _ \<Rightarrow> True | _ \<Rightarrow> False) then PlanStringToTimestamp
      else if from_type = TUtf8 \<and> to_type = TDate32 then PlanStringToDate
      else if narrowing from_type to_type \<and> mode \<noteq> Try then PlanIntToInt
      else if from_type \<in> {TUtf8, TLargeUtf8} \<and> is_int_type to_type then PlanStringToInt
      else if from_type \<in> {TFloat32, TFloat64} \<and> to_type \<in> {TUtf8, TLargeUtf8} then PlanFloatToString
      else case (from_type \<in> {TFloat32, TFloat64}, to_type) of
        (True, TDecimal128 precision scale) \<Rightarrow> PlanFloatToDecimal precision scale
      | _ \<Rightarrow>
        if (from_type \<in> {TFloat32, TFloat64} \<or> is_decimal128 from_type) \<and> is_int_type to_type \<and> mode \<noteq> Try then PlanToIntegral
        else if from_type = TUtf8View \<and> to_type = TUtf8 then PlanView
        else if (case from_type of TStruct _ \<Rightarrow> True | _ \<Rightarrow> False) \<and> to_type = TUtf8 then PlanStructToString
        else if (case from_type of TStruct _ \<Rightarrow> True | _ \<Rightarrow> False) \<and> (case to_type of TStruct _ \<Rightarrow> True | _ \<Rightarrow> False) then PlanStructToStruct
        else if (case from_type of TList _ \<Rightarrow> True | _ \<Rightarrow> False) \<and> (case to_type of TList _ \<Rightarrow> True | _ \<Rightarrow> False) \<and>
            can_cast_types from_type to_type then PlanNativeSafe
        else if is_uint_type from_type \<and> is_int_type to_type \<and> co_allow_cast_unsigned_ints options then PlanNativeSafe
        else if from_type = TBinary \<and> to_type = TUtf8 then PlanBinaryToString
        else native)"

subsection \<open>Strings to booleans and integers\<close>

text \<open>The cells of a column converted one after the other, up to the first error; \<open>None\<close> of the function is a panic.\<close>

fun collect_cells :: "('a \<Rightarrow> 'b option cast_res) \<Rightarrow> 'a option list \<Rightarrow> 'b option list cast_res" where
  "collect_cells f [] = Some (Inr [])"
| "collect_cells f (None # cs) = and_then (collect_cells f cs) (\<lambda>rs. Some (Inr (None # rs)))"
| "collect_cells f (Some x # cs) = and_then (f x) (\<lambda>r. and_then (collect_cells f cs) (\<lambda>rs. Some (Inr (r # rs))))"

text \<open>\<open>char::is_whitespace\<close>, \<open>str::trim\<close>, \<open>to_ascii_lowercase\<close>, \<open>is_ascii_digit\<close>.\<close>

definition is_whitespace :: "nat \<Rightarrow> bool" where
  "is_whitespace c \<longleftrightarrow> 9 \<le> c \<and> c \<le> 13 \<or> c \<in> {32, 133, 160, 5760, 8232, 8233, 8239, 8287, 12288} \<or> 8192 \<le> c \<and> c \<le> 8202"

definition trim_str :: "str \<Rightarrow> str" where
  "trim_str s = rev (dropWhile is_whitespace (rev (dropWhile is_whitespace s)))"

definition ascii_lower :: "str \<Rightarrow> str" where
  "ascii_lower s = map (\<lambda>c. if 65 \<le> c \<and> c \<le> 90 then c + 32 else c) s"

definition is_digit :: "nat \<Rightarrow> bool" where
  "is_digit c \<longleftrightarrow> 48 \<le> c \<and> c \<le> 57"

definition utf8_to_boolean :: "eval_mode \<Rightarrow> str \<Rightarrow> bool option cast_res" where
  "utf8_to_boolean mode value =
     (let v = trim_str (ascii_lower value) in
      if v \<in> {text_of ''t'', text_of ''true'', text_of ''y'', text_of ''yes'', text_of ''1''} then Some (Inr (Some True))
      else if v \<in> {text_of ''f'', text_of ''false'', text_of ''n'', text_of ''no'', text_of ''0''} then Some (Inr (Some False))
      else if mode = Ansi then Some (Inl (CastInvalidValue value ''STRING'' ''BOOLEAN''))
      else Some (Inr None))"

definition none_or_err :: "eval_mode \<Rightarrow> string \<Rightarrow> str \<Rightarrow> 'a option cast_res" where
  "none_or_err mode type_name s =
     (if mode = Ansi then Some (Inl (CastInvalidValue s ''STRING'' type_name)) else Some (Inr None))"

text \<open>The loop of \<open>do_cast_string_to_int\<close> for a type of \<open>n\<close> bytes: the negated value and the sign, \<open>Some None\<close> where the
  loop gives up.\<close>

fun int_loop :: "nat \<Rightarrow> eval_mode \<Rightarrow> bool \<Rightarrow> str \<Rightarrow> int \<Rightarrow> bool \<Rightarrow> bool \<Rightarrow> (int \<times> bool) option option" where
  "int_loop n mode first [] result negative parse_sign_and_digits = Some (Some (result, negative))"
| "int_loop n mode first (c # cs) result negative parse_sign_and_digits =
     (if parse_sign_and_digits then
        if first \<and> (c = 45 \<or> c = 43) then
          (if cs = [] then Some None else int_loop n mode False cs result (c = 45) parse_sign_and_digits)
        else if c = 46 then
          (if mode = Legacy then int_loop n mode False cs result negative False else Some None)
        else if \<not> is_digit c then Some None
        else if result < tdiv (- (2 ^ (8 * n - 1))) 10 then Some None
        else do {
          ensure (fits_int True n (result * 10));
          let x = result * 10 - (int c - 48);
          if fits_int True n x \<and> x \<le> 0 then int_loop n mode False cs x negative parse_sign_and_digits else Some None
        }
      else if is_digit c then int_loop n mode False cs result negative parse_sign_and_digits
      else Some None)"

definition do_cast_string_to_int :: "nat \<Rightarrow> str \<Rightarrow> eval_mode \<Rightarrow> string \<Rightarrow> int option cast_res" where
  "do_cast_string_to_int n s mode type_name =
     (let trimmed_str = trim_str s in
      if trimmed_str = [] then none_or_err mode type_name s
      else do {
        r \<leftarrow> int_loop n mode True trimmed_str 0 False True;
        case r of
          None \<Rightarrow> none_or_err mode type_name s
        | Some (result, negative) \<Rightarrow>
            if negative then Some (Inr (Some result))
            else if fits_int True n (- result) then
              (if - result < 0 then none_or_err mode type_name s else Some (Inr (Some (- result))))
            else none_or_err mode type_name s
      })"

definition cast_string_to_int_with_range_check :: "str \<Rightarrow> eval_mode \<Rightarrow> string \<Rightarrow> int \<Rightarrow> int \<Rightarrow> int option cast_res" where
  "cast_string_to_int_with_range_check s mode type_name lo hi =
     and_then (do_cast_string_to_int 4 s mode type_name) (\<lambda>r.
       case r of
         None \<Rightarrow> Some (Inr None)
       | Some v \<Rightarrow>
           if lo \<le> v \<and> v \<le> hi then Some (Inr (Some v))
           else if mode = Ansi then Some (Inl (CastInvalidValue s ''STRING'' type_name))
           else Some (Inr None))"

definition cast_string_to_i8 :: "str \<Rightarrow> eval_mode \<Rightarrow> int option cast_res" where
  "cast_string_to_i8 s mode = and_then (cast_string_to_int_with_range_check s mode ''TINYINT'' (- 128) 127)
     (\<lambda>r. Some (Inr (map_option (wrap_int 1) r)))"

definition cast_string_to_i16 :: "str \<Rightarrow> eval_mode \<Rightarrow> int option cast_res" where
  "cast_string_to_i16 s mode = and_then (cast_string_to_int_with_range_check s mode ''SMALLINT'' (- 32768) 32767)
     (\<lambda>r. Some (Inr (map_option (wrap_int 2) r)))"

definition cast_string_to_i32 :: "str \<Rightarrow> eval_mode \<Rightarrow> int option cast_res" where
  "cast_string_to_i32 s mode = do_cast_string_to_int 4 s mode ''INT''"

definition cast_string_to_i64 :: "str \<Rightarrow> eval_mode \<Rightarrow> int option cast_res" where
  "cast_string_to_i64 s mode = do_cast_string_to_int 8 s mode ''BIGINT''"

definition cast_string_to_int :: "cast_type \<Rightarrow> str option list \<Rightarrow> eval_mode \<Rightarrow> int option list cast_res" where
  "cast_string_to_int to_type cells mode =
     (case to_type of
        TInt8 \<Rightarrow> collect_cells (\<lambda>s. cast_string_to_i8 s mode) cells
      | TInt16 \<Rightarrow> collect_cells (\<lambda>s. cast_string_to_i16 s mode) cells
      | TInt32 \<Rightarrow> collect_cells (\<lambda>s. cast_string_to_i32 s mode) cells
      | TInt64 \<Rightarrow> collect_cells (\<lambda>s. cast_string_to_i64 s mode) cells
      | _ \<Rightarrow> None)"

subsection \<open>Numbers to integers\<close>

text \<open>\<open>cast_int_to_int_macro\<close>: \<open>n\<close> is the width of the target in bytes.\<close>

definition cast_int_to_int :: "nat \<Rightarrow> string \<Rightarrow> string \<Rightarrow> eval_mode \<Rightarrow> int \<Rightarrow> int option cast_res" where
  "cast_int_to_int n from_name to_name mode value =
     (if mode = Legacy then Some (Inr (Some (wrap_int n value)))
      else if fits_int True n value then Some (Inr (Some value))
      else Some (Inl (CastOverFlow value from_name to_name)))"

definition spark_cast_int_to_int :: "eval_mode \<Rightarrow> cast_type \<Rightarrow> cast_type \<Rightarrow> int option list \<Rightarrow> int option list cast_res" where
  "spark_cast_int_to_int mode from_type to_type cells =
     (case (from_type, to_type) of
        (TInt64, TInt32) \<Rightarrow> collect_cells (cast_int_to_int 4 ''BIGINT'' ''INT'' mode) cells
      | (TInt64, TInt16) \<Rightarrow> collect_cells (cast_int_to_int 2 ''BIGINT'' ''SMALLINT'' mode) cells
      | (TInt64, TInt8) \<Rightarrow> collect_cells (cast_int_to_int 1 ''BIGINT'' ''TINYINT'' mode) cells
      | (TInt32, TInt16) \<Rightarrow> collect_cells (cast_int_to_int 2 ''INT'' ''SMALLINT'' mode) cells
      | (TInt32, TInt8) \<Rightarrow> collect_cells (cast_int_to_int 1 ''INT'' ''TINYINT'' mode) cells
      | (TInt16, TInt8) \<Rightarrow> collect_cells (cast_int_to_int 1 ''SMALLINT'' ''TINYINT'' mode) cells
      | _ \<Rightarrow> None)"

text \<open>A float, by its fraction and exponent bits, converted to an integer of \<open>n\<close> bytes as Rust does: truncated,
  saturated, zero for NaN.\<close>

definition saturate_int :: "nat \<Rightarrow> int \<Rightarrow> int" where
  "saturate_int n v = max (- (2 ^ (8 * n - 1))) (min (2 ^ (8 * n - 1) - 1) v)"

definition float_as_int :: "nat \<Rightarrow> nat \<Rightarrow> nat \<Rightarrow> int \<Rightarrow> int" where
  "float_as_int m e n bits =
     (let fraction = bits mod 2 ^ m;
          ex = bits div 2 ^ m mod 2 ^ e;
          neg = bits div 2 ^ (m + e) mod 2 = 1;
          sgnif = (if ex = 0 then fraction else 2 ^ m + fraction);
          shift = (if ex = 0 then 1 else ex) - (2 ^ (e - 1) - 1) - int m;
          v = (if shift \<ge> 0 then sgnif * 2 ^ nat shift else sgnif div 2 ^ nat (- shift))
      in if ex = 2 ^ e - 1 then (if fraction \<noteq> 0 then 0 else saturate_int n (if neg then - (2 ^ 128) else 2 ^ 128))
         else saturate_int n (if neg then - v else v))"

definition float_abs :: "nat \<Rightarrow> nat \<Rightarrow> int \<Rightarrow> int" where
  "float_abs m e bits = bits mod 2 ^ (m + e)"

text \<open>\<open>cast_float_to_int16_down\<close> and \<open>cast_float_to_int32_up\<close>.\<close>

definition cast_float_to_int16_down :: "nat \<Rightarrow> nat \<Rightarrow> nat \<Rightarrow> string \<Rightarrow> string \<Rightarrow> eval_mode \<Rightarrow> int \<Rightarrow> int option cast_res" where
  "cast_float_to_int16_down m e n src_name dest_name mode value =
     (if mode = Ansi then
        if is_nan m e value \<or> float_as_int m e 4 (float_abs m e value) = 2 ^ 31 - 1 then
          Some (Inl (CastOverFlow value src_name dest_name))
        else (let i32_value = float_as_int m e 4 value in
              if fits_int True n i32_value then Some (Inr (Some i32_value))
              else Some (Inl (CastOverFlow value src_name dest_name)))
      else Some (Inr (Some (wrap_int n (float_as_int m e 4 value)))))"

definition cast_float_to_int32_up :: "nat \<Rightarrow> nat \<Rightarrow> nat \<Rightarrow> string \<Rightarrow> string \<Rightarrow> eval_mode \<Rightarrow> int \<Rightarrow> int option cast_res" where
  "cast_float_to_int32_up m e n src_name dest_name mode value =
     (if mode = Ansi then
        if is_nan m e value \<or> float_as_int m e n (float_abs m e value) = 2 ^ (8 * n - 1) - 1 then
          Some (Inl (CastOverFlow value src_name dest_name))
        else Some (Inr (Some (float_as_int m e n value)))
      else Some (Inr (Some (float_as_int m e n value))))"

text \<open>\<open>cast_decimal_to_int16_down\<close> and \<open>cast_decimal_to_int32_up\<close>.\<close>

definition cast_decimal_to_int16_down :: "nat \<Rightarrow> string \<Rightarrow> eval_mode \<Rightarrow> int \<Rightarrow> int \<Rightarrow> int option cast_res" where
  "cast_decimal_to_int16_down n dest_name mode scale value = do {
     divisor \<leftarrow> checked_pow10 16 (as_u32 scale);
     let truncated = tdiv value divisor;
     if mode = Ansi then do {
       ensure (fits_i128 \<bar>truncated\<bar> \<and> fits_i128 \<bar>value - divisor * truncated\<bar>);
       if \<bar>truncated\<bar> > 2 ^ 31 - 1 then Some (Inl (CastOverFlow value ''DECIMAL'' dest_name))
       else if fits_int True n (wrap_int 4 truncated) then Some (Inr (Some (wrap_int 4 truncated)))
       else Some (Inl (CastOverFlow value ''DECIMAL'' dest_name))
     }
     else Some (Inr (Some (wrap_int n (wrap_int 4 truncated))))
   }"

definition cast_decimal_to_int32_up :: "nat \<Rightarrow> string \<Rightarrow> eval_mode \<Rightarrow> int \<Rightarrow> int \<Rightarrow> int option cast_res" where
  "cast_decimal_to_int32_up n dest_name mode scale value = do {
     divisor \<leftarrow> checked_pow10 16 (as_u32 scale);
     let truncated = tdiv value divisor;
     if mode = Ansi then do {
       ensure (fits_i128 \<bar>truncated\<bar> \<and> fits_i128 \<bar>value - divisor * truncated\<bar>);
       if \<bar>truncated\<bar> > 2 ^ (8 * n - 1) - 1 then Some (Inl (CastOverFlow value ''DECIMAL'' dest_name))
       else Some (Inr (Some (wrap_int n truncated)))
     }
     else Some (Inr (Some (wrap_int n truncated)))
   }"

definition spark_cast_nonintegral_numeric_to_integral :: "eval_mode \<Rightarrow> cast_type \<Rightarrow> cast_type \<Rightarrow> int option list \<Rightarrow>
    int option list cast_res" where
  "spark_cast_nonintegral_numeric_to_integral mode from_type to_type cells =
     (case (from_type, to_type) of
        (TFloat32, TInt8) \<Rightarrow> collect_cells (cast_float_to_int16_down 23 8 1 ''FLOAT'' ''TINYINT'' mode) cells
      | (TFloat32, TInt16) \<Rightarrow> collect_cells (cast_float_to_int16_down 23 8 2 ''FLOAT'' ''SMALLINT'' mode) cells
      | (TFloat32, TInt32) \<Rightarrow> collect_cells (cast_float_to_int32_up 23 8 4 ''FLOAT'' ''INT'' mode) cells
      | (TFloat32, TInt64) \<Rightarrow> collect_cells (cast_float_to_int32_up 23 8 8 ''FLOAT'' ''BIGINT'' mode) cells
      | (TFloat64, TInt8) \<Rightarrow> collect_cells (cast_float_to_int16_down 52 11 1 ''DOUBLE'' ''TINYINT'' mode) cells
      | (TFloat64, TInt16) \<Rightarrow> collect_cells (cast_float_to_int16_down 52 11 2 ''DOUBLE'' ''SMALLINT'' mode) cells
      | (TFloat64, TInt32) \<Rightarrow> collect_cells (cast_float_to_int32_up 52 11 4 ''DOUBLE'' ''INT'' mode) cells
      | (TFloat64, TInt64) \<Rightarrow> collect_cells (cast_float_to_int32_up 52 11 8 ''DOUBLE'' ''BIGINT'' mode) cells
      | (TDecimal128 _ scale, TInt8) \<Rightarrow> collect_cells (cast_decimal_to_int16_down 1 ''TINYINT'' mode scale) cells
      | (TDecimal128 _ scale, TInt16) \<Rightarrow> collect_cells (cast_decimal_to_int16_down 2 ''SMALLINT'' mode scale) cells
      | (TDecimal128 _ scale, TInt32) \<Rightarrow> collect_cells (cast_decimal_to_int32_up 4 ''INT'' mode scale) cells
      | (TDecimal128 _ scale, TInt64) \<Rightarrow> collect_cells (cast_decimal_to_int32_up 8 ''BIGINT'' mode scale) cells
      | _ \<Rightarrow> None)"

subsection \<open>Strings to dates\<close>

text \<open>\<open>date_parser\<close> works on the bytes of a string, which its error carries. \<open>from_ymd_opt\<close> is the calendar of \<open>chrono\<close>: the days since the epoch.\<close>

definition is_whitespace_or_iso_control :: "u8 \<Rightarrow> bool" where
  "is_whitespace_or_iso_control b \<longleftrightarrow> b \<in> {9, 10, 12, 13, 32} \<or> b < 32 \<or> b = 127"

fun get_trimmed_start_from :: "u8 list \<Rightarrow> nat" where
  "get_trimmed_start_from [] = 0"
| "get_trimmed_start_from (b # bs) = (if is_whitespace_or_iso_control b then Suc (get_trimmed_start_from bs) else 0)"

fun trimmed_end_loop :: "u8 list \<Rightarrow> nat \<Rightarrow> nat \<Rightarrow> nat option" where
  "trimmed_end_loop bytes start 0 = Some 0"
| "trimmed_end_loop bytes start (Suc e) =
     (if start < Suc e then do {
        b \<leftarrow> index bytes (Suc e);
        if is_whitespace_or_iso_control b then trimmed_end_loop bytes start e else Some (Suc e)
      }
      else Some (Suc e))"

definition get_trimmed_end :: "nat \<Rightarrow> u8 list \<Rightarrow> nat option" where
  "get_trimmed_end start bytes = do {
     e \<leftarrow> usub (length bytes) 1;
     e \<leftarrow> trimmed_end_loop bytes start e;
     Some (e + 1)
   }"

definition is_valid_digits :: "nat \<Rightarrow> nat \<Rightarrow> bool" where
  "is_valid_digits segment digits \<longleftrightarrow> segment = 0 \<and> 4 \<le> digits \<and> digits \<le> 7 \<or> segment \<noteq> 0 \<and> 0 < digits \<and> digits \<le> 2"

text \<open>The loop over the segments: the segments so far, the value and the digits of the current one, and the rest of the
  trimmed bytes where it stops; \<open>None\<close> where it rejects the string.\<close>

definition is_ascii_digit :: "u8 \<Rightarrow> bool" where
  "is_ascii_digit b \<longleftrightarrow> 48 \<le> b \<and> b \<le> 57"

fun segment_loop :: "u8 list \<Rightarrow> int list \<Rightarrow> nat \<Rightarrow> u32 \<Rightarrow> nat \<Rightarrow> (int list \<times> nat \<times> u32 \<times> nat \<times> u8 list) option" where
  "segment_loop [] segments current v digits = Some (segments, current, v, digits, [])"
| "segment_loop (b # bs) segments current v digits =
     (if current < 3 \<and> \<not> (b = 32 \<or> b = 84) then
        if current < 2 \<and> b = 45 then
          (if is_valid_digits current digits then segment_loop bs (segments[current := sint v]) (Suc current) 0 0 else None)
        else if \<not> is_ascii_digit b then None
        else segment_loop bs segments current (v * 10 + ucast (b - 48)) (Suc digits)
      else Some (segments, current, v, digits, b # bs))"

definition date_parser :: "(int \<Rightarrow> nat \<Rightarrow> nat \<Rightarrow> int option) \<Rightarrow> u8 list \<Rightarrow> eval_mode \<Rightarrow> int option cast_res" where
  "date_parser from_ymd_opt bytes mode =
     (let return_result = Some (if mode = Ansi then Inl (CastInvalidValue (map unat bytes) ''STRING'' ''DATE'') else Inr None) in
      if bytes = [] then return_result
      else do {
        let j = get_trimmed_start_from bytes;
        str_end_trimmed \<leftarrow> get_trimmed_end j bytes;
        if j = str_end_trimmed then return_result
        else do {
          b \<leftarrow> index bytes j;
          let sgn_v = (if b = 45 then - 1 else 1 :: int);
          let j = (if b = 45 \<or> b = 43 then j + 1 else j);
          case segment_loop (drop j (take str_end_trimmed bytes)) [1, 1, 1] 0 0 0 of
            None \<Rightarrow> return_result
          | Some (segments, current, v, digits, rest) \<Rightarrow>
              if \<not> is_valid_digits current digits then return_result
              else if current < 2 \<and> rest \<noteq> [] then return_result
              else do {
                segments \<leftarrow> update segments current (sint v);
                ensure (fits_int True 4 (sgn_v * segments ! 0));
                Some (Inr (from_ymd_opt (sgn_v * segments ! 0) (as_u32 (segments ! 1)) (as_u32 (segments ! 2))))
              }
        }
      })"

definition cast_string_to_date :: "(int \<Rightarrow> nat \<Rightarrow> nat \<Rightarrow> int option) \<Rightarrow> u8 list option list \<Rightarrow> eval_mode \<Rightarrow> int option list cast_res" where
  "cast_string_to_date from_ymd_opt cells mode =
     collect_cells (\<lambda>s. date_parser from_ymd_opt s mode) cells"

subsection \<open>Strings to timestamps\<close>

record timestamp_info =
  ti_year :: int
  ti_month :: nat
  ti_day :: nat
  ti_hour :: nat
  ti_minute :: nat
  ti_second :: nat
  ti_microsecond :: nat

definition ti_default :: timestamp_info where
  "ti_default = \<lparr>ti_year = 1, ti_month = 1, ti_day = 1, ti_hour = 0, ti_minute = 0, ti_second = 0, ti_microsecond = 0\<rparr>"

text \<open>The time zone of \<open>chrono\<close>: the microseconds of a local time that has exactly one instant, an instant with other
  nanoseconds, the clock of today with another time, and the digits of the class \<open>\d\<close> outside ASCII.\<close>

record chrono =
  ch_instant :: "int \<Rightarrow> nat \<Rightarrow> nat \<Rightarrow> nat \<Rightarrow> nat \<Rightarrow> nat \<Rightarrow> int option"
  ch_with_nanosecond :: "int \<Rightarrow> nat \<Rightarrow> int option"
  ch_today_at :: "nat \<Rightarrow> nat \<Rightarrow> nat \<Rightarrow> nat \<Rightarrow> int option"
  ch_digit :: "nat \<Rightarrow> bool"

definition parse_timestamp_to_micros :: "chrono \<Rightarrow> timestamp_info \<Rightarrow> int option cast_res" where
  "parse_timestamp_to_micros tz info =
     (case ch_instant tz (ti_year info) (ti_month info) (ti_day info) (ti_hour info) (ti_minute info) (ti_second info) of
        None \<Rightarrow> Some (Inl (CastInternal ''Failed to parse timestamp''))
      | Some dt \<Rightarrow> do {
          ensure (ti_microsecond info * 1000 < 2 ^ 32);
          case ch_with_nanosecond tz dt (ti_microsecond info * 1000) of
            None \<Rightarrow> Some (Inl (CastInternal ''Failed to parse timestamp''))
          | Some v \<Rightarrow> Some (Inr (Some v))
        })"

text \<open>\<open>split\<close> at a set of characters, and \<open>parse::<u32>\<close> and \<open>parse::<i32>\<close> of the parts.\<close>

fun split_at :: "(nat \<Rightarrow> bool) \<Rightarrow> str \<Rightarrow> str list" where
  "split_at sep [] = [[]]"
| "split_at sep (c # cs) = (if sep c then [] # split_at sep cs else case split_at sep cs of p # ps \<Rightarrow> (c # p) # ps | [] \<Rightarrow> [[c]])"

definition digits_value :: "str \<Rightarrow> int" where
  "digits_value ds = foldl (\<lambda>v d. 10 * v + (int d - 48)) 0 ds"

definition parse_digits :: "str \<Rightarrow> int option" where
  "parse_digits s = (let ds = (if s \<noteq> [] \<and> hd s = 43 then tl s else s) in
     if ds \<noteq> [] \<and> list_all is_digit ds then Some (digits_value ds) else None)"

definition parse_u32 :: "str \<Rightarrow> nat option" where
  "parse_u32 s = (case parse_digits s of Some v \<Rightarrow> if v < 2 ^ 32 then Some (nat v) else None | None \<Rightarrow> None)"

definition parse_i32 :: "str \<Rightarrow> int option" where
  "parse_i32 s =
     (case (if s \<noteq> [] \<and> hd s = 45 then
              (if tl s \<noteq> [] \<and> list_all is_digit (tl s) then Some (- digits_value (tl s)) else None)
            else parse_digits s) of
        Some v \<Rightarrow> if fits_int True 4 v then Some v else None | None \<Rightarrow> None)"

definition part_or :: "str list \<Rightarrow> nat \<Rightarrow> nat \<Rightarrow> nat" where
  "part_or parts i d = (case index parts i of None \<Rightarrow> d | Some p \<Rightarrow> case parse_u32 p of None \<Rightarrow> d | Some v \<Rightarrow> v)"

datatype timestamp_type = TsYear | TsMonth | TsDay | TsHour | TsMinute | TsSecond | TsMicrosecond

definition get_timestamp_values :: "chrono \<Rightarrow> str \<Rightarrow> timestamp_type \<Rightarrow> int option cast_res" where
  "get_timestamp_values tz value timestamp_type = do {
     let parts = split_at (\<lambda>c. c = 84 \<or> c = 45 \<or> c = 58 \<or> c = 46) value;
     p0 \<leftarrow> index parts 0;
     let year = (case parse_i32 p0 of None \<Rightarrow> 0 | Some v \<Rightarrow> v);
     let y = ti_default\<lparr>ti_year := year\<rparr>;
     let mo = y\<lparr>ti_month := part_or parts 1 1\<rparr>;
     let d = mo\<lparr>ti_day := part_or parts 2 1\<rparr>;
     let h = d\<lparr>ti_hour := part_or parts 3 0\<rparr>;
     let mi = h\<lparr>ti_minute := part_or parts 4 0\<rparr>;
     let sc = mi\<lparr>ti_second := part_or parts 5 0\<rparr>;
     let us = sc\<lparr>ti_microsecond := part_or parts 6 0\<rparr>;
     parse_timestamp_to_micros tz
       (case timestamp_type of TsYear \<Rightarrow> y | TsMonth \<Rightarrow> mo | TsDay \<Rightarrow> d | TsHour \<Rightarrow> h | TsMinute \<Rightarrow> mi | TsSecond \<Rightarrow> sc | TsMicrosecond \<Rightarrow> us)
   }"

definition parse_str_to_time_only_timestamp :: "chrono \<Rightarrow> str \<Rightarrow> int option cast_res" where
  "parse_str_to_time_only_timestamp tz value = do {
     p \<leftarrow> index (split_at (\<lambda>c. c = 84) value) 1;
     let time_values = map (\<lambda>v. case parse_u32 v of None \<Rightarrow> 0 | Some v \<Rightarrow> v) (split_at (\<lambda>c. c = 58) p);
     let at = (\<lambda>i. case index time_values i of None \<Rightarrow> 0 | Some v \<Rightarrow> v);
     ensure (at 3 * 1000 < 2 ^ 32);
     Some (Inr (Some (case ch_today_at tz (at 0) (at 1) (at 2) (at 3 * 1000) of Some v \<Rightarrow> v | None \<Rightarrow> 0)))
   }"

text \<open>The regular expressions: a literal, or between \<open>lo\<close> and \<open>hi\<close> digits.\<close>

datatype pattern = Lit nat | Digits nat nat

fun pattern_match :: "(nat \<Rightarrow> bool) \<Rightarrow> pattern list \<Rightarrow> str \<Rightarrow> bool" where
  "pattern_match dig [] s \<longleftrightarrow> s = []"
| "pattern_match dig (Lit c # ps) s \<longleftrightarrow> (case s of [] \<Rightarrow> False | x # s \<Rightarrow> x = c \<and> pattern_match dig ps s)"
| "pattern_match dig (Digits lo hi # ps) s \<longleftrightarrow>
     list_ex (\<lambda>k. k \<le> length s \<and> list_all dig (take k s) \<and> pattern_match dig ps (drop k s)) [lo..<Suc hi]"

definition year_pattern :: "pattern list" where "year_pattern = [Digits 4 5]"
definition month_pattern :: "pattern list" where "month_pattern = year_pattern @ [Lit 45, Digits 2 2]"
definition day_pattern :: "pattern list" where "day_pattern = month_pattern @ [Lit 45, Digits 2 2]"
definition minute_pattern :: "pattern list" where "minute_pattern = day_pattern @ [Lit 84, Digits 2 2, Lit 58, Digits 2 2]"
definition second_pattern :: "pattern list" where "second_pattern = minute_pattern @ [Lit 58, Digits 2 2]"

definition timestamp_patterns :: "(pattern list \<times> (chrono \<Rightarrow> str \<Rightarrow> int option cast_res)) list" where
  "timestamp_patterns =
     [(year_pattern, \<lambda>tz v. get_timestamp_values tz v TsYear),
      (month_pattern, \<lambda>tz v. get_timestamp_values tz v TsMonth),
      (day_pattern, \<lambda>tz v. get_timestamp_values tz v TsDay),
      (day_pattern @ [Lit 84, Digits 1 2], \<lambda>tz v. get_timestamp_values tz v TsHour),
      (minute_pattern, \<lambda>tz v. get_timestamp_values tz v TsMinute),
      (second_pattern, \<lambda>tz v. get_timestamp_values tz v TsSecond),
      (second_pattern @ [Lit 46, Digits 1 6], \<lambda>tz v. get_timestamp_values tz v TsMicrosecond),
      ([Lit 84, Digits 1 2], parse_str_to_time_only_timestamp)]"

fun first_match :: "chrono \<Rightarrow> str \<Rightarrow> (pattern list \<times> (chrono \<Rightarrow> str \<Rightarrow> int option cast_res)) list \<Rightarrow> int option cast_res" where
  "first_match tz value [] = Some (Inr None)"
| "first_match tz value ((p, f) # ps) =
     (if pattern_match (\<lambda>c. is_digit c \<or> ch_digit tz c) p value then f tz value else first_match tz value ps)"

definition timestamp_parser :: "chrono \<Rightarrow> str \<Rightarrow> eval_mode \<Rightarrow> int option cast_res" where
  "timestamp_parser tz value mode =
     (let value = trim_str value in
      if value = [] then Some (Inr None)
      else and_then (first_match tz value timestamp_patterns) (\<lambda>timestamp.
        case timestamp of
          None \<Rightarrow> if mode = Ansi then Some (Inl (CastInvalidValue value ''STRING'' ''TIMESTAMP'')) else Some (Inr None)
        | Some ts \<Rightarrow> Some (Inr (Some ts))))"

text \<open>\<open>cast_utf8_to_timestamp\<close> turns every error into a null.\<close>

definition cast_string_to_timestamp :: "chrono \<Rightarrow> str option list \<Rightarrow> eval_mode \<Rightarrow> int option list cast_res" where
  "cast_string_to_timestamp tz cells mode =
     collect_cells (\<lambda>s. case timestamp_parser tz (trim_str s) mode of
       None \<Rightarrow> None | Some (Inr (Some v)) \<Rightarrow> Some (Inr (Some v)) | Some _ \<Rightarrow> Some (Inr None)) cells"

subsection \<open>Columns and the libraries\<close>

datatype cast_col = Ints cast_type "int option list" | Strs cast_type "str option list" | Bytes cast_type "u8 list option list"
  | Bools "bool option list" | Structs "(string \<times> cast_col) list" "bool list" | Dict cast_type "int option list" cast_col

fun col_type :: "cast_col \<Rightarrow> cast_type" where
  "col_type (Ints t cells) = t"
| "col_type (Strs t cells) = t"
| "col_type (Bytes t cells) = t"
| "col_type (Bools cells) = TBoolean"
| "col_type (Structs fs valid) = TStruct (map (\<lambda>(n, c). (n, col_type c)) fs)"
| "col_type (Dict k keys vals) = TDictionary k (col_type vals)"

fun col_valid :: "cast_col \<Rightarrow> bool list" where
  "col_valid (Ints t cells) = map (\<lambda>c. c \<noteq> None) cells"
| "col_valid (Strs t cells) = map (\<lambda>c. c \<noteq> None) cells"
| "col_valid (Bytes t cells) = map (\<lambda>c. c \<noteq> None) cells"
| "col_valid (Bools cells) = map (\<lambda>c. c \<noteq> None) cells"
| "col_valid (Structs fs valid) = valid"
| "col_valid (Dict k keys vals) = map (\<lambda>c. c \<noteq> None) keys"

text \<open>Arrow's cast (safe or not), its test, \<open>take\<close>, decoding of UTF-8, the calendar and time zones, the formatting and
  scaling of floats, Base64 and the crate \<open>hex\<close>. A local time may have no instant, which panics; an instant may be out of the
  range of dates.\<close>

record cast_lib =
  cl_cast :: "bool \<Rightarrow> cast_col \<Rightarrow> cast_type \<Rightarrow> cast_col cast_res"
  cl_can_cast_types :: "cast_type \<Rightarrow> cast_type \<Rightarrow> bool"
  cl_take :: "cast_col \<Rightarrow> int option list \<Rightarrow> cast_error + cast_col"
  cl_from_utf8 :: "u8 list \<Rightarrow> str option"
  cl_to_utf8 :: "str \<Rightarrow> u8 list"
  cl_from_ymd_opt :: "int \<Rightarrow> nat \<Rightarrow> nat \<Rightarrow> int option"
  cl_tz :: "string \<Rightarrow> chrono option"
  cl_as_datetime :: "time_unit \<Rightarrow> int \<Rightarrow> bool"
  cl_local_to_utc :: "string \<Rightarrow> time_unit \<Rightarrow> int \<Rightarrow> int option"
  cl_utc_to_local :: "string \<Rightarrow> int \<Rightarrow> int"
  cl_float_scaled :: "cast_type \<Rightarrow> int \<Rightarrow> int \<Rightarrow> int option"
  cl_float_text :: "cast_type \<Rightarrow> int \<Rightarrow> str"
  cl_float_text_e :: "cast_type \<Rightarrow> int \<Rightarrow> str"
  cl_base64 :: "u8 list \<Rightarrow> str"
  cl_hex_upper :: "u8 \<Rightarrow> str"
  cl_div_floor :: "int \<Rightarrow> int \<Rightarrow> int"

subsection \<open>Time zones of a column\<close>

definition timestamp_ntz_to_timestamp :: "cast_lib \<Rightarrow> time_unit \<Rightarrow> int option list \<Rightarrow> string \<Rightarrow> string option \<Rightarrow> cast_col cast_res" where
  "timestamp_ntz_to_timestamp L u cells tz to_timezone = do {
     ensure (tz \<noteq> []);
     if u = Microsecond \<or> u = Millisecond then
       (if cl_tz L tz = None then Some (Inl (CastArrow ''Invalid timezone''))
        else and_then (collect_cells (\<lambda>v.
            if cl_as_datetime L u v then do { w \<leftarrow> cl_local_to_utc L tz u v; Some (Inr (Some w)) }
            else Some (Inl (CastArrow ''Cannot convert to datetime''))) cells)
          (\<lambda>cells. Some (Inr (Ints (TTimestamp u to_timezone) cells))))
     else Some (Inr (Ints (TTimestamp u None) cells))
   }"

text \<open>\<open>pre_timestamp_cast\<close> takes the column as microseconds and panics for another unit.\<close>

definition pre_timestamp_cast :: "cast_lib \<Rightarrow> time_unit \<Rightarrow> int option list \<Rightarrow> string \<Rightarrow> cast_col cast_res" where
  "pre_timestamp_cast L u cells tz = do {
     ensure (tz \<noteq> []);
     ensure (u = Microsecond);
     if cl_tz L tz = None then Some (Inl (CastArrow ''Invalid timezone''))
     else and_then (collect_cells (\<lambda>v.
         if cl_as_datetime L u v then Some (Inr (Some (cl_utc_to_local L tz v)))
         else Some (Inl (CastArrow ''Cannot convert to datetime''))) cells)
       (\<lambda>cells. Some (Inr (Ints (TTimestamp Microsecond None) cells)))
   }"

definition flat_with_timezone :: "cast_lib \<Rightarrow> cast_col \<Rightarrow> string \<Rightarrow> cast_type \<Rightarrow> cast_col cast_res" where
  "flat_with_timezone L col tz to_type =
     (case col of
        Ints (TTimestamp u None) cells \<Rightarrow> do {
          ensure (tz \<noteq> []);
          if to_type \<in> {TUtf8, TDate32} then Some (Inr col)
          else (case to_type of
              TTimestamp _ (Some _) \<Rightarrow> timestamp_ntz_to_timestamp L u cells tz (Some tz)
            | _ \<Rightarrow> None)
        }
      | Ints (TTimestamp u (Some _)) cells \<Rightarrow>
          if u = Microsecond \<or> u = Millisecond then do {
            ensure (tz \<noteq> []);
            if to_type \<in> {TUtf8, TDate32} then pre_timestamp_cast L u cells tz
            else Some (Inr (Ints (TTimestamp u (Some tz)) cells))
          }
          else Some (Inr col)
      | _ \<Rightarrow> Some (Inr col))"

definition array_with_timezone :: "cast_lib \<Rightarrow> cast_col \<Rightarrow> string \<Rightarrow> cast_type \<Rightarrow> cast_col cast_res" where
  "array_with_timezone L col tz to_type =
     (case col of
        Dict k keys (Ints (TTimestamp u z) cells) \<Rightarrow> do {
          ensure (k = TInt32 \<and> u = Microsecond);
          and_then (flat_with_timezone L (Ints (TTimestamp u z) cells) tz to_type) (\<lambda>vals. Some (Inr (Dict k keys vals)))
        }
      | _ \<Rightarrow> flat_with_timezone L col tz to_type)"

subsection \<open>Floats and binary values to strings, floats to decimals\<close>

text \<open>The bits of the two bounds of the notation without an exponent, of the infinities, and whether a finite float has no
  fraction. Positive floats are ordered like their bits.\<close>

definition float_format :: "cast_type \<Rightarrow> nat \<times> nat" where
  "float_format ty = (if ty = TFloat32 then (23, 8) else (52, 11))"

definition lower_scientific_bound :: "cast_type \<Rightarrow> int" where
  "lower_scientific_bound ty = (if ty = TFloat32 then 981668463 else 4562254508917369340)"

definition upper_scientific_bound :: "cast_type \<Rightarrow> int" where
  "upper_scientific_bound ty = (if ty = TFloat32 then 1259902592 else 4711630319722168320)"

definition no_fraction :: "nat \<Rightarrow> nat \<Rightarrow> int \<Rightarrow> bool" where
  "no_fraction m e bits \<longleftrightarrow>
     (let fraction = bits mod 2 ^ m; ex = bits div 2 ^ m mod 2 ^ e;
          sgnif = (if ex = 0 then fraction else 2 ^ m + fraction);
          shift = (if ex = 0 then 1 else ex) - (2 ^ (e - 1) - 1) - int m
      in shift \<ge> 0 \<or> sgnif mod 2 ^ nat (- shift) = 0)"

definition cast_float_to_string :: "cast_lib \<Rightarrow> cast_type \<Rightarrow> int \<Rightarrow> str option cast_res" where
  "cast_float_to_string L ty value =
     (let (m, e) = float_format ty; inf = (2 ^ e - 1) * 2 ^ m; a = float_abs m e value in
      if value = inf then Some (Inr (Some (text_of ''Infinity'')))
      else if value = 2 ^ (m + e) + inf then Some (Inr (Some (text_of ''-Infinity'')))
      else if \<not> is_nan m e value \<and> (a < upper_scientific_bound ty \<and> a \<ge> lower_scientific_bound ty \<or> a = 0) then
        Some (Inr (Some (cl_float_text L ty value @ (if no_fraction m e value then text_of ''.0'' else []))))
      else if \<not> is_nan m e value then
        (let formatted = cl_float_text_e L ty value in
         if 46 \<in> set formatted then Some (Inr (Some formatted))
         else do {
           coefficient \<leftarrow> index (split_at (\<lambda>c. c = 69) formatted) 0;
           exponent \<leftarrow> index (split_at (\<lambda>c. c = 69) formatted) 1;
           Some (Inr (Some (coefficient @ text_of ''.0E'' @ exponent)))
         })
      else Some (Inr (Some (cl_float_text L ty value))))"

definition cast_floating_point_to_decimal128 :: "cast_lib \<Rightarrow> cast_type \<Rightarrow> nat \<Rightarrow> int \<Rightarrow> eval_mode \<Rightarrow> int \<Rightarrow> int option cast_res" where
  "cast_floating_point_to_decimal128 L ty precision scale mode value =
     (case cl_float_scaled L ty scale value of
        Some v \<Rightarrow>
          if is_valid_decimal_precision v precision then Some (Inr (Some v))
          else if mode = Ansi then Some (Inl (NumericValueOutOfRange value precision scale))
          else Some (Inr None)
      | None \<Rightarrow>
          if mode = Ansi then Some (Inl (NumericValueOutOfRange value precision scale)) else Some (Inr None))"

text \<open>A signed byte in decimal, and a list as \<open>{:?}\<close> prints it.\<close>

fun nat_text :: "nat \<Rightarrow> str" where
  "nat_text n = (if n < 10 then [48 + n] else nat_text (n div 10) @ [48 + n mod 10])"

declare nat_text.simps [simp del]

definition int_text :: "int \<Rightarrow> str" where
  "int_text v = (if v < 0 then 45 # nat_text (nat (- v)) else nat_text (nat v))"

fun join_text :: "str \<Rightarrow> str list \<Rightarrow> str" where
  "join_text sep [] = []"
| "join_text sep [x] = x"
| "join_text sep (x # xs) = x @ sep @ join_text sep xs"

definition spark_binary_formatter :: "cast_lib \<Rightarrow> u8 list \<Rightarrow> binary_output_style \<Rightarrow> str option" where
  "spark_binary_formatter L value style =
     (case style of
        StyleUtf8 \<Rightarrow> cl_from_utf8 L value
      | StyleBasic \<Rightarrow> Some (text_of ''['' @ join_text (text_of '', '') (map (\<lambda>b. int_text (sint b)) value) @ text_of '']'')
      | StyleBase64 \<Rightarrow> Some (cl_base64 L value)
      | StyleHex \<Rightarrow> Some (concat (map (cl_hex_upper L) value))
      | StyleHexDiscrete \<Rightarrow> Some (text_of ''['' @ join_text (text_of '' '') (map (cl_hex_upper L) value) @ text_of '']''))"

text \<open>\<open>cast_binary_formatter\<close> keeps bytes that are not UTF-8 in a string, which is undefined behaviour, here \<open>None\<close>.\<close>

definition cast_binary_formatter :: "cast_lib \<Rightarrow> u8 list \<Rightarrow> str option" where
  "cast_binary_formatter L value = cl_from_utf8 L value"

definition cast_binary_to_string :: "cast_lib \<Rightarrow> cast_options \<Rightarrow> u8 list \<Rightarrow> str option cast_res" where
  "cast_binary_to_string L options value = do {
     s \<leftarrow> (case co_binary_output_style options of Some st \<Rightarrow> spark_binary_formatter L value st | None \<Rightarrow> cast_binary_formatter L value);
     Some (Inr (Some s))
   }"

subsection \<open>Structs\<close>

text \<open>One row of a struct as a string, from the columns already cast to strings.\<close>

fun struct_row :: "str \<Rightarrow> nat \<Rightarrow> bool \<Rightarrow> str option list list \<Rightarrow> str option" where
  "struct_row null_string i any_fields_written [] = Some []"
| "struct_row null_string i any_fields_written (f # fs) = do {
     cell \<leftarrow> index f i;
     rest \<leftarrow> struct_row null_string i True fs;
     Some ((if any_fields_written then text_of '', '' else []) @ (case cell of None \<Rightarrow> null_string | Some s \<Rightarrow> s) @ rest)
   }"

fun struct_rows :: "str \<Rightarrow> str option list list \<Rightarrow> nat \<Rightarrow> bool list \<Rightarrow> str option list option" where
  "struct_rows null_string fs i [] = Some []"
| "struct_rows null_string fs i (v # vs) = do {
     row \<leftarrow> (if v then do { r \<leftarrow> struct_row null_string i False fs; Some (Some (text_of ''{'' @ r @ text_of ''}'')) } else Some None);
     rows \<leftarrow> struct_rows null_string fs (Suc i) vs;
     Some (row # rows)
   }"

text \<open>The columns of a struct cast one after the other: to strings up to the first error, or to the fields of another
  struct, where an error is unwrapped.\<close>

fun string_columns :: "(cast_col \<Rightarrow> cast_col cast_res) \<Rightarrow> (string \<times> cast_col) list \<Rightarrow> str option list list cast_res" where
  "string_columns f [] = Some (Inr [])"
| "string_columns f ((n, c) # cs) =
     and_then (f c) (\<lambda>r. and_then (string_columns f cs) (\<lambda>rs.
       case r of Strs TUtf8 cells \<Rightarrow> Some (Inr (cells # rs)) | _ \<Rightarrow> None))"

fun struct_columns :: "(cast_col \<Rightarrow> cast_type \<Rightarrow> cast_col cast_res) \<Rightarrow> ((string \<times> cast_col) \<times> (string \<times> cast_type)) list \<Rightarrow>
    (string \<times> cast_col) list option" where
  "struct_columns f [] = Some []"
| "struct_columns f (((_, c), (n, t)) # cs) =
     (case f c t of Some (Inr r) \<Rightarrow> do { rs \<leftarrow> struct_columns f cs; Some ((n, r) # rs) } | _ \<Rightarrow> None)"

subsection \<open>\<open>cast_array\<close>\<close>

definition trim_end :: "str \<Rightarrow> str" where
  "trim_end s = (if 46 \<in> set s then rev (dropWhile (\<lambda>c. c = 48) (rev s)) else s)"

fun unary_dyn :: "(int \<Rightarrow> int) \<Rightarrow> cast_col \<Rightarrow> cast_col option" where
  "unary_dyn f (Dict k keys vals) = do { v \<leftarrow> unary_dyn f vals; Some (Dict k keys v) }"
| "unary_dyn f (Ints ty cells) = (if ty = TInt64 then Some (Ints ty (map (map_option f) cells)) else None)"
| "unary_dyn f _ = None"

definition remove_trailing_zeroes :: "cast_col \<Rightarrow> cast_col option" where
  "remove_trailing_zeroes col = (case col of Strs TUtf8 cells \<Rightarrow> Some (Strs TUtf8 (map (map_option trim_end) cells)) | _ \<Rightarrow> None)"

definition is_timestamp :: "cast_type \<Rightarrow> bool" where
  "is_timestamp t = (case t of TTimestamp _ _ \<Rightarrow> True | _ \<Rightarrow> False)"

definition spark_cast_postprocess :: "cast_lib \<Rightarrow> cast_col \<Rightarrow> cast_type \<Rightarrow> cast_type \<Rightarrow> cast_col option" where
  "spark_cast_postprocess L col from_type to_type =
     (if is_timestamp from_type \<or> (case from_type of TDictionary _ v \<Rightarrow> is_timestamp v | _ \<Rightarrow> False) then
        if to_type = TInt64 then unary_dyn (\<lambda>v. cl_div_floor L v 1000000) col
        else if to_type = TUtf8 then remove_trailing_zeroes col
        else Some col
      else Some col)"

definition dict_from_values :: "cast_col \<Rightarrow> cast_error + cast_col" where
  "dict_from_values col =
     (let valid = col_valid col in
      if \<exists>i < length valid. valid ! i \<and> 2 ^ 31 \<le> i then Inl (CastInternal ''Can not create index'')
      else Inr (Dict TInt32 (map (\<lambda>i. if valid ! i then Some (int i) else None) [0..<length valid]) col))"

definition cast_flat :: "cast_lib \<Rightarrow> (cast_col \<Rightarrow> cast_type \<Rightarrow> cast_col cast_res) \<Rightarrow> cast_col \<Rightarrow> cast_type \<Rightarrow> cast_options \<Rightarrow> cast_col cast_res" where
  "cast_flat L rec col to_type options =
     (let mode = co_eval_mode options; from_type = col_type col in
      case (choose_cast (cl_can_cast_types L) from_type to_type options, col) of
        (PlanUtf8ToBoolean, Strs _ cells) \<Rightarrow> and_then (collect_cells (utf8_to_boolean mode) cells) (\<lambda>r. Some (Inr (Bools r)))
      | (PlanStringToTimestamp, Strs _ cells) \<Rightarrow> do {
          tz \<leftarrow> cl_tz L (co_timezone options);
          and_then (cast_string_to_timestamp tz cells mode) (\<lambda>r. Some (Inr (Ints (TTimestamp Microsecond (Some ''UTC'')) r)))
        }
      | (PlanStringToDate, Strs _ cells) \<Rightarrow>
          and_then (cast_string_to_date (cl_from_ymd_opt L) (map (map_option (cl_to_utf8 L)) cells) mode) (\<lambda>r. Some (Inr (Ints TDate32 r)))
      | (PlanIntToInt, Ints _ cells) \<Rightarrow> and_then (spark_cast_int_to_int mode from_type to_type cells) (\<lambda>r. Some (Inr (Ints to_type r)))
      | (PlanStringToInt, Strs _ cells) \<Rightarrow> and_then (cast_string_to_int to_type cells mode) (\<lambda>r. Some (Inr (Ints to_type r)))
      | (PlanFloatToString, Ints _ cells) \<Rightarrow> and_then (collect_cells (cast_float_to_string L from_type) cells) (\<lambda>r. Some (Inr (Strs to_type r)))
      | (PlanFloatToDecimal precision scale, Ints _ cells) \<Rightarrow>
          and_then (collect_cells (cast_floating_point_to_decimal128 L from_type precision scale mode) cells)
            (\<lambda>r. Some (Inr (Ints to_type r)))
      | (PlanToIntegral, Ints _ cells) \<Rightarrow>
          and_then (spark_cast_nonintegral_numeric_to_integral mode from_type to_type cells) (\<lambda>r. Some (Inr (Ints to_type r)))
      | (PlanView, _) \<Rightarrow> cl_cast L True col to_type
      | (PlanStructToString, Structs fs valid) \<Rightarrow>
          and_then (string_columns (\<lambda>c. rec c TUtf8) fs) (\<lambda>cols. do {
            rows \<leftarrow> struct_rows (co_null_string options) cols 0 valid;
            Some (Inr (Strs TUtf8 rows))
          })
      | (PlanStructToStruct, Structs fs valid) \<Rightarrow>
          (case to_type of
             TStruct ts \<Rightarrow> do {
               cs \<leftarrow> struct_columns rec (zip fs ts);
               ensure (length cs = length ts);
               Some (Inr (Structs cs valid))
             }
           | _ \<Rightarrow> None)
      | (PlanNativeSafe, _) \<Rightarrow> cl_cast L True col to_type
      | (PlanBinaryToString, Bytes _ cells) \<Rightarrow> and_then (collect_cells (cast_binary_to_string L options) cells) (\<lambda>r. Some (Inr (Strs TUtf8 r)))
      | (PlanNative, _) \<Rightarrow> cl_cast L (mode \<noteq> Ansi) col to_type
      | (PlanUnsupported, _) \<Rightarrow> Some (Inl (CastInternal ''Native cast invoked for unsupported cast''))
      | _ \<Rightarrow> None)"

text \<open>The recursion takes fuel: without any left the call has not returned.\<close>

primrec cast_array :: "nat \<Rightarrow> cast_lib \<Rightarrow> cast_col \<Rightarrow> cast_type \<Rightarrow> cast_options \<Rightarrow> cast_col cast_res" where
  "cast_array 0 = (\<lambda>L col to_type options. None)"
| "cast_array (Suc fuel) = (\<lambda>L col to_type options.
     and_then (array_with_timezone L col (co_timezone options) to_type) (\<lambda>col.
     let from_type = col_type col;
         finish = (\<lambda>r. do { c \<leftarrow> spark_cast_postprocess L r from_type to_type; Some (Inr c) });
         other = (case to_type of
             TDictionary _ _ \<Rightarrow>
               and_then (Some (dict_from_values col)) (\<lambda>d. and_then (cast_array fuel L d to_type options) finish)
           | _ \<Rightarrow> and_then (cast_flat L (\<lambda>c t. cast_array fuel L c t options) col to_type options) finish) in
     case col of
       Dict k keys vals \<Rightarrow>
         if k = TInt32 \<and> col_type vals \<in> {TUtf8, TLargeUtf8, TBinary, TLargeBinary} then
           (case to_type of
              TDictionary _ to_value_type \<Rightarrow>
                and_then (cast_array fuel L vals to_value_type options) (\<lambda>v. finish (Dict TInt32 keys v))
            | _ \<Rightarrow> and_then (cast_array fuel L vals to_type options) (\<lambda>v. and_then (Some (cl_take L v keys)) finish))
         else other
     | _ \<Rightarrow> other))"

end
