(* ===== verification/Decimal_Aggregates_Spec.thy ===== *)
theory Decimal_Aggregates_Spec
  imports Decimal_Aggregates
begin

text \<open>
  The decimal aggregates against exact integer arithmetic. The rows a group has seen are a list; an
  accumulator that says its group is not null holds the exact sum, and says so exactly when every sum on the
  way was a decimal of the precision of the buffer. The interface \<open>group_accumulator\<close> carries the loops over
  a batch for both grouped accumulators.
\<close>

subsection \<open>Ranges\<close>

lemma max_decimal_fits: "p \<le> 38 \<Longrightarrow> 2 * max_decimal p < 2 ^ 128 - 2"
proof -
  assume "p \<le> 38"
  then have "(10 :: int) ^ p \<le> 10 ^ 38" by (rule power_increasing) simp
  then show ?thesis by (simp add: max_decimal_def)
qed

lemma valid_fits: "is_valid_decimal_precision v p \<Longrightarrow> fits_i128 v"
  using max_decimal_fits [of p] by (simp add: is_valid_decimal_precision_def fits_int_def)

lemma wrap_fits: "fits_i128 v \<Longrightarrow> wrap_i128 v = v"
  by (simp add: wrap_i128_def fits_int_def)

lemma overflowing_add_spec:
  "\<not> snd (overflowing_add a b) \<and> is_valid_decimal_precision (fst (overflowing_add a b)) p \<longleftrightarrow> is_valid_decimal_precision (a + b) p"
  "is_valid_decimal_precision (a + b) p \<Longrightarrow> overflowing_add a b = (a + b, False)"
  using valid_fits [of "a + b" p] by (auto simp: overflowing_add_def wrap_fits)

lemma valid_0: "p \<le> 38 \<Longrightarrow> is_valid_decimal_precision 0 p"
  by (simp add: is_valid_decimal_precision_def max_decimal_def)

text \<open>Every sum on the way to that of \<open>xs\<close> is a decimal of precision \<open>p\<close>.\<close>

definition in_range :: "nat \<Rightarrow> int list \<Rightarrow> bool" where
  "in_range p xs \<longleftrightarrow> (\<forall>k \<le> length xs. is_valid_decimal_precision (sum_list (take k xs)) p)"

lemma in_range_snoc: "in_range p (xs @ [x]) \<longleftrightarrow> in_range p xs \<and> is_valid_decimal_precision (sum_list xs + x) p"
proof -
  have "in_range p (xs @ [x]) \<longleftrightarrow> (\<forall>k \<le> length xs. is_valid_decimal_precision (sum_list (take k (xs @ [x]))) p) \<and>
      is_valid_decimal_precision (sum_list (take (Suc (length xs)) (xs @ [x]))) p"
    unfolding in_range_def by (simp add: le_Suc_eq) blast
  then show ?thesis by (simp add: in_range_def)
qed

lemma in_range_Nil: "p \<le> 38 \<Longrightarrow> in_range p []"
  by (simp add: in_range_def valid_0)

lemma in_range_total: "in_range p xs \<Longrightarrow> is_valid_decimal_precision (sum_list xs) p"
  unfolding in_range_def by (metis order_refl take_all_iff)

subsection \<open>Accumulating by group\<close>

text \<open>The rows of a batch that belong to group \<open>g\<close>.\<close>

definition rows_of :: "nat list \<Rightarrow> 'v option list \<Rightarrow> nat \<Rightarrow> 'v list" where
  "rows_of gs os g = concat (map2 (\<lambda>h cell. case cell of None \<Rightarrow> [] | Some v \<Rightarrow> if h = g then [v] else []) gs os)"

lemma rows_of_simps [simp]:
  "rows_of [] os g = []"
  "rows_of (h # gs) (None # os) g = rows_of gs os g"
  "rows_of (h # gs) (Some v # os) g = (if h = g then [v] else []) @ rows_of gs os g"
  by (simp_all add: rows_of_def)

lemma rows_of_above: "list_all (\<lambda>g. g < n) gs \<Longrightarrow> n \<le> g \<Longrightarrow> rows_of gs os g = []"
  by (auto simp: rows_of_def list_all_iff dest!: set_zip_leftD split: option.splits)

text \<open>An accumulator that takes the rows of each group one at a time: \<open>inv s C\<close> says that \<open>s\<close> has seen \<open>C g\<close>
  for every group \<open>g\<close> below the number of groups.\<close>

locale group_accumulator =
  fixes update_single :: "nat \<Rightarrow> 'v \<Rightarrow> 's \<Rightarrow> 's option"
    and inv :: "nat \<Rightarrow> 's \<Rightarrow> (nat \<Rightarrow> 'v list) \<Rightarrow> bool"
    and room :: "'v list \<Rightarrow> bool"
  assumes step: "inv n s C \<Longrightarrow> g < n \<Longrightarrow> room (C g @ [v]) \<Longrightarrow> \<exists>s'. update_single g v s = Some s' \<and> inv n s' (C(g := C g @ [v]))"
    and room_prefix: "room (xs @ ys) \<Longrightarrow> room xs"
begin

lemma each_group_inv:
  "inv n s C \<Longrightarrow> list_all (\<lambda>g. g < n) gs \<Longrightarrow> length gs = length os \<Longrightarrow> length vs = length os \<Longrightarrow>
     (\<And>i. i < length os \<Longrightarrow> is_null (k + i) = Some (os ! i = None)) \<Longrightarrow>
     (\<And>i x. i < length os \<Longrightarrow> os ! i = Some x \<Longrightarrow> vs ! i = x) \<Longrightarrow>
     (\<And>g. g < n \<Longrightarrow> room (C g @ rows_of gs os g)) \<Longrightarrow>
     \<exists>s'. each_group update_single is_null k (zip gs vs) s = Some s' \<and> inv n s' (\<lambda>g. C g @ rows_of gs os g)"
proof (induction os arbitrary: gs vs s C k)
  case Nil
  then show ?case by simp
next
  case (Cons cell os)
  from Cons.prems(3,4) obtain g gs' v vs' where gs: "gs = g # gs'" and vs: "vs = v # vs'"
    by (metis length_Suc_conv)
  have null: "is_null k = Some (cell = None)" using Cons.prems(5) [of 0] by simp
  have rest: "\<And>i. i < length os \<Longrightarrow> is_null (Suc k + i) = Some (os ! i = None)"
    "\<And>i x. i < length os \<Longrightarrow> os ! i = Some x \<Longrightarrow> vs' ! i = x"
    using Cons.prems(5) [of "Suc _"] Cons.prems(6) [of "Suc _"] by (auto simp: vs)
  show ?case
  proof (cases cell)
    case None
    have "\<exists>s'. each_group update_single is_null (Suc k) (zip gs' vs') s = Some s' \<and> inv n s' (\<lambda>g. C g @ rows_of gs' os g)"
      by (rule Cons.IH) (use Cons.prems rest None in \<open>auto simp: gs vs\<close>)
    with None null show ?thesis by (simp add: gs vs)
  next
    case (Some x)
    then have v: "v = x" using Cons.prems(6) [of 0 x] by (simp add: vs)
    have g: "g < n" using Cons.prems(2) by (simp add: gs)
    have "room ((C g @ [x]) @ rows_of gs' os g)" using Cons.prems(7) [OF g] Some by (simp add: gs)
    then have "room (C g @ [x])" by (rule room_prefix)
    from step [OF Cons.prems(1) g this] obtain s1 where s1: "update_single g x s = Some s1" "inv n s1 (C(g := C g @ [x]))" by blast
    let ?C = "C(g := C g @ [x])"
    have "\<exists>s'. each_group update_single is_null (Suc k) (zip gs' vs') s1 = Some s' \<and> inv n s' (\<lambda>h. ?C h @ rows_of gs' os h)"
    proof (rule Cons.IH [OF s1(2)])
      show "room (?C h @ rows_of gs' os h)" if "h < n" for h
        using Cons.prems(7) [OF that] Some by (cases "g = h") (simp_all add: gs)
    qed (use Cons.prems(2-4) rest in \<open>simp_all add: gs vs\<close>)
    moreover have "(\<lambda>h. ?C h @ rows_of gs' os h) = (\<lambda>h. C h @ rows_of gs (cell # os) h)"
      by (rule ext) (simp add: gs Some)
    ultimately show ?thesis using Some null s1(1) by (simp add: gs vs v)
  qed
qed

lemma batch_inv:
  assumes "inv n s C" and "list_all (\<lambda>g. g < n) gs" and "arr_wf (length gs) values"
    and "\<And>g. g < n \<Longrightarrow> room (C g @ rows_of gs (arr_iter values) g)"
  shows "\<exists>s'. each_group update_single (null_test values) 0 (zip gs (arr_values values)) s = Some s' \<and>
    inv n s' (\<lambda>g. C g @ rows_of gs (arr_iter values) g)"
proof (rule each_group_inv [OF assms(1,2)])
  have len: "length (arr_values values) = length gs" using assms(3) by (simp add: arr_wf_def)
  then show "length gs = length (arr_iter values)" "length (arr_values values) = length (arr_iter values)" by simp_all
  show "null_test values (0 + i) = Some (arr_iter values ! i = None)" if "i < length (arr_iter values)" for i
    using that len assms(3) is_null_get(1) [OF assms(3), of i] no_nulls [OF assms(3), of i] by (simp add: null_test_def)
  show "arr_values values ! i = x" if "i < length (arr_iter values)" "arr_iter values ! i = Some x" for i x
    using that len is_null_get(2) [OF assms(3), of i] by simp
qed (use assms(4) in simp)

end

subsection \<open>Sums\<close>

definition sg_inv :: "nat \<Rightarrow> nat \<Rightarrow> sum_groups \<Rightarrow> (nat \<Rightarrow> int list) \<Rightarrow> bool" where
  "sg_inv p n s C \<longleftrightarrow> sg_precision s = p \<and> p \<le> 38 \<and> length (sg_sum s) = n \<and> length (sg_is_empty s) = n \<and> length (sg_is_not_null s) = n \<and>
     (\<forall>g < n. sg_is_empty s ! g = (C g = []) \<and> sg_is_not_null s ! g = in_range p (C g) \<and>
        (in_range p (C g) \<longrightarrow> sg_sum s ! g = sum_list (C g)))"

lemma sg_step:
  assumes inv: "sg_inv p n s C" and g: "g < n"
  shows "\<exists>s'. sg_update_single g v s = Some s' \<and> sg_inv p n s' (C(g := C g @ [v]))"
proof -
  let ?o = "overflowing_add (sg_sum s ! g) v"
  let ?bad = "snd ?o \<or> \<not> is_valid_decimal_precision (fst ?o) p"
  let ?s = "s\<lparr>sg_is_empty := (sg_is_empty s)[g := False], sg_sum := (sg_sum s)[g := fst ?o],
    sg_is_not_null := (if ?bad then (sg_is_not_null s)[g := False] else sg_is_not_null s)\<rparr>"
  have len: "length (sg_sum s) = n" "length (sg_is_empty s) = n" "length (sg_is_not_null s) = n" "sg_precision s = p" "p \<le> 38"
    using inv by (simp_all add: sg_inv_def)
  have "sg_update_single g v s = Some ?s"
    using g len by (cases ?o) (simp add: sg_update_single_def rust_simps)
  moreover have "sg_inv p n ?s (C(g := C g @ [v]))"
  proof -
    have old: "sg_is_not_null s ! g = in_range p (C g)" "in_range p (C g) \<Longrightarrow> sg_sum s ! g = sum_list (C g)"
      using inv g by (simp_all add: sg_inv_def)
    have new: "in_range p (C g @ [v]) = (sg_is_not_null s ! g \<and> \<not> ?bad)"
      using overflowing_add_spec(1) [of "sg_sum s ! g" v p] old by (auto simp: in_range_snoc)
    moreover have "fst ?o = sum_list (C g @ [v])" if "in_range p (C g @ [v])"
      using that overflowing_add_spec(2) [of "sg_sum s ! g" v p] old by (auto simp: in_range_snoc)
    ultimately show ?thesis
      using inv g len unfolding sg_inv_def by (auto simp: nth_list_update)
  qed
  ultimately show ?thesis by blast
qed

interpretation sum_group: group_accumulator sg_update_single "sg_inv p" "\<lambda>_. True"
  for p
  by unfold_locales (simp_all add: sg_step)

text \<open>New groups have seen nothing.\<close>

lemma sg_resize:
  assumes "sg_inv p n s C" and "n \<le> m" and "\<And>g. n \<le> g \<Longrightarrow> C g = []"
  shows "sg_inv p m (s\<lparr>sg_sum := vec_resize m 0 (sg_sum s), sg_is_empty := ensure_bit_capacity (sg_is_empty s) m,
    sg_is_not_null := ensure_bit_capacity (sg_is_not_null s) m\<rparr>) C"
  using assms in_range_Nil [of p]
  by (auto simp: sg_inv_def vec_resize_def ensure_bit_capacity_def nth_append not_less)

lemma sg_update_batch_inv:
  assumes "sg_inv p n s C" and "n \<le> m" and "\<And>g. n \<le> g \<Longrightarrow> C g = []"
    and "list_all (\<lambda>g. g < m) gs" and "arr_wf (length gs) values"
  shows "\<exists>s'. sg_update_batch values gs None m s = Some s' \<and> sg_inv p m s' (\<lambda>g. C g @ rows_of gs (arr_iter values) g)"
  using sum_group.batch_inv [OF sg_resize [OF assms(1-3)] assms(4,5)] by (simp add: sg_update_batch_def ensure_def)

text \<open>Marking the groups whose sum is out of range when they are emitted.\<close>

lemma mark_invalid_spec:
  "k + length vs \<le> length nulls \<Longrightarrow> \<exists>nulls'. mark_invalid p k vs nulls = Some nulls' \<and> length nulls' = length nulls \<and>
     (\<forall>i < length nulls. nulls' ! i = (nulls ! i \<and> (k \<le> i \<and> i < k + length vs \<longrightarrow> is_valid_decimal_precision (vs ! (i - k)) p)))"
proof (induction vs arbitrary: k nulls)
  case Nil
  then show ?case by auto
next
  case (Cons v vs)
  let ?nulls = "if is_valid_decimal_precision v p then nulls else nulls[k := False]"
  have l: "length ?nulls = length nulls" by simp
  have "mark_invalid p k (v # vs) nulls = mark_invalid p (Suc k) vs ?nulls" using Cons.prems by (simp add: rust_simps)
  moreover from Cons.IH [of "Suc k" ?nulls] Cons.prems obtain nulls' where
    n: "mark_invalid p (Suc k) vs ?nulls = Some nulls'" "length nulls' = length nulls"
      "\<forall>i < length nulls. nulls' ! i = (?nulls ! i \<and> (Suc k \<le> i \<and> i < Suc k + length vs \<longrightarrow> is_valid_decimal_precision (vs ! (i - Suc k)) p))"
    unfolding l by auto
  moreover have "nulls' ! i = (nulls ! i \<and> (k \<le> i \<and> i < k + length (v # vs) \<longrightarrow> is_valid_decimal_precision ((v # vs) ! (i - k)) p))"
    if "i < length nulls" for i
    using n(3) that Cons.prems by (cases i k rule: linorder_cases) (auto simp: nth_Cons')
  ultimately show ?case by auto
qed

text \<open>What DataFusion documents of \<open>take_needed\<close>.\<close>

definition take_needed_law :: "(emit_to \<Rightarrow> int list \<Rightarrow> int list \<times> int list) \<Rightarrow> bool" where
  "take_needed_law tn \<longleftrightarrow> (\<forall>vs. tn EmitAll vs = (vs, [])) \<and> (\<forall>n vs. n \<le> length vs \<longrightarrow> tn (EmitFirst n) vs = (take n vs, drop n vs))"

definition sum_result :: "nat \<Rightarrow> int list \<Rightarrow> int option" where
  "sum_result p xs = (if xs \<noteq> [] \<and> in_range p xs then Some (sum_list xs) else None)"

text \<open>The first \<open>k\<close> groups are emitted, the others move down.\<close>

lemma sg_evaluate_first:
  assumes "take_needed_law tn" and inv: "sg_inv p n s C" and "k \<le> n"
  shows "\<exists>a s'. sg_evaluate tn (EmitFirst k) s = Some (a, s') \<and> arr_iter a = map (\<lambda>g. sum_result p (C g)) [0..<k] \<and>
    sg_inv p (n - k) s' (\<lambda>g. C (k + g))"
proof -
  have len: "length (sg_sum s) = n" "length (sg_is_empty s) = n" "length (sg_is_not_null s) = n" "sg_precision s = p"
    using inv by (simp_all add: sg_inv_def)
  have "k + 0 \<le> n" using assms(3) by simp
  obtain nn where nn: "mark_invalid p 0 (take k (sg_sum s)) (sg_is_not_null s) = Some nn" "length nn = n"
      "\<forall>i < n. nn ! i = (sg_is_not_null s ! i \<and> (i < k \<longrightarrow> is_valid_decimal_precision (sg_sum s ! i) p))"
    using mark_invalid_spec [of 0 "take k (sg_sum s)" "sg_is_not_null s" p] len assms(3) by auto
  let ?bits = "map2 (\<lambda>e n. \<not> e \<and> n) (take k (sg_is_empty s)) (take k nn)"
  let ?a = "\<lparr>arr_values = take k (sg_sum s), arr_validity = Some ?bits\<rparr>"
  let ?s = "s\<lparr>sg_sum := drop k (sg_sum s), sg_is_not_null := drop k nn, sg_is_empty := drop k (sg_is_empty s)\<rparr>"
  have "sg_evaluate tn (EmitFirst k) s = Some (?a, ?s)"
    using assms(1,3) len nn(1,2) by (simp add: sg_evaluate_def take_needed_law_def build_bool_state_def decimal_array_def ensure_def)
  moreover have "arr_iter ?a = map (\<lambda>g. sum_result p (C g)) [0..<k]"
  proof (rule nth_equalityI)
    fix i assume "i < length (arr_iter ?a)"
    then have i: "i < k" "i < n" using assms(3) len by simp_all
    then show "arr_iter ?a ! i = map (\<lambda>g. sum_result p (C g)) [0..<k] ! i"
      using inv nn(3) len nn(2) in_range_total [of p "C i"] by (auto simp: arr_get_def sum_result_def sg_inv_def)
  qed (use assms(3) len in simp)
  moreover have "sg_inv p (n - k) ?s (\<lambda>g. C (k + g))"
    using inv nn(2,3) assms(3) by (auto simp: sg_inv_def)
  ultimately show ?thesis by blast
qed

lemma sg_evaluate_all:
  assumes "take_needed_law tn" and inv: "sg_inv p n s C"
  shows "\<exists>a s'. sg_evaluate tn EmitAll s = Some (a, s') \<and> arr_iter a = map (\<lambda>g. sum_result p (C g)) [0..<n]"
proof -
  have len: "length (sg_sum s) = n" "length (sg_is_empty s) = n" "length (sg_is_not_null s) = n" "sg_precision s = p"
    using inv by (simp_all add: sg_inv_def)
  have "tn EmitAll vs = (vs, [])" "length vs \<le> n \<Longrightarrow> build_bool_state bs EmitAll = Some (bs, [])" for vs bs
    using assms(1) by (simp_all add: take_needed_law_def build_bool_state_def)
  moreover have "tn (EmitFirst n) (sg_sum s) = (sg_sum s, [])" "length bs = n \<Longrightarrow> build_bool_state bs (EmitFirst n) = Some (bs, [])" for bs
    using assms(1) len by (simp_all add: take_needed_law_def build_bool_state_def ensure_def)
  moreover obtain nn where "mark_invalid p 0 (sg_sum s) (sg_is_not_null s) = Some nn" "length nn = n"
    using mark_invalid_spec [of 0 "sg_sum s" "sg_is_not_null s" p] len by auto
  ultimately have "sg_evaluate tn EmitAll s = sg_evaluate tn (EmitFirst n) s"
    using len by (simp add: sg_evaluate_def build_bool_state_def)
  with sg_evaluate_first [OF assms, of n] show ?thesis by auto
qed

subsection \<open>Merging partial sums\<close>

text \<open>The state of a partial aggregation, for groups that have seen \<open>Cs\<close>.\<close>

definition state_of :: "nat \<Rightarrow> int list list \<Rightarrow> int arr \<Rightarrow> bool arr \<Rightarrow> bool" where
  "state_of p Cs sums empties \<longleftrightarrow> arr_wf (length Cs) sums \<and> length (arr_values empties) = length Cs \<and>
     (\<forall>i < length Cs. arr_values empties ! i = (Cs ! i = []) \<and> (arr_get sums i \<noteq> None) = in_range p (Cs ! i) \<and>
        (in_range p (Cs ! i) \<longrightarrow> arr_values sums ! i = sum_list (Cs ! i)))"

lemma sg_state_all:
  assumes "take_needed_law tn" and inv: "sg_inv p n s C"
  shows "\<exists>sums empties s'. sg_state tn EmitAll s = Some ((sums, empties), s') \<and> state_of p (map C [0..<n]) sums empties"
  using assms
  by (auto simp: sg_state_def take_needed_law_def build_bool_state_def decimal_array_def ensure_def sg_inv_def state_of_def arr_wf_def arr_get_def)

text \<open>Merging keeps a list of partial lists for every group; what is summed is their concatenation.\<close>

definition sm_inv :: "nat \<Rightarrow> nat \<Rightarrow> sum_groups \<Rightarrow> (nat \<Rightarrow> int list list) \<Rightarrow> bool" where
  "sm_inv p n s D \<longleftrightarrow> sg_precision s = p \<and> p \<le> 38 \<and> length (sg_sum s) = n \<and> length (sg_is_empty s) = n \<and> length (sg_is_not_null s) = n \<and>
     (\<forall>g < n. sg_is_empty s ! g = (concat (D g) = []) \<and> sg_is_not_null s ! g = list_all (in_range p) (D g) \<and>
        (list_all (in_range p) (D g) \<longrightarrow> sg_sum s ! g = sum_list (concat (D g))))"

definition parts_of :: "nat list \<Rightarrow> int list list \<Rightarrow> nat \<Rightarrow> int list list" where
  "parts_of gs Cs g = concat (map2 (\<lambda>h c. if h = g then [c] else []) gs Cs)"

text \<open>No sum of partial sums on the way overflows 128 bits.\<close>

definition parts_fit :: "nat \<Rightarrow> int list list \<Rightarrow> bool" where
  "parts_fit p parts \<longleftrightarrow> (\<forall>k \<le> length parts. list_all (in_range p) (take k parts) \<longrightarrow> fits_i128 (sum_list (concat (take k parts))))"

lemma parts_fit_prefix:
  assumes "parts_fit p (xs @ ys)"
  shows "parts_fit p xs"
  unfolding parts_fit_def
proof (intro allI impI)
  fix k assume "k \<le> length xs" and "list_all (in_range p) (take k xs)"
  with assms show "fits_i128 (sum_list (concat (take k xs)))" unfolding parts_fit_def by (auto dest!: spec [of _ k])
qed

lemma sm_step:
  assumes inv: "sm_inv p n s D" and g: "g < n" and st: "state_of p Cs sums empties" and i: "i < length Cs"
    and fits: "list_all (in_range p) (D g @ [Cs ! i]) \<Longrightarrow> fits_i128 (sum_list (concat (D g @ [Cs ! i])))"
  shows "\<exists>s'. sg_merge_loop sums empties i (g # gs) s = sg_merge_loop sums empties (Suc i) gs s' \<and>
    sm_inv p n s' (D(g := D g @ [Cs ! i]))"
proof -
  let ?c = "Cs ! i"
  let ?ok = "list_all (in_range p) (D g @ [?c])"
  have len: "length (sg_sum s) = n" "length (sg_is_empty s) = n" "length (sg_is_not_null s) = n" "p \<le> 38"
    and old: "sg_is_empty s ! g = (concat (D g) = [])" "sg_is_not_null s ! g = list_all (in_range p) (D g)"
      "list_all (in_range p) (D g) \<Longrightarrow> sg_sum s ! g = sum_list (concat (D g))"
    using inv g by (simp_all add: sm_inv_def)
  have cell: "index (arr_values empties) i = Some (?c = [])" "arr_is_null sums i = Some (\<not> in_range p ?c)"
    "in_range p ?c \<Longrightarrow> index (arr_values sums) i = Some (sum_list ?c)"
    using st i is_null_get(1) [of "length Cs" sums i] by (auto simp: state_of_def index_def arr_wf_def)
  have empty: "concat (D g) = [] \<Longrightarrow> list_all (in_range p) (D g)" "?c = [] \<Longrightarrow> in_range p ?c"
    using in_range_Nil [OF len(4)] by (auto simp: list_all_iff)
  let ?s = "s\<lparr>sg_is_not_null := (sg_is_not_null s)[g := ?ok], sg_is_empty := (sg_is_empty s)[g := concat (D g @ [?c]) = []],
    sg_sum := (if ?ok then (sg_sum s)[g := sum_list (concat (D g @ [?c]))] else sg_sum s)\<rparr>"
  have ov: "sg_is_overflow s g = Some (\<not> list_all (in_range p) (D g))"
    using g len old empty(1) by (auto simp: sg_is_overflow_def rust_simps)
  have "sg_merge_loop sums empties i (g # gs) s = sg_merge_loop sums empties (Suc i) gs ?s"
  proof (cases ?ok)
    case True
    then have "i128_add (sg_sum s ! g) (sum_list ?c) = Some (sum_list (concat (D g @ [?c])))"
      using fits old(3) by (simp add: i128_add_def ensure_def)
    with True show ?thesis using g len old cell by (simp add: ov rust_simps)
  next
    case False
    then have "\<not> list_all (in_range p) (D g) \<or> ?c \<noteq> [] \<and> \<not> in_range p ?c" using empty(2) by auto
    with False show ?thesis using g len old cell by (auto simp: ov rust_simps)
  qed
  moreover have "sm_inv p n ?s (D(g := D g @ [?c]))"
    using inv g len by (auto simp: sm_inv_def nth_list_update)
  ultimately show ?thesis by blast
qed

lemma parts_of_Cons:
  "i < length Cs \<Longrightarrow> parts_of (h # gs) (drop i Cs) g = (if h = g then [Cs ! i] else []) @ parts_of gs (drop (Suc i) Cs) g"
  by (simp add: parts_of_def Cons_nth_drop_Suc [symmetric])

lemma sm_loop:
  assumes st: "state_of p Cs sums empties"
  shows "sm_inv p n s D \<Longrightarrow> list_all (\<lambda>g. g < n) gs \<Longrightarrow> i + length gs = length Cs \<Longrightarrow>
    (\<And>g. g < n \<Longrightarrow> parts_fit p (D g @ parts_of gs (drop i Cs) g)) \<Longrightarrow>
    \<exists>s'. sg_merge_loop sums empties i gs s = Some s' \<and> sm_inv p n s' (\<lambda>g. D g @ parts_of gs (drop i Cs) g)"
proof (induction gs arbitrary: i s D)
  case Nil
  then show ?case by (simp add: parts_of_def)
next
  case (Cons h gs)
  then have i: "i < length Cs" and h: "h < n" by simp_all
  have fits: "fits_i128 (sum_list (concat (D h @ [Cs ! i])))" if "list_all (in_range p) (D h @ [Cs ! i])"
  proof -
    have "parts_fit p ((D h @ [Cs ! i]) @ parts_of gs (drop (Suc i) Cs) h)" using Cons.prems(4) [OF h] parts_of_Cons [OF i, of h gs h] by simp
    then show ?thesis using that unfolding parts_fit_def by (metis append_eq_conv_conj le_add1 length_append)
  qed
  from sm_step [OF Cons.prems(1) h st i this] obtain s1 where
    s1: "sg_merge_loop sums empties i (h # gs) s = sg_merge_loop sums empties (Suc i) gs s1"
      "sm_inv p n s1 (D(h := D h @ [Cs ! i]))" by blast
  let ?D = "D(h := D h @ [Cs ! i])"
  have eq: "?D g @ parts_of gs (drop (Suc i) Cs) g = D g @ parts_of (h # gs) (drop i Cs) g" for g
    using parts_of_Cons [OF i, of h gs g] by (cases "g = h") simp_all
  have "\<exists>s'. sg_merge_loop sums empties (Suc i) gs s1 = Some s' \<and> sm_inv p n s' (\<lambda>g. ?D g @ parts_of gs (drop (Suc i) Cs) g)"
    by (rule Cons.IH [OF s1(2)]) (use Cons.prems eq in simp_all)
  then show ?case unfolding s1(1) eq .
qed

lemma sm_resize:
  assumes "sm_inv p n s D" and "n \<le> m" and "\<And>g. n \<le> g \<Longrightarrow> D g = []"
  shows "sm_inv p m (s\<lparr>sg_sum := vec_resize m 0 (sg_sum s), sg_is_empty := ensure_bit_capacity (sg_is_empty s) m,
    sg_is_not_null := ensure_bit_capacity (sg_is_not_null s) m\<rparr>) D"
  using assms by (auto simp: sm_inv_def vec_resize_def ensure_bit_capacity_def nth_append not_less)

lemma sg_merge_batch_inv:
  assumes "sm_inv p n s D" and "n \<le> m" and "\<And>g. n \<le> g \<Longrightarrow> D g = []" and "state_of p Cs sums empties"
    and "list_all (\<lambda>g. g < m) gs" and "length gs = length Cs" and "\<And>g. g < m \<Longrightarrow> parts_fit p (D g @ parts_of gs Cs g)"
  shows "\<exists>s'. sg_merge_batch sums empties gs None m s = Some s' \<and> sm_inv p m s' (\<lambda>g. D g @ parts_of gs Cs g)"
  using sm_loop [OF assms(4) sm_resize [OF assms(1-3)] assms(5), of 0] assms(6,7) by (simp add: sg_merge_batch_def ensure_def)

text \<open>A group that has only been merged into is emitted like one that has been updated.\<close>

definition merged_result :: "nat \<Rightarrow> int list list \<Rightarrow> int option" where
  "merged_result p parts =
     (if concat parts \<noteq> [] \<and> list_all (in_range p) parts \<and> is_valid_decimal_precision (sum_list (concat parts)) p
      then Some (sum_list (concat parts)) else None)"

lemma sm_evaluate_all:
  assumes "take_needed_law tn" and inv: "sm_inv p n s D"
  shows "\<exists>a s'. sg_evaluate tn EmitAll s = Some (a, s') \<and> arr_iter a = map (\<lambda>g. merged_result p (D g)) [0..<n]"
proof -
  have len: "length (sg_sum s) = n" "length (sg_is_empty s) = n" "length (sg_is_not_null s) = n" "sg_precision s = p"
    using inv by (simp_all add: sm_inv_def)
  obtain nn where nn: "mark_invalid p 0 (sg_sum s) (sg_is_not_null s) = Some nn" "length nn = n"
      "\<forall>i < n. nn ! i = (sg_is_not_null s ! i \<and> is_valid_decimal_precision (sg_sum s ! i) p)"
    using mark_invalid_spec [of 0 "sg_sum s" "sg_is_not_null s" p] len by auto
  let ?a = "\<lparr>arr_values = sg_sum s, arr_validity = Some (map2 (\<lambda>e n. \<not> e \<and> n) (sg_is_empty s) nn)\<rparr>"
  have "\<exists>s'. sg_evaluate tn EmitAll s = Some (?a, s')"
    using assms(1) len nn(1,2) by (simp add: sg_evaluate_def take_needed_law_def build_bool_state_def decimal_array_def ensure_def)
  moreover have "arr_iter ?a = map (\<lambda>g. merged_result p (D g)) [0..<n]"
  proof (rule nth_equalityI)
    fix i assume "i < length (arr_iter ?a)"
    then have i: "i < n" using len by simp
    then show "arr_iter ?a ! i = map (\<lambda>g. merged_result p (D g)) [0..<n] ! i"
      using inv nn(3) len nn(2) by (auto simp: arr_get_def merged_result_def sm_inv_def)
  qed (use len in simp)
  ultimately show ?thesis by blast
qed

subsection \<open>Averages\<close>

text \<open>The quotient rounded to the nearest integer, halves away from zero.\<close>

definition round_half_up :: "int \<Rightarrow> int \<Rightarrow> int" where
  "round_half_up v c = sgn v * ((2 * \<bar>v\<bar> + c) div (2 * c))"

lemma half_up_pos:
  fixes v c :: int
  assumes "0 < c" and "0 \<le> v"
  shows "(2 * v + c) div (2 * c) = (if v mod c \<ge> - (- c div 2) then v div c + 1 else v div c)"
proof -
  let ?r = "v mod c"
  have r: "0 \<le> ?r" "?r < c" using pos_mod_sign [OF assms(1)] pos_mod_bound [OF assms(1)] by blast+
  have v: "v = c * (v div c) + ?r" by simp
  have half: "?r \<ge> - (- c div 2) \<longleftrightarrow> 2 * ?r \<ge> c" by linarith
  have "2 * v + c = 2 * (c * (v div c)) + (2 * ?r + c)" using v by linarith
  then have "(2 * v + c) div (2 * c) = (2 * c * (v div c) + (2 * ?r + c)) div (2 * c)" by (simp only: mult.assoc)
  also have "\<dots> = v div c + (2 * ?r + c) div (2 * c)" using assms(1) by (subst div_mult_self4) simp_all
  also have "(2 * ?r + c) div (2 * c) = (if 2 * ?r \<ge> c then 1 else 0)"
  proof (cases "2 * ?r \<ge> c")
    case True
    have "(2 * ?r + c) div (2 * c) = 1" by (rule int_div_pos_eq [where r = "2 * ?r - c"]) (use True r in linarith)+
    with True show ?thesis by simp
  next
    case False
    with r show ?thesis by (simp add: div_pos_pos_trivial)
  qed
  finally show ?thesis using half by simp
qed

lemma div_bounds:
  fixes v c :: int
  assumes "0 < c" and "0 \<le> v"
  shows "0 \<le> v div c" and "v div c \<le> v" and "v mod c \<ge> - (- c div 2) \<Longrightarrow> v div c + 1 \<le> v"
proof -
  show 0: "0 \<le> v div c" using assms by (simp add: pos_imp_zdiv_nonneg_iff)
  have v: "v = c * (v div c) + v mod c" by simp
  have r: "0 \<le> v mod c" using pos_mod_sign [OF assms(1)] .
  have "1 * (v div c) \<le> c * (v div c)" using assms(1) 0 by (intro mult_right_mono) simp_all
  then have m: "v div c \<le> c * (v div c)" by simp
  with v r show "v div c \<le> v" by linarith
  assume "v mod c \<ge> - (- c div 2)"
  then have "1 \<le> v mod c" using assms(1) by linarith
  with v m show "v div c + 1 \<le> v" by linarith
qed

lemma avg_spec:
  assumes c: "0 < c" and fits: "fits_i128 (t * scaler)" "fits_i128 c"
  shows "avg t c lo hi scaler =
    Some (let q = round_half_up (t * scaler) c in if lo \<le> q \<and> q \<le> hi then Some q else None)"
proof -
  define v where "v = t * scaler"
  have "fits_i128 v" using fits(1) by (simp only: v_def)
  then have f: "- (2 ^ 127) \<le> v" "v < 2 ^ 127" "c < 2 ^ 127" using fits(2) by (simp_all add: fits_int_def)
  have half: "wrap_i128 (- (- (- c div 2))) = - c div 2" using f(3) c by (intro trans [OF wrap_fits]) (auto simp: fits_int_def)
  show ?thesis
  proof (cases "0 \<le> v")
    case True
    note b = div_bounds [OF c True]
    have q: "tdiv v c = v div c" "v - c * (v div c) = v mod c" using True c by (simp_all add: tdiv_def minus_mult_div_eq_mod)
    have r: "round_half_up v c = (if v mod c \<ge> - (- c div 2) then v div c + 1 else v div c)"
      using half_up_pos [OF c True] c True by (cases "v = 0") (simp_all add: round_half_up_def)
    have w: "v mod c \<ge> - (- c div 2) \<Longrightarrow> wrap_i128 (v div c + 1) = v div c + 1"
      using b f by (intro wrap_fits) (simp add: fits_int_def)
    have fq: "fits_i128 (v div c)" using b f by (simp add: fits_int_def)
    show ?thesis
      unfolding avg_def Let_def v_def [symmetric] r q half using True c fq f w
      by (simp add: ensure_def fits(1) [folded v_def] q)
  next
    case False
    define u where "u = - v"
    have u: "0 \<le> u" "v = - u" "0 < u" using False by (simp_all add: u_def)
    note b = div_bounds [OF c u(1)]
    have q: "tdiv v c = - (u div c)" "v - c * - (u div c) = - (u mod c)"
      using u c by (simp_all add: tdiv_def minus_mult_div_eq_mod [symmetric])
    have r: "round_half_up v c = (if u mod c \<ge> - (- c div 2) then - (u div c) - 1 else - (u div c))"
      using half_up_pos [OF c u(1)] u by (simp add: round_half_up_def)
    have w: "u mod c \<ge> - (- c div 2) \<Longrightarrow> wrap_i128 (- (u div c) - 1) = - (u div c) - 1"
      using b f u by (intro wrap_fits) (simp add: fits_int_def)
    have fq: "fits_i128 (- (u div c))" using b f u by (simp add: fits_int_def)
    show ?thesis
      unfolding avg_def Let_def v_def [symmetric] r q half using False c fq f w
      by (simp add: ensure_def fits(1) [folded v_def] q)
  qed
qed

lemma avg_overflow: "\<not> fits_i128 (t * scaler) \<Longrightarrow> avg t c lo hi scaler = Some None"
  by (simp add: avg_def)

definition ag_inv :: "nat \<Rightarrow> nat \<Rightarrow> avg_groups \<Rightarrow> (nat \<Rightarrow> int list) \<Rightarrow> bool" where
  "ag_inv p n s C \<longleftrightarrow> ag_sum_precision s = p \<and> p \<le> 38 \<and> length (ag_sums s) = n \<and> length (ag_counts s) = n \<and> length (ag_is_not_null s) = n \<and>
     (\<forall>g < n. ag_counts s ! g = int (length (C g)) \<and> ag_is_not_null s ! g = in_range p (C g) \<and>
        (in_range p (C g) \<longrightarrow> ag_sums s ! g = sum_list (C g)))"

lemma ag_step:
  assumes inv: "ag_inv p n s C" and g: "g < n" and room: "length (C g @ [v]) < 2 ^ 63"
  shows "\<exists>s'. ag_update_single g v s = Some s' \<and> ag_inv p n s' (C(g := C g @ [v]))"
proof -
  let ?o = "overflowing_add (ag_sums s ! g) v"
  let ?bad = "snd ?o \<or> \<not> is_valid_decimal_precision (fst ?o) p"
  let ?s = "s\<lparr>ag_counts := (ag_counts s)[g := int (length (C g)) + 1], ag_sums := (ag_sums s)[g := fst ?o],
    ag_is_not_null := (if ?bad then (ag_is_not_null s)[g := False] else ag_is_not_null s)\<rparr>"
  have len: "length (ag_sums s) = n" "length (ag_counts s) = n" "length (ag_is_not_null s) = n" "ag_sum_precision s = p" "p \<le> 38"
    using inv by (simp_all add: ag_inv_def)
  have "ag_counts s ! g = int (length (C g))" using inv g by (simp add: ag_inv_def)
  moreover have "i64_add (int (length (C g))) 1 = Some (int (length (C g)) + 1)"
    using room by (simp add: i64_add_def ensure_def fits_int_def)
  ultimately have "ag_update_single g v s = Some ?s"
    using g len by (cases ?o) (simp add: ag_update_single_def rust_simps)
  moreover have "ag_inv p n ?s (C(g := C g @ [v]))"
  proof -
    have old: "ag_is_not_null s ! g = in_range p (C g)" "in_range p (C g) \<Longrightarrow> ag_sums s ! g = sum_list (C g)"
      using inv g by (simp_all add: ag_inv_def)
    have "in_range p (C g @ [v]) = (ag_is_not_null s ! g \<and> \<not> ?bad)"
      using overflowing_add_spec(1) [of "ag_sums s ! g" v p] old by (auto simp: in_range_snoc)
    moreover have "fst ?o = sum_list (C g @ [v])" if "in_range p (C g @ [v])"
      using that overflowing_add_spec(2) [of "ag_sums s ! g" v p] old by (auto simp: in_range_snoc)
    ultimately show ?thesis
      using inv g len unfolding ag_inv_def by (auto simp: nth_list_update)
  qed
  ultimately show ?thesis by blast
qed

interpretation avg_group: group_accumulator ag_update_single "ag_inv p" "\<lambda>xs. length xs < 2 ^ 63"
  for p
  by unfold_locales (use ag_step in blast, simp)

lemma ag_resize:
  assumes "ag_inv p n s C" and "n \<le> m" and "\<And>g. n \<le> g \<Longrightarrow> C g = []"
  shows "ag_inv p m (s\<lparr>ag_counts := vec_resize m 0 (ag_counts s), ag_sums := vec_resize m 0 (ag_sums s),
    ag_is_not_null := ensure_bit_capacity (ag_is_not_null s) m\<rparr>) C"
  using assms in_range_Nil [of p]
  by (auto simp: ag_inv_def vec_resize_def ensure_bit_capacity_def nth_append not_less)

lemma ag_update_batch_inv:
  assumes "ag_inv p n s C" and "n \<le> m" and "\<And>g. n \<le> g \<Longrightarrow> C g = []"
    and "list_all (\<lambda>g. g < m) gs" and "arr_wf (length gs) values"
    and "\<And>g. g < m \<Longrightarrow> length (C g @ rows_of gs (arr_iter values) g) < 2 ^ 63"
  shows "\<exists>s'. ag_update_batch values gs m s = Some s' \<and> ag_inv p m s' (\<lambda>g. C g @ rows_of gs (arr_iter values) g)"
  using avg_group.batch_inv [OF ag_resize [OF assms(1-3)] assms(4-6)] by (simp add: ag_update_batch_def)

text \<open>The configuration of an accumulator is never changed.\<close>

definition ag_config :: "avg_groups \<Rightarrow> nat \<times> int \<times> int" where
  "ag_config s = (ag_target_precision s, ag_target_scale s, ag_sum_scale s)"

lemma ag_update_single_config: "ag_update_single g v s = Some s' \<Longrightarrow> ag_config s' = ag_config s"
  by (auto simp: ag_update_single_def ag_config_def Let_def split: bind_splits if_splits prod.splits)

lemma each_group_config:
  "each_group ag_update_single is_null i gvs s = Some s' \<Longrightarrow> ag_config s' = ag_config s"
proof (induction gvs arbitrary: i s)
  case (Cons gv gvs)
  obtain g v where gv: "gv = (g, v)" by (cases gv)
  from Cons.prems obtain b s1 where 1: "(if b then Some s else ag_update_single g v s) = Some s1"
      "each_group ag_update_single is_null (Suc i) gvs s1 = Some s'"
    by (auto simp: gv split: bind_splits)
  then have "ag_config s1 = ag_config s" by (cases b) (auto dest: ag_update_single_config)
  with Cons.IH [OF 1(2)] show ?case by simp
qed simp

lemma ag_update_batch_config: "ag_update_batch values gs m s = Some s' \<Longrightarrow> ag_config s' = ag_config s"
  unfolding ag_update_batch_def Let_def by (drule each_group_config) (simp add: ag_config_def)

text \<open>The average of a group as a decimal of precision \<open>q\<close>.\<close>

definition avg_result :: "nat \<Rightarrow> nat \<Rightarrow> int \<Rightarrow> int list \<Rightarrow> int option" where
  "avg_result p q scaler xs =
     (if xs = [] \<or> \<not> in_range p xs \<or> \<not> fits_i128 (sum_list xs * scaler) then None
      else let r = round_half_up (sum_list xs * scaler) (int (length xs)) in if \<bar>r\<bar> \<le> max_decimal q then Some r else None)"

lemma avg_all_map:
  "(\<And>g. g \<in> set gs \<Longrightarrow> (if \<not> nn g \<or> count g = 0 then Some None else avg (t g) (count g) (- hi) hi scaler) = Some (f g)) \<Longrightarrow>
     avg_all hi scaler (map (\<lambda>g. (nn g, t g, count g)) gs) = Some (map f gs)"
  by (induction gs) simp_all

lemma ag_evaluate_all:
  assumes tn: "take_needed_law tn" and inv: "ag_inv p n s C" and cfg: "ag_config s = (q, ts, ss)" and q: "q \<le> 38"
    and scale: "i128_pow10 (saturating_i8 (ts - ss)) = Some scaler" and len: "\<And>g. g < n \<Longrightarrow> length (C g) < 2 ^ 63"
  shows "\<exists>s'. ag_evaluate tn EmitAll s = Some (map (\<lambda>g. avg_result p q scaler (C g)) [0..<n], s')"
proof -
  have l: "length (ag_sums s) = n" "length (ag_counts s) = n" "length (ag_is_not_null s) = n" using inv by (simp_all add: ag_inv_def)
  have c: "ag_target_precision s = q" "ag_target_scale s = ts" "ag_sum_scale s = ss" using cfg by (simp_all add: ag_config_def)
  have "zip (ag_is_not_null s) (zip (ag_sums s) (ag_counts s)) =
      map (\<lambda>g. (ag_is_not_null s ! g, ag_sums s ! g, ag_counts s ! g)) [0..<n]"
    using l by (intro nth_equalityI) simp_all
  moreover have "avg_all (max_decimal q) scaler (map (\<lambda>g. (ag_is_not_null s ! g, ag_sums s ! g, ag_counts s ! g)) [0..<n]) =
      Some (map (\<lambda>g. avg_result p q scaler (C g)) [0..<n])"
  proof (rule avg_all_map)
    fix g assume "g \<in> set [0..<n]"
    then have g: "g < n" by simp
    let ?S = "sum_list (C g)" and ?k = "int (length (C g))"
    have old: "ag_counts s ! g = ?k" "ag_is_not_null s ! g = in_range p (C g)" "in_range p (C g) \<Longrightarrow> ag_sums s ! g = ?S"
      using inv g by (simp_all add: ag_inv_def)
    have k: "fits_i128 ?k" using len [OF g] by (simp add: fits_int_def)
    show "(if \<not> ag_is_not_null s ! g \<or> ag_counts s ! g = 0 then Some None
        else avg (ag_sums s ! g) (ag_counts s ! g) (- max_decimal q) (max_decimal q) scaler) = Some (avg_result p q scaler (C g))"
    proof (cases "in_range p (C g) \<and> C g \<noteq> []")
      case False
      then show ?thesis by (auto simp: old avg_result_def)
    next
      case True
      then have pos: "0 < ?k" by simp
      show ?thesis
      proof (cases "fits_i128 (?S * scaler)")
        case f: False
        then show ?thesis using True pos by (simp add: old avg_result_def avg_overflow)
      next
        case f: True
        have "(- max_decimal q \<le> r \<and> r \<le> max_decimal q) = (\<bar>r\<bar> \<le> max_decimal q)" for r by linarith
        with f True pos show ?thesis by (simp add: old avg_result_def avg_spec [OF pos f k] Let_def del: of_nat_0_less_iff)
      qed
    qed
  qed
  ultimately show ?thesis
    using tn q scale by (simp add: ag_evaluate_def take_needed_law_def build_bool_state_def c ensure_def)
qed

subsection \<open>Whole aggregations\<close>

text \<open>A batch is a column and the group of each of its rows; \<open>seen\<close> collects the rows of a group.\<close>

definition seen :: "(int arr \<times> nat list) list \<Rightarrow> nat \<Rightarrow> int list" where
  "seen batches g = concat (map (\<lambda>(vals, gs). rows_of gs (arr_iter vals) g) batches)"

definition batch_ok :: "nat \<Rightarrow> int arr \<times> nat list \<Rightarrow> bool" where
  "batch_ok n b \<longleftrightarrow> (case b of (vals, gs) \<Rightarrow> list_all (\<lambda>g. g < n) gs \<and> arr_wf (length gs) vals)"

lemma seen_simps [simp]: "seen [] g = []" "seen ((vals, gs) # bs) g = rows_of gs (arr_iter vals) g @ seen bs g"
  by (simp_all add: seen_def)

fun sg_updates :: "nat \<Rightarrow> (int arr \<times> nat list) list \<Rightarrow> sum_groups \<Rightarrow> sum_groups option" where
  "sg_updates n [] s = Some s"
| "sg_updates n ((vals, gs) # bs) s = do { s \<leftarrow> sg_update_batch vals gs None n s; sg_updates n bs s }"

fun ag_updates :: "nat \<Rightarrow> (int arr \<times> nat list) list \<Rightarrow> avg_groups \<Rightarrow> avg_groups option" where
  "ag_updates n [] s = Some s"
| "ag_updates n ((vals, gs) # bs) s = do { s \<leftarrow> ag_update_batch vals gs n s; ag_updates n bs s }"

lemma sg_updates_inv:
  "sg_inv p n s C \<Longrightarrow> (\<And>g. n \<le> g \<Longrightarrow> C g = []) \<Longrightarrow> list_all (batch_ok n) bs \<Longrightarrow>
     \<exists>s'. sg_updates n bs s = Some s' \<and> sg_inv p n s' (\<lambda>g. C g @ seen bs g)"
proof (induction bs arbitrary: s C)
  case (Cons b bs)
  obtain vals gs where b: "b = (vals, gs)" by (cases b)
  let ?C = "\<lambda>g. C g @ rows_of gs (arr_iter vals) g"
  from Cons.prems(3) have ok: "list_all (\<lambda>g. g < n) gs" "arr_wf (length gs) vals" by (simp_all add: b batch_ok_def)
  with sg_update_batch_inv [OF Cons.prems(1) order_refl Cons.prems(2)] obtain s1 where
    s1: "sg_update_batch vals gs None n s = Some s1" "sg_inv p n s1 ?C" by blast
  have "?C g = []" if "n \<le> g" for g using that Cons.prems(2) rows_of_above [OF ok(1) that] by simp
  from Cons.IH [OF s1(2) this] Cons.prems(3) s1(1) show ?case by (simp add: b)
qed simp

lemma ag_updates_inv:
  "ag_inv p n s C \<Longrightarrow> (\<And>g. n \<le> g \<Longrightarrow> C g = []) \<Longrightarrow> list_all (batch_ok n) bs \<Longrightarrow>
     (\<And>g. g < n \<Longrightarrow> length (C g @ seen bs g) < 2 ^ 63) \<Longrightarrow>
     \<exists>s'. ag_updates n bs s = Some s' \<and> ag_inv p n s' (\<lambda>g. C g @ seen bs g) \<and> ag_config s' = ag_config s"
proof (induction bs arbitrary: s C)
  case (Cons b bs)
  obtain vals gs where b: "b = (vals, gs)" by (cases b)
  let ?C = "\<lambda>g. C g @ rows_of gs (arr_iter vals) g"
  from Cons.prems(3) have ok: "list_all (\<lambda>g. g < n) gs" "arr_wf (length gs) vals" by (simp_all add: b batch_ok_def)
  have room: "length (?C g) < 2 ^ 63" if "g < n" for g using Cons.prems(4) [OF that] by (simp add: b)
  from ag_update_batch_inv [OF Cons.prems(1) order_refl Cons.prems(2) ok room] obtain s1 where
    s1: "ag_update_batch vals gs n s = Some s1" "ag_inv p n s1 ?C" by blast
  have "?C g = []" if "n \<le> g" for g using that Cons.prems(2) rows_of_above [OF ok(1) that] by simp
  from Cons.IH [OF s1(2) this] Cons.prems(3,4) s1(1) ag_update_batch_config [OF s1(1)] show ?case by (simp add: b)
qed simp

text \<open>Two stages: every partial aggregation has its own groups, batches, and the final group of each of its groups.\<close>

definition partial_sums :: "(emit_to \<Rightarrow> int list \<Rightarrow> int list \<times> int list) \<Rightarrow> nat \<Rightarrow> nat \<Rightarrow> (int arr \<times> nat list) list \<Rightarrow> (int arr \<times> bool arr) option" where
  "partial_sums tn p m batches = do {
     s \<leftarrow> sg_updates m batches (sg_new p);
     (st, s) \<leftarrow> sg_state tn EmitAll s;
     Some st
   }"

fun merge_partials :: "(emit_to \<Rightarrow> int list \<Rightarrow> int list \<times> int list) \<Rightarrow> nat \<Rightarrow> nat \<Rightarrow> (nat \<times> (int arr \<times> nat list) list \<times> nat list) list \<Rightarrow>
    sum_groups \<Rightarrow> sum_groups option" where
  "merge_partials tn p n [] s = Some s"
| "merge_partials tn p n ((m, batches, gs) # parts) s = do {
     (sums, empties) \<leftarrow> partial_sums tn p m batches;
     s \<leftarrow> sg_merge_batch sums empties gs None n s;
     merge_partials tn p n parts s
   }"

definition two_stage_sum :: "(emit_to \<Rightarrow> int list \<Rightarrow> int list \<times> int list) \<Rightarrow> nat \<Rightarrow> nat \<Rightarrow> (nat \<times> (int arr \<times> nat list) list \<times> nat list) list \<Rightarrow>
    int option list option" where
  "two_stage_sum tn p n parts = do {
     s \<leftarrow> merge_partials tn p n parts (sg_new p);
     (a, s) \<leftarrow> sg_evaluate tn EmitAll s;
     Some (arr_iter a)
   }"

definition group_parts :: "(nat \<times> (int arr \<times> nat list) list \<times> nat list) list \<Rightarrow> nat \<Rightarrow> int list list" where
  "group_parts parts g = concat (map (\<lambda>(m, batches, gs). parts_of gs (map (seen batches) [0..<m]) g) parts)"

definition part_ok :: "nat \<Rightarrow> nat \<times> (int arr \<times> nat list) list \<times> nat list \<Rightarrow> bool" where
  "part_ok n part \<longleftrightarrow> (case part of (m, batches, gs) \<Rightarrow> list_all (batch_ok m) batches \<and> length gs = m \<and> list_all (\<lambda>g. g < n) gs)"

lemma sg_new_inv: "p \<le> 38 \<Longrightarrow> sg_inv p 0 (sg_new p) (\<lambda>_. [])" "p \<le> 38 \<Longrightarrow> sm_inv p 0 (sg_new p) (\<lambda>_. [])"
  by (simp_all add: sg_inv_def sm_inv_def sg_new_def)

text \<open>The first batch makes the groups; an empty list of batches leaves none.\<close>

lemma sg_updates_new:
  assumes "p \<le> 38" and "list_all (batch_ok m) batches" and "batches \<noteq> []"
  shows "\<exists>s. sg_updates m batches (sg_new p) = Some s \<and> sg_inv p m s (seen batches)"
proof -
  obtain vals gs bs where bs: "batches = (vals, gs) # bs" using assms(3) by (metis list.exhaust prod.exhaust)
  from assms(2) have ok: "list_all (\<lambda>g. g < m) gs" "arr_wf (length gs) vals" by (simp_all add: bs batch_ok_def)
  from sg_update_batch_inv [OF sg_new_inv(1) [OF assms(1)] _ _ ok] obtain s1 where
    s1: "sg_update_batch vals gs None m (sg_new p) = Some s1" "sg_inv p m s1 (rows_of gs (arr_iter vals))" by auto
  have "seen batches = (\<lambda>g. rows_of gs (arr_iter vals) g @ seen bs g)" by (rule ext) (simp add: bs)
  with sg_updates_inv [OF s1(2) rows_of_above [OF ok(1)]] assms(2) s1(1) show ?thesis by (simp add: bs)
qed

lemma partial_sums_state:
  assumes "take_needed_law tn" and "p \<le> 38" and "list_all (batch_ok m) batches" and "batches \<noteq> []"
  shows "\<exists>sums empties. partial_sums tn p m batches = Some (sums, empties) \<and> state_of p (map (seen batches) [0..<m]) sums empties"
proof -
  from sg_updates_new [OF assms(2-4)] obtain s where s: "sg_updates m batches (sg_new p) = Some s" "sg_inv p m s (seen batches)" by blast
  from sg_state_all [OF assms(1) s(2)] s(1) show ?thesis by (auto simp: partial_sums_def)
qed

lemma merge_partials_inv:
  assumes "take_needed_law tn" and "p \<le> 38"
  shows "sm_inv p k s D \<Longrightarrow> k \<le> n \<Longrightarrow> (\<And>g. k \<le> g \<Longrightarrow> D g = []) \<Longrightarrow> parts \<noteq> [] \<Longrightarrow>
    list_all (\<lambda>(m, batches, gs). batches \<noteq> [] \<and> part_ok n (m, batches, gs)) parts \<Longrightarrow>
    (\<And>g. g < n \<Longrightarrow> parts_fit p (D g @ group_parts parts g)) \<Longrightarrow>
    \<exists>s'. merge_partials tn p n parts s = Some s' \<and> sm_inv p n s' (\<lambda>g. D g @ group_parts parts g)"
proof (induction parts arbitrary: k s D)
  case (Cons part parts)
  obtain m batches gs where part: "part = (m, batches, gs)" by (cases part)
  let ?Cs = "map (seen batches) [0..<m]"
  let ?D = "\<lambda>g. D g @ parts_of gs ?Cs g"
  have ok: "list_all (batch_ok m) batches" "batches \<noteq> []" "length gs = length ?Cs" "list_all (\<lambda>g. g < n) gs"
    using Cons.prems(5) by (simp_all add: part part_ok_def)
  from partial_sums_state [OF assms ok(1,2)] obtain sums empties where
    st: "partial_sums tn p m batches = Some (sums, empties)" "state_of p ?Cs sums empties" by blast
  have split: "group_parts (part # parts) g = parts_of gs ?Cs g @ group_parts parts g" for g by (simp add: group_parts_def part)
  have fit: "parts_fit p (?D g)" if "g < n" for g
  proof -
    have "parts_fit p (?D g @ group_parts parts g)" using Cons.prems(6) [OF that] by (simp add: split)
    then show ?thesis by (rule parts_fit_prefix)
  qed
  from sg_merge_batch_inv [OF Cons.prems(1-3) st(2) ok(4,3) fit] obtain s1 where
    s1: "sg_merge_batch sums empties gs None n s = Some s1" "sm_inv p n s1 ?D" by blast
  have above: "?D g = []" if "n \<le> g" for g
    using that ok(4) Cons.prems(2,3) by (auto simp: parts_of_def list_all_iff dest!: set_zip_leftD)
  show ?case
  proof (cases "parts = []")
    case True
    then show ?thesis using st(1) s1 by (simp add: part split group_parts_def)
  next
    case False
    have "\<exists>s'. merge_partials tn p n parts s1 = Some s' \<and> sm_inv p n s' (\<lambda>g. ?D g @ group_parts parts g)"
      by (rule Cons.IH [OF s1(2) order_refl above False]) (use Cons.prems(5,6) in \<open>simp_all add: split\<close>)
    then show ?thesis using st(1) s1(1) by (simp add: part split [unfolded part])
  qed
qed simp

text \<open>An instance of the parameter.\<close>

definition take_first :: "emit_to \<Rightarrow> int list \<Rightarrow> int list \<times> int list" where
  "take_first emit vs = (case emit of EmitAll \<Rightarrow> (vs, []) | EmitFirst n \<Rightarrow> (take n vs, drop n vs))"

lemma take_first_law: "take_needed_law take_first"
  by (simp add: take_needed_law_def take_first_def)

subsection \<open>Properties\<close>

text \<open>
  C5. Two-stage decimal sums are exact: whatever the batches, nulls and groups of the partial aggregations and
  whichever final group each of their groups goes to, the result of a final group is the exact sum of all its
  rows, or null when it has no row that is not null, when a sum inside a partial aggregation left the precision, or
  when the total does. Nothing panics, as long as no sum of partial sums leaves 128 bits.
\<close>

theorem decimal_sum_exact:
  assumes "take_needed_law tn" and "p \<le> 38" and "parts \<noteq> []"
    and "list_all (\<lambda>(m, batches, gs). batches \<noteq> [] \<and> part_ok n (m, batches, gs)) parts"
    and "\<forall>g < n. parts_fit p (group_parts parts g)"
  shows "two_stage_sum tn p n parts = Some (map (\<lambda>g. merged_result p (group_parts parts g)) [0..<n])"
proof -
  have "\<exists>s. merge_partials tn p n parts (sg_new p) = Some s \<and> sm_inv p n s (\<lambda>g. [] @ group_parts parts g)"
    by (rule merge_partials_inv [OF assms(1,2) sg_new_inv(2) [OF assms(2)]]) (use assms(3-5) in simp_all)
  then obtain s where s: "merge_partials tn p n parts (sg_new p) = Some s" "sm_inv p n s (group_parts parts)" by auto
  from sm_evaluate_all [OF assms(1) s(2)] s(1) show ?thesis by (auto simp: two_stage_sum_def)
qed

theorem decimal_sum_exact_witness:
  "two_stage_sum take_first 2 2
     [(2, [(\<lparr>arr_values = [50, 7, 40], arr_validity = Some [True, False, True]\<rparr>, [0, 1, 1])], [0, 1]),
      (1, [(\<lparr>arr_values = [60], arr_validity = None\<rparr>, [0])], [1])] = Some [Some 50, None]"
proof -
  let ?parts = "[(2, [(\<lparr>arr_values = [50, 7, 40], arr_validity = Some [True, False, True]\<rparr>, [0, 1, 1])], [0, 1]),
      (1, [(\<lparr>arr_values = [60], arr_validity = None\<rparr>, [0])], [1])] :: (nat \<times> (int arr \<times> nat list) list \<times> nat list) list"
  have "list_all (\<lambda>(m, batches, gs). batches \<noteq> [] \<and> part_ok 2 (m, batches, gs)) ?parts" by code_simp
  moreover have g: "group_parts ?parts 0 = [[50]]" "group_parts ?parts (Suc 0) = [[40], [60]]" by code_simp+
  have "parts_fit 2 [[50]]" "parts_fit 2 [[40], [60]]" by (simp_all add: parts_fit_def fits_int_def le_Suc_eq all_conj_distrib)
  then have "\<forall>g < 2. parts_fit 2 (group_parts ?parts g)" using g by (auto simp: less_2_cases_iff)
  ultimately have "two_stage_sum take_first 2 2 ?parts = Some (map (\<lambda>g. merged_result 2 (group_parts ?parts g)) [0..<2])"
    by (intro decimal_sum_exact [OF take_first_law]) simp_all
  moreover have "merged_result 2 [[50]] = Some 50" "merged_result 2 [[40], [60]] = None"
    by (simp_all add: merged_result_def in_range_def is_valid_decimal_precision_def max_decimal_def le_Suc_eq all_conj_distrib)
  ultimately show ?thesis using g by (simp add: upt_rec)
qed

text \<open>
  C6. Decimal averages are rounded half up: after any batches the grouped accumulator gives for every group the
  sum of its rows, brought to the scale of the result and divided by their number, rounded to the nearest decimal
  with halves away from zero; it is null when the group is empty, when a sum on the way or the scaled sum does
  not fit, or when the result exceeds the precision.
\<close>

theorem decimal_average_rounds:
  assumes "take_needed_law tn" and "p \<le> 38" and "q \<le> 38" and "batches \<noteq> []" and "list_all (batch_ok n) batches"
    and "\<forall>g < n. length (seen batches g) < 2 ^ 63" and "i128_pow10 (saturating_i8 (ts - ss)) = Some scaler"
  shows "\<exists>s s'. ag_updates n batches (ag_new q ts p ss) = Some s \<and>
    ag_evaluate tn EmitAll s = Some (map (\<lambda>g. avg_result p q scaler (seen batches g)) [0..<n], s')"
proof -
  obtain vals gs bs where bs: "batches = (vals, gs) # bs" using assms(4) by (metis list.exhaust prod.exhaust)
  from assms(5) have ok: "list_all (\<lambda>g. g < n) gs" "arr_wf (length gs) vals" by (simp_all add: bs batch_ok_def)
  have new: "ag_inv p 0 (ag_new q ts p ss) (\<lambda>_. [])" using assms(2) by (simp add: ag_inv_def ag_new_def)
  have room: "length ([] @ rows_of gs (arr_iter vals) g) < 2 ^ 63" if "g < n" for g
    using assms(6) that by (auto simp: bs intro: le_less_trans [OF le_add1])
  from ag_update_batch_inv [OF new _ _ ok room] obtain s1 where
    s1: "ag_update_batch vals gs n (ag_new q ts p ss) = Some s1" "ag_inv p n s1 (rows_of gs (arr_iter vals))" by auto
  have "\<exists>s. ag_updates n bs s1 = Some s \<and> ag_inv p n s (\<lambda>g. rows_of gs (arr_iter vals) g @ seen bs g) \<and> ag_config s = ag_config s1"
    by (rule ag_updates_inv [OF s1(2) rows_of_above [OF ok(1)]]) (use assms(5,6) in \<open>simp_all add: bs\<close>)
  moreover have "seen batches = (\<lambda>g. rows_of gs (arr_iter vals) g @ seen bs g)" by (rule ext) (simp add: bs)
  ultimately obtain s where s: "ag_updates n bs s1 = Some s" "ag_inv p n s (seen batches)" "ag_config s = ag_config s1" by auto
  have cfg: "ag_config s = (q, ts, ss)" using s(3) ag_update_batch_config [OF s1(1)] by (simp add: ag_config_def ag_new_def)
  from ag_evaluate_all [OF assms(1) s(2) cfg assms(3,7)] assms(6) s(1) s1(1) show ?thesis by (auto simp: bs)
qed

theorem decimal_average_rounds_witness:
  "\<exists>s s'. ag_updates 1 [(\<lparr>arr_values = [1, - 2, - 4], arr_validity = None\<rparr>, [0, 0, 0])] (ag_new 10 1 20 0) = Some s \<and>
    ag_evaluate take_first EmitAll s = Some ([Some (- 17)], s')"
proof -
  let ?batches = "[(\<lparr>arr_values = [1, - 2, - 4], arr_validity = None\<rparr>, [0, 0, 0])] :: (int arr \<times> nat list) list"
  have "list_all (batch_ok 1) ?batches" by code_simp
  moreover have "seen ?batches 0 = [1, - 2, - 4]" by code_simp
  moreover have "i128_pow10 (saturating_i8 (1 - 0)) = Some 10"
    by (simp add: i128_pow10_def saturating_i8_def ensure_def fits_int_def)
  moreover have "avg_result 20 10 10 [1, - 2, - 4] = Some (- 17)"
    by (simp add: avg_result_def in_range_def is_valid_decimal_precision_def max_decimal_def le_Suc_eq all_conj_distrib fits_int_def round_half_up_def)
  ultimately show ?thesis
    using decimal_average_rounds [OF take_first_law, of 20 10 ?batches 1 1 0 10] by simp
qed


end
