(* ===== verification/Spark_Math_Spec.thy ===== *)
theory Spark_Math_Spec
  imports Spark_Math Decimal_Aggregates_Spec
begin

text \<open>
  What the arithmetic of \<open>Spark_Math\<close> computes: integer arithmetic is exact or an error or null for exactly the rows
  that overflow, decimal division and rounding give the exact value rounded half away from zero. The laws of the
  library functions are the definitions named \<open>law\<close>; \<open>rust_arrow\<close> shows that they can hold together.
\<close>

subsection \<open>Laws of the libraries\<close>

text \<open>The checked operations of the integer types.\<close>

definition int_op :: "string \<Rightarrow> int \<Rightarrow> int \<Rightarrow> int" where
  "int_op op x y = (if op = ''checked_add'' then x + y else if op = ''checked_sub'' then x - y
     else if op = ''checked_mul'' then x * y else tdiv x y)"

definition arith_ops :: "string list" where
  "arith_ops = [''checked_add'', ''checked_sub'', ''checked_mul'', ''checked_div'']"

definition exact_op :: "nat \<Rightarrow> string \<Rightarrow> int \<Rightarrow> int \<Rightarrow> math_error + int" where
  "exact_op n op x y =
     (if op = ''checked_div'' \<and> y = 0 then Inl DivideByZero
      else if fits_int True n (int_op op x y) then Inr (int_op op x y)
      else Inl (ArithmeticOverflow ''integer''))"

definition right_of :: "'e + 'a \<Rightarrow> 'a option" where
  "right_of r = (case r of Inl _ \<Rightarrow> None | Inr x \<Rightarrow> Some x)"

definition native_law :: "arrow_fns \<Rightarrow> bool" where
  "native_law A \<longleftrightarrow> (\<forall>ty n. int_width ty = Some n \<longrightarrow> (\<forall>x y.
     add_checked A ty x y = right_of (exact_op n ''checked_add'' x y) \<and>
     sub_checked A ty x y = right_of (exact_op n ''checked_sub'' x y) \<and>
     mul_checked A ty x y = right_of (exact_op n ''checked_mul'' x y) \<and>
     div_checked A ty x y = right_of (exact_op n ''checked_div'' x y) \<and>
     (is_zero A ty x \<longleftrightarrow> x = 0)))"

definition to_array_law :: "arrow_fns \<Rightarrow> bool" where
  "to_array_law A \<longleftrightarrow> (\<forall>v n. arr_wf n (to_array_of_size A v n) \<and> arr_iter (to_array_of_size A v n) = replicate n v \<and>
     arr_values (to_array_of_size A v n) = replicate n (case v of None \<Rightarrow> 0 | Some x \<Rightarrow> x))"

subsection \<open>Checked arithmetic\<close>

text \<open>The outcome of one row, and of all rows: the first error, or null for every error.\<close>

definition row_result :: "(int \<Rightarrow> int \<Rightarrow> math_error + int) \<Rightarrow> int option \<Rightarrow> int option \<Rightarrow> math_error + int option" where
  "row_result f x y = (case (x, y) of (Some x, Some y) \<Rightarrow> map_sum id Some (f x y) | _ \<Rightarrow> Inr None)"

fun first_error :: "('e + 'a) list \<Rightarrow> 'e + 'a list" where
  "first_error [] = Inr []"
| "first_error (Inl e # rs) = Inl e"
| "first_error (Inr x # rs) = map_sum id (Cons x) (first_error rs)"

definition null_errors :: "('e + 'a option) list \<Rightarrow> 'a option list" where
  "null_errors rs = map (\<lambda>r. case r of Inl _ \<Rightarrow> None | Inr c \<Rightarrow> c) rs"

definition rows_result :: "bool \<Rightarrow> ('e + 'a option) list \<Rightarrow> 'e + 'a option list" where
  "rows_result ansi rs = (if ansi then first_error rs else Inr (null_errors rs))"

lemma and_then_Cons: "and_then (Some r) (\<lambda>cs. Some (Inr (c # cs))) = Some (map_sum id (Cons c) r)"
  by (cases r) simp_all

lemma arr_access:
  assumes "arr_wf n a" and "i < n"
  shows "arr_is_null a i = Some (arr_get a i = None)" and "index (arr_values a) i = Some (arr_values a ! i)"
    and "arr_get a i \<noteq> None \<Longrightarrow> arr_get a i = Some (arr_values a ! i)"
  using assms by (auto simp: arr_wf_def arr_is_null_def arr_get_def index_Some split: option.splits)

lemma arithmetic_loop_spec:
  assumes "arr_wf n l" and "arr_wf n r" and "list_all (\<lambda>i. i < n) is"
    and f: "\<And>x y. g x y = right_of (f x y)" "\<And>x y e. f x y = Inl e \<Longrightarrow> e = err y"
  shows "arithmetic_loop g err ansi l r is =
    Some (rows_result ansi (map (\<lambda>i. row_result f (arr_get l i) (arr_get r i)) is))"
  using assms(3)
proof (induction "is")
  case Nil
  show ?case by (simp add: rows_result_def null_errors_def)
next
  case (Cons i "is")
  then have i: "i < n" by simp
  note n = arr_access(1) [OF assms(1) i] arr_access(1) [OF assms(2) i]
  note v = arr_access(2) [OF assms(1) i] arr_access(2) [OF assms(2) i]
  have IH: "arithmetic_loop g err ansi l r is = Some (rows_result ansi (map (\<lambda>i. row_result f (arr_get l i) (arr_get r i)) is))"
    using Cons by simp
  show ?case
  proof (cases "arr_get l i = None \<or> arr_get r i = None")
    case True
    then have "row_result f (arr_get l i) (arr_get r i) = Inr None" by (auto simp: row_result_def split: option.splits)
    then show ?thesis using True IH n
      by (cases "arr_get l i") (simp_all add: and_then_Cons rows_result_def null_errors_def)
  next
    case False
    then have cell: "arr_get l i = Some (arr_values l ! i)" "arr_get r i = Some (arr_values r ! i)"
      using arr_access(3) [OF assms(1) i] arr_access(3) [OF assms(2) i] by auto
    then have nn: "arr_is_null l i = Some False" "arr_is_null r i = Some False" using n by simp_all
    show ?thesis
    proof (cases "f (arr_values l ! i) (arr_values r ! i)")
      case (Inl e)
      with f(2) have "err (arr_values r ! i) = e" by metis
      moreover have "row_result f (arr_get l i) (arr_get r i) = Inl e" using cell Inl by (simp add: row_result_def)
      moreover have "g (arr_values l ! i) (arr_values r ! i) = None" using Inl by (simp add: f(1) right_of_def)
      ultimately show ?thesis using IH nn v
        by (cases ansi) (simp_all add: and_then_Cons rows_result_def null_errors_def)
    next
      case (Inr v)
      then have "row_result f (arr_get l i) (arr_get r i) = Inr (Some v)" using cell by (simp add: row_result_def)
      moreover have "g (arr_values l ! i) (arr_values r ! i) = Some v" using Inr by (simp add: f(1) right_of_def)
      ultimately show ?thesis using IH nn v
        by (cases ansi) (simp_all add: and_then_Cons rows_result_def null_errors_def)
    qed
  qed
qed

text \<open>An argument of type \<open>ty\<close> for \<open>m\<close> rows, and its cells.\<close>

fun arg_ok :: "nat \<Rightarrow> data_type \<Rightarrow> columnar_value \<Rightarrow> bool" where
  "arg_ok m ty (Array t a) \<longleftrightarrow> t = ty \<and> arr_wf m a"
| "arg_ok m ty (Scalar t v) \<longleftrightarrow> t = ty"

fun arg_cells :: "nat \<Rightarrow> columnar_value \<Rightarrow> int option list" where
  "arg_cells m (Array t a) = arr_iter a"
| "arg_cells m (Scalar t v) = replicate m v"

fun is_scalar :: "columnar_value \<Rightarrow> bool" where
  "is_scalar (Array t a) = False"
| "is_scalar (Scalar t v) = True"

definition args_ok :: "nat \<Rightarrow> data_type \<Rightarrow> data_type \<Rightarrow> columnar_value \<Rightarrow> columnar_value \<Rightarrow> bool" where
  "args_ok m t1 t2 l r \<longleftrightarrow> arg_ok m t1 l \<and> arg_ok m t2 r \<and> (if is_scalar l \<and> is_scalar r then m = 1 else True)"

lemma arr_iter_finish [simp]: "arr_iter (finish_builder cs) = cs"
  by (rule nth_equalityI) (auto simp: arr_iter_def arr_get_def finish_builder_def)

lemma arr_iter_wf: "arr_wf n a \<Longrightarrow> length (arr_iter a) = n" "arr_wf n a \<Longrightarrow> arr_iter a = map (arr_get a) [0..<n]"
  by (simp_all add: arr_iter_def arr_wf_def)

lemma both_arrays_spec:
  assumes "to_array_law A" and "args_ok m t1 t2 l r"
  obtains la ra where "both_arrays A l r = ((t1, la), (t2, ra))" "arr_wf m la" "arr_wf m ra"
    "arr_iter la = arg_cells m l" "arr_iter ra = arg_cells m r"
  using assms by (cases l; cases r) (auto simp: both_arrays_def args_ok_def to_array_law_def arr_wf_def)

lemma map2_upt: "map2 f (map g [0..<n]) (map h [0..<n]) = map (\<lambda>i. f (g i) (h i)) [0..<n]"
  by (simp add: zip_map_map flip: map_map zip_same_conv_map) (simp add: zip_same_conv_map)

lemma kernel_spec:
  assumes "native_law A" and "int_width ty = Some n" and "op \<in> set arith_ops" and "arr_wf m l" and "arr_wf m r"
  shows "try_arithmetic_kernel A ty l r op ansi =
    Some (map_sum id finish_builder (rows_result ansi (map2 (row_result (exact_op n op)) (arr_iter l) (arr_iter r))))"
proof -
  have run: "and_then (arithmetic_loop g err ansi l r [0..<length (arr_values l)]) (\<lambda>cs. Some (Inr (finish_builder cs))) =
      Some (map_sum id finish_builder (rows_result ansi (map2 (row_result (exact_op n op)) (arr_iter l) (arr_iter r))))"
    if "\<And>x y. g x y = right_of (exact_op n op x y)" "\<And>x y e. exact_op n op x y = Inl e \<Longrightarrow> e = err y" for g err
  proof -
    have "length (arr_values l) = m" using assms(4) by (simp add: arr_wf_def)
    then have "arithmetic_loop g err ansi l r [0..<length (arr_values l)] =
        Some (rows_result ansi (map2 (row_result (exact_op n op)) (arr_iter l) (arr_iter r)))"
      using arithmetic_loop_spec [OF assms(4,5) _ that, of "[0..<m]"] assms(4,5)
      by (simp add: list_all_iff arr_iter_wf(2) map2_upt)
    then show ?thesis by (cases "rows_result ansi (map2 (row_result (exact_op n op)) (arr_iter l) (arr_iter r))") simp_all
  qed
  note law = assms(1) [unfolded native_law_def, rule_format, OF assms(2)]
  have ov: "exact_op n op x y = Inl e \<Longrightarrow> op \<noteq> ''checked_div'' \<Longrightarrow> e = ArithmeticOverflow ''integer''" for x y e
    by (simp add: exact_op_def split: if_splits)
  have dv: "exact_op n ''checked_div'' x y = Inl e \<Longrightarrow> e = (if is_zero A ty y then DivideByZero else ArithmeticOverflow ''integer'')" for x y e
    using law [of y y] by (simp add: exact_op_def split: if_splits)
  from assms(3) consider "op = ''checked_add''" | "op = ''checked_sub''" | "op = ''checked_mul''" | "op = ''checked_div''"
    by (auto simp: arith_ops_def)
  then show ?thesis
  proof cases
    case 1
    with run [of "add_checked A ty" "\<lambda>_. ArithmeticOverflow ''integer''"] law ov show ?thesis
      by (simp add: try_arithmetic_kernel_def)
  next
    case 2
    with run [of "sub_checked A ty" "\<lambda>_. ArithmeticOverflow ''integer''"] law ov show ?thesis
      by (simp add: try_arithmetic_kernel_def)
  next
    case 3
    with run [of "mul_checked A ty" "\<lambda>_. ArithmeticOverflow ''integer''"] law ov show ?thesis
      by (simp add: try_arithmetic_kernel_def)
  next
    case 4
    with run [of "div_checked A ty" "\<lambda>y. if is_zero A ty y then DivideByZero else ArithmeticOverflow ''integer''"] law dv
    show ?thesis by (simp add: try_arithmetic_kernel_def)
  qed
qed

subsection \<open>Truncating division and rounding\<close>

lemma tdiv_sgn: "b \<noteq> 0 \<Longrightarrow> tdiv a b = sgn a * sgn b * (\<bar>a\<bar> div \<bar>b\<bar>)"
  by (auto simp: tdiv_def sgn_if)

lemma tdiv_mult: "0 < c \<Longrightarrow> b \<noteq> 0 \<Longrightarrow> tdiv (a * c) (b * c) = tdiv a b"
  by (simp add: tdiv_sgn abs_mult sgn_mult div_mult_mult2)

lemma tdiv_signed: "0 \<le> k \<Longrightarrow> 0 < c \<Longrightarrow> s = 1 \<or> s = - 1 \<Longrightarrow> tdiv (s * k) c = s * (k div c)"
  by (auto simp: tdiv_def)

lemma sgn_product: "a \<noteq> 0 \<Longrightarrow> b \<noteq> 0 \<Longrightarrow> sgn a * sgn b = 1 \<or> sgn a * sgn b = - (1 :: int)"
  by (auto simp: sgn_if)

lemma tdiv_nested:
  fixes a b c :: int
  assumes "b \<noteq> 0" and "0 < c"
  shows "tdiv (tdiv a b) c = tdiv a (b * c)"
proof (cases "a = 0")
  case True
  then show ?thesis by (simp add: tdiv_def)
next
  case False
  have "\<bar>a\<bar> div \<bar>b\<bar> div c = \<bar>a\<bar> div (\<bar>b\<bar> * c)" using assms by (simp add: zdiv_zmult2_eq)
  moreover have "0 \<le> \<bar>a\<bar> div \<bar>b\<bar>" using assms by (simp add: pos_imp_zdiv_nonneg_iff)
  ultimately have "tdiv (sgn a * sgn b * (\<bar>a\<bar> div \<bar>b\<bar>)) c = sgn a * sgn b * (\<bar>a\<bar> div (\<bar>b\<bar> * c))"
    using tdiv_signed [OF _ assms(2) sgn_product [OF False assms(1)]] by simp
  then show ?thesis using assms by (simp add: tdiv_sgn [of b] tdiv_sgn [of "b * c"] abs_mult sgn_mult)
qed

text \<open>Adding half of ten before dropping the last digit rounds the quotient with one digit more.\<close>

lemma half_of_ten:
  fixes n e :: int
  assumes "0 < e"
  shows "(10 * n div e + 5) div 10 = (2 * n + e) div (2 * e)"
proof -
  have "10 * n div e + 5 = (10 * n + e * 5) div e" using assms by simp
  then have "(10 * n div e + 5) div 10 = (10 * n + e * 5) div e div 10" by simp
  also have "\<dots> = (10 * n + e * 5) div (e * 10)" by (simp add: zdiv_zmult2_eq)
  also have "\<dots> = (5 * (2 * n + e)) div (5 * (2 * e))" by (simp add: algebra_simps)
  also have "\<dots> = (2 * n + e) div (2 * e)" by (rule div_mult_mult1) simp
  finally show ?thesis .
qed

lemma rounded_quotient:
  fixes N D :: int
  assumes "D \<noteq> 0"
  defines "q \<equiv> tdiv (10 * N) D"
  shows "tdiv (if q < 0 then q - 5 else q + 5) 10 = round_half_up (N * sgn D) \<bar>D\<bar>"
proof -
  define k where "k = 10 * \<bar>N\<bar> div \<bar>D\<bar>"
  have k: "0 \<le> k" using assms by (simp add: k_def pos_imp_zdiv_nonneg_iff)
  have h: "(k + 5) div 10 = (2 * \<bar>N\<bar> + \<bar>D\<bar>) div (2 * \<bar>D\<bar>)"
    using half_of_ten [of "\<bar>D\<bar>" "\<bar>N\<bar>"] assms(1) by (simp add: k_def)
  have q: "q = sgn N * sgn D * k" using assms by (simp add: q_def tdiv_sgn sgn_mult abs_mult k_def)
  have r: "round_half_up (N * sgn D) \<bar>D\<bar> = sgn N * sgn D * ((k + 5) div 10)"
    using assms(1) h by (simp add: round_half_up_def sgn_mult abs_mult)
  consider "N = 0" | "sgn N * sgn D = 1" | "sgn N * sgn D = - 1" using sgn_product [of N D] assms(1) by blast
  then show ?thesis
  proof cases
    case 1 then show ?thesis using q r by (simp add: tdiv_def)
  next
    case 2 then show ?thesis using q r k by (simp add: tdiv_def)
  next
    case 3
    then show ?thesis using q r k by (cases "k = 0") (simp_all add: tdiv_def add.commute)
  qed
qed

subsection \<open>Decimal division\<close>

text \<open>The quotient of \<open>l\<close> with scale \<open>s1\<close> and \<open>r\<close> with scale \<open>s2\<close>, at scale \<open>s3\<close>.\<close>

definition exact_quotient :: "bool \<Rightarrow> int \<Rightarrow> int \<Rightarrow> int \<Rightarrow> int \<Rightarrow> int \<Rightarrow> int" where
  "exact_quotient is_integral_div s1 s2 s3 l r =
     (if r = 0 then 0
      else let N = l * 10 ^ nat (s2 + s3); D = r * 10 ^ nat s1 in
           if is_integral_div then tdiv N D else round_half_up (N * sgn D) \<bar>D\<bar>)"

definition clamp_i128 :: "int \<Rightarrow> int" where
  "clamp_i128 v = (if fits_i128 v then v else 2 ^ 127 - 1)"

lemma as_u32_nonneg: "0 \<le> v \<Longrightarrow> v < 2 ^ 32 \<Longrightarrow> as_u32 v = nat v"
  by (simp add: as_u32_def)

text \<open>Both operands are brought to scales that leave one digit more than the result has.\<close>

lemma scaled_quotient:
  assumes "r \<noteq> 0" and "0 \<le> s1" and "0 \<le> s2 + s3"
  shows "tdiv (l * 10 ^ (nat (s2 + s3 + 1) - nat s1)) (r * 10 ^ (nat s1 - nat (s2 + s3 + 1))) =
    tdiv (10 * (l * 10 ^ nat (s2 + s3))) (r * 10 ^ nat s1)"
proof -
  let ?t = "nat (s2 + s3 + 1)" and ?s = "nat s1"
  have t: "(10 :: int) ^ ?t = 10 * 10 ^ nat (s2 + s3)" using assms(3) by (simp add: nat_add_distrib flip: power_Suc)
  have "?t - ?s + ?s = ?t + (?s - ?t)" by simp
  then have e: "(10 :: int) ^ (?t - ?s) * 10 ^ ?s = 10 ^ ?t * 10 ^ (?s - ?t)" by (simp only: flip: power_add)
  have "tdiv (l * 10 ^ (?t - ?s)) (r * 10 ^ (?s - ?t)) =
      tdiv (l * 10 ^ (?t - ?s) * 10 ^ ?s) (r * 10 ^ (?s - ?t) * 10 ^ ?s)" using assms(1) by (simp add: tdiv_mult)
  also have "\<dots> = tdiv (10 * (l * 10 ^ nat (s2 + s3)) * 10 ^ (?s - ?t)) (r * 10 ^ ?s * 10 ^ (?s - ?t))"
    using e t by (simp add: ac_simps)
  also have "\<dots> = tdiv (10 * (l * 10 ^ nat (s2 + s3))) (r * 10 ^ ?s)" using assms(1) by (simp add: tdiv_mult)
  finally show ?thesis .
qed

lemma quotient_digits:
  fixes l r :: int
  assumes "0 \<le> s1" and "0 \<le> s2 + s3"
  defines "q \<equiv> (if r * 10 ^ (nat s1 - nat (s2 + s3 + 1)) = 0 then 0
    else tdiv (l * 10 ^ (nat (s2 + s3 + 1) - nat s1)) (r * 10 ^ (nat s1 - nat (s2 + s3 + 1))))"
  shows "tdiv (if is_integral_div then q else if q < 0 then q - 5 else q + 5) 10 = exact_quotient is_integral_div s1 s2 s3 l r"
proof (cases "r = 0")
  case True
  then show ?thesis by (simp add: q_def exact_quotient_def tdiv_def)
next
  case False
  let ?N = "l * 10 ^ nat (s2 + s3)" and ?D = "r * 10 ^ nat s1"
  have D: "?D \<noteq> 0" using False by simp
  have q: "q = tdiv (10 * ?N) ?D" using False scaled_quotient [OF False assms(1,2)] by (simp add: q_def)
  show ?thesis
  proof (cases is_integral_div)
    case True
    have "tdiv q 10 = tdiv (10 * ?N) (?D * 10)" using D by (simp add: q tdiv_nested)
    also have "\<dots> = tdiv ?N ?D" using tdiv_mult [of 10 ?D ?N] D by (simp add: mult.commute)
    finally show ?thesis using True False by (simp add: exact_quotient_def)
  next
    case False
    then show ?thesis using rounded_quotient [OF D, of ?N, folded q] \<open>r \<noteq> 0\<close>
      by (simp only: exact_quotient_def Let_def if_False)
  qed
qed

lemma big_div_spec:
  assumes "0 \<le> s1" and "0 \<le> s2 + s3"
  shows "big_div is_integral_div (nat (s2 + s3 + 1) - nat s1) (nat s1 - nat (s2 + s3 + 1)) l r =
    Some (clamp_i128 (exact_quotient is_integral_div s1 s2 s3 l r))"
  using quotient_digits [OF assms, where l = l and r = r and is_integral_div = is_integral_div] by (simp only: big_div_def Let_def clamp_i128_def)

lemma small_fits: "\<bar>v\<bar> < 10 ^ 38 + 10 \<Longrightarrow> fits_i128 v"
  by (auto simp: fits_int_def)

lemma tdiv_le: "b \<noteq> 0 \<Longrightarrow> \<bar>tdiv a b\<bar> \<le> \<bar>a\<bar>"
proof -
  assume "b \<noteq> 0"
  then have b: "0 < \<bar>b\<bar>" by simp
  have "0 \<le> \<bar>a\<bar> div \<bar>b\<bar>" "\<bar>a\<bar> div \<bar>b\<bar> \<le> \<bar>a\<bar>" using div_bounds(1,2) [OF b] by simp_all
  then show ?thesis by (simp add: tdiv_def)
qed

lemma scaled_small:
  fixes v :: int
  assumes "\<bar>v\<bar> < 10 ^ p" and "p + e \<le> 38"
  shows "\<bar>v * 10 ^ e\<bar> < 10 ^ 38"
proof -
  have "\<bar>v * 10 ^ e\<bar> = \<bar>v\<bar> * 10 ^ e" by (simp add: abs_mult)
  also have "\<dots> < 10 ^ p * 10 ^ e" using assms(1) by simp
  also have "\<dots> = 10 ^ (p + e)" by (simp add: power_add)
  also have "\<dots> \<le> 10 ^ 38" by (rule power_increasing [OF assms(2)]) simp
  finally show ?thesis .
qed

lemma i128_div_spec:
  assumes "0 \<le> s1" and "0 \<le> s2 + s3" and "\<bar>l\<bar> < 10 ^ p1" and "\<bar>r\<bar> < 10 ^ p2"
    and "p1 + (nat (s2 + s3 + 1) - nat s1) \<le> 38" and "p2 + (nat s1 - nat (s2 + s3 + 1)) \<le> 38"
  shows "i128_div is_integral_div (10 ^ (nat (s2 + s3 + 1) - nat s1)) (10 ^ (nat s1 - nat (s2 + s3 + 1))) l r =
    Some (clamp_i128 (exact_quotient is_integral_div s1 s2 s3 l r))"
proof -
  let ?l = "l * 10 ^ (nat (s2 + s3 + 1) - nat s1)" and ?r = "r * 10 ^ (nat s1 - nat (s2 + s3 + 1))"
  define q where "q = (if ?r = 0 then 0 else tdiv ?l ?r)"
  define q' where "q' = (if is_integral_div then q else if q < 0 then q - 5 else q + 5)"
  have l: "\<bar>?l\<bar> < 10 ^ 38" and r: "\<bar>?r\<bar> < 10 ^ 38" using assms by (blast intro: scaled_small)+
  have q: "\<bar>q\<bar> < 10 ^ 38" using l tdiv_le [of ?r ?l] by (auto simp: q_def)
  then have q': "\<bar>q'\<bar> < 10 ^ 38 + 10" by (auto simp: q'_def)
  have res: "tdiv q' 10 = exact_quotient is_integral_div s1 s2 s3 l r"
    using quotient_digits [OF assms(1,2), where l = l and r = r and is_integral_div = is_integral_div] by (simp only: q'_def q_def)
  have "\<bar>tdiv q' 10\<bar> < 10 ^ 38 + 10" using q' tdiv_le [of 10 q'] by linarith
  then have c: "clamp_i128 (tdiv q' 10) = tdiv q' 10" by (simp add: clamp_i128_def small_fits)
  have "checked_i128 ?l = Some ?l" "checked_i128 ?r = Some ?r" using l r small_fits by (simp_all add: checked_i128_def)
  moreover have "(if ?r = 0 then Some 0 else checked_i128 (tdiv ?l ?r)) = Some q"
    using q small_fits by (simp add: checked_i128_def q_def split: if_splits)
  moreover have "(if is_integral_div then Some q else if q < 0 then checked_i128 (q - 5) else checked_i128 (q + 5)) = Some q'"
    using q' small_fits by (simp add: checked_i128_def q'_def split: if_splits)
  ultimately show ?thesis by (simp only: i128_div_def Option.bind.simps res [symmetric] c)
qed

text \<open>A closure over two arrays is called for every slot, null or not, and the result is null where one of them is.
  \<open>null_if_overflow_precision\<close> keeps the values that have at most \<open>p\<close> digits.\<close>

definition binary_law :: "arrow_fns \<Rightarrow> bool" where
  "binary_law A \<longleftrightarrow> (\<forall>f a b n. arr_wf n a \<and> arr_wf n b \<and> (\<forall>i < n. f (arr_values a ! i) (arr_values b ! i) \<noteq> None) \<longrightarrow>
     (\<exists>c. arity_binary A f a b = Some (Inr c) \<and> arr_wf n c \<and>
       arr_iter c = map2 (\<lambda>x y. case (x, y) of (Some x, Some y) \<Rightarrow> f x y | _ \<Rightarrow> None) (arr_iter a) (arr_iter b)))"

definition within :: "nat \<Rightarrow> int option \<Rightarrow> int option" where
  "within p c = (case c of Some v \<Rightarrow> if is_valid_decimal_precision v p then Some v else None | None \<Rightarrow> None)"

definition overflow_law :: "arrow_fns \<Rightarrow> bool" where
  "overflow_law A \<longleftrightarrow> (\<forall>a n p. arr_wf n a \<longrightarrow> arr_wf n (null_if_overflow_precision A a p) \<and>
     arr_iter (null_if_overflow_precision A a p) = map (within p) (arr_iter a))"

fun slots_within :: "nat \<Rightarrow> columnar_value \<Rightarrow> bool" where
  "slots_within p (Array t a) \<longleftrightarrow> list_all (\<lambda>v. \<bar>v\<bar> < 10 ^ p) (arr_values a)"
| "slots_within p (Scalar t v) \<longleftrightarrow> (case v of None \<Rightarrow> True | Some v \<Rightarrow> \<bar>v\<bar> < 10 ^ p)"

lemma both_arrays_within:
  assumes "to_array_law A" and "args_ok m t1 t2 l r" and "slots_within p1 l" and "slots_within p2 r"
    and "both_arrays A l r = ((t1, la), (t2, ra))"
  shows "list_all (\<lambda>v. \<bar>v\<bar> < 10 ^ p1) (arr_values la)" and "list_all (\<lambda>v. \<bar>v\<bar> < 10 ^ p2) (arr_values ra)"
  using assms by (cases l; cases r; auto simp: both_arrays_def to_array_law_def list_all_iff split: option.splits)+

lemma decimal_div_cells:
  assumes laws: "to_array_law A" "binary_law A"
    and args: "args_ok m (Decimal128 p1 s1) (Decimal128 p2 s2) l r" "slots_within p1 l" "slots_within p2 r"
    and scales: "0 \<le> s1" "s1 \<le> 127" "0 \<le> s2" "0 \<le> s3" "s2 + s3 + 1 \<le> 127"
  obtains a where "spark_decimal_div_internal A [l, r] (Decimal128 p3 s3) is_integral_div = Some (Inr (Array (Decimal128 p3 s3) a))"
    "arr_wf m a"
    "arr_iter a = map2 (\<lambda>x y. case (x, y) of (Some x, Some y) \<Rightarrow> Some (clamp_i128 (exact_quotient is_integral_div s1 s2 s3 x y))
       | _ \<Rightarrow> None) (arg_cells m l) (arg_cells m r)"
proof -
  obtain la ra where arrays: "both_arrays A l r = ((Decimal128 p1 s1, la), (Decimal128 p2 s2, ra))" "arr_wf m la" "arr_wf m ra"
    "arr_iter la = arg_cells m l" "arr_iter ra = arg_cells m r" by (rule both_arrays_spec [OF laws(1) args(1)])
  note small = both_arrays_within [OF laws(1) args arrays(1)]
  let ?le = "nat (s2 + s3 + 1) - nat s1" and ?re = "nat s1 - nat (s2 + s3 + 1)"
  have u: "as_u32 (s2 + s3 + 1) = nat (s2 + s3 + 1)" "as_u32 s1 = nat s1" using scales by (simp_all add: as_u32_nonneg)
  have e: "0 \<le> s2 + s3" "fits_int True 1 (s2 + s3)" "fits_int True 1 (s2 + s3 + 1)" using scales by (simp_all add: fits_int_def)
  define f where "f = (if p1 + ?le > 38 \<or> p2 + ?re > 38 then big_div is_integral_div ?le ?re
    else i128_div is_integral_div (10 ^ ?le) (10 ^ ?re))"
  have pow: "checked_pow10 16 k = Some (10 ^ k)" if "k \<le> 38" for k
  proof -
    have "(10 :: int) ^ k \<le> 10 ^ 38" by (rule power_increasing [OF that]) simp
    then show ?thesis using small_fits [of "10 ^ k"] by (simp add: checked_pow10_def)
  qed
  have f: "f x y = Some (clamp_i128 (exact_quotient is_integral_div s1 s2 s3 x y))" if "\<bar>x\<bar> < 10 ^ p1" "\<bar>y\<bar> < 10 ^ p2" for x y
    using big_div_spec [OF scales(1) e(1)] i128_div_spec [OF scales(1) e(1) that] by (simp add: f_def)
  have run: "spark_decimal_div_internal A [l, r] (Decimal128 p3 s3) is_integral_div =
      arity_binary A f la ra \<bind> (\<lambda>result. and_then (Some result) (\<lambda>a. Some (Inr (Array (Decimal128 p3 s3) a))))"
  proof (cases "p1 + ?le > 38 \<or> p2 + ?re > 38")
    case True
    then show ?thesis using e by (simp add: spark_decimal_div_internal_def index_def get_precision_scale_def arrays(1) u f_def)
  next
    case False
    then show ?thesis using e pow [of ?le] pow [of ?re]
      by (simp add: spark_decimal_div_internal_def index_def get_precision_scale_def arrays(1) u f_def)
  qed
  have len: "length (arr_values la) = m" "length (arr_values ra) = m" using arrays(2,3) by (simp_all add: arr_wf_def)
  then have slot: "\<bar>arr_values la ! i\<bar> < 10 ^ p1" "\<bar>arr_values ra ! i\<bar> < 10 ^ p2" if "i < m" for i
    using small that by (simp_all add: list_all_length)
  then have "\<forall>i < m. f (arr_values la ! i) (arr_values ra ! i) \<noteq> None" by (simp add: f)
  with laws(2) arrays(2,3) obtain c where c: "arity_binary A f la ra = Some (Inr c)" "arr_wf m c"
    "arr_iter c = map2 (\<lambda>x y. case (x, y) of (Some x, Some y) \<Rightarrow> f x y | _ \<Rightarrow> None) (arr_iter la) (arr_iter ra)"
    unfolding binary_law_def by blast
  have "arr_iter c = map2 (\<lambda>x y. case (x, y) of (Some x, Some y) \<Rightarrow> Some (clamp_i128 (exact_quotient is_integral_div s1 s2 s3 x y))
       | _ \<Rightarrow> None) (arr_iter la) (arr_iter ra)"
    using c(3) slot by (auto simp: arr_iter_wf(2) [OF arrays(2)] arr_iter_wf(2) [OF arrays(3)] map2_upt arr_get_def f split: option.splits)
  with that [of c] run c arrays(4,5) show ?thesis by simp
qed

lemma within_clamp: "p \<le> 38 \<Longrightarrow> within p (Some (clamp_i128 q)) = within p (Some q)"
  using max_decimal_fits [of p] valid_fits [of q p]
  by (auto simp: within_def clamp_i128_def is_valid_decimal_precision_def)

subsection \<open>Rounding\<close>

definition unary_law :: "arrow_fns \<Rightarrow> bool" where
  "unary_law A \<longleftrightarrow> (\<forall>f a n. arr_wf n a \<and> (\<forall>i < n. f (arr_values a ! i) \<noteq> None) \<longrightarrow>
     (\<exists>c. arity_unary A f a = Some c \<and> arr_wf n c \<and> arr_iter c = map (\<lambda>x. Option.bind x f) (arr_iter a)))"

lemma unary_cells:
  assumes "unary_law A" and "arr_wf m a" and "list_all P (arr_values a)" and f: "\<And>x. P x \<Longrightarrow> f x = Some (g x)"
  obtains c where "arity_unary A f a = Some c" "arr_wf m c" "arr_iter c = map (map_option g) (arr_iter a)"
proof -
  have len: "length (arr_values a) = m" using assms(2) by (simp add: arr_wf_def)
  then have slot: "f (arr_values a ! i) = Some (g (arr_values a ! i))" if "i < m" for i
    using assms(3) that by (simp add: list_all_length f)
  with assms(1,2) obtain c where c: "arity_unary A f a = Some c" "arr_wf m c" "arr_iter c = map (\<lambda>x. Option.bind x f) (arr_iter a)"
    unfolding unary_law_def by (metis option.distinct(1))
  moreover have "map (\<lambda>x. Option.bind x f) (arr_iter a) = map (map_option g) (arr_iter a)"
    using slot by (auto simp: arr_iter_wf(2) [OF assms(2)] arr_get_def split: option.splits)
  ultimately show ?thesis using that by simp
qed

lemma half_up_even:
  fixes x h :: int
  assumes "0 < h"
  shows "tdiv (x + sgn x * h) (2 * h) = round_half_up x (2 * h)"
proof (cases "x = 0")
  case True
  then show ?thesis by (simp add: round_half_up_def tdiv_def)
next
  case False
  have "(2 * \<bar>x\<bar> + 2 * h) div (2 * (2 * h)) = (2 * (\<bar>x\<bar> + h)) div (2 * (2 * h))" by (simp add: algebra_simps)
  also have "\<dots> = (\<bar>x\<bar> + h) div (2 * h)" by (rule div_mult_mult1) simp
  finally have "round_half_up x (2 * h) = sgn x * ((\<bar>x\<bar> + h) div (2 * h))" by (simp only: round_half_up_def)
  moreover have "x + sgn x * h = sgn x * (\<bar>x\<bar> + h)" by (simp add: distrib_left sgn_mult_abs)
  moreover have "sgn x = 1 \<or> sgn x = - 1" using False by (simp add: sgn_if)
  ultimately show ?thesis using tdiv_signed [of "\<bar>x\<bar> + h" "2 * h" "sgn x"] assms by simp
qed

lemma pow10_half: "0 < k \<Longrightarrow> (10 :: int) ^ k = 2 * (tdiv (10 ^ k) 2)" "0 < k \<Longrightarrow> (0 :: int) < tdiv (10 ^ k) 2"
proof -
  assume "0 < k"
  then obtain j where k: "k = Suc j" using gr0_conv_Suc by blast
  have h: "tdiv (10 ^ k) 2 = 5 * 10 ^ j" by (simp add: k tdiv_def)
  show "(10 :: int) ^ k = 2 * tdiv (10 ^ k) 2" "(0 :: int) < tdiv (10 ^ k) 2" unfolding h by (simp_all add: k)
qed

lemma half_up_pow10: "tdiv (x + sgn x * tdiv (10 ^ k) 2) (10 ^ k) = round_half_up x (10 ^ k)"
proof (cases k)
  case 0
  have "(2 * \<bar>x\<bar> + 1) div 2 = \<bar>x\<bar>" by simp
  then show ?thesis by (simp add: 0 round_half_up_def tdiv_def sgn_mult_abs)
next
  case (Suc j)
  then have k: "0 < k" by simp
  show ?thesis using half_up_even [OF pow10_half(2) [OF k], of x] unfolding pow10_half(1) [OF k, symmetric] .
qed

lemma pow10_mono: "k \<le> 38 \<Longrightarrow> (10 :: int) ^ k \<le> 10 ^ 38"
  by (rule power_increasing) simp_all

lemma pow10_fits: "fits_i128 (10 ^ k) \<longleftrightarrow> k \<le> 38"
proof
  assume "fits_i128 (10 ^ k)"
  show "k \<le> 38"
  proof (rule ccontr)
    assume "\<not> k \<le> 38"
    then have "(10 :: int) ^ 39 \<le> 10 ^ k" by (intro power_increasing) simp_all
    with \<open>fits_i128 (10 ^ k)\<close> show False by (simp add: fits_int_def)
  qed
next
  assume "k \<le> 38"
  then have "\<bar>(10 :: int) ^ k\<bar> < 10 ^ 38 + 10" using pow10_mono [of k] by simp
  then show "fits_i128 (10 ^ k)" by (rule small_fits)
qed

lemma half_bound: "k \<le> 38 \<Longrightarrow> 0 \<le> tdiv (10 ^ k) 2" "k \<le> 38 \<Longrightarrow> 2 * tdiv (10 ^ k) 2 \<le> 10 ^ 38"
  using pow10_mono [of k] by (simp_all add: tdiv_def)

lemma wider_fits: "2 * \<bar>v\<bar> < 3 * 10 ^ 38 \<Longrightarrow> fits_i128 v"
  by (auto simp: fits_int_def)

lemma round_closure_spec:
  assumes "\<bar>x\<bar> < 10 ^ 38" and "k \<le> 38"
  shows "round_closure (10 ^ k) (tdiv (10 ^ k) 2) x = Some (round_half_up x (10 ^ k))"
    and "\<bar>round_half_up x (10 ^ k)\<bar> * 10 ^ k \<le> \<bar>x\<bar> + tdiv (10 ^ k) 2"
proof -
  define y where "y = x + sgn x * tdiv (10 ^ k) 2"
  have y: "\<bar>y\<bar> \<le> \<bar>x\<bar> + tdiv (10 ^ k) 2" using half_bound(1) [OF assms(2)] by (auto simp: y_def sgn_if)
  have "2 * \<bar>y\<bar> < 3 * 10 ^ 38" using y half_bound(2) [OF assms(2)] assms(1) by linarith
  then have fy: "fits_i128 y" by (rule wider_fits)
  have t: "tdiv y (10 ^ k) = round_half_up x (10 ^ k)" by (simp add: y_def half_up_pow10)
  have ne: "(10 :: int) ^ k \<noteq> 0" by simp
  have "2 * \<bar>tdiv y (10 ^ k)\<bar> < 3 * 10 ^ 38" using tdiv_le [OF ne, of y] \<open>2 * \<bar>y\<bar> < 3 * 10 ^ 38\<close> by linarith
  then have "fits_i128 (tdiv y (10 ^ k))" by (rule wider_fits)
  then show "round_closure (10 ^ k) (tdiv (10 ^ k) 2) x = Some (round_half_up x (10 ^ k))"
    using fy t by (simp add: round_closure_def checked_i128_def flip: y_def)
  have "0 \<le> \<bar>y\<bar> div 10 ^ k" by (simp add: pos_imp_zdiv_nonneg_iff)
  then have "\<bar>tdiv y (10 ^ k)\<bar> * 10 ^ k = \<bar>y\<bar> div 10 ^ k * 10 ^ k" by (simp add: tdiv_def)
  also have "\<dots> = \<bar>y\<bar> - \<bar>y\<bar> mod 10 ^ k" by (simp add: minus_mod_eq_div_mult)
  also have "\<dots> \<le> \<bar>y\<bar>" by simp
  finally show "\<bar>round_half_up x (10 ^ k)\<bar> * 10 ^ k \<le> \<bar>x\<bar> + tdiv (10 ^ k) 2" using y unfolding t by (rule order_trans)
qed

lemma round_to_zero: "2 * \<bar>x\<bar> < c \<Longrightarrow> round_half_up x c = 0"
  by (simp add: round_half_up_def div_pos_pos_trivial)

lemma decimal_round_f_spec:
  assumes "0 \<le> scale" and "scale \<le> 38" and "- (2 ^ 31) \<le> point" and "point < 2 ^ 31"
  obtains f where "decimal_round_f scale point = Some f"
    "\<And>x. \<bar>x\<bar> < 10 ^ 38 \<Longrightarrow>
      f x = Some (round_half_up x (10 ^ nat (scale - min scale point)) * 10 ^ nat (- point))"
proof (cases "point < 0")
  case False
  let ?k = "nat (scale - min scale point)"
  have u: "as_u32 scale - min (as_u32 scale) (as_u32 point) = ?k" and k: "?k \<le> 38"
    using assms False by (auto simp: as_u32_nonneg min_def)
  have "wrap_i128 (10 ^ ?k) = 10 ^ ?k" using pow10_fits k by (intro wrap_fits) simp
  then show ?thesis using that False round_closure_spec(1) [OF _ k] u by (simp add: decimal_round_f_def Let_def)
next
  case True
  let ?m = "nat (- point)"
  let ?k = "nat (scale - point)"
  have u: "as_u32 (- point) = ?m" "as_u32 (- point) + as_u32 scale = ?k" "?k < 2 ^ 32" "min scale point = point"
    using True assms by (simp_all add: as_u32_nonneg flip: nat_add_distrib)
  have i: "fits_i64 (- point)" using True assms by (simp add: fits_int_def)
  show ?thesis
  proof (cases "?k \<le> 38")
    case k: True
    have mk: "?m \<le> ?k" using assms(1) by simp
    then have "wrap_i128 (10 ^ ?m) = 10 ^ ?m" using pow10_fits k by (intro wrap_fits) simp
    moreover have "checked_i128 (round_half_up x (10 ^ ?k) * 10 ^ ?m) = Some (round_half_up x (10 ^ ?k) * 10 ^ ?m)"
      if x: "\<bar>x\<bar> < 10 ^ 38" for x
    proof -
      have "\<bar>round_half_up x (10 ^ ?k)\<bar> * 10 ^ ?m \<le> \<bar>round_half_up x (10 ^ ?k)\<bar> * 10 ^ ?k"
        using mk by (intro mult_left_mono power_increasing) simp_all
      also note round_closure_spec(2) [OF x k]
      finally have "\<bar>round_half_up x (10 ^ ?k) * 10 ^ ?m\<bar> \<le> \<bar>x\<bar> + tdiv (10 ^ ?k) 2" by (simp add: abs_mult mult.commute)
      then have "2 * \<bar>round_half_up x (10 ^ ?k) * 10 ^ ?m\<bar> < 3 * 10 ^ 38" using half_bound(2) [OF k] x by linarith
      then have "fits_i128 (round_half_up x (10 ^ ?k) * 10 ^ ?m)" by (rule wider_fits)
      then show ?thesis by (simp add: checked_i128_def)
    qed
    ultimately show ?thesis using that True round_closure_spec(1) [OF _ k] u i k pow10_fits
      by (simp add: decimal_round_f_def Let_def checked_pow10_def)
  next
    case False
    have "round_half_up x (10 ^ ?k) = 0" if "\<bar>x\<bar> < 10 ^ 38" for x
    proof (rule round_to_zero)
      have "(10 :: int) ^ 39 \<le> 10 ^ ?k" using False by (intro power_increasing) simp_all
      then show "2 * \<bar>x\<bar> < 10 ^ ?k" using that by simp
    qed
    then show ?thesis using that True False u i pow10_fits by (simp add: decimal_round_f_def Let_def checked_pow10_def)
  qed
qed

text \<open>Integers: the multiple of \<open>10 ^ k\<close> nearest to \<open>x\<close>, wrapped to the width.\<close>

lemma wrap_int_fits: "0 < n \<Longrightarrow> fits_int True n v \<Longrightarrow> wrap_int n v = v"
proof -
  assume "0 < n" "fits_int True n v"
  then obtain j where n: "8 * n = Suc j" by (cases "8 * n") simp_all
  with \<open>fits_int True n v\<close> show ?thesis by (simp add: wrap_int_def fits_int_def)
qed

lemma integer_round_spec:
  fixes x :: int
  assumes "0 < k" and "0 < n" and "fits_int True n x"
  shows "integer_round n x (10 ^ k) (tdiv (10 ^ k) 2) = wrap_int n (round_half_up x (10 ^ k) * 10 ^ k)"
proof -
  define c h :: int where "c = 10 ^ k" and "h = tdiv (10 ^ k) 2"
  have h: "c = 2 * h" "0 < h" using pow10_half [OF assms(1)] by (simp_all add: c_def h_def)
  then have c: "0 < c" "- (- c div 2) = h" by simp_all
  define q m where "q = \<bar>x\<bar> div c" and "m = \<bar>x\<bar> mod c"
  have qm: "\<bar>x\<bar> = q * c + m" "0 \<le> m" "m < c" "0 \<le> q" using c by (simp_all add: q_def m_def pos_imp_zdiv_nonneg_iff)
  have r: "round_half_up x c = sgn x * (if m \<ge> h then q + 1 else q)"
    using half_up_pos [of c "\<bar>x\<bar>"] c by (simp add: round_half_up_def q_def m_def)
  have t: "tdiv x c = sgn x * q" using c by (simp add: tdiv_sgn q_def)
  have "x = sgn x * \<bar>x\<bar>" by (simp add: sgn_mult_abs)
  also have "\<dots> = sgn x * (q * c + m)" by (rule arg_cong [OF qm(1)])
  finally have x: "x = sgn x * q * c + sgn x * m" by (simp add: distrib_left)
  have rem: "x - c * tdiv x c = sgn x * m" unfolding t using x by (simp add: mult.commute)
  have base: "x - sgn x * m = sgn x * q * c" using x by linarith
  have "0 \<le> q * c" using qm(4) c by simp
  then have "min 0 x \<le> sgn x * q * c" "sgn x * q * c \<le> max 0 x" using qm(1,2) by (auto simp: sgn_if)
  then have "fits_int True n (sgn x * q * c)" using assms(3) by (auto simp: fits_int_def min_def max_def split: if_splits)
  then have fit: "wrap_int n (sgn x * q * c) = sgn x * q * c" by (rule wrap_int_fits [OF assms(2)])
  have i: "integer_round n x c h = (if sgn x * m \<le> - h then wrap_int n (sgn x * q * c - c)
      else if sgn x * m \<ge> h then wrap_int n (sgn x * q * c + c) else sgn x * q * c)"
    by (simp only: integer_round_def Let_def rem base)
  consider "x = 0" | "0 < x" | "x < 0" by linarith
  then have "integer_round n x c h = wrap_int n (round_half_up x c * c)"
  proof cases
    case 1
    then show ?thesis using h fit i by (simp add: round_half_up_def)
  next
    case 2
    then have "sgn x = 1" by simp
    then show ?thesis using r fit h qm(2) i by (simp add: distrib_right)
  next
    case 3
    then have "sgn x = - 1" by simp
    moreover have "- (q * c) - c = - ((q + 1) * c)" by (simp add: distrib_right)
    ultimately show ?thesis using r fit h qm(2) i by (simp add: distrib_right)
  qed
  then show ?thesis by (simp add: c_def h_def)
qed

text \<open>Where the power of ten does not fit the type the code returns 0, which is the nearest multiple for every value
  of a type but \<open>i64\<close> at nineteen digits.\<close>

lemma round_past_width:
  assumes "int_width ty = Some n" and "checked_pow10 n k = None" and "fits_int True n x" and "ty \<noteq> Int64 \<or> k \<noteq> 19"
  shows "round_half_up x (10 ^ k) = 0"
proof (rule round_to_zero)
  define j where "j = (if n = 1 then 3 else if n = 2 then 5 else if n = 4 then 10 else 19 :: nat)"
  have n: "n = 1 \<or> n = 2 \<or> n = 4 \<or> n = 8 \<and> ty = Int64"
    using assms(1) by (auto simp: int_width_def split: data_type.splits)
  have "j \<le> k"
  proof (rule ccontr)
    assume "\<not> j \<le> k"
    then have "(10 :: int) ^ k \<le> 10 ^ (j - 1)" by (intro power_increasing) simp_all
    also have "\<dots> = (if n = 1 then 100 else if n = 2 then 10000 else if n = 4 then 1000000000 else 1000000000000000000)"
      by (simp add: j_def)
    finally have "fits_int True n (10 ^ k)" using n zero_le_power [of "10 :: int" k] by (auto simp: fits_int_def simp del: zero_le_power)
    with assms(2) show False by (simp add: checked_pow10_def)
  qed
  then have "n = 8 \<longrightarrow> 20 \<le> k" using assms(4) n by (auto simp: j_def)
  then have "(10 :: int) ^ (if n = 8 then 20 else j) \<le> 10 ^ k" using \<open>j \<le> k\<close> by (intro power_increasing) simp_all
  moreover have "(10 :: int) ^ (if n = 8 then 20 else j) =
      (if n = 1 then 1000 else if n = 2 then 100000 else if n = 4 then 10000000000 else 100000000000000000000)"
    using n by (auto simp: j_def)
  ultimately show "2 * \<bar>x\<bar> < 10 ^ k" using assms(3) n by (auto simp: fits_int_def)
qed

subsection \<open>An instance of the libraries\<close>

definition unary_cells_of :: "(int \<Rightarrow> int option) \<Rightarrow> int arr \<Rightarrow> int arr option" where
  "unary_cells_of f a = (if list_all (\<lambda>v. f v \<noteq> None) (arr_values a)
     then Some (finish_builder (map (\<lambda>c. Option.bind c f) (arr_iter a))) else None)"

definition binary_cells_of :: "(int \<Rightarrow> int \<Rightarrow> int option) \<Rightarrow> int arr \<Rightarrow> int arr \<Rightarrow> int arr math_res" where
  "binary_cells_of f a b =
     (if length (arr_values a) \<noteq> length (arr_values b) then Some (Inl (ArrowError ''lengths''))
      else if list_all (\<lambda>(x, y). f x y \<noteq> None) (zip (arr_values a) (arr_values b)) then
        Some (Inr (finish_builder (map2 (\<lambda>x y. case (x, y) of (Some x, Some y) \<Rightarrow> f x y | _ \<Rightarrow> None) (arr_iter a) (arr_iter b))))
      else None)"

definition native_op :: "string \<Rightarrow> data_type \<Rightarrow> int \<Rightarrow> int \<Rightarrow> int option" where
  "native_op op ty x y = (case int_width ty of None \<Rightarrow> None | Some n \<Rightarrow> right_of (exact_op n op x y))"

definition rust_arrow :: arrow_fns where
  "rust_arrow = \<lparr>add_checked = native_op ''checked_add'', sub_checked = native_op ''checked_sub'',
     mul_checked = native_op ''checked_mul'', div_checked = native_op ''checked_div'', is_zero = (\<lambda>_ x. x = 0),
     to_array_of_size = (\<lambda>v n. finish_builder (replicate n v)), arity_unary = unary_cells_of, arity_binary = binary_cells_of,
     validate_decimal_precision = is_valid_decimal_precision,
     validate_array_precision = (\<lambda>a p. list_all (\<lambda>c. case c of None \<Rightarrow> True | Some v \<Rightarrow> is_valid_decimal_precision v p) (arr_iter a)),
     null_if_overflow_precision = (\<lambda>a p. finish_builder (map (within p) (arr_iter a))),
     legal_decimal_type = (\<lambda>p s. 0 < p \<and> p \<le> 38 \<and> s \<le> int p),
     neg_wrapping = (\<lambda>ty a. Inr (finish_builder (map (map_option uminus) (arr_iter a)))),
     arithmetic_negate = (\<lambda>ty v. Inr (map_option uminus v)), float_round = (\<lambda>ty a point. Inr a),
     num_div_floor = floor_div, num_div_ceil = ceil_div\<rparr>"

lemma arr_wf_finish [simp]: "arr_wf n (finish_builder cs) \<longleftrightarrow> length cs = n"
  by (auto simp: arr_wf_def finish_builder_def)

lemma rust_arrow_laws: "native_law rust_arrow" "to_array_law rust_arrow" "binary_law rust_arrow" "unary_law rust_arrow"
  "overflow_law rust_arrow"
proof -
  show "native_law rust_arrow" by (simp add: native_law_def rust_arrow_def native_op_def)
  show "to_array_law rust_arrow" by (simp add: to_array_law_def rust_arrow_def) (simp add: finish_builder_def)
  show "overflow_law rust_arrow" by (simp add: overflow_law_def rust_arrow_def arr_iter_wf)
  show "unary_law rust_arrow"
    by (auto simp: unary_law_def rust_arrow_def unary_cells_of_def arr_iter_wf list_all_length) (auto simp: arr_wf_def)
  show "binary_law rust_arrow"
    by (auto simp: binary_law_def rust_arrow_def binary_cells_of_def arr_iter_wf list_all_length) (auto simp: arr_wf_def)
qed

subsection \<open>Properties\<close>

text \<open>
  C7. Checked integer arithmetic is exact: for every operation, width, mixture of arrays and scalars and pattern of
  nulls, a row with a null is null and another one has the mathematical result. A row whose result does not fit, or whose
  divisor is zero, is null in Try mode; in ANSI mode the error of the first such row is returned.
\<close>

theorem checked_arithmetic_exact:
  assumes "native_law A" and "to_array_law A" and "int_width ty = Some n" and "op \<in> set arith_ops"
    and "args_ok m ty ty l r" and "mode \<noteq> Legacy"
  shows "checked_arithmetic_internal A [l, r] ty op mode =
    Some (map_sum id (\<lambda>cells. Array ty (finish_builder cells))
      (rows_result (mode = Ansi) (map2 (row_result (exact_op n op)) (arg_cells m l) (arg_cells m r))))"
proof -
  obtain la ra where arrays: "both_arrays A l r = ((ty, la), (ty, ra))" "arr_wf m la" "arr_wf m ra"
    "arr_iter la = arg_cells m l" "arr_iter ra = arg_cells m r" by (rule both_arrays_spec [OF assms(2,5)])
  have "arithmetic_type ty op" using assms(3) by (auto simp: arithmetic_type_def int_width_def split: data_type.splits)
  then show ?thesis using assms(6) arrays(1)
      kernel_spec [OF assms(1,3,4) arrays(2,3), of "mode = Ansi"] arrays(4,5)
    by (cases "rows_result (mode = Ansi) (map2 (row_result (exact_op n op)) (arg_cells m l) (arg_cells m r))")
      (simp_all add: checked_arithmetic_internal_def index_def)
qed

theorem checked_arithmetic_exact_witness:
  "checked_arithmetic_internal rust_arrow
     [Array Int8 \<lparr>arr_values = [100, 7, 3], arr_validity = Some [True, False, True]\<rparr>, Scalar Int8 (Some 50)] Int8 ''checked_add'' Try =
     Some (Inr (Array Int8 (finish_builder [None, None, Some 53]))) \<and>
   checked_arithmetic_internal rust_arrow
     [Scalar Int8 (Some (- 128)), Array Int8 \<lparr>arr_values = [2, 0, - 1], arr_validity = None\<rparr>] Int8 ''checked_div'' Ansi =
     Some (Inl DivideByZero)"
proof
  let ?l = "Array Int8 \<lparr>arr_values = [100, 7, 3], arr_validity = Some [True, False, True]\<rparr>"
  have "args_ok 3 Int8 Int8 ?l (Scalar Int8 (Some 50))" "int_width Int8 = Some 1" "''checked_add'' \<in> set arith_ops" by code_simp+
  from checked_arithmetic_exact [OF rust_arrow_laws(1,2) this(2,3,1), of Try]
  have "checked_arithmetic_internal rust_arrow [?l, Scalar Int8 (Some 50)] Int8 ''checked_add'' Try =
    Some (map_sum id (\<lambda>cells. Array Int8 (finish_builder cells))
      (rows_result False (map2 (row_result (exact_op 1 ''checked_add'')) (arg_cells 3 ?l) (arg_cells 3 (Scalar Int8 (Some 50))))))"
    by simp
  moreover have "rows_result False (map2 (row_result (exact_op 1 ''checked_add'')) (arg_cells 3 ?l) (arg_cells 3 (Scalar Int8 (Some 50))))
    = Inr [None, None, Some 53]" by code_simp
  ultimately show "checked_arithmetic_internal rust_arrow [?l, Scalar Int8 (Some 50)] Int8 ''checked_add'' Try =
     Some (Inr (Array Int8 (finish_builder [None, None, Some 53])))" by simp
next
  let ?r = "Array Int8 \<lparr>arr_values = [2, 0, - 1], arr_validity = None\<rparr>"
  have "args_ok 3 Int8 Int8 (Scalar Int8 (Some (- 128))) ?r" "int_width Int8 = Some 1" "''checked_div'' \<in> set arith_ops" by code_simp+
  from checked_arithmetic_exact [OF rust_arrow_laws(1,2) this(2,3,1), of Ansi]
  have "checked_arithmetic_internal rust_arrow [Scalar Int8 (Some (- 128)), ?r] Int8 ''checked_div'' Ansi =
    Some (map_sum id (\<lambda>cells. Array Int8 (finish_builder cells))
      (rows_result True (map2 (row_result (exact_op 1 ''checked_div'')) (arg_cells 3 (Scalar Int8 (Some (- 128)))) (arg_cells 3 ?r))))"
    by simp
  moreover have "rows_result True (map2 (row_result (exact_op 1 ''checked_div'')) (arg_cells 3 (Scalar Int8 (Some (- 128)))) (arg_cells 3 ?r))
    = Inl DivideByZero" by code_simp
  ultimately show "checked_arithmetic_internal rust_arrow [Scalar Int8 (Some (- 128)), ?r] Int8 ''checked_div'' Ansi = Some (Inl DivideByZero)"
    by simp
qed

text \<open>
  C8. Decimal division followed by the check of the precision gives the exact quotient: whichever of the two
  arithmetics is chosen, a row is the quotient at the scale of the result rounded half away from zero, or truncated to an
  integer for the integral division, and null when it has more digits than the result type, or when an operand is null.
  Division by zero gives zero. Nothing panics.
\<close>

theorem decimal_division_rounds:
  assumes "to_array_law A" and "binary_law A" and "overflow_law A"
    and "args_ok m (Decimal128 p1 s1) (Decimal128 p2 s2) l r" and "slots_within p1 l" and "slots_within p2 r"
    and "0 \<le> s1" and "s1 \<le> 38" and "0 \<le> s2" and "s2 \<le> 38" and "0 \<le> s3" and "s3 \<le> 38" and "p3 \<le> 38"
    and "legal_decimal_type A p3 s3"
  shows "\<exists>q b. spark_decimal_div_internal A [l, r] (Decimal128 p3 s3) is_integral_div = Some (Inr q) \<and>
    check_overflow_evaluate A (Decimal128 p3 s3) False q = Some (Inr (Array (Decimal128 p3 s3) b)) \<and>
    arr_iter b = map2 (\<lambda>x y. case (x, y) of
        (Some x, Some y) \<Rightarrow> within p3 (Some (exact_quotient is_integral_div s1 s2 s3 x y)) | _ \<Rightarrow> None)
      (arg_cells m l) (arg_cells m r)"
proof -
  have sc: "s1 \<le> 127" "s2 + s3 + 1 \<le> 127" using assms(8,10,12) by simp_all
  obtain a where a: "spark_decimal_div_internal A [l, r] (Decimal128 p3 s3) is_integral_div = Some (Inr (Array (Decimal128 p3 s3) a))"
    "arr_wf m a"
    "arr_iter a = map2 (\<lambda>x y. case (x, y) of (Some x, Some y) \<Rightarrow> Some (clamp_i128 (exact_quotient is_integral_div s1 s2 s3 x y))
       | _ \<Rightarrow> None) (arg_cells m l) (arg_cells m r)"
    by (rule decimal_div_cells [OF assms(1,2,4-7) sc(1) assms(9,11) sc(2)])
  have "arr_iter (null_if_overflow_precision A a p3) = map (within p3) (arr_iter a)"
    using assms(3) a(2) by (auto simp: overflow_law_def)
  also have "\<dots> = map2 (\<lambda>x y. case (x, y) of
      (Some x, Some y) \<Rightarrow> within p3 (Some (exact_quotient is_integral_div s1 s2 s3 x y)) | _ \<Rightarrow> None)
      (arg_cells m l) (arg_cells m r)"
    by (auto simp: a(3) within_clamp [OF assms(13)] split: option.splits) (simp_all add: within_def)
  finally show ?thesis using a(1) assms(14) by (auto simp: check_overflow_evaluate_def)
qed

theorem decimal_division_rounds_witness:
  "\<exists>q b. spark_decimal_div_internal rust_arrow
      [Array (Decimal128 5 2) \<lparr>arr_values = [200, - 500, 7], arr_validity = Some [True, True, False]\<rparr>, Scalar (Decimal128 3 0) (Some 3)]
      (Decimal128 6 1) False = Some (Inr q) \<and>
    check_overflow_evaluate rust_arrow (Decimal128 6 1) False q = Some (Inr (Array (Decimal128 6 1) b)) \<and>
    arr_iter b = [Some 7, Some (- 17), None]"
proof -
  let ?l = "Array (Decimal128 5 2) \<lparr>arr_values = [200, - 500, 7], arr_validity = Some [True, True, False]\<rparr>"
  let ?r = "Scalar (Decimal128 3 0) (Some 3)"
  have ok: "args_ok 3 (Decimal128 5 2) (Decimal128 3 0) ?l ?r" "slots_within 5 ?l" "slots_within 3 ?r"
    "legal_decimal_type rust_arrow 6 1" by (simp_all add: args_ok_def arr_wf_def rust_arrow_def)
  have "map2 (\<lambda>x y. case (x, y) of (Some x, Some y) \<Rightarrow> within 6 (Some (exact_quotient False 2 0 1 x y)) | _ \<Rightarrow> None)
      (arg_cells 3 ?l) (arg_cells 3 ?r) = [Some 7, Some (- 17), None]"
    by (simp add: arr_iter_def arr_get_def upt_rec eval_nat_numeral exact_quotient_def round_half_up_def within_def
        is_valid_decimal_precision_def max_decimal_def)
  then show ?thesis
    using decimal_division_rounds [OF rust_arrow_laws(2,3,5) ok(1-3) _ _ _ _ _ _ _ ok(4), of False] by simp
qed

text \<open>
  C35. \<open>round\<close> of a decimal column is rounding half away from zero at the given digit, for every scale and every digit
  before or after the point; nulls stay nulls and nothing overflows.
\<close>

theorem decimal_round_half_up:
  assumes "unary_law A" and "arr_wf m a" and "list_all (\<lambda>v. \<bar>v\<bar> < 10 ^ 38) (arr_values a)"
    and "0 \<le> scale" and "scale \<le> 38" and "- (2 ^ 31) \<le> point" and "point < 2 ^ 31"
  shows "\<exists>b. spark_round A [Array (Decimal128 p scale) a, Scalar Int64 (Some point)] (Decimal128 p' s') =
      Some (Inr (Array (Decimal128 p' s') b)) \<and>
    arr_iter b = map (map_option (\<lambda>x. round_half_up x (10 ^ nat (scale - min scale point)) * 10 ^ nat (- point))) (arr_iter a)"
proof -
  obtain f where f: "decimal_round_f scale point = Some f" "\<And>x. \<bar>x\<bar> < 10 ^ 38 \<Longrightarrow>
      f x = Some (round_half_up x (10 ^ nat (scale - min scale point)) * 10 ^ nat (- point))"
    using decimal_round_f_spec [OF assms(4-7)] by blast
  obtain b where "arity_unary A f a = Some b" "arr_wf m b"
    "arr_iter b = map (map_option (\<lambda>x. round_half_up x (10 ^ nat (scale - min scale point)) * 10 ^ nat (- point))) (arr_iter a)"
    by (rule unary_cells [OF assms(1-3) f(2)])
  then show ?thesis using f(1) assms(4)
    by (auto simp: spark_round_def index_def int_width_def get_precision_scale_def make_decimal_array_def)
qed

theorem decimal_round_half_up_witness:
  "\<exists>b. spark_round rust_arrow [Array (Decimal128 6 2) \<lparr>arr_values = [12350, - 12349], arr_validity = None\<rparr>, Scalar Int64 (Some (- 1))]
      (Decimal128 6 0) = Some (Inr (Array (Decimal128 6 0) b)) \<and> arr_iter b = [Some 120, Some (- 120)]"
proof -
  let ?a = "\<lparr>arr_values = [12350, - 12349], arr_validity = None\<rparr> :: int arr"
  have "arr_wf 2 ?a" "list_all (\<lambda>v. \<bar>v\<bar> < 10 ^ 38) (arr_values ?a)" by (simp_all add: arr_wf_def)
  from decimal_round_half_up [OF rust_arrow_laws(4) this, of 2 "- 1" 6 6 0] show ?thesis
    by (simp add: arr_iter_def arr_get_def round_half_up_def)
qed

text \<open>
  C36. \<open>round\<close> of an integer column to a power of ten is rounding half away from zero, wrapped to the width of the type,
  for every width and every power but $10^{19}$ of a 64-bit column: there the code returns 0, although the
  values from $5 \cdot 10^{18}$ on are nearer to $10^{19}$.
\<close>

theorem integer_round_half_up:
  assumes "unary_law A" and "arr_wf m a" and "int_width ty = Some n" and "list_all (fits_int True n) (arr_values a)"
    and "- (2 ^ 31) \<le> point" and "point < 0" and "ty \<noteq> Int64 \<or> point \<noteq> - 19"
  shows "(\<exists>b. spark_round A [Array ty a, Scalar Int64 (Some point)] ty' = Some (Inr (Array ty b)) \<and>
      arr_iter b = map (map_option (\<lambda>x. wrap_int n (round_half_up x (10 ^ nat (- point)) * 10 ^ nat (- point)))) (arr_iter a)) \<and>
    spark_round A [Scalar Int64 (Some 9000000000000000000), Scalar Int64 (Some (- 19))] ty' = Some (Inr (Scalar Int64 (Some 0)))"
proof
  let ?k = "nat (- point)"
  have k: "as_u32 (- point) = ?k" "0 < ?k" "fits_i64 (- point)" using assms(5,6) by (simp_all add: as_u32_nonneg fits_int_def)
  have n: "0 < n" using assms(3) by (auto simp: int_width_def split: data_type.splits)
  define f where "f = (case checked_pow10 n ?k of
      Some dv \<Rightarrow> \<lambda>x. Some (integer_round n x dv (tdiv dv 2)) | None \<Rightarrow> \<lambda>_. Some 0)"
  have f: "f x = Some (wrap_int n (round_half_up x (10 ^ ?k) * 10 ^ ?k))" if "fits_int True n x" for x
  proof (cases "checked_pow10 n ?k")
    case None
    then have "round_half_up x (10 ^ ?k) = 0" using assms(7) by (intro round_past_width [OF assms(3) None that]) auto
    moreover have "wrap_int n 0 = 0" using n by (intro wrap_int_fits) (simp_all add: fits_int_def)
    ultimately show ?thesis by (simp add: f_def None)
  next
    case (Some dv)
    then have "dv = 10 ^ ?k" by (simp add: checked_pow10_def split: if_splits)
    then show ?thesis using integer_round_spec [OF k(2) n that] by (simp add: f_def Some)
  qed
  obtain b where b: "arity_unary A f a = Some b" "arr_wf m b"
    "arr_iter b = map (map_option (\<lambda>x. wrap_int n (round_half_up x (10 ^ ?k) * 10 ^ ?k))) (arr_iter a)"
    by (rule unary_cells [OF assms(1,2,4) f])
  have "spark_round A [Array ty a, Scalar Int64 (Some point)] ty' = round_integer_array A ty n a point"
    using assms(3,6) by (simp add: spark_round_def index_def)
  also have "\<dots> = Some (Inr (Array ty b))"
    using b(1) k by (cases "checked_pow10 n ?k") (simp_all add: round_integer_array_def f_def Let_def)
  finally show "\<exists>b. spark_round A [Array ty a, Scalar Int64 (Some point)] ty' = Some (Inr (Array ty b)) \<and>
      arr_iter b = map (map_option (\<lambda>x. wrap_int n (round_half_up x (10 ^ nat (- point)) * 10 ^ nat (- point)))) (arr_iter a)"
    using b(3) by blast
  show "spark_round A [Scalar Int64 (Some 9000000000000000000), Scalar Int64 (Some (- 19))] ty' = Some (Inr (Scalar Int64 (Some 0)))"
    by (simp add: spark_round_def index_def int_width_def round_integer_scalar_def checked_pow10_def as_u32_def fits_int_def)
qed

theorem integer_round_half_up_witness:
  "\<exists>b. spark_round rust_arrow [Array Int8 \<lparr>arr_values = [125, - 14, 15], arr_validity = None\<rparr>, Scalar Int64 (Some (- 1))] Int8 =
      Some (Inr (Array Int8 b)) \<and> arr_iter b = [Some (- 126), Some (- 10), Some 20]"
proof -
  let ?a = "\<lparr>arr_values = [125, - 14, 15], arr_validity = None\<rparr> :: int arr"
  have "arr_wf 3 ?a" "int_width Int8 = Some 1" "list_all (fits_int True 1) (arr_values ?a)"
    by (simp_all add: arr_wf_def int_width_def fits_int_def)
  from integer_round_half_up [OF rust_arrow_laws(4) this, of "- 1" Int8] show ?thesis
    by (simp add: arr_iter_def arr_get_def round_half_up_def wrap_int_def upt_rec)
qed

end
