(* ===== verification/Spark_Cast_Spec.thy ===== *)
theory Spark_Cast_Spec
  imports Spark_Cast Spark_Math_Spec
begin

text \<open>
  What the casts of \<open>Spark_Cast\<close> compute: the integer and the date parser agree with a description of the accepted
  strings, and a cast of a column that does not hold strings to a dictionary type never returns.
\<close>

subsection \<open>Integer literals\<close>

text \<open>The digits before an optional fraction, which only the legacy mode allows, and the value of a trimmed string.\<close>

definition int_body :: "eval_mode \<Rightarrow> str \<Rightarrow> str option" where
  "int_body mode cs =
     (let ds = takeWhile is_digit cs; rest = dropWhile is_digit cs in
      if rest = [] \<or> hd rest = 46 \<and> mode = Legacy \<and> list_all is_digit (tl rest) then Some ds else None)"

definition int_literal :: "eval_mode \<Rightarrow> str \<Rightarrow> int option" where
  "int_literal mode s =
     (case trim_str s of
        [] \<Rightarrow> None
      | c # cs \<Rightarrow>
          if c = 45 \<or> c = 43 then
            (if cs = [] then None
             else map_option (\<lambda>ds. if c = 45 then - digits_value ds else digits_value ds) (int_body mode cs))
          else map_option digits_value (int_body mode (c # cs)))"

definition parsed_int :: "nat \<Rightarrow> string \<Rightarrow> str \<Rightarrow> eval_mode \<Rightarrow> int option cast_res" where
  "parsed_int n type_name s mode =
     (case int_literal mode s of
        Some v \<Rightarrow> if fits_int True n v then Some (Inr (Some v)) else none_or_err mode type_name s
      | None \<Rightarrow> none_or_err mode type_name s)"

definition neg_value :: "int \<Rightarrow> str \<Rightarrow> int" where
  "neg_value r ds = foldl (\<lambda>v d. 10 * v - (int d - 48)) r ds"

lemma neg_value_simps [simp]: "neg_value r [] = r" "neg_value r (d # ds) = neg_value (10 * r - (int d - 48)) ds"
  by (simp_all add: neg_value_def)

lemma neg_value_le: "r \<le> 0 \<Longrightarrow> list_all is_digit ds \<Longrightarrow> neg_value r ds \<le> r"
proof (induction ds arbitrary: r)
  case (Cons d ds)
  then have x: "10 * r - (int d - 48) \<le> r" by (simp add: is_digit_def)
  then have "10 * r - (int d - 48) \<le> 0" using Cons.prems(1) by linarith
  from Cons.IH [OF this] Cons.prems(2) have "neg_value r (d # ds) \<le> 10 * r - (int d - 48)" by simp
  with x show ?case by linarith
qed simp

lemma neg_value_digits: "neg_value (- v) ds = - foldl (\<lambda>v d. 10 * v + (int d - 48)) v ds"
proof (induction ds arbitrary: v)
  case (Cons d ds)
  have "10 * - v - (int d - 48) = - (10 * v + (int d - 48))" by simp
  with Cons show ?case by (simp only: neg_value_simps foldl_Cons)
qed simp

lemma int_body_simps:
  "int_body mode [] = Some []"
  "is_digit c \<Longrightarrow> int_body mode (c # cs) = map_option (Cons c) (int_body mode cs)"
  "\<not> is_digit c \<Longrightarrow> int_body mode (c # cs) = (if c = 46 \<and> mode = Legacy \<and> list_all is_digit cs then Some [] else None)"
  by (simp_all add: int_body_def Let_def)

lemma int_body_digits: "int_body mode cs = Some ds \<Longrightarrow> list_all is_digit ds"
  by (auto simp: int_body_def Let_def list_all_iff dest: set_takeWhileD split: if_splits)

lemma int_loop_fraction:
  "int_loop n mode f cs r neg False = Some (if list_all is_digit cs then Some (r, neg) else None)"
  by (induction cs arbitrary: f) simp_all

definition least :: "nat \<Rightarrow> int" where
  "least n = - (2 ^ (8 * n - 1))"

lemma fits_least: "0 < n \<Longrightarrow> fits_int True n v \<longleftrightarrow> least n \<le> v \<and> v < - least n"
  by (cases "8 * n") (auto simp: fits_int_def least_def)

lemma least_neg [simp]: "least n < 0"
  by (simp add: least_def)

lemma stop_value: "tdiv (least n) 10 = - (- least n div 10)" "10 * tdiv (least n) 10 \<ge> least n"
  "r < tdiv (least n) 10 \<Longrightarrow> 10 * r < least n"
proof -
  have "\<not> 0 \<le> least n" using least_neg [of n] by linarith
  then show t: "tdiv (least n) 10 = - (- least n div 10)" by (simp add: tdiv_def)
  show "10 * tdiv (least n) 10 \<ge> least n" unfolding t by linarith
  show "r < tdiv (least n) 10 \<Longrightarrow> 10 * r < least n" unfolding t by linarith
qed

lemma least_fold: "- (2 ^ (8 * n - Suc 0)) = least n"
  by (simp add: least_def)

lemma int_loop_digits:
  assumes "0 < n" and "r \<le> 0" and "least n \<le> r"
  shows "int_loop n mode False cs r neg True =
    Some (case int_body mode cs of Some ds \<Rightarrow> if least n \<le> neg_value r ds then Some (neg_value r ds, neg) else None | None \<Rightarrow> None)"
  using assms(2,3)
proof (induction cs arbitrary: r)
  case Nil
  then show ?case by (simp add: int_body_simps)
next
  case (Cons c cs)
  let ?x = "10 * r - (int c - 48)"
  show ?case
  proof (cases "is_digit c")
    case False
    then show ?thesis using Cons.prems by (simp add: int_body_simps int_loop_fraction)
  next
    case True
    then have x: "?x \<le> 0" "c \<noteq> 46" "?x \<le> 10 * r" using Cons.prems by (simp_all add: is_digit_def)
    have below: "neg_value ?x ds < least n" if "int_body mode cs = Some ds" "?x < least n" for ds
      using neg_value_le [OF x(1) int_body_digits [OF that(1)]] that(2) by linarith
    show ?thesis
    proof (cases "r < tdiv (least n) 10")
      case stop: True
      then have "?x < least n" using stop_value(3) [OF stop] x(3) by linarith
      then show ?thesis using True x stop below
        by (auto simp: int_body_simps least_fold split: option.splits)
    next
      case go: False
      then have "least n \<le> r * 10" "r * 10 < - least n"
        using stop_value(2) [of n] Cons.prems(1) least_neg [of n] by linarith+
      then have "fits_int True n (r * 10)" using assms(1) by (simp add: fits_least)
      moreover have "fits_int True n ?x \<longleftrightarrow> least n \<le> ?x"
        using x(1) assms(1) least_neg [of n] by (auto simp: fits_least simp del: least_neg)
      ultimately show ?thesis using True x go below Cons.IH [OF x(1)]
        by (auto simp: int_body_simps mult.commute [of r 10] least_fold split: option.splits)
    qed
  qed
qed

lemma least_8 [simp]: "least 4 = - 2147483648" "least 8 = - 9223372036854775808" "least 1 = - 128" "least 2 = - 32768"
  by (simp_all add: least_def)

lemma int_loop_first:
  "\<not> (c = 45 \<or> c = 43) \<Longrightarrow> int_loop n mode True (c # cs) r neg True = int_loop n mode False (c # cs) r neg True"
  by simp

lemma parse_result:
  assumes "0 < n" and "r = Some (case int_body mode cs of
      Some ds \<Rightarrow> if least n \<le> - digits_value ds then Some (- digits_value ds, negative) else None | None \<Rightarrow> None)"
  shows "(do { r \<leftarrow> r; case r of
          None \<Rightarrow> none_or_err mode type_name s
        | Some (result, negative) \<Rightarrow>
            if negative then Some (Inr (Some result))
            else if fits_int True n (- result) then
              (if - result < 0 then none_or_err mode type_name s else Some (Inr (Some (- result))))
            else none_or_err mode type_name s }) =
    (case map_option (\<lambda>ds. if negative then - digits_value ds else digits_value ds) (int_body mode cs) of
        Some v \<Rightarrow> if fits_int True n v then Some (Inr (Some v)) else none_or_err mode type_name s
      | None \<Rightarrow> none_or_err mode type_name s)"
proof (cases "int_body mode cs")
  case None
  then show ?thesis by (simp add: assms(2))
next
  case (Some ds)
  have dv: "0 \<le> digits_value ds"
    using neg_value_le [OF _ int_body_digits [OF Some], of 0] neg_value_digits [of 0 ds] by (simp add: digits_value_def)
  have "fits_int True n (- digits_value ds) \<longleftrightarrow> least n \<le> - digits_value ds"
    using dv least_neg [of n] assms(1) by (auto simp: fits_least simp del: least_neg)
  moreover have "fits_int True n (digits_value ds) \<Longrightarrow> least n \<le> - digits_value ds"
    using assms(1) by (auto simp: fits_least)
  ultimately show ?thesis using dv by (auto simp: assms(2) Some)
qed

lemma do_cast_string_to_int_spec:
  assumes "0 < n"
  shows "do_cast_string_to_int n s mode type_name = parsed_int n type_name s mode"
proof (cases "trim_str s")
  case Nil
  then show ?thesis by (simp add: do_cast_string_to_int_def parsed_int_def int_literal_def)
next
  case (Cons c cs)
  have run: "int_loop n mode False ds 0 neg True = Some (case int_body mode ds of
      Some ds \<Rightarrow> if least n \<le> - digits_value ds then Some (- digits_value ds, neg) else None | None \<Rightarrow> None)" for ds neg
  proof -
    have "neg_value 0 ds = - digits_value ds" for ds using neg_value_digits [of 0 ds] by (simp add: digits_value_def)
    then show ?thesis using int_loop_digits [OF assms, of 0 mode ds neg] less_imp_le [OF least_neg [of n]]
      by (simp split: option.splits)
  qed
  show ?thesis
  proof (cases "c = 45 \<or> c = 43")
    case False
    then have "int_loop n mode True (c # cs) 0 False True = int_loop n mode False (c # cs) 0 False True" by (rule int_loop_first)
    from parse_result [OF assms this [unfolded run]] False show ?thesis
      by (simp add: do_cast_string_to_int_def parsed_int_def int_literal_def Cons del: int_loop.simps)
  next
    case True
    show ?thesis
    proof (cases "cs = []")
      case True
      then show ?thesis using \<open>c = 45 \<or> c = 43\<close> by (auto simp: do_cast_string_to_int_def parsed_int_def int_literal_def Cons)
    next
      case False
      then have "int_loop n mode True (c # cs) 0 False True = int_loop n mode False cs 0 (c = 45) True" using True by simp
      from parse_result [OF assms this [unfolded run]] True False show ?thesis
        by (simp add: do_cast_string_to_int_def parsed_int_def int_literal_def Cons del: int_loop.simps)
    qed
  qed
qed

lemma narrow_parse:
  assumes "0 < n" and "n \<le> 4"
  shows "and_then (cast_string_to_int_with_range_check s mode name (least n) (- least n - 1)) (\<lambda>r. Some (Inr (map_option (wrap_int n) r))) =
    parsed_int n name s mode"
proof (cases "int_literal mode s")
  case None
  then show ?thesis
    by (simp add: cast_string_to_int_with_range_check_def do_cast_string_to_int_spec parsed_int_def none_or_err_def)
next
  case (Some v)
  have "(2 :: int) ^ (8 * n - 1) \<le> 2 ^ (8 * 4 - 1)" by (rule power_increasing) (use assms(2) in simp_all)
  then have "- least n \<le> - least 4" by (simp only: least_def minus_minus)
  then have w: "fits_int True n v \<Longrightarrow> fits_int True 4 v" using assms(1) by (auto simp: fits_least simp del: least_8)
  note r = fits_least [OF assms(1), symmetric]
  show ?thesis
    using w wrap_int_fits [OF assms(1), of v]
    by (simp add: cast_string_to_int_with_range_check_def do_cast_string_to_int_spec parsed_int_def Some r none_or_err_def)
qed

subsection \<open>Dates\<close>

text \<open>The date a string spells: after trimming and an optional sign a year of four to seven digits, then optionally a month and a
  day of one or two digits; only after a day may a space or a \<open>T\<close> and anything else follow.\<close>

definition trim_bytes :: "u8 list \<Rightarrow> u8 list" where
  "trim_bytes bs = rev (dropWhile is_whitespace_or_iso_control (rev (dropWhile is_whitespace_or_iso_control bs)))"

definition bytes_value :: "u8 list \<Rightarrow> int" where
  "bytes_value ds = foldl (\<lambda>v d. 10 * v + (int (unat d) - 48)) 0 ds"

definition date_fields :: "u8 list \<Rightarrow> (int \<times> int \<times> int) option" where
  "date_fields body =
     (let y = takeWhile is_ascii_digit body; r = dropWhile is_ascii_digit body in
      if length y \<notin> {4..7} then None
      else if r = [] then Some (bytes_value y, 1, 1)
      else if hd r \<noteq> 45 then None
      else let m = takeWhile is_ascii_digit (tl r); r = dropWhile is_ascii_digit (tl r) in
        if length m \<notin> {1..2} then None
        else if r = [] then Some (bytes_value y, bytes_value m, 1)
        else if hd r \<noteq> 45 then None
        else let d = takeWhile is_ascii_digit (tl r); r = dropWhile is_ascii_digit (tl r) in
          if length d \<in> {1..2} \<and> (r = [] \<or> hd r = 32 \<or> hd r = 84) then Some (bytes_value y, bytes_value m, bytes_value d)
          else None)"

definition parsed_date :: "(int \<Rightarrow> nat \<Rightarrow> nat \<Rightarrow> int option) \<Rightarrow> u8 list \<Rightarrow> eval_mode \<Rightarrow> int option cast_res" where
  "parsed_date from_ymd_opt bytes mode =
     (let t = trim_bytes bytes;
          neg = (t \<noteq> [] \<and> hd t = 45);
          body = (if t \<noteq> [] \<and> (hd t = 45 \<or> hd t = 43) then tl t else t) in
      case date_fields body of
        None \<Rightarrow> Some (if mode = Ansi then Inl (CastInvalidValue (map unat bytes) ''STRING'' ''DATE'') else Inr None)
      | Some (y, m, d) \<Rightarrow> Some (Inr (from_ymd_opt (if neg then - y else y) (nat m) (nat d))))"

lemma valid_digits: "is_valid_digits 0 k \<longleftrightarrow> k \<in> {4..7}" "is_valid_digits 1 k \<longleftrightarrow> k \<in> {1..2}" "is_valid_digits 2 k \<longleftrightarrow> k \<in> {1..2}"
  by (auto simp: is_valid_digits_def)

text \<open>Trimming by indices.\<close>

lemma trimmed_start: "get_trimmed_start_from bs = length (takeWhile is_whitespace_or_iso_control bs)"
  by (induction bs) simp_all

lemma trimmed_end_loop_spec:
  assumes "e < length bs" and "s \<le> e" and "\<not> is_whitespace_or_iso_control (bs ! s)"
  obtains e' where "trimmed_end_loop bs s e = Some e'" "s \<le> e'" "e' \<le> e" "\<not> is_whitespace_or_iso_control (bs ! e')"
    "\<forall>i. e' < i \<and> i \<le> e \<longrightarrow> is_whitespace_or_iso_control (bs ! i)"
  using assms
proof (induction e arbitrary: thesis)
  case 0
  show ?case by (rule 0(1) [of 0]) (use 0(2-4) in auto)
next
  case (Suc e)
  show ?case
  proof (cases "s < Suc e \<and> is_whitespace_or_iso_control (bs ! Suc e)")
    case True
    then obtain e' where e': "trimmed_end_loop bs s e = Some e'" "s \<le> e'" "e' \<le> e" "\<not> is_whitespace_or_iso_control (bs ! e')"
      "\<forall>i. e' < i \<and> i \<le> e \<longrightarrow> is_whitespace_or_iso_control (bs ! i)"
      using Suc.IH Suc.prems by auto
    show ?thesis
      by (rule Suc.prems(1) [of e']) (use e' True Suc.prems(2) in \<open>auto simp: index_Some le_Suc_eq\<close>)
  next
    case False
    then have "s < Suc e \<Longrightarrow> \<not> is_whitespace_or_iso_control (bs ! Suc e)" by simp
    then show ?thesis
      by (intro Suc.prems(1) [of "Suc e"]) (use Suc.prems False in \<open>auto simp: index_Some le_Suc_eq\<close>)
  qed
qed

lemma trimmed_end_stop: "e \<le> s \<Longrightarrow> trimmed_end_loop bs s e = Some e"
  by (cases e) simp_all

lemma trim_suffix:
  assumes "k \<le> length u" and "0 < k" and "\<not> P (u ! (k - 1))" and "\<forall>i. k \<le> i \<and> i < length u \<longrightarrow> P (u ! i)"
  shows "rev (dropWhile P (rev u)) = take k u"
proof -
  have split: "rev u = rev (drop k u) @ rev (take k u)" by (metis append_take_drop_id rev_append)
  have ws: "P x" if "x \<in> set (rev (drop k u))" for x using assms(4) that by (auto simp: in_set_conv_nth)
  have "dropWhile P (rev u) = dropWhile P (rev (take k u))" unfolding split by (rule dropWhile_append2) (rule ws)
  moreover have "rev (take k u) ! 0 = u ! (k - 1)" using assms(1,2) by (simp add: rev_nth)
  moreover have "rev (take k u) \<noteq> []" using assms(1,2) by auto
  ultimately show ?thesis using assms(3) by (cases "rev (take k u)") auto
qed

lemma trimmed_bytes:
  assumes "bs \<noteq> []"
  obtains e where "get_trimmed_end (get_trimmed_start_from bs) bs = Some e"
    "trim_bytes bs = [] \<longleftrightarrow> get_trimmed_start_from bs = e"
    "trim_bytes bs \<noteq> [] \<Longrightarrow> get_trimmed_start_from bs < e \<and> e \<le> length bs \<and> drop (get_trimmed_start_from bs) (take e bs) = trim_bytes bs"
proof (cases "dropWhile is_whitespace_or_iso_control bs = []")
  case True
  then have "takeWhile is_whitespace_or_iso_control bs = bs" by (metis takeWhile_dropWhile_id append_Nil2)
  then have j: "get_trimmed_start_from bs = length bs" by (simp only: trimmed_start)
  have "get_trimmed_end (length bs) bs = Some (length bs)"
    using assms by (cases "length bs") (auto simp: get_trimmed_end_def usub_Some trimmed_end_stop)
  then show ?thesis using that [of "length bs"] True j by (simp add: trim_bytes_def)
next
  case False
  let ?j = "get_trimmed_start_from bs" and ?u = "dropWhile is_whitespace_or_iso_control bs"
  have u: "?u = drop ?j bs" by (simp add: trimmed_start dropWhile_eq_drop)
  then have j: "?j < length bs" using False by (cases "?j < length bs") simp_all
  have ws: "\<not> is_whitespace_or_iso_control (bs ! ?j)" using hd_dropWhile [OF False] j by (simp add: u hd_drop_conv_nth)
  have "length bs - 1 < length bs" "?j \<le> length bs - 1" using j by linarith+
  then obtain e' where e': "trimmed_end_loop bs ?j (length bs - 1) = Some e'" "?j \<le> e'" "e' \<le> length bs - 1"
    "\<not> is_whitespace_or_iso_control (bs ! e')" "\<forall>i. e' < i \<and> i \<le> length bs - 1 \<longrightarrow> is_whitespace_or_iso_control (bs ! i)"
    by (rule trimmed_end_loop_spec [OF _ _ ws])
  have tail: "is_whitespace_or_iso_control (?u ! i)" if "e' + 1 - ?j \<le> i" "i < length ?u" for i
    using e'(5) [rule_format, of "?j + i"] that e'(2) j by (simp add: u) linarith
  have t: "trim_bytes bs = take (e' + 1 - ?j) ?u"
    unfolding trim_bytes_def
  proof (rule trim_suffix)
    show "e' + 1 - ?j \<le> length ?u" "0 < e' + 1 - ?j" "\<not> is_whitespace_or_iso_control (?u ! (e' + 1 - ?j - 1))"
      using e'(2-4) j by (simp_all add: u)
  qed (use tail in blast)
  then have "trim_bytes bs = drop ?j (take (e' + 1) bs)" using e'(2) by (simp add: u take_drop)
  moreover have "trim_bytes bs \<noteq> []" using t False e'(2) by simp
  moreover have "get_trimmed_end ?j bs = Some (e' + 1)" using e'(1) assms by (simp add: get_trimmed_end_def usub_def Suc_le_eq)
  ultimately show ?thesis using that [of "e' + 1"] e' j by simp
qed

text \<open>The segments of a date.\<close>

definition word_value :: "u32 \<Rightarrow> u8 list \<Rightarrow> u32" where
  "word_value v ds = foldl (\<lambda>v b. v * 10 + ucast (b - 48)) v ds"

lemma digit_facts:
  assumes "is_ascii_digit b"
  shows "48 \<le> unat b" "unat b \<le> 57" "(ucast (b - 48) :: u32) = of_int (int (unat b) - 48)" "b \<noteq> 45" "b \<noteq> 32" "b \<noteq> 84"
proof -
  show b: "48 \<le> unat b" "unat b \<le> 57" using assms by (simp_all add: is_ascii_digit_def word_le_nat_alt)
  have s: "unat (b - 48) = unat b - 48" using assms by (simp add: is_ascii_digit_def unat_sub)
  have "unat (of_nat (unat b - 48) :: u8) = unat b - 48" using b by (intro unat_of_nat_eq) simp
  then have "b - 48 = of_nat (unat b - 48)" using s by (simp only: word_unat_eq_iff)
  then have "(ucast (b - 48) :: u32) = ucast (of_nat (unat b - 48) :: u8)" by (rule arg_cong)
  also have "\<dots> = of_nat (unat b - 48)" using b by (intro ucast_of_nat) simp
  also have "\<dots> = of_int (int (unat b - 48))" by (rule of_int_of_nat_eq [symmetric])
  also have "\<dots> = of_int (int (unat b) - 48)" using b by (simp only: of_nat_diff) simp
  finally show "(ucast (b - 48) :: u32) = of_int (int (unat b) - 48)" .
  show "b \<noteq> 45" "b \<noteq> 32" "b \<noteq> 84" using b by auto
qed

lemma word_value_of_int:
  "list_all is_ascii_digit ds \<Longrightarrow> word_value (of_int v) ds = of_int (foldl (\<lambda>v d. 10 * v + (int (unat d) - 48)) v ds)"
proof (induction ds arbitrary: v)
  case (Cons d ds)
  have "of_int v * 10 + ucast (d - 48) = (of_int (10 * v + (int (unat d) - 48)) :: u32)"
    using Cons.prems digit_facts(3) [of d] by simp
  then have "word_value (of_int v) (d # ds) = word_value (of_int (10 * v + (int (unat d) - 48))) ds"
    unfolding word_value_def foldl_Cons by (rule arg_cong)
  also have "\<dots> = of_int (foldl (\<lambda>v d. 10 * v + (int (unat d) - 48)) (10 * v + (int (unat d) - 48)) ds)"
    by (rule Cons.IH) (use Cons.prems in simp)
  finally show ?case by (simp only: foldl_Cons)
qed (simp add: word_value_def)

lemma bytes_value_bounds:
  assumes "list_all is_ascii_digit ds" and "0 \<le> v" and "v < 10 ^ k"
  shows "0 \<le> foldl (\<lambda>v d. 10 * v + (int (unat d) - 48)) v ds \<and> foldl (\<lambda>v d. 10 * v + (int (unat d) - 48)) v ds < 10 ^ (k + length ds)"
  using assms
proof (induction ds arbitrary: v k)
  case (Cons d ds)
  then have d: "is_ascii_digit d" by simp
  have "0 \<le> 10 * v + (int (unat d) - 48)" "10 * v + (int (unat d) - 48) < 10 ^ Suc k"
    using Cons.prems(2,3) digit_facts(1,2) [OF d] unfolding power_Suc by linarith+
  from Cons.IH [OF _ this] Cons.prems show ?case by (simp only: foldl_Cons list.pred_inject length_Cons add_Suc_right add_Suc)
qed simp

lemma segment_value:
  assumes "list_all is_ascii_digit ds" and "length ds \<le> 9"
  shows "sint (word_value 0 ds) = bytes_value ds" and "0 \<le> bytes_value ds" and "bytes_value ds < 10 ^ length ds"
proof -
  show b: "0 \<le> bytes_value ds" "bytes_value ds < 10 ^ length ds"
    using bytes_value_bounds [OF assms(1), of 0 0] by (simp_all add: bytes_value_def)
  have "(10 :: int) ^ length ds \<le> 10 ^ 9" by (rule power_increasing [OF assms(2)]) simp
  then have small: "nat (bytes_value ds) < 2 ^ 31" using b by simp
  have "word_value 0 ds = of_int (bytes_value ds)" using word_value_of_int [OF assms(1), of 0] by (simp add: bytes_value_def)
  also have "\<dots> = of_nat (nat (bytes_value ds))" using b(1) by (metis nat_0_le of_int_of_nat_eq)
  finally have w: "word_value 0 ds = of_nat (nat (bytes_value ds))" .
  have "sint (of_nat (nat (bytes_value ds)) :: u32) = int (nat (bytes_value ds))" by (rule sint_of_nat) (use small in simp)
  then show "sint (word_value 0 ds) = bytes_value ds" using b(1) unfolding w by simp
qed

lemma segment_loop_digits:
  assumes "list_all is_ascii_digit ds" and "c < 3"
  shows "segment_loop (ds @ rest) segs c v k = segment_loop rest segs c (word_value v ds) (k + length ds)"
  using assms(1)
proof (induction ds arbitrary: v k)
  case (Cons d ds)
  then have d: "is_ascii_digit d" by simp
  show ?case using Cons assms(2) digit_facts(4-6) [OF d] d by (simp add: word_value_def)
qed (simp add: word_value_def)

lemma segment_loop_span:
  assumes "c < 3"
  shows "segment_loop bs segs c v k = segment_loop (dropWhile is_ascii_digit bs) segs c (word_value v (takeWhile is_ascii_digit bs))
    (k + length (takeWhile is_ascii_digit bs))"
proof -
  have "list_all is_ascii_digit (takeWhile is_ascii_digit bs)" by (auto simp: list_all_iff dest: set_takeWhileD)
  from segment_loop_digits [OF this assms, of "dropWhile is_ascii_digit bs" segs v k] show ?thesis by simp
qed

text \<open>What is left after the digits of a segment begins with another byte.\<close>

lemma hd_rest: "dropWhile is_ascii_digit bs = b # r \<Longrightarrow> \<not> is_ascii_digit b"
  using hd_dropWhile [of is_ascii_digit bs] by auto

lemma valid_short: "is_valid_digits c k \<Longrightarrow> k \<le> 9"
  by (auto simp: is_valid_digits_def)

lemma take_digits: "list_all is_ascii_digit (takeWhile is_ascii_digit bs)"
  by (auto simp: list_all_iff dest: set_takeWhileD)

text \<open>The end of the parser: the segments as fields.\<close>

definition finish_segments :: "(int list \<times> nat \<times> u32 \<times> nat \<times> u8 list) option \<Rightarrow> (int \<times> int \<times> int) option" where
  "finish_segments r =
     (case r of
        None \<Rightarrow> None
      | Some (segments, current, v, digits, rest) \<Rightarrow>
          if \<not> is_valid_digits current digits then None
          else if current < 2 \<and> rest \<noteq> [] then None
          else let segments = segments[current := sint v] in Some (segments ! 0, segments ! 1, segments ! 2))"

lemma day_segment:
  "finish_segments (segment_loop bs [y, m, 1] 2 0 0) =
     (let d = takeWhile is_ascii_digit bs; r = dropWhile is_ascii_digit bs in
      if is_valid_digits 2 (length d) \<and> (r = [] \<or> hd r = 32 \<or> hd r = 84) then Some (y, m, bytes_value d) else None)"
proof -
  define ds r where "ds = takeWhile is_ascii_digit bs" and "r = dropWhile is_ascii_digit bs"
  have run: "segment_loop bs [y, m, 1] 2 0 0 = segment_loop r [y, m, 1] 2 (word_value 0 ds) (length ds)"
    using segment_loop_span [of 2 bs "[y, m, 1]" 0 0] by (simp add: ds_def r_def)
  have val: "is_valid_digits 2 (length ds) \<Longrightarrow> sint (word_value 0 ds) = bytes_value ds"
    unfolding ds_def by (rule segment_value(1) [OF take_digits valid_short])
  have rest: "\<not> is_ascii_digit b" if "r = b # bs" for b bs using hd_rest that by (simp add: r_def)
  show ?thesis unfolding run ds_def [symmetric] r_def [symmetric] using val rest
    by (cases r) (auto simp: finish_segments_def Let_def)
qed

lemma month_segment:
  "finish_segments (segment_loop bs [y, 1, 1] 1 0 0) =
     (let m = takeWhile is_ascii_digit bs; r = dropWhile is_ascii_digit bs in
      if \<not> is_valid_digits 1 (length m) then None
      else if r = [] then Some (y, bytes_value m, 1)
      else if hd r \<noteq> 45 then None
      else finish_segments (segment_loop (tl r) [y, bytes_value m, 1] 2 0 0))"
proof -
  define ds r where "ds = takeWhile is_ascii_digit bs" and "r = dropWhile is_ascii_digit bs"
  have run: "segment_loop bs [y, 1, 1] 1 0 0 = segment_loop r [y, 1, 1] 1 (word_value 0 ds) (length ds)"
    using segment_loop_span [of 1 bs "[y, 1, 1]" 0 0] by (simp add: ds_def r_def)
  have val: "is_valid_digits 1 (length ds) \<Longrightarrow> sint (word_value 0 ds) = bytes_value ds"
    unfolding ds_def by (rule segment_value(1) [OF take_digits valid_short])
  have rest: "\<not> is_ascii_digit b" if "r = b # bs" for b bs using hd_rest that by (simp add: r_def)
  show ?thesis unfolding run ds_def [symmetric] r_def [symmetric] using val rest
    by (cases r) (auto simp: finish_segments_def Let_def simp flip: numeral_2_eq_2)
qed

lemma year_segment:
  "finish_segments (segment_loop bs [1, 1, 1] 0 0 0) =
     (let y = takeWhile is_ascii_digit bs; r = dropWhile is_ascii_digit bs in
      if \<not> is_valid_digits 0 (length y) then None
      else if r = [] then Some (bytes_value y, 1, 1)
      else if hd r \<noteq> 45 then None
      else finish_segments (segment_loop (tl r) [bytes_value y, 1, 1] 1 0 0))"
proof -
  define ds r where "ds = takeWhile is_ascii_digit bs" and "r = dropWhile is_ascii_digit bs"
  have run: "segment_loop bs [1, 1, 1] 0 0 0 = segment_loop r [1, 1, 1] 0 (word_value 0 ds) (length ds)"
    using segment_loop_span [of 0 bs "[1, 1, 1]" 0 0] by (simp add: ds_def r_def)
  have val: "is_valid_digits 0 (length ds) \<Longrightarrow> sint (word_value 0 ds) = bytes_value ds"
    unfolding ds_def by (rule segment_value(1) [OF take_digits valid_short])
  have rest: "\<not> is_ascii_digit b" if "r = b # bs" for b bs using hd_rest that by (simp add: r_def)
  show ?thesis unfolding run ds_def [symmetric] r_def [symmetric] using val rest
    by (cases r) (auto simp: finish_segments_def Let_def)
qed

lemma segments_are_fields: "finish_segments (segment_loop bs [1, 1, 1] 0 0 0) = date_fields bs"
  by (simp only: year_segment month_segment day_segment date_fields_def Let_def valid_digits)

lemma segment_loop_shape:
  "segment_loop bs segs c v k = Some (segs', c', r) \<Longrightarrow> c \<le> 2 \<Longrightarrow> length segs' = length segs \<and> c' \<le> 2"
proof (induction bs segs c v k rule: segment_loop.induct)
  case (2 b bs segs c v k)
  show ?case
  proof (cases "c < 2 \<and> b = 45")
    case True
    then show ?thesis using 2 by (auto split: if_splits)
  next
    case False
    then show ?thesis using 2 by (auto split: if_splits)
  qed
qed auto

lemma date_fields_bounds:
  assumes "date_fields body = Some (y, m, d)"
  shows "0 \<le> y" "y < 10 ^ 7" "0 \<le> m" "m < 100" "0 \<le> d" "d < 100"
proof -
  have y: "y = bytes_value (takeWhile is_ascii_digit body) \<and> length (takeWhile is_ascii_digit body) \<le> 7"
    using assms unfolding date_fields_def Let_def by (simp split: if_splits)
  have m: "m = 1 \<or> (\<exists>bs. m = bytes_value (takeWhile is_ascii_digit bs) \<and> length (takeWhile is_ascii_digit bs) \<le> 2)"
    using assms unfolding date_fields_def Let_def by (auto split: if_splits)
  have d: "d = 1 \<or> (\<exists>bs. d = bytes_value (takeWhile is_ascii_digit bs) \<and> length (takeWhile is_ascii_digit bs) \<le> 2)"
    using assms unfolding date_fields_def Let_def by (auto split: if_splits)
  have v: "0 \<le> bytes_value (takeWhile is_ascii_digit bs) \<and> bytes_value (takeWhile is_ascii_digit bs) < 10 ^ j"
    if "length (takeWhile is_ascii_digit bs) \<le> j" "j \<le> 9" for bs j
  proof -
    have "(10 :: int) ^ length (takeWhile is_ascii_digit bs) \<le> 10 ^ j" using that(1) by (rule power_increasing) simp
    then show ?thesis using segment_value(2,3) [OF take_digits, of bs] that by linarith
  qed
  show "0 \<le> y" "y < 10 ^ 7" using y v [of body 7] by simp_all
  have two: "0 \<le> x \<and> x < 100"
    if "x = 1 \<or> (\<exists>bs. x = bytes_value (takeWhile is_ascii_digit bs) \<and> length (takeWhile is_ascii_digit bs) \<le> 2)" for x
    using that v [where j = 2] by auto
  show "0 \<le> m" "m < 100" "0 \<le> d" "d < 100" using two [OF m] two [OF d] by simp_all
qed

definition date_tail :: "(int \<Rightarrow> nat \<Rightarrow> nat \<Rightarrow> int option) \<Rightarrow> int \<Rightarrow> int option cast_res \<Rightarrow> (int list \<times> nat \<times> u32 \<times> nat \<times> u8 list) option \<Rightarrow> int option cast_res" where
  "date_tail ymd sgn_v ret r =
     (case r of
        None \<Rightarrow> ret
      | Some (segments, current, v, digits, rest) \<Rightarrow>
          if \<not> is_valid_digits current digits then ret
          else if current < 2 \<and> rest \<noteq> [] then ret
          else do {
            segments \<leftarrow> update segments current (sint v);
            ensure (fits_int True 4 (sgn_v * segments ! 0));
            Some (Inr (ymd (sgn_v * segments ! 0) (as_u32 (segments ! 1)) (as_u32 (segments ! 2))))
          })"

lemma date_tail_spec:
  assumes "s = 1 \<or> s = - 1"
  shows "date_tail ymd s ret (segment_loop body [1, 1, 1] 0 0 0) =
    (case date_fields body of None \<Rightarrow> ret | Some (y, m, d) \<Rightarrow> Some (Inr (ymd (s * y) (nat m) (nat d))))"
proof (cases "segment_loop body [1, 1, 1] 0 0 0")
  case None
  then show ?thesis using segments_are_fields [of body] by (simp add: date_tail_def finish_segments_def)
next
  case (Some q)
  obtain segs c v k rest where q: "q = (segs, c, v, k, rest)" by (cases q)
  have shape: "length segs = 3" "c \<le> 2" using segment_loop_shape [of body "[1, 1, 1]" 0 0 0 segs c] Some q by simp_all
  show ?thesis
  proof (cases "is_valid_digits c k \<and> \<not> (c < 2 \<and> rest \<noteq> [])")
    case False
    then show ?thesis using segments_are_fields [of body] Some q by (auto simp: date_tail_def finish_segments_def)
  next
    case True
    let ?s = "segs[c := sint v]"
    have f: "date_fields body = Some (?s ! 0, ?s ! 1, ?s ! 2)"
      using segments_are_fields [of body] Some q True by (auto simp: finish_segments_def Let_def)
    note b = date_fields_bounds [OF f]
    have "fits_int True 4 (s * ?s ! 0)" using b(1,2) assms by (auto simp: fits_int_def)
    then show ?thesis using True Some q shape b(3-6)
      by (auto simp: date_tail_def update_Some f as_u32_nonneg)
  qed
qed

lemma date_parser_spec: "date_parser ymd bytes mode = parsed_date ymd bytes mode"
proof (cases "bytes = []")
  case True
  then show ?thesis by (simp add: date_parser_def parsed_date_def trim_bytes_def date_fields_def)
next
  case False
  let ?j = "get_trimmed_start_from bytes"
  let ?ret = "Some (if mode = Ansi then Inl (CastInvalidValue (map unat bytes) ''STRING'' ''DATE'') else Inr None) :: int option cast_res"
  obtain e where e: "get_trimmed_end ?j bytes = Some e" "trim_bytes bytes = [] \<longleftrightarrow> ?j = e"
    "trim_bytes bytes \<noteq> [] \<Longrightarrow> ?j < e \<and> e \<le> length bytes \<and> drop ?j (take e bytes) = trim_bytes bytes"
    using trimmed_bytes [OF False] by blast
  show ?thesis
  proof (cases "trim_bytes bytes")
    case Nil
    then show ?thesis using e(1,2) False
      by (simp add: date_parser_def parsed_date_def date_fields_def Let_def)
  next
    case (Cons b t)
    then have je: "?j \<noteq> e" "?j < e" "e \<le> length bytes" "drop ?j (take e bytes) = b # t" using e(2,3) by auto
    have b: "index bytes ?j = Some b" using je nth_via_drop [OF je(4)] by (simp add: index_Some)
    have t: "drop (?j + 1) (take e bytes) = t" using je(4) by (metis drop_Suc list.sel(3) Suc_eq_plus1 tl_drop)
    have run: "date_parser ymd bytes mode = date_tail ymd (if b = 45 then - 1 else 1) ?ret
        (segment_loop (if b = 45 \<or> b = 43 then t else b # t) [1, 1, 1] 0 0 0)"
      using False e(1) je(1,4) b t unfolding date_parser_def date_tail_def by (simp add: Let_def)
    show ?thesis unfolding run using Cons
      by (subst date_tail_spec) (auto simp: parsed_date_def Let_def split: option.splits)
  qed
qed

subsection \<open>Dictionaries\<close>

text \<open>An integer column wrapped into dictionaries any number of times.\<close>

fun tower :: "cast_col \<Rightarrow> bool" where
  "tower (Ints t cells) \<longleftrightarrow> t = TInt32"
| "tower (Dict k keys vals) \<longleftrightarrow> k = TInt32 \<and> tower vals"
| "tower _ \<longleftrightarrow> False"

lemma tower_timezone: "tower col \<Longrightarrow> array_with_timezone L col tz to_type = Some (Inr col)"
  by (cases col rule: tower.cases) (auto simp: array_with_timezone_def flat_with_timezone_def split: cast_col.splits cast_type.splits)

lemma tower_wrap:
  assumes "tower col" and "length (col_valid col) < 2 ^ 31"
  obtains d where "dict_from_values col = Inr d" "tower d" "length (col_valid d) < 2 ^ 31"
  using assms by (auto simp: dict_from_values_def Let_def)

lemma tower_type: "tower col \<Longrightarrow> col_type col \<notin> {TUtf8, TLargeUtf8, TBinary, TLargeBinary}"
  by (cases col) auto

lemma tower_cast: "tower col \<Longrightarrow> length (col_valid col) < 2 ^ 31 \<Longrightarrow> cast_array fuel L col (TDictionary k v) options = None"
proof (induction fuel arbitrary: col)
  case (Suc fuel)
  obtain d where d: "dict_from_values col = Inr d" "tower d" "length (col_valid d) < 2 ^ 31"
    using tower_wrap [OF Suc.prems] by blast
  have "cast_array fuel L d (TDictionary k v) options = None" using Suc.IH d by blast
  then have none: "and_then (cast_array fuel L d (TDictionary k v) options) f = None" for f by simp
  show ?case using Suc.prems(1) d(1) tower_type none
    by (cases col) (auto simp: tower_timezone Let_def)
qed simp

subsection \<open>Timestamps\<close>

text \<open>The parsers of a timestamp never return a null.\<close>

lemma parse_micros_some:
  "and_then (parse_timestamp_to_micros tz info) (case_option a (\<lambda>x. Some (Inr (Some x)))) = parse_timestamp_to_micros tz info"
  by (simp add: parse_timestamp_to_micros_def split: option.split)

lemma timestamp_some:
  "and_then (get_timestamp_values tz v ty) (case_option a (\<lambda>x. Some (Inr (Some x)))) = get_timestamp_values tz v ty"
proof (cases "index (split_at (\<lambda>c. c = 84 \<or> c = 45 \<or> c = 58 \<or> c = 46) v) 0")
  case None
  then show ?thesis by (simp add: get_timestamp_values_def Let_def)
next
  case (Some p)
  then show ?thesis unfolding get_timestamp_values_def Let_def by (simp only: Option.bind.simps parse_micros_some)
qed

subsection \<open>Properties\<close>

text \<open>
  C9. The integer parser accepts exactly the integer literals: for every column of strings, width and mode, a cell is the
  value of its trimmed text, an optional sign and digits, in legacy mode with a fraction that is dropped, whenever that
  value fits the type, and otherwise null, or in ANSI mode the error. The parser never overflows or panics on the way.
\<close>

theorem string_to_int_exact:
  "cast_string_to_int TInt8 cells mode = collect_cells (\<lambda>s. parsed_int 1 ''TINYINT'' s mode) cells \<and>
   cast_string_to_int TInt16 cells mode = collect_cells (\<lambda>s. parsed_int 2 ''SMALLINT'' s mode) cells \<and>
   cast_string_to_int TInt32 cells mode = collect_cells (\<lambda>s. parsed_int 4 ''INT'' s mode) cells \<and>
   cast_string_to_int TInt64 cells mode = collect_cells (\<lambda>s. parsed_int 8 ''BIGINT'' s mode) cells"
proof -
  have "cast_string_to_i8 s mode = parsed_int 1 ''TINYINT'' s mode" for s
    using narrow_parse [of 1 s mode "''TINYINT''"] by (simp add: cast_string_to_i8_def del: One_nat_def)
  moreover have "cast_string_to_i16 s mode = parsed_int 2 ''SMALLINT'' s mode" for s
    using narrow_parse [of 2 s mode "''SMALLINT''"] by (simp add: cast_string_to_i16_def)
  ultimately show ?thesis
    by (simp add: cast_string_to_int_def cast_string_to_i32_def cast_string_to_i64_def do_cast_string_to_int_spec)
qed

text \<open>
  C10. The date parser accepts exactly the dates of the form year, year-month or year-month-day described by
  \<open>date_fields\<close>: whatever the bytes, a cell is the day of the calendar for the fields it spells, null for a day the
  calendar does not have, and null or in ANSI mode the error for every other string. No index leaves the string.
\<close>

theorem date_parser_exact:
  "cast_string_to_date from_ymd_opt cells mode = collect_cells (\<lambda>s. parsed_date from_ymd_opt s mode) cells"
  by (simp add: cast_string_to_date_def date_parser_spec)




definition utc_clock :: chrono where
  "utc_clock = \<lparr>ch_instant = (\<lambda>y mo d h mi s. if y = 2020 \<and> mo = 1 \<and> d = 1 \<and> h < 24 \<and> mi < 60 \<and> s < 60
       then Some ((1577836800 + int (3600 * h + 60 * mi + s)) * 1000000) else None),
     ch_with_nanosecond = (\<lambda>t n. Some (t + int (n div 1000))), ch_today_at = (\<lambda>_ _ _ _. None), ch_digit = (\<lambda>_. False)\<rparr>"


end
