(* ===== verification/Spark_Cast_Table.thy ===== *)
theory Spark_Cast_Table
  imports Spark_Cast
begin

text \<open>
  The tables of supported casts of \<open>Spark_Cast\<close> against the routine that is chosen for a pair of types: they agree up
  to a list of gaps.
\<close>

subsection \<open>Supported casts\<close>

definition is_struct :: "cast_type \<Rightarrow> bool" where
  "is_struct t = (case t of TStruct _ \<Rightarrow> True | _ \<Rightarrow> False)"

definition is_dictionary_type :: "cast_type \<Rightarrow> bool" where
  "is_dictionary_type t = (case t of TDictionary _ _ \<Rightarrow> True | _ \<Rightarrow> False)"

text \<open>Pairs of types that the tables call supported although no routine takes them.\<close>

definition cast_gap :: "cast_type \<Rightarrow> cast_type \<Rightarrow> bool" where
  "cast_gap f t \<longleftrightarrow> f \<noteq> t \<and>
     (is_timestamp f \<and> (t = TDate64 \<or> is_decimal128 t) \<or>
      f = TUtf8 \<and> t = TDate64 \<or>
      f = TLargeUtf8 \<and> \<not> (t = TBoolean \<or> is_int_type t) \<or>
      t = TLargeUtf8 \<and> (f \<in> {TDate32, TDate64, TBinary} \<or> is_struct f) \<or>
      f = TDate64 \<and> t = TUtf8)"

lemmas cast_table_defs = can_cast_from_string_def can_cast_from_timestamp_ntz_def can_cast_from_timestamp_def
  can_cast_from_boolean_def can_cast_from_byte_def can_cast_from_short_def can_cast_from_int_def can_cast_from_long_def
  can_cast_from_float_def can_cast_from_double_def can_cast_from_decimal_def undictionary_def is_int_type_def is_uint_type_def
  is_decimal128_def is_datafusion_spark_compatible_def narrowing_def is_timestamp_def is_struct_def is_dictionary_type_def

lemma supported_gaps:
  assumes "cast_supported f t options" and "\<not> is_dictionary_type f" and "\<not> is_dictionary_type t" and "\<not> co_is_adapting_schema options"
  shows "choose_cast can f t options = PlanUnsupported \<longleftrightarrow> cast_gap f t"
  using assms unfolding cast_supported.simps [of f t options] choose_cast_def cast_gap_def
  by (cases f; cases t) (auto simp: cast_table_defs Let_def split: if_splits option.splits)



end
