(* ===== verification/Spec2Isabelle.thy ===== *)
theory Spec2Isabelle
  imports Reader_Types Shuffle_Writer_Spec Bit_Batch Bit_Writer Rdx_Sort Memory_Pools Bloom_Filter
    Spark_Cast_Spec Spark_Cast_Table
begin

text \<open>
  \<^bold>\<open>Verification of the native core of DataFusion Comet.\<close>

  Comet runs Spark queries in native code. The repository has a Rust crate \<open>native/core\<close> (the Parquet readers, the shuffle,
  the memory pools and the bridge to the JVM), a Rust crate \<open>native/spark-expr\<close> (functions and aggregates with the semantics of
  Spark) and the Spark plugin in Java and Scala. A query reads column chunks of Parquet pages into Arrow vectors, evaluates
  expressions on the batches, and exchanges rows between tasks through shuffle files, with its memory charged to Spark's task
  memory manager. The development models these paths up to the libraries they call.

  \<^bold>\<open>Conventions.\<close> They are set in \<open>Comet_Prelude\<close>. A machine integer is a word of its width, or an \<open>int\<close> with the test
  \<open>fits_int\<close> where the code tests for overflow; \<open>usize\<close> is \<open>nat\<close>. The outer \<open>option\<close> of a result is \<open>None\<close> for a panic, a
  read outside of memory or a call that does not return; inside it \<open>Inl\<close> is an \<open>Err\<close> of the source and \<open>Inr\<close> an \<open>Ok\<close>, and
  \<open>and_then\<close> is the operator \<open>?\<close>. A mutable object is a record that is passed and returned. A trait object or a type parameter is an
  argument. Code of Arrow, DataFusion, chrono and the compressors is an argument too, and what the proofs use of it are named
  hypotheses, such as \<open>take_law\<close>, \<open>native_law\<close> or \<open>env_ok\<close>, each with an instance in the witnesses of the theorems.

  \<^bold>\<open>Bits and buffers.\<close>
  \<^item> \<open>Bit_Util\<close>: the free functions of \<open>common/bit.rs\<close>. \<open>Bit_Packing\<close>: the unrolled routines of
    \<open>parquet/util/bit_packing.rs\<close>, each shown to return consecutive fields of the bit stream.
  \<^item> \<open>Bit_Reader\<close>, \<open>Bit_Reader_Spec\<close>, \<open>Bit_Batch\<close>: \<open>BitReader\<close> of \<open>common/bit.rs\<close>. Its state holds the buffer, two offsets and the
    buffered word; the invariant ties the word to the buffer, and every read refines a read of fields of the remaining bits.
  \<^item> \<open>Bit_Writer\<close>: \<open>BitWriter\<close>; what it appends, and round trips with the reader for fixed-width and variable-length integers.
  \<^item> \<open>Comet_Buffer\<close>: \<open>CometBuffer\<close> of \<open>common/buffer.rs\<close>. \<open>Mutable_Vector\<close>: \<open>ParquetMutableVector\<close>; its invariant gives it an
    abstract list of optional elements.

  \<^bold>\<open>Parquet column readers.\<close>
  \<^item> \<open>Value_Decoder\<close>: the trait \<open>Decoder\<close> of \<open>parquet/read/values.rs\<close> as a locale, with reading and skipping on an abstract
    list of values. It is interpreted in \<open>Plain_Decoder_Spec\<close> for the plain decoders of fixed width, in \<open>Dict_Decoder\<close> for the
    decoder of hybrid RLE and bit-packed indices, and in \<open>Column_Reader_Spec\<close> for the trait object that is either of them.
  \<^item> \<open>Plain_Decoder\<close>: every type of \<open>parquet/data_type.rs\<close> with its \<open>PlainDecoding\<close>.
  \<^item> \<open>Level_Decoder\<close>: \<open>LevelDecoder\<close> of \<open>parquet/read/levels.rs\<close>, which drives a decoder by definition levels.
  \<^item> \<open>Column_Reader\<close>, \<open>Column_Reader_Spec\<close>: \<open>TypedColumnReader\<close> of \<open>parquet/read/column.rs\<close>. Setting a page and reading
    it in any batches, with skips, refines a machine on the slots the page encodes; the dictionary fallback looks indices up.
  \<^item> \<open>Reader_Types\<close>: \<open>ColumnReader::get\<close> and \<open>parquet/util/jni.rs\<close>; the Arrow type that is chosen has room for what its decoder
    writes.

  \<^bold>\<open>Shuffle.\<close>
  \<^item> \<open>Shuffle_Codec\<close>: the blocks of \<open>shuffle/codec.rs\<close>, the buffered writer and \<open>NativeBatchDecoderIterator.scala\<close>; round trip
    and termination on every byte stream.
  \<^item> \<open>Shuffle_Writer\<close>, \<open>Shuffle_Writer_Spec\<close>: \<open>shuffle/shuffle_writer.rs\<close>. The locale \<open>shuffle_partitioner\<close> is the trait
    of both partitioners; every partition delivers exactly its rows in input order, however often the writer spills.
  \<^item> \<open>Rdx_Sort\<close>: the radix sort of \<open>execution/sort.rs\<close> under the contract \<open>rdx\<close> of its trait, and for packed row addresses.

  \<^bold>\<open>Memory.\<close> \<open>Memory_Pools\<close>: \<open>CometTaskMemoryManager.java\<close>, the fair and unified pools, and the pools shared by the plans of a
  task. The locale \<open>memory_pool\<close> states that a pool charges exactly what it reserves.

  \<^bold>\<open>Expressions.\<close>
  \<^item> \<open>Spark_Hash\<close>: \<open>hash_funcs\<close>; hashing by columns is hashing row by row. \<open>Bloom_Filter\<close>: the filter, its format and
    its aggregate; there are no false negatives.
  \<^item> \<open>Decimal_Aggregates\<close>, \<open>Decimal_Aggregates_Spec\<close>: \<open>sum_decimal.rs\<close> and \<open>avg_decimal.rs\<close> against exact arithmetic. The locale
    \<open>group_accumulator\<close> carries the invariant of one group to batches of many.
  \<^item> \<open>Spark_Math\<close>, \<open>Spark_Math_Spec\<close>, \<open>Spark_Hex\<close>: \<open>math_funcs\<close>; checked arithmetic, decimal division and rounding against their
    exact results, and the round trip of \<open>hex\<close> and \<open>unhex\<close>.
  \<^item> \<open>Spark_Cast\<close>, \<open>Spark_Cast_Spec\<close>, \<open>Spark_Cast_Table\<close>: \<open>conversion_funcs/cast.rs\<close>; the integer and date parsers against a
    description of the accepted strings, and the tables of supported casts against the routines that exist.

  \<^bold>\<open>Bounds and fuel.\<close>
  \<^item> \<open>drain\<close>, \<open>write_iter\<close> and \<open>insert_slices\<close> are loops without a syntactic bound. They are partial functions to \<open>option\<close>, and are
    proved to return, \<open>drain\<close> on every stream and the others for the inputs of the shuffle theorems.
  \<^item> \<open>create_hashes\<close> takes a depth of nested dictionaries; two is enough for dictionaries of plain values, and
    \<open>create_hashes_rows\<close> holds for two and more. \<open>new_with_bit_width_at\<close> takes a depth of one, since the vector of the dictionary
    of a vector has no dictionary.
  \<^item> \<open>cast_array\<close> takes fuel for its recursion through dictionaries and structs; the theorem about it holds for every amount.
  \<^item> The shuffle theorems are for fewer than \<open>2 ^ 32\<close> rows and \<open>2 ^ 31\<close> partitions, the widths of the indices in the code,
    and read data files below \<open>2 ^ 63\<close> bytes back, the width of an offset in the index; the average
    is for fewer than \<open>2 ^ 63\<close> rows of a group, the width of its counter.

  \<^bold>\<open>Where the code departs from its intent.\<close> Some theorems state a behaviour the code should not have: the widened
  dictionary fallback, the one-sided test of small decimals, the fair pool that hands out more than its size, the accumulators
  that disagree about an overflow, casts that are called supported and have no routine, the cast to a dictionary that does not
  return, and the fraction of a timestamp.

  \<^bold>\<open>Not modelled.\<close>
  \<^item> Plan translation (\<open>planner.rs\<close>), the operators, metrics and tracing: they build and drive objects of DataFusion.
  \<^item> The bridge to the JVM, the entry points and the translation of errors: calls through JNI. The row builders of the JVM shuffle
    (\<open>shuffle/row.rs\<close>, \<open>map.rs\<close>, \<open>list.rs\<close>) read Spark's rows at raw JVM addresses and fill Arrow builders.
  \<^item> The object stores and the Parquet scan through DataFusion: network and file I/O by third-party clients.
  \<^item> Temporal kernels, string, array, struct, JSON, conditional and bitwise functions: wrappers of Arrow, chrono and regex kernels.
  \<^item> Aggregates and random numbers in floating point, and the size of a Bloom filter: the rounding of floats is not modelled, and
    a float is only carried by its bits.
  \<^item> In the modelled files: metrics, logging, \<open>Debug\<close> and \<open>Drop\<close>, errors of the operating system, and the interval analysis of
    \<open>negative.rs\<close>. XxHash64 of a byte string, Arrow IPC and the compressors are arguments.
  \<^item> The Spark plugin and the Java readers beyond the two classes named above.
\<close>

end
